(* ===== verification/Kasane_Prelude.thy ===== *)
theory Kasane_Prelude
  imports
    Main
    "HOL-Library.Word"
    "HOL-Library.List_Lexorder"
    "HOL-Library.Monad_Syntax"
begin

text \<open>
  Shared vocabulary of the development.

  \<^item> Rust's unsigned integers are words of their width; the saturating, checked and narrowing
    operations of the standard library are defined once, each with its reading through \<open>unat\<close>.
  \<^item> \<open>to_be_bytes\<close> and \<open>from_be_bytes\<close> are the big-endian codecs every stored key and record is
    built from; the facts that matter are the round trips and that byte-wise lexicographic order
    is numeric order.
  \<^item> \<open>omap\<close> is the abstract value of an ordered stable map: a strictly sorted association list.
    Iteration, ranges and first/last entries are read off the list, so that code that walks a map
    in key order can be modelled literally.
\<close>

named_theorems unat_ops \<open>readings of the integer operations through unat\<close>
named_theorems omap_eval \<open>evaluation of ordered maps down to association lists\<close>
named_theorems rule_defs \<open>definitions of the pure decision rules\<close>

section \<open>Machine integers\<close>

type_synonym u8 = "8 word"
type_synonym u16 = "16 word"
type_synonym u32 = "32 word"
type_synonym u64 = "64 word"
type_synonym u128 = "128 word"
type_synonym bytes = "u8 list"

definition sat_add :: "'a::len word \<Rightarrow> 'a word \<Rightarrow> 'a word" where
  "sat_add a b = (if unat a + unat b < 2 ^ LENGTH('a) then a + b else - 1)"

definition sat_sub :: "'a::len word \<Rightarrow> 'a word \<Rightarrow> 'a word" where
  "sat_sub a b = (if b \<le> a then a - b else 0)"

definition sat_mul :: "'a::len word \<Rightarrow> 'a word \<Rightarrow> 'a word" where
  "sat_mul a b = (if unat a * unat b < 2 ^ LENGTH('a) then a * b else - 1)"

definition checked_add :: "'a::len word \<Rightarrow> 'a word \<Rightarrow> 'a word option" where
  "checked_add a b = (if unat a + unat b < 2 ^ LENGTH('a) then Some (a + b) else None)"

definition checked_sub :: "'a::len word \<Rightarrow> 'a word \<Rightarrow> 'a word option" where
  "checked_sub a b = (if b \<le> a then Some (a - b) else None)"

definition checked_mul :: "'a::len word \<Rightarrow> 'a word \<Rightarrow> 'a word option" where
  "checked_mul a b = (if unat a * unat b < 2 ^ LENGTH('a) then Some (a * b) else None)"

definition try_narrow :: "'a::len word \<Rightarrow> 'b::len word option" where
  "try_narrow a = (if unat a < 2 ^ LENGTH('b) then Some (ucast a) else None)"

definition try_of_nat :: "nat \<Rightarrow> 'b::len word option" where
  "try_of_nat n = (if n < 2 ^ LENGTH('b) then Some (word_of_nat n) else None)"

lemma unat_max [simp]: "unat (- 1 :: 'a::len word) = 2 ^ LENGTH('a) - 1"
  by (simp add: unsigned_minus_1_eq_mask mask_eq_exp_minus_1)

lemma unat_bound: "unat (a :: 'a::len word) \<le> 2 ^ LENGTH('a) - 1"
  using unsigned_less [of a, where 'a = nat] by linarith

lemma unat_sat_add [unat_ops]:
  "unat (sat_add a b) = min (unat a + unat b) (2 ^ LENGTH('a) - 1)" for a b :: "'a::len word"
  by (auto simp: sat_add_def min_def unat_add_lem [THEN iffD1] )

lemma unat_sat_sub [unat_ops]: "unat (sat_sub a b) = unat a - unat b"
  by (auto simp: sat_sub_def unat_sub word_le_nat_alt)

lemma unat_sat_mul [unat_ops]:
  "unat (sat_mul a b) = min (unat a * unat b) (2 ^ LENGTH('a) - 1)" for a b :: "'a::len word"
proof (cases "unat a * unat b < 2 ^ LENGTH('a)")
  case True
  then show ?thesis
    by (simp add: sat_mul_def unat_mult_lem [THEN iffD1])
next
  case False
  then have "2 ^ LENGTH('a) - 1 \<le> unat a * unat b"
    by linarith
  then show ?thesis
    using False by (simp add: sat_mul_def min_absorb2)
qed

lemma unat_word_div: "unat (a div b) = unat a div unat (b :: 'a::len word)"
  by (simp add: unat_div)

lemma sat_add_ge: "a \<le> sat_add a b" "b \<le> sat_add a b"
  using unat_bound [of a] unat_bound [of b] by (auto simp: word_le_nat_alt unat_sat_add)

lemma sat_sub_le: "sat_sub a b \<le> a"
  by (simp add: word_le_nat_alt unat_sat_sub)

lemma sat_add_0 [simp]: "sat_add a 0 = a" "sat_add 0 a = a"
  using unsigned_less [of a, where 'a = nat] by (auto simp: sat_add_def)

lemma sat_sub_0 [simp]: "sat_sub a 0 = a" "sat_sub a a = 0"
  by (auto simp: sat_sub_def)

lemma sat_add_1_gt: "a \<noteq> - 1 \<Longrightarrow> unat (sat_add a 1) = Suc (unat a)"
proof -
  assume "a \<noteq> - 1"
  then have "unat a \<noteq> 2 ^ LENGTH('a) - 1"
    by (metis unat_max word_unat_eq_iff)
  then show ?thesis
    using unat_bound [of a] unat_bound [of "1 :: 'a word"] by (auto simp: unat_sat_add min_def)
qed

lemma checked_add_Some [unat_ops]:
  "checked_add a b = Some c \<longleftrightarrow> unat c = unat a + unat b"
proof
  assume "checked_add a b = Some c"
  then show "unat c = unat a + unat b"
    by (auto simp: checked_add_def unat_add_lem [THEN iffD1] split: if_splits)
next
  assume c: "unat c = unat a + unat b"
  then have "unat a + unat b < 2 ^ LENGTH('a)"
    by (metis unsigned_less)
  with c show "checked_add a b = Some c"
    by (simp add: checked_add_def) (metis unat_add_lem word_unat_eq_iff)
qed

lemma checked_sub_Some [unat_ops]:
  "checked_sub a b = Some c \<longleftrightarrow> unat b \<le> unat a \<and> unat c = unat a - unat b"
  by (auto simp: checked_sub_def unat_sub word_le_nat_alt split: if_splits)
    (metis unat_sub word_le_nat_alt word_unat_eq_iff)

lemma unat_ucast_fit: "unat a < 2 ^ LENGTH('b) \<Longrightarrow> unat (ucast a :: 'b::len word) = unat a"
  by (simp add: unsigned_ucast_eq take_bit_nat_eq_self)

lemma unat_try_narrow [unat_ops]:
  "(try_narrow a :: 'b::len word option) = Some c \<longleftrightarrow> unat c = unat a"
  by (auto simp: try_narrow_def unat_ucast_fit word_unat_eq_iff) (metis unsigned_less)

lemma try_narrow_None: "(try_narrow a :: 'b::len word option) = None \<longleftrightarrow> 2 ^ LENGTH('b) \<le> unat a"
  by (auto simp: try_narrow_def)

lemma unat_try_of_nat [unat_ops]:
  "(try_of_nat n :: 'b::len word option) = Some c \<longleftrightarrow> unat c = n"
  using unsigned_less [of c, where 'a = nat]
  by (auto simp: try_of_nat_def unat_of_nat word_unat_eq_iff)

section \<open>Big-endian bytes\<close>

primrec be_bytes :: "nat \<Rightarrow> nat \<Rightarrow> bytes" where
  "be_bytes 0 x = []"
| "be_bytes (Suc n) x = word_of_nat (x div 256 ^ n) # be_bytes n x"

definition from_be :: "bytes \<Rightarrow> nat" where
  "from_be bs = foldl (\<lambda>acc b. acc * 256 + unat b) 0 bs"

definition to_be_bytes :: "'a::len word \<Rightarrow> bytes" where
  "to_be_bytes w = be_bytes (LENGTH('a) div 8) (unat w)"

definition from_be_bytes :: "bytes \<Rightarrow> 'a::len word" where
  "from_be_bytes bs = word_of_nat (from_be bs)"

lemma length_be_bytes [simp]: "length (be_bytes n x) = n"
  by (induction n) auto

lemma length_to_be_bytes [simp]: "length (to_be_bytes (w :: 'a::len word)) = LENGTH('a) div 8"
  by (simp add: to_be_bytes_def)

lemma foldl_be: "foldl (\<lambda>acc b. acc * 256 + unat b) a bs
    = a * 256 ^ length bs + foldl (\<lambda>acc b. acc * 256 + unat b) 0 (bs :: bytes)"
proof (induction bs arbitrary: a)
  case (Cons b bs)
  show ?case
    using Cons [of "a * 256 + unat b"] Cons [of "unat b"] by (simp add: algebra_simps)
qed simp

lemma from_be_Nil [simp]: "from_be [] = 0"
  by (simp add: from_be_def)

lemma from_be_Cons: "from_be (b # bs) = unat b * 256 ^ length bs + from_be bs"
  by (simp add: from_be_def foldl_be [of "unat b"])

lemma digit_bound: "d < c \<Longrightarrow> r < m \<Longrightarrow> d * m + r < c * (m :: nat)"
  by (rule order_less_le_trans [of _ "Suc d * m"]) (auto simp del: mult_Suc intro: mult_le_mono1, simp)

lemma from_be_less: "from_be bs < 256 ^ length bs"
proof (induction bs)
  case (Cons b bs)
  have "unat b < 256"
    using unsigned_less [of b, where 'a = nat] by simp
  with Cons show ?case
    by (simp add: from_be_Cons digit_bound)
qed simp

lemma from_be_be_bytes: "from_be (be_bytes n x) = x mod 256 ^ n"
proof (induction n)
  case (Suc n)
  have "x mod 256 ^ Suc n = 256 ^ n * (x div 256 ^ n mod 256) + x mod 256 ^ n"
    using mod_mult2_eq [of x "256 ^ n" 256] by (simp add: mult.commute)
  then show ?case
    by (simp add: from_be_Cons Suc unat_of_nat)
qed simp

lemma from_be_inj: "length xs = length ys \<Longrightarrow> from_be xs = from_be ys \<Longrightarrow> xs = ys"
proof (induction xs ys rule: list_induct2)
  case (Cons x xs y ys)
  have e: "unat x * 256 ^ length ys + from_be xs = unat y * 256 ^ length ys + from_be ys"
    using Cons by (simp add: from_be_Cons)
  have less: "from_be xs < 256 ^ length ys" "from_be ys < 256 ^ length ys"
    using from_be_less [of xs] from_be_less [of ys] Cons.hyps by auto
  have "unat x = unat y"
    using arg_cong [OF e, of "\<lambda>v. v div 256 ^ length ys"] less by simp
  then show ?case
    using e Cons.IH by (simp add: word_unat_eq_iff)
qed simp

lemma be_bytes_from_be [simp]: "length bs = n \<Longrightarrow> be_bytes n (from_be bs) = bs"
  using from_be_less [of bs] by (intro from_be_inj) (auto simp: from_be_be_bytes)

lemma from_be_bytes_to_be_bytes [simp]:
  "8 dvd LENGTH('a) \<Longrightarrow> from_be_bytes (to_be_bytes (w :: 'a::len word)) = w"
proof -
  assume "8 dvd LENGTH('a)"
  then have "(256 :: nat) ^ (LENGTH('a) div 8) = 2 ^ LENGTH('a)"
    using power_mult [of "2 :: nat" 8 "LENGTH('a) div 8"] by simp
  then show ?thesis
    by (simp add: from_be_bytes_def to_be_bytes_def from_be_be_bytes)
qed

lemma to_be_bytes_from_be_bytes:
  "length bs = LENGTH('a) div 8 \<Longrightarrow> 8 dvd LENGTH('a) \<Longrightarrow>
    to_be_bytes (from_be_bytes bs :: 'a::len word) = bs"
proof -
  assume len: "length bs = LENGTH('a) div 8" and "8 dvd LENGTH('a)"
  then have "(256 :: nat) ^ length bs = 2 ^ LENGTH('a)"
    using power_mult [of "2 :: nat" 8 "LENGTH('a) div 8"] by simp
  then have "from_be bs < 2 ^ LENGTH('a)"
    using from_be_less [of bs] by simp
  then show ?thesis
    using len by (simp add: from_be_bytes_def to_be_bytes_def unat_of_nat)
qed

lemma to_be_bytes_inj: "8 dvd LENGTH('a) \<Longrightarrow> to_be_bytes v = to_be_bytes (w :: 'a::len word) \<longleftrightarrow> v = w"
  by (metis from_be_bytes_to_be_bytes)

lemma unat_from_be_bytes:
  "length bs = LENGTH('a) div 8 \<Longrightarrow> 8 dvd LENGTH('a) \<Longrightarrow>
    unat (from_be_bytes bs :: 'a::len word) = from_be bs"
  using to_be_bytes_from_be_bytes [of bs, where 'a = 'a] from_be_less [of bs]
    power_mult [of "2 :: nat" 8 "LENGTH('a) div 8"]
  by (auto simp: from_be_bytes_def unat_of_nat)

lemma bytes_less_numeric:
  "length xs = length ys \<Longrightarrow> xs < ys \<longleftrightarrow> from_be xs < from_be (ys :: bytes)"
proof (induction xs ys rule: list_induct2)
  case (Cons x xs y ys)
  have "unat x \<noteq> unat y \<Longrightarrow> from_be (x # xs) < from_be (y # ys) \<longleftrightarrow> unat x < unat y"
  proof -
    assume "unat x \<noteq> unat y"
    then consider "Suc (unat x) \<le> unat y" | "Suc (unat y) \<le> unat x"
      by linarith
    then show ?thesis
    proof cases
      case 1
      then have "Suc (unat x) * 256 ^ length xs \<le> unat y * 256 ^ length ys"
        using Cons.hyps by (intro mult_mono) auto
      with 1 show ?thesis
        using from_be_less [of xs] by (simp add: from_be_Cons)
    next
      case 2
      then have "Suc (unat y) * 256 ^ length ys \<le> unat x * 256 ^ length xs"
        using Cons.hyps by (intro mult_mono) auto
      with 2 show ?thesis
        using from_be_less [of ys] by (simp add: from_be_Cons)
    qed
  qed
  then show ?case
    using Cons by (cases "x = y") (auto simp: from_be_Cons word_less_nat_alt word_unat_eq_iff)
qed simp

lemma to_be_bytes_less:
  "8 dvd LENGTH('a) \<Longrightarrow> to_be_bytes v < to_be_bytes (w :: 'a::len word) \<longleftrightarrow> v < w"
  using bytes_less_numeric [of "to_be_bytes v" "to_be_bytes w"]
    unat_from_be_bytes [of "to_be_bytes v", where 'a = 'a]
    unat_from_be_bytes [of "to_be_bytes w", where 'a = 'a]
  by (simp add: word_less_nat_alt)

lemma append_less_iff:
  "length xs = length ys \<Longrightarrow>
    xs @ us < ys @ vs \<longleftrightarrow> xs < ys \<or> xs = ys \<and> us < (vs :: 'a::linorder list)"
  by (induction xs ys rule: list_induct2) auto

lemma find_Some_mem: "find P xs = Some x \<Longrightarrow> x \<in> set xs \<and> P x"
  by (induction xs) (auto split: if_splits)

section \<open>Ordered maps\<close>

fun al_insert :: "'k::linorder \<Rightarrow> 'v \<Rightarrow> ('k \<times> 'v) list \<Rightarrow> ('k \<times> 'v) list" where
  "al_insert k v [] = [(k, v)]"
| "al_insert k v ((k', v') # xs) =
    (if k < k' then (k, v) # (k', v') # xs
     else if k = k' then (k, v) # xs
     else (k', v') # al_insert k v xs)"

definition al_remove :: "'k \<Rightarrow> ('k \<times> 'v) list \<Rightarrow> ('k \<times> 'v) list" where
  "al_remove k xs = filter (\<lambda>e. fst e \<noteq> k) xs"

abbreviation al_ok :: "('k::linorder \<times> 'v) list \<Rightarrow> bool" where
  "al_ok xs \<equiv> sorted_wrt (<) (map fst xs)"

lemma al_insert_keys: "fst ` set (al_insert k v xs) = insert k (fst ` set xs)"
  by (induction k v xs rule: al_insert.induct) auto

lemma al_insert_ok: "al_ok xs \<Longrightarrow> al_ok (al_insert k v xs)"
proof (induction k v xs rule: al_insert.induct)
  case (2 k v k' v' xs)
  have "\<forall>y\<in>set (al_insert k v xs). k' < fst y" if "\<not> k < k'" "k \<noteq> k'"
  proof
    fix y assume "y \<in> set (al_insert k v xs)"
    then have "fst y \<in> insert k (fst ` set xs)"
      using al_insert_keys [of k v xs] by blast
    with that 2 show "k' < fst y"
      by auto
  qed
  with 2 show ?case
    by (auto intro: less_trans)
qed simp

lemma al_remove_ok: "al_ok xs \<Longrightarrow> al_ok (al_remove k xs)"
  unfolding al_remove_def by (induction xs) auto

lemma map_of_al_insert: "map_of (al_insert k v xs) = (map_of xs)(k \<mapsto> v)"
  by (induction k v xs rule: al_insert.induct) (auto simp: fun_eq_iff)

lemma map_of_al_remove: "map_of (al_remove k xs) = (map_of xs)(k := None)"
  unfolding al_remove_def by (induction xs) (auto simp: fun_eq_iff)

lemma al_ok_distinct: "al_ok xs \<Longrightarrow> distinct (map fst xs)"
  by (induction xs) auto

lemma al_ok_ext: "al_ok xs \<Longrightarrow> al_ok ys \<Longrightarrow> map_of xs = map_of ys \<Longrightarrow> xs = ys"
proof -
  assume ok: "al_ok xs" "al_ok ys" and eq: "map_of xs = map_of ys"
  have "set xs = set ys"
    using map_of_eq_Some_iff [OF al_ok_distinct [OF ok(1)]] map_of_eq_Some_iff [OF al_ok_distinct [OF ok(2)]] eq
    by auto
  moreover have "map fst xs = map fst ys"
    using ok \<open>set xs = set ys\<close>
    by (intro sorted_distinct_set_unique) (auto simp: al_ok_distinct strict_sorted_iff)
  ultimately show ?thesis
    using al_ok_distinct [OF ok(1)]
    by (metis (no_types, lifting) distinct_map inj_on_map_eq_map map_eq_conv map_inj_on sup.idem)
qed

typedef (overloaded) ('k::linorder, 'v) omap = "{xs :: ('k \<times> 'v) list. al_ok xs}"
  morphisms entries Abs_omap
  by (rule exI [of _ "[]"]) simp

setup_lifting type_definition_omap

lift_definition oempty :: "('k::linorder, 'v) omap" is "[]"
  by simp

lift_definition oget :: "('k::linorder, 'v) omap \<Rightarrow> 'k \<Rightarrow> 'v option" is map_of .

lift_definition oinsert :: "'k \<Rightarrow> 'v \<Rightarrow> ('k::linorder, 'v) omap \<Rightarrow> ('k, 'v) omap" is al_insert
  by (rule al_insert_ok)

lift_definition oremove :: "'k \<Rightarrow> ('k::linorder, 'v) omap \<Rightarrow> ('k, 'v) omap" is al_remove
  by (rule al_remove_ok)

definition olen :: "('k::linorder, 'v) omap \<Rightarrow> nat" where
  "olen m = length (entries m)"

definition okeys :: "('k::linorder, 'v) omap \<Rightarrow> 'k list" where
  "okeys m = map fst (entries m)"

definition ocontains :: "('k::linorder, 'v) omap \<Rightarrow> 'k \<Rightarrow> bool" where
  "ocontains m k = (oget m k \<noteq> None)"

definition orange_from :: "'k \<Rightarrow> ('k::linorder, 'v) omap \<Rightarrow> ('k \<times> 'v) list" where
  "orange_from k m = filter (\<lambda>e. k \<le> fst e) (entries m)"

definition ofirst :: "('k::linorder, 'v) omap \<Rightarrow> ('k \<times> 'v) option" where
  "ofirst m = (case entries m of [] \<Rightarrow> None | e # _ \<Rightarrow> Some e)"

lemma entries_ok [simp]: "al_ok (entries m)"
  using entries [of m] by simp

lemma entries_oempty [simp, omap_eval]: "entries oempty = []"
  by transfer simp

lemma entries_oinsert [omap_eval]: "entries (oinsert k v m) = al_insert k v (entries m)"
  by transfer simp

lemma entries_oremove [omap_eval]: "entries (oremove k m) = al_remove k (entries m)"
  by transfer simp

lemma oget_oempty [simp]: "oget oempty k = None"
  by transfer simp

lemma oget_oinsert [simp]: "oget (oinsert k v m) k' = (if k' = k then Some v else oget m k')"
  by transfer (simp add: map_of_al_insert)

lemma oget_oremove [simp]: "oget (oremove k m) k' = (if k' = k then None else oget m k')"
  by transfer (simp add: map_of_al_remove)

lemma oget_entries: "oget m k = Some v \<longleftrightarrow> (k, v) \<in> set (entries m)"
  by transfer (simp add: al_ok_distinct)

lemma omap_ext: "(\<And>k. oget m k = oget m' k) \<Longrightarrow> m = m'"
  by transfer (auto intro: al_ok_ext)

lemma distinct_okeys [simp]: "distinct (okeys m)"
  by (simp add: okeys_def al_ok_distinct)

lemma set_okeys: "set (okeys m) = dom (oget m)"
  unfolding okeys_def by (auto simp: oget_entries image_iff) (metis fst_conv)

lemma finite_dom_oget [simp]: "finite (dom (oget m))"
  by (simp flip: set_okeys)

lemma olen_card: "olen m = card (dom (oget m))"
  by (metis distinct_card distinct_okeys length_map okeys_def olen_def set_okeys)

lemma olen_oinsert: "olen (oinsert k v m) = (if oget m k = None then Suc (olen m) else olen m)"
proof -
  have "dom (oget (oinsert k v m)) = insert k (dom (oget m))"
    by (auto split: if_splits)
  then show ?thesis
    by (auto simp: olen_card card_insert_if)
qed

lemma olen_oremove: "olen (oremove k m) = (if oget m k = None then olen m else olen m - 1)"
proof -
  have "dom (oget (oremove k m)) = dom (oget m) - {k}"
    by (auto split: if_splits)
  then show ?thesis
    by (auto simp: olen_card card_Diff_singleton_if)
qed

lemma oremove_absent: "oget m k = None \<Longrightarrow> oremove k m = m"
  by (rule omap_ext) auto

lemma oinsert_same: "oget m k = Some v \<Longrightarrow> oinsert k v m = m"
  by (rule omap_ext) auto

lemma set_orange_from: "(k, v) \<in> set (orange_from k0 m) \<longleftrightarrow> k0 \<le> k \<and> oget m k = Some v"
  by (auto simp: orange_from_def oget_entries)

lemma entries_empty_iff: "entries m = [] \<longleftrightarrow> (\<forall>k. oget m k = None)"
  using set_okeys [of m] by (auto simp: okeys_def dom_def)

lemma ofirst_None: "ofirst m = None \<longleftrightarrow> (\<forall>k. oget m k = None)"
  by (simp add: ofirst_def entries_empty_iff [symmetric] split: list.split)

lemma ofirst_Some:
  "ofirst m = Some (k, v) \<Longrightarrow> oget m k = Some v \<and> (\<forall>k' v'. oget m k' = Some v' \<longrightarrow> k \<le> k')"
proof -
  assume "ofirst m = Some (k, v)"
  then obtain es where es: "entries m = (k, v) # es"
    by (auto simp: ofirst_def split: list.splits)
  then show ?thesis
    using entries_ok [of m] by (fastforce simp: oget_entries)
qed

text \<open>Weighted sums over the entries of a map: byte totals and counters.\<close>

definition osum :: "('k::linorder \<Rightarrow> 'v \<Rightarrow> nat) \<Rightarrow> ('k, 'v) omap \<Rightarrow> nat" where
  "osum w m = (\<Sum>e\<leftarrow>entries m. w (fst e) (snd e))"

lemma al_insert_sum:
  "al_ok xs \<Longrightarrow>
    (\<Sum>e\<leftarrow>al_insert k v xs. w (fst e) (snd e)) + (case map_of xs k of Some v0 \<Rightarrow> w k v0 | None \<Rightarrow> (0 :: nat))
      = (\<Sum>e\<leftarrow>xs. w (fst e) (snd e)) + w k v"
proof (induction k v xs rule: al_insert.induct)
  case (2 k v k' v' xs)
  have "map_of xs k = None" if "k \<le> k'"
    using that "2.prems" by (auto simp: map_of_eq_None_iff)
  with 2 show ?case
    by (auto simp: less_imp_le)
qed simp

lemma osum_oinsert:
  "osum w (oinsert k v m) + (case oget m k of Some v0 \<Rightarrow> w k v0 | None \<Rightarrow> 0) = osum w m + w k v"
  unfolding osum_def entries_oinsert oget.rep_eq by (rule al_insert_sum) simp

lemma al_remove_absent: "map_of xs k = None \<Longrightarrow> al_remove k xs = xs"
  unfolding al_remove_def by (induction xs) (auto split: if_splits)

lemma al_remove_sum:
  "distinct (map fst xs) \<Longrightarrow>
    (\<Sum>e\<leftarrow>al_remove k xs. w (fst e) (snd e)) + (case map_of xs k of Some v0 \<Rightarrow> w k v0 | None \<Rightarrow> (0 :: nat))
      = (\<Sum>e\<leftarrow>xs. w (fst e) (snd e))"
proof (induction xs)
  case (Cons e xs)
  have "map_of xs (fst e) = None"
    using Cons.prems by (simp add: map_of_eq_None_iff)
  with Cons show ?case
    using al_remove_absent [of xs "fst e"] by (cases e) (auto simp: al_remove_def)
qed (simp add: al_remove_def)

lemma osum_oremove:
  "osum w (oremove k m) + (case oget m k of Some v0 \<Rightarrow> w k v0 | None \<Rightarrow> 0) = osum w m"
  unfolding osum_def entries_oremove oget.rep_eq by (rule al_remove_sum) (simp add: al_ok_distinct)

lemma osum_oempty [simp]: "osum w oempty = 0"
  by (simp add: osum_def)

lemma osum_ge: "oget m k = Some v \<Longrightarrow> w k v \<le> osum w m"
proof -
  assume "oget m k = Some v"
  then have "(\<lambda>e. w (fst e) (snd e)) (k, v) \<in> set (map (\<lambda>e. w (fst e) (snd e)) (entries m))"
    unfolding oget_entries set_map by (rule imageI)
  then have "(\<lambda>e. w (fst e) (snd e)) (k, v) \<le> sum_list (map (\<lambda>e. w (fst e) (snd e)) (entries m))"
    by (rule member_le_sum_list) simp
  then show ?thesis
    by (simp add: osum_def)
qed

lemma osum_mono: "(\<And>k v. oget m k = Some v \<Longrightarrow> w k v \<le> w' k v) \<Longrightarrow> osum w m \<le> osum w' m"
  unfolding osum_def by (intro sum_list_mono) (auto simp: oget_entries)

section \<open>Interfaces\<close>

text \<open>
  A key-value store as its clients use it, and two stores kept as each other's inverse: the
  pattern of every secondary index of the mempool (a key map by transaction and the ordered map
  that is walked).
\<close>

definition paired :: "('k \<Rightarrow> 't option) \<Rightarrow> ('t \<Rightarrow> 'k option) \<Rightarrow> bool" where
  "paired f g \<longleftrightarrow> (\<forall>k t. f k = Some t \<longleftrightarrow> g t = Some k)"

locale kv_store =
  fixes get :: "'m \<Rightarrow> 'k \<Rightarrow> 'v option"
    and ins :: "'k \<Rightarrow> 'v \<Rightarrow> 'm \<Rightarrow> 'm"
    and del :: "'k \<Rightarrow> 'm \<Rightarrow> 'm"
  assumes get_ins: "get (ins k v m) k' = (if k' = k then Some v else get m k')"
    and get_del: "get (del k m) k' = (if k' = k then None else get m k')"
begin

lemma dom_ins: "dom (get (ins k v m)) = insert k (dom (get m))"
  by (auto simp: dom_def get_ins split: if_splits)

lemma dom_del: "dom (get (del k m)) = dom (get m) - {k}"
  by (auto simp: dom_def get_del split: if_splits)

lemma del_ins: "get m k = None \<Longrightarrow> get (del k (ins k v m)) = get m"
  by (auto simp: get_ins get_del)

end

locale index_pair =
  fwd: kv_store get1 ins1 del1 + bwd: kv_store get2 ins2 del2
  for get1 :: "'m \<Rightarrow> 'k \<Rightarrow> 't option" and ins1 :: "'k \<Rightarrow> 't \<Rightarrow> 'm \<Rightarrow> 'm" and del1 :: "'k \<Rightarrow> 'm \<Rightarrow> 'm"
    and get2 :: "'n \<Rightarrow> 't \<Rightarrow> 'k option" and ins2 :: "'t \<Rightarrow> 'k \<Rightarrow> 'n \<Rightarrow> 'n" and del2 :: "'t \<Rightarrow> 'n \<Rightarrow> 'n"
begin

lemma paired_ins:
  "paired (get1 m) (get2 n) \<Longrightarrow> get1 m k = None \<Longrightarrow> get2 n t = None \<Longrightarrow>
    paired (get1 (ins1 k t m)) (get2 (ins2 t k n))"
  unfolding paired_def by (auto simp: fwd.get_ins bwd.get_ins) (metis option.distinct(1))

lemma paired_del:
  "paired (get1 m) (get2 n) \<Longrightarrow> get2 n t = Some k \<Longrightarrow>
    paired (get1 (del1 k m)) (get2 (del2 t n))"
  unfolding paired_def by (auto simp: fwd.get_del bwd.get_del) (metis option.inject)

lemma paired_absent:
  "paired (get1 m) (get2 n) \<Longrightarrow> get2 n t = None \<Longrightarrow> get1 m k \<noteq> Some t"
  unfolding paired_def by auto

end

interpretation omap_store: kv_store oget oinsert oremove
  by unfold_locales auto

interpretation omap_pair: index_pair oget oinsert oremove oget oinsert oremove
  by unfold_locales

text \<open>
  Stored values. Encoding and decoding may write to the corruption log and may raise the
  needs-migration flag; those effects are returned beside the value. A codec round-trips its valid
  values silently and within a size bound.
\<close>

datatype corrupt_event = Corrupt string | NeedsMigration

type_synonym events = "corrupt_event list"

locale codec =
  fixes to_bytes :: "'a \<Rightarrow> bytes \<times> events"
    and from_bytes :: "bytes \<Rightarrow> 'a \<times> events"
    and valid :: "'a \<Rightarrow> bool"
    and max_size :: nat
  assumes silent: "valid x \<Longrightarrow> snd (to_bytes x) = []"
    and dec_enc: "valid x \<Longrightarrow> from_bytes (fst (to_bytes x)) = (x, [])"
    and enc_bound: "valid x \<Longrightarrow> length (fst (to_bytes x)) \<le> max_size"
begin

lemma enc_inj: "valid x \<Longrightarrow> valid y \<Longrightarrow> fst (to_bytes x) = fst (to_bytes y) \<Longrightarrow> x = y"
  by (metis dec_enc fst_conv)

lemma enc_ext: "valid x \<Longrightarrow> valid y \<Longrightarrow> to_bytes x = to_bytes y \<longleftrightarrow> x = y"
  using enc_inj by auto

end

text \<open>A codec whose stored keys sort byte-wise the way the values they stand for do.\<close>

locale ordered_codec = codec to_bytes from_bytes valid max_size
  for to_bytes :: "'a \<Rightarrow> bytes \<times> events" and from_bytes valid max_size +
  fixes lt :: "'a \<Rightarrow> 'a \<Rightarrow> bool"
  assumes enc_less: "valid x \<Longrightarrow> valid y \<Longrightarrow> fst (to_bytes x) < fst (to_bytes y) \<longleftrightarrow> lt x y"
begin

lemma lt_total: "valid x \<Longrightarrow> valid y \<Longrightarrow> x \<noteq> y \<Longrightarrow> lt x y \<or> lt y x"
proof -
  assume v: "valid x" "valid y" and "x \<noteq> y"
  then have "fst (to_bytes x) \<noteq> fst (to_bytes y)"
    using enc_inj by blast
  then have "fst (to_bytes x) < fst (to_bytes y) \<or> fst (to_bytes y) < fst (to_bytes x)"
    by (rule linorder_neqE) simp_all
  then show ?thesis
    using enc_less [OF v] enc_less [OF v(2) v(1)] by simp
qed

lemma lt_trans: "valid x \<Longrightarrow> valid y \<Longrightarrow> valid z \<Longrightarrow> lt x y \<Longrightarrow> lt y z \<Longrightarrow> lt x z"
proof -
  assume v: "valid x" "valid y" "valid z" and l: "lt x y" "lt y z"
  have "fst (to_bytes x) < fst (to_bytes y)" "fst (to_bytes y) < fst (to_bytes z)"
    using l enc_less [OF v(1) v(2)] enc_less [OF v(2) v(3)] by simp_all
  then have "fst (to_bytes x) < fst (to_bytes z)"
    by (rule less_trans)
  then show ?thesis
    using enc_less [OF v(1) v(3)] by simp
qed

lemma sorted_keys:
  "list_all valid xs \<Longrightarrow> sorted_wrt (<) (map (\<lambda>x. fst (to_bytes x)) xs) \<longleftrightarrow> sorted_wrt lt xs"
  by (induction xs) (auto simp: enc_less list_all_iff)

end

text \<open>
  State machines: the states reached from an initial one, and the contract of an invariant that
  every step keeps.
\<close>

inductive reachable :: "('s \<Rightarrow> bool) \<Rightarrow> ('s \<Rightarrow> 's \<Rightarrow> bool) \<Rightarrow> 's \<Rightarrow> bool"
  for init :: "'s \<Rightarrow> bool" and step :: "'s \<Rightarrow> 's \<Rightarrow> bool" where
  reach_init: "init s \<Longrightarrow> reachable init step s"
| reach_step: "reachable init step s \<Longrightarrow> step s s' \<Longrightarrow> reachable init step s'"

locale invariant_system =
  fixes init :: "'s \<Rightarrow> bool"
    and step :: "'s \<Rightarrow> 's \<Rightarrow> bool"
    and inv :: "'s \<Rightarrow> bool"
  assumes inv_init: "init s \<Longrightarrow> inv s"
    and inv_step: "inv s \<Longrightarrow> step s s' \<Longrightarrow> inv s'"
begin

lemma reachable_inv: "reachable init step s \<Longrightarrow> inv s"
  by (induction rule: reachable.induct) (auto intro: inv_init inv_step)

lemma steps_inv: "step\<^sup>*\<^sup>* s s' \<Longrightarrow> inv s \<Longrightarrow> inv s'"
  by (induction rule: rtranclp_induct) (auto intro: inv_step)

lemma steps_preserve:
  assumes "step\<^sup>*\<^sup>* s s'" and "inv s" and "P s"
    and keep: "\<And>a b. inv a \<Longrightarrow> P a \<Longrightarrow> step a b \<Longrightarrow> P b"
  shows "P s'"
proof -
  have "inv s' \<and> P s'"
    using assms(1) by (induction rule: rtranclp_induct) (auto simp: assms(2,3) intro: inv_step keep)
  then show ?thesis ..
qed

end

end
