(* ===== verification/Fee_Rules.thy ===== *)
theory Fee_Rules
  imports Kasane_Prelude
begin

text \<open>
  Gas prices, fees and the base fee: \<open>verified-core/src/fee.rs\<close>, \<open>native_amount.rs\<close> and
  \<open>wrap_quote.rs\<close>, and \<open>evm-core/src/base_fee.rs\<close>. Every function is total on machine words; the
  lemmas read them in unbounded arithmetic and show where the saturating operations can and cannot
  be felt.
\<close>

section \<open>Prices and fees\<close>

definition effective_gas_price :: "u128 \<Rightarrow> u128 \<Rightarrow> u64 \<Rightarrow> u64 option" where
  "effective_gas_price max_fee max_priority base_fee =
    (if max_priority > max_fee then None
     else
       let base = ucast base_fee :: u128
       in if max_fee < base then None
          else
            let capped = min max_fee (sat_add base max_priority)
            in try_narrow capped)"

definition min_fee_satisfied :: "u128 \<Rightarrow> u128 option \<Rightarrow> u64 \<Rightarrow> u64 \<Rightarrow> u64 \<Rightarrow> bool" where
  "min_fee_satisfied gas_price gas_priority_fee base_fee min_priority_fee min_gas_price =
    (case gas_priority_fee of
       Some priority \<Rightarrow>
         (let min_priority = ucast min_priority_fee :: u128
          in if priority < min_priority then False
             else
               let base = ucast base_fee :: u128;
                   base_plus_min = sat_add base min_priority
               in gas_price \<ge> base \<and> gas_price \<ge> base_plus_min)
     | None \<Rightarrow> gas_price \<ge> ucast min_gas_price)"

definition l2_fee :: "u64 \<Rightarrow> u64 \<Rightarrow> u128" where
  "l2_fee gas_used gas_price = ucast gas_used * ucast gas_price"

definition total_fee :: "u64 \<Rightarrow> u64 \<Rightarrow> u128 \<Rightarrow> u128 \<Rightarrow> u128" where
  "total_fee gas_used gas_price l1_data_fee operator_fee =
    sat_add (sat_add (l2_fee gas_used gas_price) l1_data_fee) operator_fee"

definition base_fee_reward :: "u64 \<Rightarrow> u64 \<Rightarrow> u128" where
  "base_fee_reward gas_used base_fee = l2_fee gas_used base_fee"

definition native_withdraw_receive_amount :: "u128 \<Rightarrow> u128 \<Rightarrow> u128 option" where
  "native_withdraw_receive_amount amount_e8s ledger_fee_e8s =
    (if amount_e8s < ledger_fee_e8s then None else Some (amount_e8s - ledger_fee_e8s))"

definition native_withdraw_amount_safe_raw :: "u128 \<Rightarrow> u128 \<Rightarrow> u64 \<Rightarrow> u128 \<Rightarrow> bool" where
  "native_withdraw_amount_safe_raw amount_e8s ledger_fee_e8s receive_present receive_e8s =
    ((amount_e8s \<ge> ledger_fee_e8s \<and> receive_present = 1
        \<and> receive_e8s = amount_e8s - ledger_fee_e8s)
     \<or> (amount_e8s < ledger_fee_e8s \<and> receive_present = 0))"

definition wrap_quote_approval_safe_raw :: "u64 \<Rightarrow> u128 \<Rightarrow> u128 \<Rightarrow> u128 \<Rightarrow> u128 \<Rightarrow> bool" where
  "wrap_quote_approval_safe_raw ledger_matches charged_fee_e8s max_fee_e8s
      charged_gas_price_wei quoted_gas_price_wei =
    (ledger_matches = 1 \<and> charged_fee_e8s \<le> max_fee_e8s
      \<and> charged_gas_price_wei \<le> quoted_gas_price_wei)"

definition wrap_quote_components_safe_raw :: "u64 \<Rightarrow> u64 \<Rightarrow> u64 \<Rightarrow> bool" where
  "wrap_quote_components_safe_raw gas_price_component_matches gas_fee_component_matches
      charged_fee_component_matches =
    (gas_price_component_matches = 1 \<and> gas_fee_component_matches = 1
      \<and> charged_fee_component_matches = 1)"

section \<open>Base fee of the next block\<close>

definition compute_next_base_fee :: "u64 \<Rightarrow> u64 \<Rightarrow> u64 \<Rightarrow> u64" where
  "compute_next_base_fee base_fee gas_used block_gas_limit =
    (let gas_target = block_gas_limit div 2
     in if gas_target = 0 then base_fee
        else if gas_used = gas_target then base_fee
        else
          let base_fee_u128 = ucast base_fee :: u128;
              gas_target_u128 = ucast gas_target :: u128
          in if gas_used > gas_target then
               let gas_delta = ucast (gas_used - gas_target) :: u128;
                   change = (base_fee_u128 * gas_delta) div gas_target_u128 div 8;
                   min_change = max change 1;
                   next = sat_add base_fee_u128 min_change
               in case try_narrow next of Some v \<Rightarrow> v | None \<Rightarrow> - 1
             else
               let gas_delta = ucast (gas_target - gas_used) :: u128;
                   change = (base_fee_u128 * gas_delta) div gas_target_u128 div 8;
                   next = sat_sub base_fee_u128 change
               in case try_narrow next of Some v \<Rightarrow> v | None \<Rightarrow> 0)"

text \<open>The EIP-1559 update in unbounded arithmetic, with the result clamped to 64 bits.\<close>

definition eip1559_next :: "nat \<Rightarrow> nat \<Rightarrow> nat \<Rightarrow> nat" where
  "eip1559_next base used limit =
    (let target = limit div 2
     in if target = 0 \<or> used = target then base
        else if target < used
          then min (base + max (base * (used - target) div target div 8) 1) (2 ^ 64 - 1)
          else base - base * (target - used) div target div 8)"

section \<open>Lemmas\<close>

lemma unat_widen [simp]: "unat (ucast (a :: u64) :: u128) = unat a"
  by (rule unat_ucast_fit) (use unsigned_less [of a, where 'a = nat] in simp)

lemma u64_less: "unat (a :: u64) < 18446744073709551616"
  using unsigned_less [of a, where 'a = nat] by simp

lemma u128_less: "unat (a :: u128) < 340282366920938463463374607431768211456"
  using unsigned_less [of a, where 'a = nat] by simp

lemma u64_mult_bound: "unat (a :: u64) * unat (b :: u64) < 2 ^ 128"
proof -
  have "unat a * unat b \<le> (2 ^ 64 - 1) * (2 ^ 64 - 1)"
    using unat_bound [of a] unat_bound [of b] by (intro mult_le_mono) auto
  then show ?thesis
    by simp
qed

lemma unat_widen_mult: "unat (ucast (a :: u64) * ucast (b :: u64) :: u128) = unat a * unat b"
  using u64_mult_bound [of a b] by (simp add: unat_mult_lem [THEN iffD1])

lemma unat_l2_fee: "unat (l2_fee g p) = unat g * unat p"
  by (simp add: l2_fee_def unat_widen_mult)

text \<open>C17: the effective gas price exists exactly when the bid is well formed (the priority fee is
  at most the fee cap), covers the base fee and fits 64 bits, and it is then the smaller of the fee
  cap and base fee plus priority fee; the saturating addition never shows.\<close>

theorem effective_gas_price_exact:
  "effective_gas_price max_fee max_priority base_fee = Some price \<longleftrightarrow>
    max_priority \<le> max_fee \<and> unat base_fee \<le> unat max_fee \<and>
    unat price = min (unat max_fee) (unat base_fee + unat max_priority)"
proof -
  have "min (unat max_fee) (min (unat base_fee + unat max_priority) (2 ^ 128 - 1))
      = min (unat max_fee) (unat base_fee + unat max_priority)"
    using u128_less [of max_fee] by (auto simp: min_def)
  then have "unat (min max_fee (sat_add (ucast base_fee) max_priority))
      = min (unat max_fee) (unat base_fee + unat max_priority)"
    by (auto simp: min_def word_le_nat_alt unat_sat_add split: if_splits)
  then show ?thesis
    by (auto simp: effective_gas_price_def Let_def unat_try_narrow word_le_nat_alt word_less_nat_alt)
qed

lemma effective_gas_price_bounds:
  assumes "effective_gas_price max_fee max_priority base_fee = Some price"
  shows "unat base_fee \<le> unat price" "unat price \<le> unat max_fee"
proof -
  have "max_priority \<le> max_fee \<and> unat base_fee \<le> unat max_fee \<and>
      unat price = min (unat max_fee) (unat (sat_add (ucast base_fee) max_priority))"
    using assms
    by (auto simp: effective_gas_price_def Let_def unat_try_narrow word_le_nat_alt
        word_less_nat_alt min_def split: if_splits)
  then show "unat base_fee \<le> unat price" "unat price \<le> unat max_fee"
    using u64_less [of base_fee] by (auto simp: unat_sat_add min_def split: if_splits)
qed

text \<open>C18: the fee charged for a transaction is gas used times gas price exactly (the product never
  overflows 128 bits) plus the two surcharges, capped at the largest 128-bit value; the base-fee
  reward is likewise exact.\<close>

theorem total_fee_exact:
  "unat (total_fee g p l1 op) = min (unat g * unat p + unat l1 + unat op) (2 ^ 128 - 1)
    \<and> unat (base_fee_reward g b) = unat g * unat b"
  by (auto simp: total_fee_def base_fee_reward_def unat_sat_add unat_l2_fee min_def)

text \<open>A minimum fee test passed under some base fee is passed under every lower one.\<close>

lemma min_fee_satisfied_antimono:
  "min_fee_satisfied p prio b mp mg \<Longrightarrow> b' \<le> b \<Longrightarrow> min_fee_satisfied p prio b' mp mg"
  by (auto simp: min_fee_satisfied_def Let_def word_le_nat_alt unat_sat_add word_less_nat_alt
      split: option.splits if_splits)

text \<open>A dynamic-fee bid that passes the minimum-fee test has an effective price of at least base fee
  plus minimum priority fee, whenever it has one.\<close>

lemma min_fee_effective:
  assumes "min_fee_satisfied max_fee (Some prio) b mp mg"
    and "effective_gas_price max_fee prio b = Some price"
  shows "unat b + unat mp \<le> unat price"
proof -
  have "unat price = min (unat max_fee) (unat (sat_add (ucast b) prio))"
    using assms(2)
    by (auto simp: effective_gas_price_def Let_def unat_try_narrow min_def word_le_nat_alt split: if_splits)
  then show ?thesis
    using assms(1) u64_less [of b] u64_less [of mp]
    by (auto simp: min_fee_satisfied_def Let_def word_le_nat_alt word_less_nat_alt unat_sat_add
        min_def split: if_splits)
qed

lemma max_unat: "unat (max a b) = max (unat a) (unat (b :: 'a::len word))"
  by (auto simp: max_def word_le_nat_alt)

lemma change_bound:
  fixes base target :: nat
  assumes "d \<le> target" and "0 < target"
  shows "base * d div target div 8 \<le> base div 8"
proof -
  have "base * d div target \<le> base * target div target"
    using assms by (intro div_le_mono) simp
  then show ?thesis
    using assms(2) by (intro div_le_mono) simp
qed

lemma unat_compute_next_base_fee:
  "unat (compute_next_base_fee base used limit) = eip1559_next (unat base) (unat used) (unat limit)"
proof -
  let ?t = "limit div 2"
  have t: "unat ?t = unat limit div 2"
    by (simp add: unat_word_div)
  have t0: "?t = 0 \<longleftrightarrow> unat limit div 2 = 0"
    unfolding word_unat_eq_iff t by simp
  have eq: "used = ?t \<longleftrightarrow> unat used = unat limit div 2"
    unfolding word_unat_eq_iff t by simp
  have gt: "?t < used \<longleftrightarrow> unat limit div 2 < unat used"
    unfolding word_less_nat_alt t by simp
  have change: "unat (ucast base * ucast d div ucast ?t div 8 :: u128)
      = unat base * unat d div (unat limit div 2) div 8" for d :: u64
    by (simp add: unat_word_div unat_widen_mult t)
  have up: "unat (used - ?t) = unat used - unat limit div 2" if "?t < used"
    using that by (simp add: unat_sub less_imp_le t)
  have down: "unat (?t - used) = unat limit div 2 - unat used" if "\<not> ?t < used"
    using that by (simp add: unat_sub t)
  have inc: "unat (case try_narrow (sat_add (ucast base) (max (c :: u128) 1)) of Some v \<Rightarrow> v | None \<Rightarrow> (- 1 :: u64))
      = min (unat base + max (unat c) 1) (2 ^ 64 - 1)" for c
  proof (cases "try_narrow (sat_add (ucast base) (max c 1)) :: u64 option")
    case None
    then have "2 ^ 64 \<le> unat base + max (unat c) 1"
      by (auto simp: try_narrow_None unat_sat_add max_unat min_def split: if_splits)
    with None show ?thesis
      by simp
  next
    case (Some v)
    then have "unat v = unat base + max (unat c) 1"
      using u64_less [of v] by (auto simp: unat_try_narrow unat_sat_add max_unat min_def split: if_splits)
    with Some show ?thesis
      using u64_less [of v] by simp
  qed
  have dec: "unat (case try_narrow (sat_sub (ucast base) (c :: u128)) of Some v \<Rightarrow> v | None \<Rightarrow> (0 :: u64))
      = unat base - unat c" for c
  proof -
    obtain v :: u64 where v: "try_narrow (sat_sub (ucast base) c) = Some v"
      using u64_less [of base] try_narrow_None [of "sat_sub (ucast base) c", where 'b = 64]
      by (cases "try_narrow (sat_sub (ucast base) c) :: u64 option") (auto simp: unat_sat_sub)
    then show ?thesis
      using unat_try_narrow [of "sat_sub (ucast base) c" v] by (simp add: unat_sat_sub)
  qed
  show ?thesis
    unfolding compute_next_base_fee_def eip1559_next_def Let_def
    by (simp add: t0 eq gt inc dec change up down)
qed

text \<open>C19: the base-fee update computed on 64- and 128-bit words is the EIP-1559 update of unbounded
  arithmetic, clamped to 64 bits: no intermediate product, sum or narrowing loses information.\<close>

theorem compute_next_base_fee_eip1559:
  "unat (compute_next_base_fee base used limit) = eip1559_next (unat base) (unat used) (unat limit)"
  by (rule unat_compute_next_base_fee)

lemma eip1559_next_step:
  fixes base used limit :: nat
  assumes used: "used \<le> 2 * (limit div 2)"
  shows "eip1559_next base used limit \<le> base + max (base div 8) 1"
    and "base < 2 ^ 64 \<Longrightarrow> base - base div 8 \<le> eip1559_next base used limit"
    and "used \<le> limit div 2 \<Longrightarrow> eip1559_next base used limit \<le> base"
    and "limit div 2 < used \<Longrightarrow> base < 2 ^ 64 - 1 \<Longrightarrow> base < eip1559_next base used limit"
proof -
  define t where "t = limit div 2"
  define up where "up = base * (used - t) div t div 8"
  define down where "down = base * (t - used) div t div 8"
  define M :: nat where "M = 2 ^ 64"
  have nxt: "eip1559_next base used limit =
      (if t = 0 \<or> used = t then base else if t < used then min (base + max up 1) (M - 1) else base - down)"
    by (simp add: eip1559_next_def Let_def t_def up_def down_def M_def)
  have up: "t < used \<Longrightarrow> up \<le> base div 8"
    unfolding up_def using used by (intro change_bound) (auto simp: t_def)
  have down: "used \<le> t \<Longrightarrow> t \<noteq> 0 \<Longrightarrow> down \<le> base div 8"
    unfolding down_def by (intro change_bound) auto
  have max: "t < used \<Longrightarrow> max up 1 \<le> max (base div 8) 1"
    using up by (simp add: max.coboundedI1)
  show "eip1559_next base used limit \<le> base + max (base div 8) 1"
    unfolding nxt using max by (auto simp: min.coboundedI1)
  show "base < 2 ^ 64 \<Longrightarrow> base - base div 8 \<le> eip1559_next base used limit"
    unfolding nxt M_def [symmetric] using down by auto
  show "used \<le> limit div 2 \<Longrightarrow> eip1559_next base used limit \<le> base"
    unfolding nxt t_def [symmetric] by auto
  show "limit div 2 < used \<Longrightarrow> base < 2 ^ 64 - 1 \<Longrightarrow> base < eip1559_next base used limit"
    unfolding nxt t_def [symmetric] M_def [symmetric] using used by (auto simp: t_def)
qed

text \<open>As long as a block does not use more gas than its limit allows by one unit of rounding
  (at most twice the target), one block moves the base fee by at most an eighth, or by one wei when
  the eighth rounds to nothing; below target it never rises and above target it strictly rises
  unless it is already the largest 64-bit value.\<close>

theorem next_base_fee_step:
  assumes "unat used \<le> 2 * (unat limit div 2)"
  shows "unat (compute_next_base_fee base used limit) \<le> unat base + max (unat base div 8) 1
    \<and> unat base - unat base div 8 \<le> unat (compute_next_base_fee base used limit)
    \<and> (unat used \<le> unat limit div 2 \<longrightarrow> compute_next_base_fee base used limit \<le> base)
    \<and> (unat limit div 2 < unat used \<longrightarrow> base \<noteq> - 1 \<longrightarrow> base < compute_next_base_fee base used limit)"
proof -
  have "base \<noteq> - 1 \<Longrightarrow> unat base < 2 ^ 64 - 1"
    using unat_bound [of base] by (simp add: word_unat_eq_iff)
  then show ?thesis
    using eip1559_next_step [OF assms, of "unat base"] unsigned_less [of base, where 'a = nat]
    by (simp add: unat_compute_next_base_fee word_le_nat_alt word_less_nat_alt)
qed

end
