(* ===== verification/Stable_Codec.thy ===== *)
theory Stable_Codec
  imports Kasane_Prelude
begin

text \<open>
  Decoding primitives and encoding guards: \<open>evm-db/src/decode.rs\<close>,
  \<open>evm-db/src/chain_data/codec.rs\<close>, \<open>verified-core/src/stable_codec.rs\<close>. A reader takes the buffer
  and the current offset and returns the value with the advanced offset, or nothing and leaves the
  offset alone. Lengths are naturals; where the code compares with \<open>usize::MAX\<close> the bound is an
  argument.
\<close>

section \<open>Readers\<close>

definition byte_slice :: "nat \<Rightarrow> nat \<Rightarrow> bytes \<Rightarrow> bytes" where
  "byte_slice i j data = take (j - i) (drop i data)"

definition read_exact :: "bytes \<Rightarrow> nat \<Rightarrow> nat \<Rightarrow> (bytes \<times> nat) option" where
  "read_exact data offset len =
    (if offset > length data then None
     else
       let remaining = length data - offset
       in if len > remaining then None
          else Some (byte_slice offset (offset + len) data, offset + len))"

definition read_u8 :: "bytes \<Rightarrow> nat \<Rightarrow> (u8 \<times> nat) option" where
  "read_u8 data offset = map_option (\<lambda>(s, off). (s ! 0, off)) (read_exact data offset 1)"

definition read_u16 :: "bytes \<Rightarrow> nat \<Rightarrow> (u16 \<times> nat) option" where
  "read_u16 data offset = map_option (\<lambda>(s, off). (from_be_bytes s, off)) (read_exact data offset 2)"

definition read_u32 :: "bytes \<Rightarrow> nat \<Rightarrow> (u32 \<times> nat) option" where
  "read_u32 data offset = map_option (\<lambda>(s, off). (from_be_bytes s, off)) (read_exact data offset 4)"

definition read_u64 :: "bytes \<Rightarrow> nat \<Rightarrow> (u64 \<times> nat) option" where
  "read_u64 data offset = map_option (\<lambda>(s, off). (from_be_bytes s, off)) (read_exact data offset 8)"

definition read_array :: "nat \<Rightarrow> bytes \<Rightarrow> nat \<Rightarrow> (bytes \<times> nat) option" where
  "read_array n data offset = read_exact data offset n"

definition read_vec :: "bytes \<Rightarrow> nat \<Rightarrow> nat \<Rightarrow> (bytes \<times> nat) option" where
  "read_vec data offset len = read_exact data offset len"

definition ascii :: "string \<Rightarrow> bytes" where
  "ascii s = map of_char s"

definition hash_to_array :: "(bytes \<Rightarrow> bytes) \<Rightarrow> nat \<Rightarrow> string \<Rightarrow> bytes \<Rightarrow> bytes" where
  "hash_to_array keccak n label data =
    (let payload = ascii label @ data;
         hash = keccak payload;
         copy_len = (if n < length hash then n else length hash)
     in take copy_len hash @ replicate (n - copy_len) 0)"

section \<open>Guards and the corruption policy\<close>

definition is_fail_closed_label :: "string \<Rightarrow> bool" where
  "is_fail_closed_label label =
    (label = ''state_root_meta'' \<or> label = ''chain_state'' \<or> label = ''head''
      \<or> label = ''state_root_journal_inconsistent'' \<or> label = ''ops_config''
      \<or> label = ''ops_state'' \<or> label = ''caller_key'')"

definition mark_decode_failure :: "string \<Rightarrow> bool \<Rightarrow> events" where
  "mark_decode_failure label fail_closed =
    Corrupt label # (if fail_closed \<and> is_fail_closed_label label then [NeedsMigration] else [])"

definition ensure_encoded_within_bound :: "string \<Rightarrow> nat \<Rightarrow> nat \<Rightarrow> bool \<times> events" where
  "ensure_encoded_within_bound label encoded_len max_size =
    (encoded_len \<le> max_size, if encoded_len > max_size then [Corrupt label] else [])"

definition encode_guarded :: "string \<Rightarrow> bytes \<Rightarrow> nat \<Rightarrow> bytes option \<times> events" where
  "encode_guarded label bs max_size =
    (let (ok, ev) = ensure_encoded_within_bound label (length bs) max_size
     in (if ok then Some bs else None, ev))"

text \<open>The shape of every fixed-size encoder: the guarded bytes, or a block of zeros.\<close>

definition guarded_or :: "string \<Rightarrow> bytes \<Rightarrow> nat \<Rightarrow> bytes \<Rightarrow> bytes \<times> events" where
  "guarded_or label bs max_size fallback =
    (case encode_guarded label bs max_size of
       (Some v, ev) \<Rightarrow> (v, ev)
     | (None, ev) \<Rightarrow> (fallback, ev))"

definition fixed_len_matches :: "nat \<Rightarrow> nat \<Rightarrow> bool" where
  "fixed_len_matches actual_len expected_len = (actual_len = expected_len)"

definition bounded_len :: "nat \<Rightarrow> nat \<Rightarrow> bool" where
  "bounded_len actual_len max_len = (actual_len \<le> max_len)"

definition len_to_u32 :: "nat \<Rightarrow> u32 option" where
  "len_to_u32 len = try_of_nat len"

definition valid_receipt_status :: "u8 \<Rightarrow> bool" where
  "valid_receipt_status status = (status \<le> 1)"

definition variable_items_len :: "nat \<Rightarrow> nat \<Rightarrow> nat \<Rightarrow> nat \<Rightarrow> nat \<Rightarrow> nat option" where
  "variable_items_len usize_max base_len item_count item_len max_items =
    (if item_count > max_items then None
     else
       let payload = item_count * item_len;
           total = base_len + payload
       in if total > usize_max then None else Some total)"

definition variable_items_len_matches :: "nat \<Rightarrow> nat \<Rightarrow> nat \<Rightarrow> nat \<Rightarrow> nat \<Rightarrow> nat \<Rightarrow> bool" where
  "variable_items_len_matches usize_max actual_len base_len item_count item_len max_items =
    (variable_items_len usize_max base_len item_count item_len max_items = Some actual_len)"

definition prune_journal_len :: "nat \<Rightarrow> u32 \<Rightarrow> u32 \<Rightarrow> nat option" where
  "prune_journal_len usize_max ptr_count max_ptrs =
    (if ptr_count > max_ptrs then None
     else
       let total = 4 + unat ptr_count * 20
       in if total > usize_max then None else Some total)"

definition prune_journal_len_matches :: "nat \<Rightarrow> nat \<Rightarrow> u32 \<Rightarrow> u32 \<Rightarrow> bool" where
  "prune_journal_len_matches usize_max actual_len ptr_count max_ptrs =
    (prune_journal_len usize_max ptr_count max_ptrs = Some actual_len)"

section \<open>Lemmas\<close>

lemma length_slice: "j \<le> length data \<Longrightarrow> length (byte_slice i j data) = j - i"
  by (auto simp: byte_slice_def)

lemma slice_append_skip [simp]:
  "length xs \<le> i \<Longrightarrow> byte_slice i j (xs @ ys) = byte_slice (i - length xs) (j - length xs) ys"
  by (simp add: byte_slice_def)

lemma slice_append_take [simp]:
  "i = 0 \<Longrightarrow> length xs = j \<Longrightarrow> byte_slice i j (xs @ ys) = xs"
  by (simp add: byte_slice_def)

lemma slice_all [simp]: "i = 0 \<Longrightarrow> length xs = j \<Longrightarrow> byte_slice i j xs = xs"
  by (simp add: byte_slice_def)

lemma slice_append_left: "j \<le> length xs \<Longrightarrow> byte_slice i j (xs @ ys) = byte_slice i j xs"
  by (simp add: byte_slice_def)

lemma slice_take_prefix: "j \<le> n \<Longrightarrow> byte_slice i j (take n xs) = byte_slice i j xs"
  by (simp add: byte_slice_def drop_take)

lemma slice_Cons_skip [simp]: "0 < i \<Longrightarrow> byte_slice i j (x # ys) = byte_slice (i - 1) (j - 1) ys"
  by (cases i; cases j) (simp_all add: byte_slice_def)

lemma read_exact_append:
  "read_exact (pre @ xs @ post) (length pre) (length xs) = Some (xs, length pre + length xs)"
  by (simp add: read_exact_def)

lemma read_exact_bounds:
  "read_exact data off n = Some (xs, off') \<Longrightarrow>
    off' = off + n \<and> off' \<le> length data \<and> length xs = n \<and> xs = byte_slice off off' data"
  by (auto simp: read_exact_def Let_def byte_slice_def split: if_splits)

lemma read_exact_total: "read_exact data off n = None \<longleftrightarrow> length data < off + n"
  by (auto simp: read_exact_def Let_def)

lemma guarded_or_ok [simp]: "length bs \<le> m \<Longrightarrow> guarded_or label bs m fb = (bs, [])"
  by (simp add: guarded_or_def encode_guarded_def ensure_encoded_within_bound_def)

lemma guarded_or_bound: "length fb \<le> m \<Longrightarrow> length (fst (guarded_or label bs m fb)) \<le> m"
  by (simp add: guarded_or_def encode_guarded_def ensure_encoded_within_bound_def)

lemma length_hash_to_array: "length (hash_to_array keccak n label data) = n"
  by (auto simp: hash_to_array_def Let_def)

lemma prune_journal_len_Some:
  "prune_journal_len um c m = Some l \<longleftrightarrow> c \<le> m \<and> l = 4 + unat c * 20 \<and> l \<le> um"
  by (auto simp: prune_journal_len_def Let_def)

end
