(* ===== verification/Stored_Keys.thy ===== *)
theory Stored_Keys
  imports Stable_Codec
begin

text \<open>
  The keys and small fixed-size records of the stable maps: \<open>evm-db/src/chain_data/ordering.rs\<close>,
  \<open>caller.rs\<close>, \<open>queue.rs\<close>, \<open>dropped_ring.rs\<close> and the index entries of \<open>tx.rs\<close>. A byte-array newtype
  is its byte list; the maps order such keys byte-wise, so what an iteration visits first is decided
  by the layouts below.
\<close>

section \<open>Ordering keys\<close>

type_synonym tx_id = bytes
type_synonym sender_key = bytes
type_synonym ready_key = bytes
type_synonym ready_seq_key = bytes
type_synonym pending_fee_key = bytes
type_synonym caller_key = bytes

definition ready_key_new :: "u128 \<Rightarrow> u128 \<Rightarrow> u64 \<Rightarrow> bytes \<Rightarrow> ready_key" where
  "ready_key_new max_fee_per_gas max_priority_fee_per_gas seq tx_hash =
    (let max_fee_inv = sat_sub (- 1) max_fee_per_gas;
         max_priority_inv = sat_sub (- 1) max_priority_fee_per_gas
     in to_be_bytes max_fee_inv @ to_be_bytes max_priority_inv @ to_be_bytes seq @ tx_hash)"

definition ready_key_seq :: "ready_key \<Rightarrow> u64" where
  "ready_key_seq key = from_be_bytes (byte_slice 32 40 key)"

definition ready_key_to_bytes :: "ready_key \<Rightarrow> bytes \<times> events" where
  "ready_key_to_bytes key = guarded_or ''ready_key'' key 72 (replicate 72 0)"

definition ready_key_from_bytes :: "(bytes \<Rightarrow> bytes) \<Rightarrow> bytes \<Rightarrow> ready_key \<times> events" where
  "ready_key_from_bytes keccak data =
    (if \<not> fixed_len_matches (length data) 72
     then (hash_to_array keccak 72 ''ready_key'' data, mark_decode_failure ''ready_key'' False)
     else (data, []))"

definition ready_seq_key_new :: "u64 \<Rightarrow> bytes \<Rightarrow> ready_seq_key" where
  "ready_seq_key_new seq tx_hash = to_be_bytes seq @ tx_hash"

definition ready_seq_key_to_bytes :: "ready_seq_key \<Rightarrow> bytes \<times> events" where
  "ready_seq_key_to_bytes key = guarded_or ''ready_seq_key'' key 40 (replicate 40 0)"

definition ready_seq_key_from_bytes :: "(bytes \<Rightarrow> bytes) \<Rightarrow> bytes \<Rightarrow> ready_seq_key \<times> events" where
  "ready_seq_key_from_bytes keccak data =
    (if \<not> fixed_len_matches (length data) 40
     then (hash_to_array keccak 40 ''ready_seq_key'' data, mark_decode_failure ''ready_seq_key'' False)
     else (data, []))"

definition pending_fee_key_new :: "u64 \<Rightarrow> bytes \<Rightarrow> pending_fee_key" where
  "pending_fee_key_new gas_price tx_hash = to_be_bytes gas_price @ tx_hash"

definition pending_fee_key_tx_id :: "pending_fee_key \<Rightarrow> bytes" where
  "pending_fee_key_tx_id key = byte_slice 8 40 key"

definition pending_fee_key_to_bytes :: "pending_fee_key \<Rightarrow> bytes \<times> events" where
  "pending_fee_key_to_bytes key = guarded_or ''pending_fee_key'' key 40 (replicate 40 0)"

definition pending_fee_key_from_bytes :: "(bytes \<Rightarrow> bytes) \<Rightarrow> bytes \<Rightarrow> pending_fee_key \<times> events" where
  "pending_fee_key_from_bytes keccak data =
    (if \<not> fixed_len_matches (length data) 40
     then (hash_to_array keccak 40 ''pending_fee_key'' data, mark_decode_failure ''pending_fee_key'' False)
     else (data, []))"

definition sender_key_to_bytes :: "sender_key \<Rightarrow> bytes \<times> events" where
  "sender_key_to_bytes key = guarded_or ''sender_key'' key 20 (replicate 20 0)"

definition sender_key_from_bytes :: "(bytes \<Rightarrow> bytes) \<Rightarrow> bytes \<Rightarrow> sender_key \<times> events" where
  "sender_key_from_bytes keccak data =
    (if \<not> fixed_len_matches (length data) 20
     then (hash_to_array keccak 20 ''sender_key'' data, mark_decode_failure ''sender_key'' False)
     else (data, []))"

datatype sender_nonce_key = SenderNonceKey (snk_sender: sender_key) (snk_nonce: u64)

instantiation sender_nonce_key :: linorder
begin

definition less_eq_sender_nonce_key :: "sender_nonce_key \<Rightarrow> sender_nonce_key \<Rightarrow> bool" where
  "a \<le> b \<longleftrightarrow> snk_sender a < snk_sender b \<or> snk_sender a = snk_sender b \<and> snk_nonce a \<le> snk_nonce b"

definition less_sender_nonce_key :: "sender_nonce_key \<Rightarrow> sender_nonce_key \<Rightarrow> bool" where
  "a < b \<longleftrightarrow> snk_sender a < snk_sender b \<or> snk_sender a = snk_sender b \<and> snk_nonce a < snk_nonce b"

instance
  by standard
    (auto simp: less_eq_sender_nonce_key_def less_sender_nonce_key_def intro: sender_nonce_key.expand)

end

definition sender_nonce_key_to_bytes :: "sender_nonce_key \<Rightarrow> bytes \<times> events" where
  "sender_nonce_key_to_bytes key =
    guarded_or ''sender_nonce_key'' (snk_sender key @ to_be_bytes (snk_nonce key)) 28 (replicate 28 0)"

definition sender_nonce_key_from_bytes :: "(bytes \<Rightarrow> bytes) \<Rightarrow> bytes \<Rightarrow> sender_nonce_key \<times> events" where
  "sender_nonce_key_from_bytes keccak data =
    (if \<not> fixed_len_matches (length data) 28
     then
       let hashed = hash_to_array keccak 28 ''sender_nonce_key'' data
       in (SenderNonceKey (byte_slice 0 20 hashed) (from_be_bytes (byte_slice 20 28 hashed)),
           mark_decode_failure ''sender_nonce_key'' False)
     else (SenderNonceKey (byte_slice 0 20 data) (from_be_bytes (byte_slice 20 28 data)), []))"

section \<open>Caller keys\<close>

text \<open>A principal longer than 29 bytes makes the conversion panic: no value.\<close>

definition caller_key_from_principal :: "bytes \<Rightarrow> caller_key option" where
  "caller_key_from_principal bs =
    (if length bs > 29 then None
     else Some (word_of_nat (length bs) # bs @ replicate (29 - length bs) 0))"

definition caller_key_to_bytes :: "caller_key \<Rightarrow> bytes option \<times> events" where
  "caller_key_to_bytes key = encode_guarded ''caller_key'' key 30"

definition caller_key_from_bytes :: "bytes \<Rightarrow> caller_key \<times> events" where
  "caller_key_from_bytes data =
    (if length data \<noteq> 30 then (replicate 30 0, mark_decode_failure ''caller_key'' True)
     else (data, []))"

section \<open>Queue cursor and dropped ring\<close>

record queue_meta =
  head :: u64
  tail :: u64

definition queue_is_empty :: "u64 \<Rightarrow> u64 \<Rightarrow> bool" where
  "queue_is_empty h t = (h = t)"

definition queue_push :: "u64 \<Rightarrow> u64 \<times> u64" where
  "queue_push t = (t, sat_add t 1)"

definition queue_pop :: "u64 \<Rightarrow> u64 \<Rightarrow> (u64 \<times> u64) option" where
  "queue_pop h t = (if queue_is_empty h t then None else Some (h, sat_add h 1))"

definition queue_meta_new :: queue_meta where
  "queue_meta_new = \<lparr>head = 0, tail = 0\<rparr>"

definition queue_meta_push :: "queue_meta \<Rightarrow> u64 \<times> queue_meta" where
  "queue_meta_push q = (let (idx, t) = queue_push (tail q) in (idx, q\<lparr>tail := t\<rparr>))"

definition queue_meta_pop :: "queue_meta \<Rightarrow> u64 option \<times> queue_meta" where
  "queue_meta_pop q =
    (case queue_pop (head q) (tail q) of
       Some (idx, h) \<Rightarrow> (Some idx, q\<lparr>head := h\<rparr>)
     | None \<Rightarrow> (None, q))"

definition queue_meta_to_bytes :: "queue_meta \<Rightarrow> bytes \<times> events" where
  "queue_meta_to_bytes q =
    guarded_or ''queue_meta'' (to_be_bytes (head q) @ to_be_bytes (tail q)) 16 (replicate 16 0)"

definition queue_meta_from_bytes :: "bytes \<Rightarrow> queue_meta \<times> events" where
  "queue_meta_from_bytes data =
    (if \<not> fixed_len_matches (length data) 16
     then (queue_meta_new, mark_decode_failure ''queue_meta'' False)
     else (\<lparr>head = from_be_bytes (byte_slice 0 8 data), tail = from_be_bytes (byte_slice 8 16 data)\<rparr>, []))"

record dropped_ring_state =
  drs_schema_version :: u32
  drs_next_seq :: u64
  drs_len :: u32

definition dropped_ring_state_new :: dropped_ring_state where
  "dropped_ring_state_new = \<lparr>drs_schema_version = 1, drs_next_seq = 0, drs_len = 0\<rparr>"

definition dropped_ring_state_to_bytes :: "dropped_ring_state \<Rightarrow> bytes \<times> events" where
  "dropped_ring_state_to_bytes r =
    guarded_or ''dropped_ring_state''
      (to_be_bytes (drs_schema_version r) @ to_be_bytes (drs_next_seq r) @ to_be_bytes (drs_len r))
      16 (replicate 16 0)"

definition dropped_ring_state_from_bytes :: "bytes \<Rightarrow> dropped_ring_state \<times> events" where
  "dropped_ring_state_from_bytes data =
    (if length data \<noteq> 16
     then (dropped_ring_state_new, mark_decode_failure ''dropped_ring_state'' False)
     else
       (\<lparr>drs_schema_version = from_be_bytes (byte_slice 0 4 data),
         drs_next_seq = from_be_bytes (byte_slice 4 12 data),
         drs_len = from_be_bytes (byte_slice 12 16 data)\<rparr>, []))"

record dropped_ring_transition =
  insert_seq :: u64
  next_seq :: u64
  ring_len :: u32
  evict_seq :: "u64 option"

definition dropped_ring_push :: "u64 \<Rightarrow> u32 \<Rightarrow> u64 \<Rightarrow> dropped_ring_transition" where
  "dropped_ring_push nxt len capacity =
    (let ins = nxt;
         nxt' = sat_add nxt 1
     in if ucast len < capacity
        then \<lparr>insert_seq = ins, next_seq = nxt', ring_len = sat_add len 1, evict_seq = None\<rparr>
        else \<lparr>insert_seq = ins, next_seq = nxt', ring_len = len, evict_seq = Some (sat_sub ins capacity)\<rparr>)"

section \<open>Index entries and transaction ids\<close>

record tx_index_entry =
  tie_block_number :: u64
  tie_tx_index :: u32

definition tx_index_entry_to_bytes :: "tx_index_entry \<Rightarrow> bytes \<times> events" where
  "tx_index_entry_to_bytes e =
    guarded_or ''tx_index_encode'' (to_be_bytes (tie_block_number e) @ to_be_bytes (tie_tx_index e))
      12 (replicate 12 0)"

definition tx_index_entry_from_bytes :: "bytes \<Rightarrow> tx_index_entry \<times> events" where
  "tx_index_entry_from_bytes data =
    (if \<not> fixed_len_matches (length data) 12
     then (\<lparr>tie_block_number = 0, tie_tx_index = 0\<rparr>, mark_decode_failure ''tx_index'' True)
     else
       (\<lparr>tie_block_number = from_be_bytes (byte_slice 0 8 data),
         tie_tx_index = from_be_bytes (byte_slice 8 12 data)\<rparr>, []))"

definition tx_id_to_bytes :: "tx_id \<Rightarrow> bytes \<times> events" where
  "tx_id_to_bytes i = guarded_or ''tx_id_encode'' i 32 (replicate 32 0)"

definition tx_id_from_bytes :: "(bytes \<Rightarrow> bytes) \<Rightarrow> bytes \<Rightarrow> tx_id \<times> events" where
  "tx_id_from_bytes keccak data =
    (if length data \<noteq> 32
     then (hash_to_array keccak 32 ''tx_id'' data, mark_decode_failure ''tx_id'' True)
     else (data, []))"

section \<open>Lemmas\<close>

interpretation ready_key_codec: codec ready_key_to_bytes "ready_key_from_bytes keccak" "\<lambda>k. length k = 72" 72
  by unfold_locales (auto simp: ready_key_to_bytes_def ready_key_from_bytes_def fixed_len_matches_def)

interpretation ready_seq_key_codec:
  codec ready_seq_key_to_bytes "ready_seq_key_from_bytes keccak" "\<lambda>k. length k = 40" 40
  by unfold_locales (auto simp: ready_seq_key_to_bytes_def ready_seq_key_from_bytes_def fixed_len_matches_def)

interpretation pending_fee_key_codec:
  codec pending_fee_key_to_bytes "pending_fee_key_from_bytes keccak" "\<lambda>k. length k = 40" 40
  by unfold_locales (auto simp: pending_fee_key_to_bytes_def pending_fee_key_from_bytes_def fixed_len_matches_def)

interpretation sender_key_codec:
  codec sender_key_to_bytes "sender_key_from_bytes keccak" "\<lambda>k. length k = 20" 20
  by unfold_locales (auto simp: sender_key_to_bytes_def sender_key_from_bytes_def fixed_len_matches_def)

interpretation sender_nonce_key_codec:
  ordered_codec sender_nonce_key_to_bytes "sender_nonce_key_from_bytes keccak"
    "\<lambda>k. length (snk_sender k) = 20" 28 "(<)"
  by unfold_locales
    (auto simp: sender_nonce_key_to_bytes_def sender_nonce_key_from_bytes_def fixed_len_matches_def
      append_less_iff to_be_bytes_less less_sender_nonce_key_def)

interpretation queue_meta_codec: codec queue_meta_to_bytes queue_meta_from_bytes "\<lambda>_. True" 16
  by unfold_locales (auto simp: queue_meta_to_bytes_def queue_meta_from_bytes_def fixed_len_matches_def)

interpretation dropped_ring_state_codec:
  codec dropped_ring_state_to_bytes dropped_ring_state_from_bytes "\<lambda>_. True" 16
  by unfold_locales (auto simp: dropped_ring_state_to_bytes_def dropped_ring_state_from_bytes_def)

interpretation tx_index_entry_codec:
  codec tx_index_entry_to_bytes tx_index_entry_from_bytes "\<lambda>_. True" 12
  by unfold_locales (auto simp: tx_index_entry_to_bytes_def tx_index_entry_from_bytes_def fixed_len_matches_def)

interpretation tx_id_codec: codec tx_id_to_bytes "tx_id_from_bytes keccak" "\<lambda>k. length k = 32" 32
  by unfold_locales (auto simp: tx_id_to_bytes_def tx_id_from_bytes_def)

lemma sat_sub_max_less: "sat_sub (- 1) a < sat_sub (- 1) b \<longleftrightarrow> b < (a :: 'a::len word)"
  using unat_bound [of a] unat_bound [of b] by (auto simp: word_less_nat_alt unat_sat_sub)

lemma sat_sub_max_inj: "sat_sub (- 1) a = sat_sub (- 1) b \<longleftrightarrow> a = (b :: 'a::len word)"
  using unat_bound [of a] unat_bound [of b] by (auto simp: word_unat_eq_iff unat_sat_sub)

lemma length_ready_key [simp]: "length (ready_key_new f p s h) = 40 + length h"
  by (simp add: ready_key_new_def)

lemma ready_key_seq_new [simp]: "ready_key_seq (ready_key_new f p s h) = s"
  by (simp add: ready_key_new_def ready_key_seq_def)

lemma ready_key_inj:
  "ready_key_new f p s h = ready_key_new f' p' s' h' \<longleftrightarrow> f = f' \<and> p = p' \<and> s = s' \<and> h = h'"
  by (auto simp: ready_key_new_def to_be_bytes_inj sat_sub_max_inj)

lemma ready_key_less:
  "ready_key_new f p s h < ready_key_new f' p' s' h' \<longleftrightarrow>
    f' < f \<or> f = f' \<and> (p' < p \<or> p = p' \<and> (s < s' \<or> s = s' \<and> h < h'))"
  by (simp add: ready_key_new_def append_less_iff to_be_bytes_less to_be_bytes_inj sat_sub_max_less
      sat_sub_max_inj)

lemma ready_seq_key_inj:
  "ready_seq_key_new s h = ready_seq_key_new s' h' \<longleftrightarrow> s = s' \<and> h = h'"
  by (auto simp: ready_seq_key_new_def to_be_bytes_inj)

lemma pending_fee_key_inj:
  "pending_fee_key_new g h = pending_fee_key_new g' h' \<longleftrightarrow> g = g' \<and> h = h'"
  by (auto simp: pending_fee_key_new_def to_be_bytes_inj)

lemma pending_fee_key_less:
  "pending_fee_key_new g h < pending_fee_key_new g' h' \<longleftrightarrow> g < g' \<or> g = g' \<and> h < h'"
  by (simp add: pending_fee_key_new_def append_less_iff to_be_bytes_less to_be_bytes_inj)

lemma pending_fee_key_tx_id_new [simp]:
  "length h = 32 \<Longrightarrow> pending_fee_key_tx_id (pending_fee_key_new g h) = h"
  by (simp add: pending_fee_key_new_def pending_fee_key_tx_id_def)

lemma caller_key_inj:
  "caller_key_from_principal p = Some k \<Longrightarrow> caller_key_from_principal q = Some k \<Longrightarrow> p = q"
proof -
  assume p: "caller_key_from_principal p = Some k" and q: "caller_key_from_principal q = Some k"
  have len: "length p \<le> 29" "length q \<le> 29"
    using p q by (auto simp: caller_key_from_principal_def split: if_splits)
  have w: "(word_of_nat (length p) :: u8) = word_of_nat (length q)"
    and t: "p @ replicate (29 - length p) 0 = q @ replicate (29 - length q) 0"
    using p q by (auto simp: caller_key_from_principal_def split: if_splits)
  have "length p = length q"
    using arg_cong [OF w, of unat] len by (simp add: unat_of_nat)
  with t show "p = q"
    by simp
qed

lemma queue_meta_push_order:
  "queue_meta_push q = (i, q') \<Longrightarrow> i = tail q \<and> head q' = head q \<and> unat (tail q') = min (Suc (unat (tail q))) (2 ^ 64 - 1)"
  by (auto simp: queue_meta_push_def queue_push_def unat_sat_add)

text \<open>C20: iterating the ready queue in key order visits transactions by descending fee cap, then
  descending priority fee, then ascending arrival sequence, then ascending hash; distinct
  (fee, priority, sequence, hash) tuples never collide and the sequence number can be read back.\<close>

theorem ready_key_priority_order:
  "(ready_key_new f p s h < ready_key_new f' p' s' h' \<longleftrightarrow>
      f' < f \<or> f = f' \<and> (p' < p \<or> p = p' \<and> (s < s' \<or> s = s' \<and> h < h')))
    \<and> (ready_key_new f p s h = ready_key_new f' p' s' h' \<longleftrightarrow> f = f' \<and> p = p' \<and> s = s' \<and> h = h')
    \<and> ready_key_seq (ready_key_new f p s h) = s"
  by (simp add: ready_key_less ready_key_inj)

text \<open>The pending-fee index is ordered by effective gas price first, so its first entry is a
  cheapest pending transaction, and the transaction id is recovered from the key.\<close>

theorem pending_fee_key_order:
  assumes "length h = 32"
  shows "(pending_fee_key_new g h < pending_fee_key_new g' h' \<longleftrightarrow> g < g' \<or> g = g' \<and> h < h')
    \<and> pending_fee_key_tx_id (pending_fee_key_new g h) = h"
  using assms by (simp add: pending_fee_key_less)

text \<open>A key made of sender and nonce is stored in 28 bytes that round-trip and that sort by
  sender first and nonce second, so that a range scan from a nonce meets that sender's next nonces
  in increasing order.\<close>

theorem sender_nonce_key_stored_order:
  assumes "length (snk_sender a) = 20" and "length (snk_sender b) = 20"
  shows "sender_nonce_key_from_bytes keccak (fst (sender_nonce_key_to_bytes a)) = (a, [])
    \<and> (fst (sender_nonce_key_to_bytes a) < fst (sender_nonce_key_to_bytes b) \<longleftrightarrow> a < b)"
  using sender_nonce_key_codec.dec_enc [OF assms(1)] sender_nonce_key_codec.enc_less [OF assms] by simp

end
