(* ===== verification/Stored_Tx.thy ===== *)
theory Stored_Tx
  imports Stored_Keys
begin

text \<open>
  Transactions as they are stored (\<open>evm-db/src/chain_data/tx.rs\<close>) and their locations
  (\<open>tx_loc.rs\<close>). Indexing and slicing panic out of range in Rust; the decoder is therefore an option
  computation whose \<open>None\<close> is the panic, and one of the lemmas is that it never happens. The
  canister runs on a 32-bit target in release mode, so the one addition of two lengths wraps at
  \<open>2 ^ 32\<close>. Keccak and the address derivation of \<open>ic-evm-address\<close> are arguments, as is the
  third-party serializer of locations.
\<close>

unbundle bit_operations_syntax

section \<open>Stored transactions\<close>

datatype tx_kind = EthSigned | IcSynthetic

fun tx_kind_to_u8 :: "tx_kind \<Rightarrow> u8" where
  "tx_kind_to_u8 EthSigned = 1"
| "tx_kind_to_u8 IcSynthetic = 2"

definition tx_kind_from_u8 :: "u8 \<Rightarrow> tx_kind option" where
  "tx_kind_from_u8 v = (if v = 1 then Some EthSigned else if v = 2 then Some IcSynthetic else None)"

record stored_tx_bytes =
  stb_version :: u8
  stb_tx_id :: tx_id
  stb_kind :: tx_kind
  stb_raw :: bytes
  stb_caller_evm :: "bytes option"
  stb_canister_id :: bytes
  stb_caller_principal :: bytes
  stb_max_fee_per_gas :: u128
  stb_max_priority_fee_per_gas :: u128
  stb_is_dynamic_fee :: bool

record stored_tx =
  st_kind :: tx_kind
  st_raw :: bytes
  st_caller_evm :: "bytes option"
  st_canister_id :: bytes
  st_caller_principal :: bytes
  st_max_fee_per_gas :: u128
  st_max_priority_fee_per_gas :: u128
  st_is_dynamic_fee :: bool
  st_tx_id :: tx_id

datatype stored_tx_error =
    UnsupportedVersion u8 | EmptyBytes | MissingCaller | MissingPrincipal
  | DerivationFailed | CallerMismatch | TxIdMismatch

abbreviation MAX_TX_SIZE :: nat where "MAX_TX_SIZE \<equiv> 131072"
abbreviation MAX_PRINCIPAL_LEN :: nat where "MAX_PRINCIPAL_LEN \<equiv> 29"
abbreviation STORED_TX_VERSION :: u8 where "STORED_TX_VERSION \<equiv> 3"
abbreviation STORED_TX_MAX_SIZE :: nat where "STORED_TX_MAX_SIZE \<equiv> 131225"

definition new_with_fees ::
  "tx_id \<Rightarrow> tx_kind \<Rightarrow> bytes \<Rightarrow> bytes option \<Rightarrow> bytes \<Rightarrow> bytes \<Rightarrow> u128 \<Rightarrow> u128 \<Rightarrow> bool \<Rightarrow> stored_tx_bytes"
where
  "new_with_fees i kind raw caller canister caller_p max_fee max_priority dynamic =
    \<lparr>stb_version = STORED_TX_VERSION, stb_tx_id = i, stb_kind = kind, stb_raw = raw,
     stb_caller_evm = caller, stb_canister_id = canister, stb_caller_principal = caller_p,
     stb_max_fee_per_gas = max_fee, stb_max_priority_fee_per_gas = max_priority,
     stb_is_dynamic_fee = dynamic\<rparr>"

definition stb_is_invalid :: "stored_tx_bytes \<Rightarrow> bool" where
  "stb_is_invalid v = (stb_raw v = [] \<or> stb_version v \<noteq> STORED_TX_VERSION)"

definition stb_validate :: "stored_tx_bytes \<Rightarrow> stored_tx_error + unit" where
  "stb_validate v =
    (if stb_version v \<noteq> STORED_TX_VERSION then Inl (UnsupportedVersion (stb_version v))
     else if stb_raw v = [] then Inl EmptyBytes
     else Inr ())"

definition len_prefixed :: "bytes \<Rightarrow> bytes" where
  "len_prefixed bs =
    to_be_bytes (case (try_of_nat (length bs) :: u16 option) of Some l \<Rightarrow> l | None \<Rightarrow> 0) @ bs"

definition stored_tx_preimage ::
  "tx_kind \<Rightarrow> bytes \<Rightarrow> bytes option \<Rightarrow> bytes option \<Rightarrow> bytes option \<Rightarrow> bytes" where
  "stored_tx_preimage kind raw caller_evm canister_id caller_principal =
    ascii ''ic-evm:storedtx:v2'' @ [tx_kind_to_u8 kind] @ raw
      @ (case caller_evm of Some caller \<Rightarrow> caller | None \<Rightarrow> [])
      @ (case canister_id of Some bs \<Rightarrow> len_prefixed bs | None \<Rightarrow> [])
      @ (case caller_principal of Some bs \<Rightarrow> len_prefixed bs | None \<Rightarrow> [])"

definition stored_tx_id ::
  "(bytes \<Rightarrow> bytes) \<Rightarrow> tx_kind \<Rightarrow> bytes \<Rightarrow> bytes option \<Rightarrow> bytes option \<Rightarrow> bytes option \<Rightarrow> bytes" where
  "stored_tx_id keccak kind raw caller_evm canister_id caller_principal =
    keccak (stored_tx_preimage kind raw caller_evm canister_id caller_principal)"

definition stored_tx_try_from ::
  "(bytes \<Rightarrow> bytes) \<Rightarrow> (bytes \<Rightarrow> bytes option) \<Rightarrow> stored_tx_bytes \<Rightarrow> stored_tx_error + stored_tx" where
  "stored_tx_try_from keccak derive v =
    (if stb_version v \<noteq> STORED_TX_VERSION then Inl (UnsupportedVersion (stb_version v))
     else if stb_raw v = [] then Inl EmptyBytes
     else if stb_kind v = IcSynthetic \<and> stb_caller_evm v = None then Inl MissingCaller
     else if stb_kind v = IcSynthetic \<and> (stb_canister_id v = [] \<or> stb_caller_principal v = [])
       then Inl MissingPrincipal
     else if stb_kind v \<noteq> IcSynthetic \<and> stb_canister_id v \<noteq> [] then Inl MissingPrincipal
     else
       let expected = stored_tx_id keccak (stb_kind v) (stb_raw v) (stb_caller_evm v)
             (if stb_kind v = IcSynthetic then Some (stb_canister_id v) else None)
             (if stb_kind v = IcSynthetic then Some (stb_caller_principal v) else None);
           out = \<lparr>st_kind = stb_kind v, st_raw = stb_raw v, st_caller_evm = stb_caller_evm v,
             st_canister_id = stb_canister_id v, st_caller_principal = stb_caller_principal v,
             st_max_fee_per_gas = stb_max_fee_per_gas v,
             st_max_priority_fee_per_gas = stb_max_priority_fee_per_gas v,
             st_is_dynamic_fee = stb_is_dynamic_fee v, st_tx_id = stb_tx_id v\<rparr>
       in if stb_tx_id v \<noteq> expected then Inl TxIdMismatch
          else if stb_kind v = IcSynthetic then
            (case derive (stb_caller_principal v) of
               None \<Rightarrow> Inl DerivationFailed
             | Some derived \<Rightarrow>
                 if stb_caller_evm v \<noteq> Some derived then Inl CallerMismatch else Inr out)
          else Inr out)"

section \<open>Encoding and decoding\<close>

definition placeholder_chunk :: "nat \<Rightarrow> bytes \<Rightarrow> u64" where
  "placeholder_chunk i raw =
    foldl (\<lambda>hash b. (hash XOR ucast b) * 0x100000001b3) (0xcbf29ce484222325 + word_of_nat i) raw"

definition placeholder_hash :: "bytes \<Rightarrow> bytes" where
  "placeholder_hash raw = concat (map (\<lambda>i. to_be_bytes (placeholder_chunk i raw)) [0..<4])"

definition invalid_stored_tx :: "u8 \<Rightarrow> bytes \<Rightarrow> stored_tx_bytes \<times> events" where
  "invalid_stored_tx version raw =
    (\<lparr>stb_version = version, stb_tx_id = placeholder_hash raw, stb_kind = EthSigned, stb_raw = [],
      stb_caller_evm = None, stb_canister_id = [], stb_caller_principal = [],
      stb_max_fee_per_gas = 0, stb_max_priority_fee_per_gas = 0, stb_is_dynamic_fee = False\<rparr>,
     mark_decode_failure ''stored_tx_decode'' True)"

definition stb_flags :: "stored_tx_bytes \<Rightarrow> u8" where
  "stb_flags v =
    (let flags0 = 0;
         flags1 = (if stb_caller_evm v \<noteq> None then flags0 OR push_bit 0 1 else flags0)
     in if stb_is_dynamic_fee v then flags1 OR push_bit 1 1 else flags1)"

definition stb_head_bytes :: "stored_tx_bytes \<Rightarrow> bytes" where
  "stb_head_bytes v =
    [stb_version v] @ [tx_kind_to_u8 (stb_kind v)] @ stb_tx_id v @ [stb_flags v]
      @ (case stb_caller_evm v of Some c \<Rightarrow> c | None \<Rightarrow> replicate 20 0)
      @ to_be_bytes (stb_max_fee_per_gas v) @ to_be_bytes (stb_max_priority_fee_per_gas v)"

definition encode_minimal_stored_tx :: "stored_tx_bytes \<Rightarrow> bytes" where
  "encode_minimal_stored_tx v =
    stb_head_bytes v
      @ to_be_bytes (word_of_nat (length (stb_canister_id v)) :: u16) @ stb_canister_id v
      @ to_be_bytes (word_of_nat (length (stb_caller_principal v)) :: u16) @ stb_caller_principal v
      @ to_be_bytes (word_of_nat (length (stb_raw v)) :: u32) @ stb_raw v"

definition encode_fallback_stored_tx :: "bytes \<times> events" where
  "encode_fallback_stored_tx =
    (let (invalid, ev) = invalid_stored_tx 0 [];
         (bs, ev') = guarded_or ''stored_tx_encode'' (encode_minimal_stored_tx invalid)
           STORED_TX_MAX_SIZE [STORED_TX_VERSION]
     in (bs, ev @ ev'))"

definition stb_encode :: "stored_tx_bytes \<Rightarrow> bytes \<times> events" where
  "stb_encode v =
    (case (try_of_nat (length (stb_canister_id v)) :: u16 option) of
       None \<Rightarrow> (let (bs, ev) = encode_fallback_stored_tx in (bs, Corrupt ''tx_envelope_canister_len'' # ev))
     | Some canister_len \<Rightarrow>
         (case (try_of_nat (length (stb_caller_principal v)) :: u16 option) of
            None \<Rightarrow> (let (bs, ev) = encode_fallback_stored_tx in (bs, Corrupt ''tx_envelope_principal_len'' # ev))
          | Some principal_len \<Rightarrow>
              (case (try_of_nat (length (stb_raw v)) :: u32 option) of
                 None \<Rightarrow> (let (bs, ev) = encode_fallback_stored_tx in (bs, Corrupt ''tx_envelope_len'' # ev))
               | Some len \<Rightarrow>
                   (stb_head_bytes v @ to_be_bytes canister_len @ stb_canister_id v
                      @ to_be_bytes principal_len @ stb_caller_principal v
                      @ to_be_bytes len @ stb_raw v, []))))"

definition stb_to_bytes :: "stored_tx_bytes \<Rightarrow> bytes \<times> events" where
  "stb_to_bytes v =
    (let (bs, ev) = stb_encode v
     in case encode_guarded ''stored_tx_encode'' bs STORED_TX_MAX_SIZE of
          (Some out, ev') \<Rightarrow> (out, ev @ ev')
        | (None, ev') \<Rightarrow> (let (fb, ev'') = encode_fallback_stored_tx in (fb, ev @ ev' @ ev'')))"

definition at_index :: "bytes \<Rightarrow> nat \<Rightarrow> u8 option" where
  "at_index data i = (if i < length data then Some (data ! i) else None)"

definition at_range :: "bytes \<Rightarrow> nat \<Rightarrow> nat \<Rightarrow> bytes option" where
  "at_range data i j = (if i \<le> j \<and> j \<le> length data then Some (byte_slice i j data) else None)"

definition decode_tail ::
  "bytes \<Rightarrow> nat \<Rightarrow> (bytes \<times> bytes \<times> bytes) option option" where
  "decode_tail data offset0 =
    do {
      canister_len_bytes \<leftarrow> at_range data offset0 (offset0 + 2);
      let offset1 = offset0 + 2;
      let canister_len = unat (from_be_bytes canister_len_bytes :: u16);
      let principal_limit = min MAX_PRINCIPAL_LEN 64;
      if canister_len > principal_limit then Some None
      else if length data < offset1 + canister_len + 2 then Some None
      else do {
        canister_id \<leftarrow> at_range data offset1 (offset1 + canister_len);
        let offset2 = offset1 + canister_len;
        principal_len_bytes \<leftarrow> at_range data offset2 (offset2 + 2);
        let offset3 = offset2 + 2;
        let principal_len = unat (from_be_bytes principal_len_bytes :: u16);
        if principal_len > principal_limit then Some None
        else if length data < offset3 + principal_len + 4 then Some None
        else do {
          caller_principal \<leftarrow> at_range data offset3 (offset3 + principal_len);
          let offset4 = offset3 + principal_len;
          len_bytes \<leftarrow> at_range data offset4 (offset4 + 4);
          let offset5 = offset4 + 4;
          let len = unat (from_be_bytes len_bytes :: u32);
          let expected = (offset5 + len) mod 2 ^ 32;
          if expected \<noteq> length data then Some None
          else if len > MAX_TX_SIZE then Some None
          else do {
            raw \<leftarrow> at_range data offset5 (length data);
            Some (Some (canister_id, caller_principal, raw))
          }
        }
      }
    }"

definition decode_result :: "bytes \<Rightarrow> stored_tx_bytes option option" where
  "decode_result data =
    (if length data < 1 + 1 + 32 + 1 + 20 + 16 + 16 + 4 then Some None
     else do {
       version \<leftarrow> at_index data 0;
       if version \<noteq> STORED_TX_VERSION then Some None
       else do {
         kind_byte \<leftarrow> at_index data 1;
         case tx_kind_from_u8 kind_byte of
           None \<Rightarrow> Some None
         | Some kind \<Rightarrow> do {
             i \<leftarrow> at_range data 2 34;
             flags \<leftarrow> at_index data 34;
             caller \<leftarrow> at_range data 35 55;
             max_fee \<leftarrow> at_range data 55 71;
             max_priority \<leftarrow> at_range data 71 87;
             rest \<leftarrow> decode_tail data 87;
             case rest of
               None \<Rightarrow> Some None
             | Some (canister_id, caller_principal, raw) \<Rightarrow>
                 Some (Some
                   \<lparr>stb_version = version, stb_tx_id = i, stb_kind = kind, stb_raw = raw,
                    stb_caller_evm = (if flags AND push_bit 0 1 \<noteq> 0 then Some caller else None),
                    stb_canister_id = canister_id, stb_caller_principal = caller_principal,
                    stb_max_fee_per_gas = from_be_bytes max_fee,
                    stb_max_priority_fee_per_gas = from_be_bytes max_priority,
                    stb_is_dynamic_fee = (flags AND push_bit 1 1 \<noteq> 0)\<rparr>)
           }
       }
     })"

definition stb_from_bytes :: "bytes \<Rightarrow> (stored_tx_bytes \<times> events) option" where
  "stb_from_bytes data =
    (if data = [] then Some (invalid_stored_tx 0 data)
     else
       case decode_result data of
         None \<Rightarrow> None
       | Some (Some v) \<Rightarrow> Some (v, [])
       | Some None \<Rightarrow> map_option (\<lambda>version. invalid_stored_tx version data) (at_index data 0))"

section \<open>Lemmas on stored transactions\<close>

definition stb_valid :: "stored_tx_bytes \<Rightarrow> bool" where
  "stb_valid v \<longleftrightarrow> stb_version v = STORED_TX_VERSION \<and> length (stb_tx_id v) = 32
    \<and> (case stb_caller_evm v of Some c \<Rightarrow> length c = 20 | None \<Rightarrow> True)
    \<and> length (stb_canister_id v) \<le> MAX_PRINCIPAL_LEN
    \<and> length (stb_caller_principal v) \<le> MAX_PRINCIPAL_LEN
    \<and> length (stb_raw v) \<le> MAX_TX_SIZE"

lemma tx_kind_from_to [simp]: "tx_kind_from_u8 (tx_kind_to_u8 k) = Some k"
  by (cases k) (simp_all add: tx_kind_from_u8_def)

lemma at_range_in [simp]: "i \<le> j \<Longrightarrow> j \<le> length data \<Longrightarrow> at_range data i j = Some (byte_slice i j data)"
  by (simp add: at_range_def)

lemma at_index_in [simp]: "i < length data \<Longrightarrow> at_index data i = Some (data ! i)"
  by (simp add: at_index_def)

lemma decode_tail_total: "offset + 2 \<le> length data \<Longrightarrow> decode_tail data offset \<noteq> None"
  unfolding decode_tail_def Let_def by simp

lemma decode_result_total: "decode_result data \<noteq> None"
proof (cases "length data < 91")
  case False
  then obtain r where "decode_tail data 87 = Some r"
    using decode_tail_total [of 87 data] by auto
  moreover from False have "data \<noteq> []"
    by auto
  ultimately show ?thesis
    unfolding decode_result_def using False by (simp split: option.split prod.split)
qed (simp add: decode_result_def)

lemma length_stb_head: "stb_valid v \<Longrightarrow> length (stb_head_bytes v) = 87"
  by (auto simp: stb_valid_def stb_head_bytes_def split: option.splits)

lemma slice_tail_of: "length xs = n \<Longrightarrow> byte_slice (n + i) (n + j) (xs @ ys) = byte_slice i j ys"
  by (simp add: byte_slice_def)

lemma decode_tail_encoded:
  assumes "length pre = 87" and c: "length c \<le> 29" and p: "length p \<le> 29" and r: "length raw \<le> MAX_TX_SIZE"
  shows "decode_tail (pre @ to_be_bytes (word_of_nat (length c) :: u16) @ c
      @ to_be_bytes (word_of_nat (length p) :: u16) @ p
      @ to_be_bytes (word_of_nat (length raw) :: u32) @ raw) 87 = Some (Some (c, p, raw))"
proof -
  have u: "unat (word_of_nat (length c) :: u16) = length c" "unat (word_of_nat (length p) :: u16) = length p"
    "unat (word_of_nat (length raw) :: u32) = length raw"
    using c p r by (auto simp: unat_of_nat)
  show ?thesis
    unfolding decode_tail_def using assms by (simp add: u)
qed

lemma stb_flags_bits:
  "stb_flags v AND 1 \<noteq> 0 \<longleftrightarrow> stb_caller_evm v \<noteq> None"
  "stb_flags v AND 2 \<noteq> 0 \<longleftrightarrow> stb_is_dynamic_fee v"
  by (auto simp: stb_flags_def)

lemma stb_encode_valid:
  "stb_valid v \<Longrightarrow> stb_encode v = (encode_minimal_stored_tx v, [])"
  by (simp add: stb_encode_def encode_minimal_stored_tx_def stb_valid_def try_of_nat_def)

lemma length_encoded:
  "stb_valid v \<Longrightarrow> length (encode_minimal_stored_tx v)
    = 95 + length (stb_canister_id v) + length (stb_caller_principal v) + length (stb_raw v)"
  by (simp add: encode_minimal_stored_tx_def length_stb_head)

lemma stb_to_bytes_valid: "stb_valid v \<Longrightarrow> stb_to_bytes v = (encode_minimal_stored_tx v, [])"
  by (simp add: stb_to_bytes_def stb_encode_valid encode_guarded_def ensure_encoded_within_bound_def
      length_encoded) (auto simp: stb_valid_def)


lemma decode_result_encoded:
  assumes v: "stb_valid v"
  shows "decode_result (encode_minimal_stored_tx v) = Some (Some v)"
proof -
  let ?d = "encode_minimal_stored_tx v"
  have len: "length ?d \<ge> 91"
    using length_encoded [OF v] by simp
  have tail: "decode_tail ?d 87 = Some (Some (stb_canister_id v, stb_caller_principal v, stb_raw v))"
    unfolding encode_minimal_stored_tx_def
    using v by (intro decode_tail_encoded) (auto simp: stb_valid_def length_stb_head)
  obtain c where c: "stb_head_bytes v = [stb_version v] @ [tx_kind_to_u8 (stb_kind v)] @ stb_tx_id v
      @ [stb_flags v] @ c @ to_be_bytes (stb_max_fee_per_gas v) @ to_be_bytes (stb_max_priority_fee_per_gas v)"
    and "length c = 20" and cv: "stb_caller_evm v \<noteq> None \<longrightarrow> stb_caller_evm v = Some c"
    using v by (auto simp: stb_head_bytes_def stb_valid_def split: option.splits)
  have fields: "?d ! 0 = stb_version v" "?d ! Suc 0 = tx_kind_to_u8 (stb_kind v)" "?d ! 34 = stb_flags v"
    "byte_slice 2 34 ?d = stb_tx_id v" "byte_slice 35 55 ?d = c"
    "byte_slice 55 71 ?d = to_be_bytes (stb_max_fee_per_gas v)"
    "byte_slice 71 87 ?d = to_be_bytes (stb_max_priority_fee_per_gas v)"
    using v \<open>length c = 20\<close> unfolding encode_minimal_stored_tx_def c
    by (simp_all add: stb_valid_def nth_append nth_Cons')
  have "?d \<noteq> []"
    using len by auto
  then show ?thesis
    unfolding decode_result_def
    using v len cv by (simp add: fields tail stb_flags_bits stb_valid_def)
qed


lemma stb_from_bytes_cases:
  "\<exists>v ev. stb_from_bytes data = Some (v, ev) \<and> (ev = [] \<or> stb_raw v = [])"
proof (cases "data = [] \<or> decode_result data = Some None")
  case True
  then show ?thesis
    by (auto simp: stb_from_bytes_def invalid_stored_tx_def)
next
  case False
  then obtain v where "decode_result data = Some (Some v)"
    using decode_result_total [of data] by (metis not_None_eq)
  with False show ?thesis
    by (auto simp: stb_from_bytes_def)
qed

lemma stored_tx_try_from_Inr:
  assumes "stored_tx_try_from keccak derive v = Inr t"
  shows "stb_raw v \<noteq> []" "stb_version v = STORED_TX_VERSION" "st_tx_id t = stb_tx_id v"
    "st_caller_principal t = stb_caller_principal v" "st_kind t = stb_kind v" "st_raw t = stb_raw v"
    "st_max_fee_per_gas t = stb_max_fee_per_gas v"
    "st_max_priority_fee_per_gas t = stb_max_priority_fee_per_gas v"
    "st_is_dynamic_fee t = stb_is_dynamic_fee v" "st_caller_evm t = stb_caller_evm v"
  using assms by (auto simp: stored_tx_try_from_def Let_def split: if_splits option.splits)

text \<open>C21: a well-formed stored transaction survives the trip through its stored bytes unchanged,
  without touching the corruption log, and within the declared size bound.\<close>

theorem stored_tx_roundtrip:
  assumes "stb_valid v"
  shows "stb_from_bytes (fst (stb_to_bytes v)) = Some (v, [])
    \<and> snd (stb_to_bytes v) = [] \<and> length (fst (stb_to_bytes v)) \<le> STORED_TX_MAX_SIZE"
proof -
  have "encode_minimal_stored_tx v \<noteq> []"
    using length_encoded [OF assms] by auto
  then have "stb_from_bytes (encode_minimal_stored_tx v) = Some (v, [])"
    using decode_result_encoded [OF assms] by (simp add: stb_from_bytes_def)
  then show ?thesis
    using assms length_encoded [OF assms] by (simp add: stb_to_bytes_valid) (simp add: stb_valid_def)
qed

theorem stored_tx_roundtrip_witness:
  "stb_from_bytes (fst (stb_to_bytes (new_with_fees (replicate 32 7) IcSynthetic [1, 2, 3]
      (Some (replicate 20 9)) [4, 5] [6] 1000 2 True)))
    = Some (new_with_fees (replicate 32 7) IcSynthetic [1, 2, 3] (Some (replicate 20 9)) [4, 5] [6] 1000 2 True, [])"
  using stored_tx_roundtrip [of "new_with_fees (replicate 32 7) IcSynthetic [1, 2, 3]
      (Some (replicate 20 9)) [4, 5] [6] 1000 2 True"]
  by (simp add: stb_valid_def new_with_fees_def)

text \<open>C22: decoding stored bytes never panics, whatever the bytes are: it returns an envelope, and
  whenever the corruption log was written the envelope is one that the validation of stored
  transactions rejects, so that corrupt data can never be executed.\<close>

theorem stored_tx_decode_total:
  "\<exists>v ev. stb_from_bytes data = Some (v, ev)
    \<and> (ev = [] \<or> (\<exists>e. stored_tx_try_from keccak derive v = Inl e))"
proof -
  obtain v ev where v: "stb_from_bytes data = Some (v, ev)" "ev = [] \<or> stb_raw v = []"
    using stb_from_bytes_cases by blast
  moreover have "\<exists>e. stored_tx_try_from keccak derive v = Inl e" if "stb_raw v = []"
    using that by (simp add: stored_tx_try_from_def)
  ultimately show ?thesis
    by blast
qed

text \<open>C23: a stored transaction that passes validation carries exactly the identifier that its own
  contents hash to, and a synthetic one carries the address derived from its principal; a record
  filed under another transaction's identifier is rejected.\<close>

theorem stored_tx_try_from_authentic:
  assumes "stored_tx_try_from keccak derive v = Inr t"
  shows "stb_tx_id v = stored_tx_id keccak (stb_kind v) (stb_raw v) (stb_caller_evm v)
      (if stb_kind v = IcSynthetic then Some (stb_canister_id v) else None)
      (if stb_kind v = IcSynthetic then Some (stb_caller_principal v) else None)
    \<and> (stb_kind v = IcSynthetic \<longrightarrow>
        stb_caller_evm v \<noteq> None \<and> derive (stb_caller_principal v) = stb_caller_evm v)"
  using assms by (auto simp: stored_tx_try_from_def Let_def split: if_splits option.splits)

theorem stored_tx_try_from_authentic_witness:
  "\<exists>t. stored_tx_try_from (\<lambda>_. replicate 32 7) (\<lambda>_. Some (replicate 20 9))
      (new_with_fees (replicate 32 7) IcSynthetic [1] (Some (replicate 20 9)) [4] [6] 5 0 False) = Inr t
    \<and> (\<lambda>_. Some (replicate 20 9)) [6 :: u8] = stb_caller_evm
      (new_with_fees (replicate 32 7) IcSynthetic [1] (Some (replicate 20 9)) [4] [6] 5 0 False)"
proof -
  let ?v = "new_with_fees (replicate 32 7) IcSynthetic [1] (Some (replicate 20 9)) [4] [6] 5 0 False"
  obtain t where "stored_tx_try_from (\<lambda>_. replicate 32 7) (\<lambda>_. Some (replicate 20 9)) ?v = Inr t"
    by (simp add: stored_tx_try_from_def new_with_fees_def stored_tx_id_def)
  with stored_tx_try_from_authentic [OF this] show ?thesis
    by (simp add: new_with_fees_def)
qed

section \<open>Transaction locations\<close>

datatype tx_loc_kind = Queued | Included | Dropped

record tx_loc =
  loc_kind :: tx_loc_kind
  loc_seq :: u64
  loc_block_number :: u64
  loc_tx_index :: u32
  loc_drop_code :: u16

definition tx_loc_queued :: "u64 \<Rightarrow> tx_loc" where
  "tx_loc_queued seq =
    \<lparr>loc_kind = Queued, loc_seq = seq, loc_block_number = 0, loc_tx_index = 0, loc_drop_code = 0\<rparr>"

definition tx_loc_included :: "u64 \<Rightarrow> u32 \<Rightarrow> tx_loc" where
  "tx_loc_included block_number tx_index =
    \<lparr>loc_kind = Included, loc_seq = 0, loc_block_number = block_number, loc_tx_index = tx_index, loc_drop_code = 0\<rparr>"

definition tx_loc_dropped :: "u16 \<Rightarrow> tx_loc" where
  "tx_loc_dropped code =
    \<lparr>loc_kind = Dropped, loc_seq = 0, loc_block_number = 0, loc_tx_index = 0, loc_drop_code = code\<rparr>"

definition tx_loc_placeholder :: tx_loc where
  "tx_loc_placeholder = tx_loc_queued (- 1)"

definition tx_loc_is_placeholder :: "tx_loc \<Rightarrow> bool" where
  "tx_loc_is_placeholder l = (loc_kind l = Queued \<and> loc_seq l = - 1)"

fun tx_loc_kind_to_u8 :: "tx_loc_kind \<Rightarrow> u8" where
  "tx_loc_kind_to_u8 Queued = 0"
| "tx_loc_kind_to_u8 Included = 1"
| "tx_loc_kind_to_u8 Dropped = 2"

definition encode_fixed_tx_loc :: "tx_loc \<Rightarrow> bytes \<Rightarrow> bytes" where
  "encode_fixed_tx_loc l encoded =
    (if length encoded \<le> 32 \<and> encoded \<noteq> [] then encoded @ replicate (32 - length encoded) 0
     else [tx_loc_kind_to_u8 (loc_kind l)] @ to_be_bytes (loc_seq l) @ to_be_bytes (loc_block_number l)
       @ to_be_bytes (loc_tx_index l) @ to_be_bytes (loc_drop_code l) @ replicate 9 0)"

definition encode_fallback_tx_loc :: "(tx_loc \<Rightarrow> bytes option) \<Rightarrow> bytes \<times> events" where
  "encode_fallback_tx_loc serialize =
    (let fallback = tx_loc_placeholder;
         encoded = (case serialize fallback of Some bs \<Rightarrow> bs | None \<Rightarrow> [])
     in guarded_or ''tx_loc_encode'' (encode_fixed_tx_loc fallback encoded) 32 (replicate 32 0))"

definition tx_loc_to_bytes :: "(tx_loc \<Rightarrow> bytes option) \<Rightarrow> tx_loc \<Rightarrow> bytes \<times> events" where
  "tx_loc_to_bytes serialize l =
    (case serialize l of
       None \<Rightarrow> (let (bs, ev) = encode_fallback_tx_loc serialize in (bs, Corrupt ''tx_loc_encode'' # ev))
     | Some encoded \<Rightarrow> guarded_or ''tx_loc_encode'' (encode_fixed_tx_loc l encoded) 32 (replicate 32 0))"

definition tx_loc_fields :: "tx_loc_kind \<Rightarrow> bytes \<Rightarrow> tx_loc" where
  "tx_loc_fields kind data =
    \<lparr>loc_kind = kind, loc_seq = from_be_bytes (byte_slice 1 9 data),
     loc_block_number = from_be_bytes (byte_slice 9 17 data),
     loc_tx_index = from_be_bytes (byte_slice 17 21 data),
     loc_drop_code = from_be_bytes (byte_slice 21 23 data)\<rparr>"

definition decode_fixed_tx_loc :: "bytes \<Rightarrow> tx_loc \<times> events" where
  "decode_fixed_tx_loc data =
    (if \<not> fixed_len_matches (length data) 32 then (tx_loc_placeholder, mark_decode_failure ''tx_loc'' True)
     else if data ! 0 = 0 then (tx_loc_fields Queued data, [])
     else if data ! 0 = 1 then (tx_loc_fields Included data, [])
     else if data ! 0 = 2 then (tx_loc_fields Dropped data, [])
     else (tx_loc_placeholder, mark_decode_failure ''tx_loc'' True))"

definition decode_legacy_tx_loc :: "bytes \<Rightarrow> tx_loc \<times> events" where
  "decode_legacy_tx_loc data =
    (if \<not> fixed_len_matches (length data) 24 then (tx_loc_placeholder, mark_decode_failure ''tx_loc'' True)
     else if data ! 0 = 0 then (tx_loc_fields Queued data, [])
     else if data ! 0 = 1 then (tx_loc_fields Included data, [])
     else if data ! 0 = 2 then (tx_loc_fields Dropped data, [])
     else (tx_loc_placeholder, mark_decode_failure ''tx_loc_kind'' True))"

definition tx_loc_from_bytes :: "(bytes \<Rightarrow> tx_loc option) \<Rightarrow> bytes \<Rightarrow> tx_loc \<times> events" where
  "tx_loc_from_bytes deserialize data =
    (case deserialize data of
       Some l \<Rightarrow> (l, [])
     | None \<Rightarrow> if length data = 32 then decode_fixed_tx_loc data else decode_legacy_tx_loc data)"

lemma length_encode_fixed_tx_loc [simp]: "length (encode_fixed_tx_loc l bs) = 32"
  by (simp add: encode_fixed_tx_loc_def)

lemma decode_encode_fixed_tx_loc: "decode_fixed_tx_loc (encode_fixed_tx_loc l []) = (l, [])"
  by (cases "loc_kind l")
    (simp_all add: decode_fixed_tx_loc_def fixed_len_matches_def encode_fixed_tx_loc_def tx_loc_fields_def)

text \<open>Whatever the serializer does, a location occupies exactly the 32 bytes its map declares;
  when the serializer yields nothing usable the fixed layout takes over and decodes to the same
  location, and a location that a reader could not decode is always the recognisable placeholder.\<close>

theorem tx_loc_stored_size:
  "length (fst (tx_loc_to_bytes serialize l)) = 32
    \<and> decode_fixed_tx_loc (encode_fixed_tx_loc l []) = (l, [])
    \<and> (snd (tx_loc_from_bytes deserialize data) = []
        \<or> tx_loc_is_placeholder (fst (tx_loc_from_bytes deserialize data)))"
proof -
  have "length (fst (tx_loc_to_bytes serialize l)) = 32"
    by (auto simp: tx_loc_to_bytes_def encode_fallback_tx_loc_def Let_def split: option.split)
  moreover have "snd (tx_loc_from_bytes deserialize data) = []
      \<or> tx_loc_is_placeholder (fst (tx_loc_from_bytes deserialize data))"
    by (auto simp: tx_loc_from_bytes_def decode_fixed_tx_loc_def decode_legacy_tx_loc_def
        tx_loc_is_placeholder_def tx_loc_placeholder_def tx_loc_queued_def split: option.split)
  ultimately show ?thesis
    by (simp add: decode_encode_fixed_tx_loc)
qed

end
