(* ===== verification/Chain_Rules.thy ===== *)
theory Chain_Rules
  imports Stored_Tx
begin

text \<open>
  The pure decision rules the chain core consults before it touches a map, from
  \<open>verified-core/src\<close>: nonces, pending indexes, queue caps, block limits, batch cursors, commit
  decisions, included positions and the raw safety predicates. Each is translated as written; the
  components that follow call these definitions, and the properties are proved there.
\<close>

section \<open>Nonces\<close>

datatype nonce_decision = NdAccept | NdTooLow | NdGap | NdConflict | NdReplace

definition classify_nonce :: "u64 \<Rightarrow> u64 \<Rightarrow> u64 option \<Rightarrow> u64 \<Rightarrow> nonce_decision" where
  "classify_nonce expected_nonce incoming_nonce pending_price incoming_price =
    (if incoming_nonce < expected_nonce then NdTooLow
     else if incoming_nonce > expected_nonce then NdGap
     else
       case pending_price of
         Some old \<Rightarrow> if incoming_price \<le> old then NdConflict else NdReplace
       | None \<Rightarrow> NdAccept)"

definition next_expected_nonce :: "u64 \<Rightarrow> u64" where
  "next_expected_nonce current = sat_add current 1"

section \<open>Pending indexes\<close>

datatype count_after_decrement = CountRemove | CountSet u32

datatype promote_decision = InsertFirst | ReplaceMin | KeepCurrent

datatype pending_min_after = MinSet u64 | MinRemove

datatype rebuild_pending_decision = CountPrincipal | SkipPending

definition decrement_count :: "u32 \<Rightarrow> count_after_decrement" where
  "decrement_count current = (if current \<le> 1 then CountRemove else CountSet (current - 1))"

definition should_clear_current :: "bool \<Rightarrow> bool" where
  "should_clear_current current_tx_matches = current_tx_matches"

definition should_refresh_pending_min :: "u64 option \<Rightarrow> u64 \<Rightarrow> bool" where
  "should_refresh_pending_min current_min_nonce advanced_nonce = (current_min_nonce = Some advanced_nonce)"

definition next_pending_start_nonce :: "u64 \<Rightarrow> u64" where
  "next_pending_start_nonce after_nonce = sat_add after_nonce 1"

definition classify_promote :: "u64 option \<Rightarrow> u64 \<Rightarrow> promote_decision" where
  "classify_promote current_min_nonce incoming_nonce =
    (case current_min_nonce of
       None \<Rightarrow> InsertFirst
     | Some current \<Rightarrow> if incoming_nonce < current then ReplaceMin else KeepCurrent)"

definition pending_min_after_advance :: "u64 option \<Rightarrow> pending_min_after" where
  "pending_min_after_advance next_pending_nonce =
    (case next_pending_nonce of Some nonce \<Rightarrow> MinSet nonce | None \<Rightarrow> MinRemove)"

definition rebuild_pending_decision_of :: "bool \<Rightarrow> rebuild_pending_decision" where
  "rebuild_pending_decision_of has_pending_meta = (if has_pending_meta then CountPrincipal else SkipPending)"

definition increment_count :: "u32 \<Rightarrow> u32" where
  "increment_count current = sat_add current 1"

section \<open>Queue caps\<close>

datatype pending_cap_decision = CapAccept | SenderFull | PrincipalFull | GlobalFull | EvictLowest

record pending_cap_input =
  sender_count :: nat
  principal_count :: nat
  global_count :: nat
  max_per_sender :: nat
  max_per_principal :: nat
  max_global :: nat
  incoming_effective_gas_price :: u64
  lowest_effective_gas_price :: "u64 option"

definition classify_pending_caps :: "pending_cap_input \<Rightarrow> pending_cap_decision" where
  "classify_pending_caps i =
    (if sender_count i \<ge> max_per_sender i then SenderFull
     else if principal_count i \<ge> max_per_principal i then PrincipalFull
     else if global_count i < max_global i then CapAccept
     else
       case lowest_effective_gas_price i of
         Some lowest \<Rightarrow> if incoming_effective_gas_price i > lowest then EvictLowest else GlobalFull
       | None \<Rightarrow> GlobalFull)"

section \<open>Blocks and batches\<close>

definition valid_block_limit :: "nat \<Rightarrow> bool" where
  "valid_block_limit max_txs = (max_txs > 0)"

definition next_block_number :: "u64 \<Rightarrow> u64" where
  "next_block_number h = sat_add h 1"

definition next_block_timestamp :: "u64 \<Rightarrow> u64 \<Rightarrow> u64" where
  "next_block_timestamp head_ts now_ts = max (sat_add head_ts 1) now_ts"

definition instruction_consumed :: "u64 \<Rightarrow> u64 \<Rightarrow> u64" where
  "instruction_consumed instruction_start instruction_current = sat_sub instruction_current instruction_start"

definition instruction_limit_exhausted :: "u64 \<Rightarrow> u64 \<Rightarrow> u64 \<Rightarrow> bool" where
  "instruction_limit_exhausted soft_limit instruction_start instruction_current =
    (soft_limit > 0 \<and> instruction_consumed instruction_start instruction_current \<ge> soft_limit)"

definition should_stop_execution :: "u64 \<Rightarrow> u64 \<Rightarrow> u64 \<Rightarrow> u64 \<Rightarrow> u64 \<Rightarrow> bool" where
  "should_stop_execution block_gas_used gas_limit soft_limit instruction_start instruction_current =
    ((gas_limit > 0 \<and> block_gas_used \<ge> gas_limit)
      \<or> instruction_limit_exhausted soft_limit instruction_start instruction_current)"

definition remaining_instruction_budget :: "u64 \<Rightarrow> u64 \<Rightarrow> u64 \<Rightarrow> u64 option" where
  "remaining_instruction_budget soft_limit instruction_start instruction_current =
    (if soft_limit = 0 then None
     else Some (sat_sub soft_limit (instruction_consumed instruction_start instruction_current)))"

definition tx_fits_block_gas :: "u64 \<Rightarrow> u64 \<Rightarrow> u64 \<Rightarrow> bool" where
  "tx_fits_block_gas block_gas_used gas_limit tx_gas_limit =
    (gas_limit = 0 \<or> tx_gas_limit \<le> sat_sub gas_limit block_gas_used)"

definition add_block_gas_used :: "u64 \<Rightarrow> u64 \<Rightarrow> u64" where
  "add_block_gas_used block_gas_used tx_gas_used = sat_add block_gas_used tx_gas_used"

definition increment_processed :: "u64 \<Rightarrow> u64" where
  "increment_processed processed = sat_add processed 1"

definition batch_done :: "u64 \<Rightarrow> u32 \<Rightarrow> bool \<Rightarrow> bool" where
  "batch_done processed limit iterator_exhausted = (iterator_exhausted \<or> processed < ucast limit)"

definition next_exclusive_cursor :: "u64 \<Rightarrow> u64" where
  "next_exclusive_cursor last_seq = sat_add last_seq 1"

definition snapshot_limit_reached :: "nat \<Rightarrow> nat \<Rightarrow> bool" where
  "snapshot_limit_reached item_count limit = (item_count \<ge> limit)"

section \<open>Commit decisions and positions\<close>

datatype persist_batch_decision = PersistCommit | PersistCountMismatch | PersistEmpty

definition classify_persist_batch :: "nat \<Rightarrow> nat \<Rightarrow> persist_batch_decision" where
  "classify_persist_batch included_count staged_count =
    (if included_count = 0 then PersistEmpty
     else if included_count \<noteq> staged_count then PersistCountMismatch
     else PersistCommit)"

definition can_commit_single :: "bool \<Rightarrow> bool \<Rightarrow> u64 \<Rightarrow> bool" where
  "can_commit_single has_tx_index has_receipt block_number = (has_tx_index \<and> has_receipt \<and> block_number > 0)"

record included_tx_position =
  pos_block_number :: u64
  pos_tx_index :: u32

definition next_included_index :: "nat \<Rightarrow> u32 option" where
  "next_included_index included_len = try_of_nat included_len"

definition included_position_matches :: "included_tx_position \<Rightarrow> u8 \<Rightarrow> u64 \<Rightarrow> u32 \<Rightarrow> bool" where
  "included_position_matches position kind block_number tx_index =
    (kind = 1 \<and> block_number = pos_block_number position \<and> tx_index = pos_tx_index position)"

definition tx_index_entry_matches_loc :: "included_tx_position \<Rightarrow> u8 \<Rightarrow> u64 \<Rightarrow> u32 \<Rightarrow> bool" where
  "tx_index_entry_matches_loc entry kind block_number tx_index =
    included_position_matches entry kind block_number tx_index"

datatype account_commit_decision = AccountDelete | AccountUpsert
datatype storage_commit_decision = StorageRemove | StorageInsert
datatype code_commit_decision = CodeSkip | CodeRemove | CodeInsert

definition account_commit_decision_of :: "bool \<Rightarrow> bool \<Rightarrow> bool \<Rightarrow> account_commit_decision" where
  "account_commit_decision_of is_selfdestructed is_empty is_touched =
    (if is_selfdestructed \<or> (is_empty \<and> is_touched) then AccountDelete else AccountUpsert)"

definition storage_commit_decision_of :: "bool \<Rightarrow> storage_commit_decision" where
  "storage_commit_decision_of is_zero = (if is_zero then StorageRemove else StorageInsert)"

definition code_commit_decision_of :: "bool \<Rightarrow> bool \<Rightarrow> code_commit_decision" where
  "code_commit_decision_of has_code code_is_empty =
    (if \<not> has_code then CodeSkip else if code_is_empty then CodeRemove else CodeInsert)"

section \<open>Raw safety predicates\<close>

definition submit_transition_safe_raw :: "u64 \<Rightarrow> u64 \<Rightarrow> u64 \<Rightarrow> u64 \<Rightarrow> u64 \<Rightarrow> bool" where
  "submit_transition_safe_raw decision_code slot_points_to_new new_current_written queued_loc_written old_removed =
    ((decision_code = 0 \<and> slot_points_to_new = 1 \<and> new_current_written = 1 \<and> queued_loc_written = 1
        \<and> old_removed = 0)
     \<or> (decision_code = 1 \<and> slot_points_to_new = 1 \<and> new_current_written = 1 \<and> queued_loc_written = 1
        \<and> old_removed = 1))"

definition block_commit_safe_raw :: "u64 \<Rightarrow> u64 \<Rightarrow> u64 \<Rightarrow> u64 \<Rightarrow> u64 \<Rightarrow> u64 \<Rightarrow> u64 \<Rightarrow> bool" where
  "block_commit_safe_raw previous_head committed_head included_count staged_count safe_included_count
      block_gas_used gas_limit =
    (previous_head < - 1 \<and> committed_head = previous_head + 1
      \<and> (gas_limit = 0 \<or> block_gas_used \<le> gas_limit)
      \<and> included_count \<noteq> 0 \<and> included_count = staged_count \<and> safe_included_count = included_count)"

definition included_tx_safe_raw :: "u64 \<Rightarrow> u64 \<Rightarrow> u64 \<Rightarrow> u64 \<Rightarrow> u64 \<Rightarrow> u64 \<Rightarrow> u64 \<Rightarrow> u64 \<Rightarrow> bool" where
  "included_tx_safe_raw has_tx_index has_receipt receipt_tx_id_matches index_key_matches_tx_id
      loc_matches_position receipt_matches_position index_matches_position block_number =
    (has_tx_index = 1 \<and> has_receipt = 1 \<and> block_number > 0 \<and> receipt_tx_id_matches = 1
      \<and> index_key_matches_tx_id = 1 \<and> loc_matches_position = 1 \<and> receipt_matches_position = 1
      \<and> index_matches_position = 1)"

definition no_reorg_append_only_raw :: "u64 \<Rightarrow> u64 \<Rightarrow> u64 \<Rightarrow> u64 \<Rightarrow> u64 \<Rightarrow> u64 \<Rightarrow> bool" where
  "no_reorg_append_only_raw previous_head committed_head parent_points_to_previous_head
      previous_blocks_unchanged previous_receipts_unchanged previous_indexes_unchanged =
    (previous_head < - 1 \<and> committed_head = previous_head + 1 \<and> parent_points_to_previous_head = 1
      \<and> previous_blocks_unchanged = 1 \<and> previous_receipts_unchanged = 1 \<and> previous_indexes_unchanged = 1)"

definition staged_tx_is_current_pending_raw :: "u64 \<Rightarrow> u64 \<Rightarrow> u64 \<Rightarrow> u64 \<Rightarrow> u64 \<Rightarrow> bool" where
  "staged_tx_is_current_pending_raw ready_points_to_tx pending_meta_points_to_tx
      current_pending_points_to_tx tx_payload_present tx_not_marked_dropped =
    (ready_points_to_tx = 1 \<and> pending_meta_points_to_tx = 1 \<and> current_pending_points_to_tx = 1
      \<and> tx_payload_present = 1 \<and> tx_not_marked_dropped = 1)"

definition upgrade_core_observation_preserved_raw :: "u64 \<Rightarrow> u64 \<Rightarrow> u64 \<Rightarrow> u64 \<Rightarrow> u64 \<Rightarrow> u64 \<Rightarrow> bool" where
  "upgrade_core_observation_preserved_raw head_same pruned_boundary_same pending_same receipt_same
      tx_index_same tx_loc_same =
    (head_same = 1 \<and> pruned_boundary_same = 1 \<and> pending_same = 1 \<and> receipt_same = 1
      \<and> tx_index_same = 1 \<and> tx_loc_same = 1)"

definition stable_tx_namespace_disjoint_raw :: "u64 \<Rightarrow> u64 \<Rightarrow> u64 \<Rightarrow> u64 \<Rightarrow> u64 \<Rightarrow> u64 \<Rightarrow> u64 \<Rightarrow> bool" where
  "stable_tx_namespace_disjoint_raw seen_tx tx_store tx_index receipts tx_locs tx_locs_v3 internal_traces =
    (seen_tx < tx_store \<and> tx_store < tx_index \<and> tx_index < receipts \<and> receipts < tx_locs
      \<and> tx_locs < tx_locs_v3 \<and> tx_locs_v3 < internal_traces)"

record receipt_index_observation =
  obs_tx_index_present :: bool
  obs_receipt_present :: bool
  obs_included_loc_present :: bool
  obs_index_matches_loc :: bool
  obs_receipt_matches_loc :: bool
  obs_loc_points_to_block_tx :: bool

definition receipt_index_location_bidirectional :: "receipt_index_observation \<Rightarrow> bool" where
  "receipt_index_location_bidirectional i =
    ((\<not> obs_tx_index_present i
        \<or> (obs_receipt_present i \<and> obs_included_loc_present i \<and> obs_index_matches_loc i))
     \<and> (\<not> obs_receipt_present i
        \<or> (obs_tx_index_present i \<and> obs_included_loc_present i \<and> obs_receipt_matches_loc i))
     \<and> (\<not> obs_included_loc_present i
        \<or> (obs_tx_index_present i \<and> obs_receipt_present i \<and> obs_index_matches_loc i
            \<and> obs_receipt_matches_loc i \<and> obs_loc_points_to_block_tx i)))"

definition receipt_index_target_observation_safe :: "bool \<Rightarrow> receipt_index_observation \<Rightarrow> bool" where
  "receipt_index_target_observation_safe target_included i =
    (receipt_index_location_bidirectional i
     \<and> ((target_included \<and> obs_tx_index_present i \<and> obs_receipt_present i \<and> obs_included_loc_present i
          \<and> obs_index_matches_loc i \<and> obs_receipt_matches_loc i \<and> obs_loc_points_to_block_tx i)
        \<or> (\<not> target_included \<and> \<not> obs_tx_index_present i \<and> \<not> obs_receipt_present i
          \<and> \<not> obs_included_loc_present i)))"

section \<open>Lemmas\<close>

lemma decrement_count_unat:
  "unat (case decrement_count c of CountRemove \<Rightarrow> 0 | CountSet n \<Rightarrow> n) = unat c - 1"
  by (auto simp: decrement_count_def word_le_nat_alt unat_sub)

lemma unat_next_block_number: "unat (next_block_number h) = min (Suc (unat h)) (2 ^ 64 - 1)"
  by (simp add: next_block_number_def unat_sat_add)

lemma next_block_timestamp_less: "h \<noteq> - 1 \<Longrightarrow> h < next_block_timestamp h now"
proof -
  assume "h \<noteq> - 1"
  then have "h < sat_add h 1"
    by (simp add: word_less_nat_alt sat_add_1_gt)
  then show ?thesis
    by (simp add: next_block_timestamp_def less_max_iff_disj)
qed

lemma add_block_gas_fits:
  "tx_fits_block_gas used lim gas_limit \<Longrightarrow> gas \<le> gas_limit \<Longrightarrow> lim \<noteq> 0 \<Longrightarrow> used \<le> lim \<Longrightarrow>
    add_block_gas_used used gas \<le> lim"
  using unat_bound [of lim]
  by (auto simp: tx_fits_block_gas_def add_block_gas_used_def word_le_nat_alt unat_sat_sub unat_sat_add)

end
