(* ===== verification/Metrics.thy ===== *)
theory Metrics
  imports Stable_Codec
begin

text \<open>
  Counters and the ring of per-block samples: \<open>evm-db/src/chain_data/metrics.rs\<close>. The fixed arrays
  are lists of 11 and 256 elements; the ring cursor names the slot the next sample goes to.
\<close>

record metrics_bucket =
  mb_block_number :: u64
  mb_timestamp :: u64
  mb_txs :: u64
  mb_drops :: u64

definition metrics_bucket_empty :: metrics_bucket where
  "metrics_bucket_empty = \<lparr>mb_block_number = 0, mb_timestamp = 0, mb_txs = 0, mb_drops = 0\<rparr>"

record metrics_state =
  ms_schema_version :: u32
  total_submitted :: u64
  total_included :: u64
  total_dropped :: u64
  drop_counts :: "u64 list"
  ema_block_rate_x1000 :: u64
  ema_txs_per_block_x1000 :: u64
  last_ema_timestamp :: u64
  bucket_cursor :: u32
  buckets :: "metrics_bucket list"

definition metrics_state_new :: metrics_state where
  "metrics_state_new =
    \<lparr>ms_schema_version = 1, total_submitted = 0, total_included = 0, total_dropped = 0,
     drop_counts = replicate 11 0, ema_block_rate_x1000 = 0, ema_txs_per_block_x1000 = 0,
     last_ema_timestamp = 0, bucket_cursor = 0, buckets = replicate 256 metrics_bucket_empty\<rparr>"

definition record_submission :: "u64 \<Rightarrow> metrics_state \<Rightarrow> metrics_state" where
  "record_submission count m = m\<lparr>total_submitted := sat_add (total_submitted m) count\<rparr>"

definition record_drop :: "u16 \<Rightarrow> u64 \<Rightarrow> metrics_state \<Rightarrow> metrics_state" where
  "record_drop code count m =
    (let m1 = m\<lparr>total_dropped := sat_add (total_dropped m) count\<rparr>;
         idx = unat code
     in if idx < 11
        then m1\<lparr>drop_counts := (drop_counts m1)[idx := sat_add (drop_counts m1 ! idx) count]\<rparr>
        else m1)"

definition record_dropped :: "u64 \<Rightarrow> metrics_state \<Rightarrow> metrics_state" where
  "record_dropped count m = m\<lparr>total_dropped := sat_add (total_dropped m) count\<rparr>"

definition record_included :: "u64 \<Rightarrow> metrics_state \<Rightarrow> metrics_state" where
  "record_included count m = m\<lparr>total_included := sat_add (total_included m) count\<rparr>"

definition update_ema :: "u64 \<Rightarrow> u64 \<Rightarrow> metrics_state \<Rightarrow> metrics_state" where
  "update_ema timestamp txs m =
    (if timestamp = 0 then m
     else if last_ema_timestamp m = 0
     then m\<lparr>last_ema_timestamp := timestamp, ema_txs_per_block_x1000 := sat_mul txs 1000\<rparr>
     else
       let delta = sat_sub timestamp (last_ema_timestamp m)
       in if delta = 0 then m
          else
            let inst_rate = 1000 div delta;
                inst_txs = sat_mul txs 1000
            in m\<lparr>ema_block_rate_x1000 := sat_add (sat_mul (ema_block_rate_x1000 m) 4) inst_rate div 5,
                 ema_txs_per_block_x1000 := sat_add (sat_mul (ema_txs_per_block_x1000 m) 4) inst_txs div 5,
                 last_ema_timestamp := timestamp\<rparr>)"

definition record_block :: "u64 \<Rightarrow> u64 \<Rightarrow> u64 \<Rightarrow> u64 \<Rightarrow> metrics_state \<Rightarrow> metrics_state" where
  "record_block block_number timestamp txs drops m =
    (let m1 = update_ema timestamp txs m;
         idx = unat (bucket_cursor m1) mod 256
     in m1\<lparr>buckets := (buckets m1)[idx := \<lparr>mb_block_number = block_number, mb_timestamp = timestamp,
               mb_txs = txs, mb_drops = drops\<rparr>],
           bucket_cursor := (bucket_cursor m1 + 1) mod 256\<rparr>)"

record metrics_window_summary =
  ws_blocks :: u64
  ws_txs :: u64
  ws_drops :: u64
  ws_first_ts :: u64
  ws_last_ts :: u64

definition window_summary_empty :: metrics_window_summary where
  "window_summary_empty = \<lparr>ws_blocks = 0, ws_txs = 0, ws_drops = 0, ws_first_ts = 0, ws_last_ts = 0\<rparr>"

definition summary_add :: "metrics_bucket \<Rightarrow> metrics_window_summary \<Rightarrow> metrics_window_summary" where
  "summary_add b w =
    \<lparr>ws_blocks = sat_add (ws_blocks w) 1, ws_txs = sat_add (ws_txs w) (mb_txs b),
     ws_drops = sat_add (ws_drops w) (mb_drops b),
     ws_first_ts = (if ws_first_ts w = 0 then mb_timestamp b else ws_first_ts w),
     ws_last_ts = mb_timestamp b\<rparr>"

primrec summary_loop :: "nat \<Rightarrow> u32 \<Rightarrow> metrics_bucket list \<Rightarrow> metrics_window_summary \<Rightarrow> metrics_window_summary" where
  "summary_loop 0 cursor bs w = w"
| "summary_loop (Suc remaining) cursor bs w =
    (let cursor' = cursor - 1;
         bucket = bs ! (unat cursor' mod 256)
     in if mb_timestamp bucket = 0 \<and> mb_block_number bucket = 0 then w
        else summary_loop remaining cursor' bs (summary_add bucket w))"

definition window_summary :: "u64 \<Rightarrow> metrics_state \<Rightarrow> metrics_window_summary" where
  "window_summary window m =
    (let window' = min window 256
     in if window' = 0 then window_summary_empty
        else
          let cursor = (if bucket_cursor m = 0 then 256 else bucket_cursor m)
          in summary_loop (unat window') cursor (buckets m) window_summary_empty)"

definition block_rate_per_sec_x1000 :: "metrics_window_summary \<Rightarrow> u64 option" where
  "block_rate_per_sec_x1000 w =
    (if ws_blocks w < 2 then None
     else
       let delta = sat_sub (ws_last_ts w) (ws_first_ts w)
       in if delta = 0 then None
          else
            let produced = sat_sub (ws_blocks w) 1
            in Some (sat_mul produced 1000 div delta))"

section \<open>The ring as a history\<close>

text \<open>
  A state is described by the samples recorded so far, newest first. The ring holds the newest 256 of
  them behind the cursor, and slots never written are empty.
\<close>

definition history_at :: "metrics_bucket list \<Rightarrow> nat \<Rightarrow> metrics_bucket" where
  "history_at h i = (if i < length h then h ! i else metrics_bucket_empty)"

definition ring_of :: "metrics_state \<Rightarrow> metrics_bucket list \<Rightarrow> bool" where
  "ring_of m h \<longleftrightarrow> length (buckets m) = 256 \<and> unat (bucket_cursor m) = length h mod 256
    \<and> (\<forall>i<256. buckets m ! ((unat (bucket_cursor m) + 255 - i) mod 256) = history_at h i)"

lemma ring_of_new: "ring_of metrics_state_new []"
  by (simp add: ring_of_def metrics_state_new_def history_at_def)

lemma update_ema_ring [simp]:
  "buckets (update_ema t x m) = buckets m" "bucket_cursor (update_ema t x m) = bucket_cursor m"
  by (auto simp: update_ema_def Let_def)

lemma unat_cursor_next:
  "unat c < 256 \<Longrightarrow> unat ((c + 1) mod 256 :: u32) = Suc (unat c) mod 256"
  by (simp add: unat_mod unat_add_lem [THEN iffD1])

lemma ring_slot_eq:
  "c < 256 \<Longrightarrow> i < (255 :: nat) \<Longrightarrow> (Suc c mod 256 + 255 - Suc i) mod 256 = (c + 255 - i) mod 256"
  by (cases "c = 255") (auto simp: mod_if)

lemma ring_slot_new: "c < 256 \<Longrightarrow> (Suc c mod 256 + 255 - 0) mod 256 = (c :: nat)"
  by (cases "c = 255") auto

lemma ring_slot_other: "c < 256 \<Longrightarrow> i < (255 :: nat) \<Longrightarrow> (c + 255 - i) mod 256 \<noteq> c"
  by (auto simp: mod_if split: if_splits)

lemma ring_of_record:
  assumes r: "ring_of m h"
  shows "ring_of (record_block n t x d m) (\<lparr>mb_block_number = n, mb_timestamp = t, mb_txs = x, mb_drops = d\<rparr> # h)"
proof -
  let ?b = "\<lparr>mb_block_number = n, mb_timestamp = t, mb_txs = x, mb_drops = d\<rparr>"
  let ?m = "record_block n t x d m"
  define c where "c = unat (bucket_cursor m)"
  have c: "c < 256" "c = length h mod 256" and len: "length (buckets m) = 256"
    and old: "\<And>i. i < 256 \<Longrightarrow> buckets m ! ((c + 255 - i) mod 256) = history_at h i"
    using r by (auto simp: ring_of_def c_def)
  have c': "unat (bucket_cursor ?m) = Suc c mod 256"
    using c(1) by (simp add: record_block_def Let_def unat_cursor_next c_def)
  have b': "buckets ?m = (buckets m)[c := ?b]"
    using c(1) by (simp add: record_block_def Let_def c_def)
  have new: "buckets ?m ! ((Suc c mod 256 + 255 - i) mod 256) = history_at (?b # h) i" if i: "i < 256" for i
  proof (cases i)
    case 0
    then show ?thesis
      using ring_slot_new [OF c(1)] c(1) len by (simp add: b' history_at_def)
  next
    case (Suc j)
    then have j: "j < 255"
      using i by simp
    have "(Suc c mod 256 + 255 - i) mod 256 = (c + 255 - j) mod 256"
      using ring_slot_eq [OF c(1) j] Suc by simp
    then have "buckets ?m ! ((Suc c mod 256 + 255 - i) mod 256) = buckets m ! ((c + 255 - j) mod 256)"
      using ring_slot_other [OF c(1) j] by (simp add: b')
    also have "\<dots> = history_at h j"
      using old j by simp
    finally show ?thesis
      using Suc by (simp add: history_at_def)
  qed
  have "Suc c mod 256 = length (?b # h) mod 256"
    by (simp add: c(2) mod_Suc_eq)
  then show ?thesis
    unfolding ring_of_def c' using new len by (simp add: b')
qed

definition sampled :: "metrics_bucket \<Rightarrow> bool" where
  "sampled b \<longleftrightarrow> \<not> (mb_timestamp b = 0 \<and> mb_block_number b = 0)"

lemma unat_pred_mod: "unat (c - 1 :: u32) mod 256 = (unat c + 255) mod 256"
proof (cases "unat c")
  case 0
  then have "c = 0"
    by (simp add: unat_eq_0)
  then show ?thesis
    by simp
next
  case (Suc k)
  then have "unat (c - 1) = k"
    by (simp add: unat_sub word_le_nat_alt)
  moreover have "(Suc k + 255) mod 256 = k mod 256"
    by simp
  ultimately show ?thesis
    using Suc by simp
qed

lemma summary_loop_history:
  assumes "ring_of m h"
  shows "unat cursor mod 256 = (unat (bucket_cursor m) + 256 - k) mod 256 \<Longrightarrow> k + n \<le> 256 \<Longrightarrow>
    summary_loop n cursor (buckets m) w
      = fold summary_add (takeWhile sampled (map (history_at h) [k ..< k + n])) w"
proof (induction n arbitrary: cursor k w)
  case (Suc n)
  define c where "c = unat (bucket_cursor m)"
  have k: "k < 256"
    using Suc.prems by simp
  have "unat (cursor - 1) mod 256 = (unat cursor mod 256 + 255) mod 256"
    by (simp add: unat_pred_mod mod_add_left_eq)
  also have "\<dots> = (c + 256 - k + 255) mod 256"
    using Suc.prems(1) by (simp add: c_def mod_add_left_eq)
  also have "\<dots> = (c + 255 - k + 256) mod 256"
    using k by (intro arg_cong [of _ _ "\<lambda>x. x mod 256"]) simp
  also have "\<dots> = (c + 255 - k) mod 256"
    by simp
  finally have idx: "unat (cursor - 1) mod 256 = (c + 255 - k) mod 256" .
  then have b: "buckets m ! (unat (cursor - 1) mod 256) = history_at h k"
    using assms k unfolding idx by (auto simp: ring_of_def c_def)
  have split: "[k ..< k + Suc n] = k # [Suc k ..< Suc k + n]"
    by (simp add: upt_rec)
  have next': "unat (cursor - 1) mod 256 = (unat (bucket_cursor m) + 256 - Suc k) mod 256"
    unfolding idx by (simp add: c_def add.commute)
  have IH: "summary_loop n (cursor - 1) (buckets m) v
      = fold summary_add (takeWhile sampled (map (history_at h) [Suc k ..< Suc k + n])) v" for v
    using Suc.IH [OF next'] Suc.prems(2) by simp
  have "(mb_timestamp b = 0 \<and> mb_block_number b = 0) = (\<not> sampled b)" for b
    by (simp add: sampled_def)
  then show ?case
    unfolding split summary_loop.simps Let_def b IH by (simp del: upt_Suc add_Suc)
qed simp

lemma window_summary_history:
  assumes r: "ring_of m h" and s: "list_all sampled h"
  shows "window_summary w m = fold summary_add (take (min (unat w) 256) h) window_summary_empty"
proof -
  let ?n = "min (unat w) 256"
  have n: "unat (min w 256) = ?n"
    by (auto simp: min_def word_le_nat_alt)
  have c: "unat (if bucket_cursor m = 0 then 256 else bucket_cursor m) mod 256 = (unat (bucket_cursor m) + 256 - 0) mod 256"
    by simp
  have "window_summary w m = summary_loop ?n (if bucket_cursor m = 0 then 256 else bucket_cursor m) (buckets m) window_summary_empty"
    using n by (cases "min w 256 = 0") (auto simp: window_summary_def Let_def)
  also have "\<dots> = fold summary_add (takeWhile sampled (map (history_at h) [0 ..< ?n])) window_summary_empty"
    using summary_loop_history [OF r c, of ?n] by simp
  also have "takeWhile sampled (map (history_at h) [0 ..< ?n]) = take ?n h"
  proof (cases "?n \<le> length h")
    case True
    then have "map (history_at h) [0 ..< ?n] = take ?n h"
      by (intro nth_equalityI) (auto simp: history_at_def)
    moreover have "\<forall>b\<in>set (take ?n h). sampled b"
      using s by (auto simp: list_all_iff dest: in_set_takeD)
    ultimately show ?thesis
      by (simp only: takeWhile_eq_all_conv)
  next
    case False
    then have "map (history_at h) [0 ..< ?n] = h @ replicate (?n - length h) metrics_bucket_empty"
      by (intro nth_equalityI) (auto simp: history_at_def nth_append)
    moreover have "takeWhile sampled (replicate i metrics_bucket_empty) = []" for i
      by (cases i) (auto simp: sampled_def metrics_bucket_empty_def)
    moreover have "takeWhile sampled h = h"
      using s by (simp add: list_all_iff takeWhile_eq_all_conv)
    moreover have "take ?n h = h"
      using False by (intro take_all) linarith
    ultimately show ?thesis
      using s by (simp only: takeWhile_append list_all_iff append_Nil2 if_True) simp
  qed
  finally show ?thesis .
qed

definition record_sample :: "metrics_bucket \<Rightarrow> metrics_state \<Rightarrow> metrics_state" where
  "record_sample b = record_block (mb_block_number b) (mb_timestamp b) (mb_txs b) (mb_drops b)"

lemma ring_of_samples: "ring_of m h \<Longrightarrow> ring_of (fold record_sample bs m) (rev bs @ h)"
proof (induction bs arbitrary: m h)
  case (Cons b bs)
  have "ring_of (record_sample b m) (b # h)"
    using ring_of_record [OF Cons.prems] by (cases b) (simp add: record_sample_def)
  from Cons.IH [OF this] show ?case
    by simp
qed simp

lemma fold_summary_blocks:
  "unat (ws_blocks w) + length bs \<le> 1000 \<Longrightarrow> unat (ws_blocks (fold summary_add bs w)) = unat (ws_blocks w) + length bs"
proof (induction bs arbitrary: w)
  case (Cons b bs)
  have "unat (ws_blocks (summary_add b w)) = Suc (unat (ws_blocks w))"
    using Cons.prems by (simp add: summary_add_def unat_sat_add)
  then show ?case
    using Cons by simp
qed simp

lemma fold_summary_first:
  "ws_first_ts w \<noteq> 0 \<Longrightarrow> ws_first_ts (fold summary_add bs w) = ws_first_ts w"
  by (induction bs arbitrary: w) (auto simp: summary_add_def)

lemma fold_summary_last:
  "bs \<noteq> [] \<Longrightarrow> ws_last_ts (fold summary_add bs w) = mb_timestamp (last bs)"
  by (induction bs arbitrary: w) (auto simp: summary_add_def)

lemma block_rate_None: "ws_last_ts w \<le> ws_first_ts w \<Longrightarrow> block_rate_per_sec_x1000 w = None"
  by (auto simp: block_rate_per_sec_x1000_def sat_sub_def)

text \<open>C27: after any sequence of recorded blocks that carry a number or a timestamp, the summary of a
  window is the summary of the newest blocks of the sequence, as many as the window and the ring allow,
  and its block count is that number: neither the wrap-around of the ring cursor nor slots never written
  change it.\<close>
theorem window_summary_newest:
  assumes "list_all sampled bs"
  shows "window_summary w (fold record_sample bs metrics_state_new)
      = fold summary_add (take (min (unat w) 256) (rev bs)) window_summary_empty
    \<and> unat (ws_blocks (window_summary w (fold record_sample bs metrics_state_new)))
      = min (min (unat w) 256) (length bs)"
proof -
  have r: "ring_of (fold record_sample bs metrics_state_new) (rev bs)"
    using ring_of_samples [OF ring_of_new] by simp
  have eq: "window_summary w (fold record_sample bs metrics_state_new)
      = fold summary_add (take (min (unat w) 256) (rev bs)) window_summary_empty"
    using window_summary_history [OF r] assms by simp
  have "unat (ws_blocks (window_summary w (fold record_sample bs metrics_state_new)))
      = min (min (unat w) 256) (length bs)"
    unfolding eq by (subst fold_summary_blocks) (auto simp: window_summary_empty_def)
  with eq show ?thesis
    by blast
qed

theorem window_summary_newest_witness:
  "window_summary 2 (fold record_sample
      [\<lparr>mb_block_number = 1, mb_timestamp = 5, mb_txs = 1, mb_drops = 0\<rparr>,
       \<lparr>mb_block_number = 2, mb_timestamp = 7, mb_txs = 3, mb_drops = 1\<rparr>,
       \<lparr>mb_block_number = 3, mb_timestamp = 9, mb_txs = 2, mb_drops = 0\<rparr>] metrics_state_new)
    = \<lparr>ws_blocks = 2, ws_txs = 5, ws_drops = 1, ws_first_ts = 9, ws_last_ts = 7\<rparr>"
  by (subst window_summary_newest [THEN conjunct1])
    (simp_all add: sampled_def summary_add_def window_summary_empty_def sat_add_def)

text \<open>C28: the window is walked from the newest block to the oldest, so its \<open>first_ts\<close> is the newest
  time. When block times never decrease, the saturating difference \<open>last_ts - first_ts\<close> is therefore
  zero and the windowed block rate is unavailable, whatever was recorded.\<close>
theorem block_rate_never_available:
  assumes "\<forall>b \<in> set bs. mb_timestamp b \<noteq> 0" and "sorted (map mb_timestamp bs)"
  shows "block_rate_per_sec_x1000 (window_summary w (fold record_sample bs metrics_state_new)) = None"
proof -
  define h where "h = take (min (unat w) 256) (rev bs)"
  have s: "list_all sampled bs"
    using assms(1) by (simp add: list_all_iff sampled_def)
  have r: "ring_of (fold record_sample bs metrics_state_new) (rev bs)"
    using ring_of_samples [OF ring_of_new] by simp
  have eq: "window_summary w (fold record_sample bs metrics_state_new) = fold summary_add h window_summary_empty"
    using window_summary_history [OF r] s by (simp add: h_def)
  have desc: "sorted_wrt (\<lambda>a b. mb_timestamp b \<le> mb_timestamp a) h"
    unfolding h_def using assms(2) by (intro sorted_wrt_take) (simp add: sorted_wrt_rev sorted_map)
  show ?thesis
  proof (cases h)
    case Nil
    then show ?thesis
      by (simp add: eq window_summary_empty_def block_rate_per_sec_x1000_def)
  next
    case (Cons b t)
    have "b \<in> set bs"
      using Cons in_set_takeD [of b "min (unat w) 256" "rev bs"] by (auto simp: h_def)
    then have "mb_timestamp b \<noteq> 0"
      using assms(1) by blast
    then have first: "ws_first_ts (fold summary_add h window_summary_empty) = mb_timestamp b"
      by (simp add: Cons fold_summary_first summary_add_def window_summary_empty_def)
    have "mb_timestamp (last h) \<le> mb_timestamp b"
      using desc Cons by (cases "t = []") auto
    then have "ws_last_ts (fold summary_add h window_summary_empty) \<le> ws_first_ts (fold summary_add h window_summary_empty)"
      unfolding first using fold_summary_last [of h window_summary_empty] Cons by simp
    then show ?thesis
      unfolding eq by (rule block_rate_None)
  qed
qed

theorem block_rate_never_available_witness:
  "block_rate_per_sec_x1000 (window_summary 10 (fold record_sample
      [\<lparr>mb_block_number = 1, mb_timestamp = 100, mb_txs = 1, mb_drops = 0\<rparr>,
       \<lparr>mb_block_number = 2, mb_timestamp = 200, mb_txs = 1, mb_drops = 0\<rparr>] metrics_state_new)) = None"
  by (rule block_rate_never_available) simp_all

end
