(* ===== verification/Blob_Store.thy ===== *)
theory Blob_Store
  imports Stable_Codec
begin

text \<open>
  The blob allocator of the stable memory: \<open>evm-db/src/size_class.rs\<close>, \<open>blob_ptr.rs\<close>,
  \<open>blob_store.rs\<close>. Slots come from ten size classes; a slot is carved from the end of the arena or
  reused after it has been freed, with a generation number that makes old pointers stale.

  An operation returns its result together with the store as it is left, because an error may be
  raised after the store has changed. The arena is the memory behind the store: a page count and
  the bytes; whether a request to grow it succeeds is an argument. An access beyond the pages traps.
\<close>

section \<open>Size classes and pointers\<close>

datatype size_class_error = ZeroLength | TooLarge

definition classes :: "u32 list" where
  "classes = [8192, 16384, 32768, 65536, 131072, 262144, 524288, 1048576, 2097152, 4194304]"

definition smallest_class :: "nat \<Rightarrow> size_class_error + u32" where
  "smallest_class len =
    (if len = 0 then Inl ZeroLength
     else
       case (try_of_nat len :: u32 option) of
         None \<Rightarrow> Inl TooLarge
       | Some len_u32 \<Rightarrow>
           (case find (\<lambda>c. len_u32 \<le> c) classes of
              Some c \<Rightarrow> Inr c
            | None \<Rightarrow> Inl TooLarge))"

type_synonym blob_ptr = bytes

definition blob_ptr_new :: "u64 \<Rightarrow> u32 \<Rightarrow> u32 \<Rightarrow> u32 \<Rightarrow> blob_ptr" where
  "blob_ptr_new offset len cls gen =
    to_be_bytes offset @ to_be_bytes len @ to_be_bytes cls @ to_be_bytes gen"

definition blob_ptr_offset :: "blob_ptr \<Rightarrow> u64" where
  "blob_ptr_offset p = from_be_bytes (byte_slice 0 8 p)"

definition blob_ptr_len :: "blob_ptr \<Rightarrow> u32" where
  "blob_ptr_len p = from_be_bytes (byte_slice 8 12 p)"

definition blob_ptr_is_empty :: "blob_ptr \<Rightarrow> bool" where
  "blob_ptr_is_empty p = (blob_ptr_len p = 0)"

definition blob_ptr_class :: "blob_ptr \<Rightarrow> u32" where
  "blob_ptr_class p = from_be_bytes (byte_slice 12 16 p)"

definition blob_ptr_gen :: "blob_ptr \<Rightarrow> u32" where
  "blob_ptr_gen p = from_be_bytes (byte_slice 16 20 p)"

definition blob_ptr_to_bytes :: "blob_ptr \<Rightarrow> bytes \<times> events" where
  "blob_ptr_to_bytes p = (p, [])"

definition blob_ptr_from_bytes :: "bytes \<Rightarrow> blob_ptr \<times> events" where
  "blob_ptr_from_bytes data =
    (if length data \<noteq> 20 then (replicate 20 0, [Corrupt ''blob_ptr'']) else (data, []))"

section \<open>The store\<close>

datatype blob_state = Used | Quarantine | Free

fun blob_state_to_u8 :: "blob_state \<Rightarrow> u8" where
  "blob_state_to_u8 Used = 1"
| "blob_state_to_u8 Quarantine = 2"
| "blob_state_to_u8 Free = 3"

definition blob_state_from_u8 :: "u8 \<Rightarrow> blob_state option" where
  "blob_state_from_u8 v =
    (if v = 1 then Some Used else if v = 2 then Some Quarantine else if v = 3 then Some Free else None)"

type_synonym alloc_key = bytes

definition alloc_key_new :: "u32 \<Rightarrow> u64 \<Rightarrow> alloc_key" where
  "alloc_key_new cls offset = to_be_bytes cls @ to_be_bytes offset"

definition alloc_key_class :: "alloc_key \<Rightarrow> u32" where
  "alloc_key_class k = from_be_bytes (byte_slice 0 4 k)"

definition alloc_key_offset :: "alloc_key \<Rightarrow> u64" where
  "alloc_key_offset k = from_be_bytes (byte_slice 4 12 k)"

definition alloc_key_from_bytes :: "bytes \<Rightarrow> alloc_key \<times> events" where
  "alloc_key_from_bytes data =
    (if length data \<noteq> 12 then (replicate 12 0, [Corrupt ''alloc_key'']) else (data, []))"

record alloc_entry =
  ae_gen :: u32
  ae_state :: blob_state

definition alloc_entry_to_bytes :: "alloc_entry \<Rightarrow> bytes \<times> events" where
  "alloc_entry_to_bytes e =
    (to_be_bytes (ae_gen e) @ [blob_state_to_u8 (ae_state e)] @ replicate 3 0, [])"

definition alloc_entry_from_bytes :: "bytes \<Rightarrow> alloc_entry \<times> events" where
  "alloc_entry_from_bytes data =
    (if length data \<noteq> 8 then (\<lparr>ae_gen = 0, ae_state = Free\<rparr>, [Corrupt ''alloc_entry''])
     else
       case blob_state_from_u8 (data ! 4) of
         Some st \<Rightarrow> (\<lparr>ae_gen = from_be_bytes (byte_slice 0 4 data), ae_state = st\<rparr>, [])
       | None \<Rightarrow>
           (\<lparr>ae_gen = from_be_bytes (byte_slice 0 4 data), ae_state = Free\<rparr>,
            [Corrupt ''alloc_entry_state'']))"

datatype blob_error =
    SizeClass size_class_error | LengthTooLarge | Overflow | GrowFailed | MissingAllocEntry
  | InvalidState | InvalidPointer | LengthMismatch | DuplicateFree

datatype 'a blob_result = BOk 'a | BErr blob_error | BTrap

record blob_usage_stats =
  used_class_bytes :: u64
  quarantine_class_bytes :: u64
  free_class_bytes :: u64
  arena_end_bytes :: u64

record arena =
  pages :: u64
  cells :: "nat \<Rightarrow> u8"

record blob_store =
  bs_arena :: arena
  bs_arena_end :: u64
  alloc_table :: "(alloc_key, alloc_entry) omap"
  free_list_by_class :: "(alloc_key, unit) omap"
  usage_totals :: blob_usage_stats

type_synonym grow_fn = "u64 \<Rightarrow> u64 \<Rightarrow> bool"

definition class_u64 :: "u32 \<Rightarrow> u64" where
  "class_u64 cls = ucast cls"

definition add_usage :: "alloc_key \<times> alloc_entry \<Rightarrow> blob_usage_stats \<Rightarrow> blob_usage_stats" where
  "add_usage e stats =
    (let class_bytes = class_u64 (alloc_key_class (fst e))
     in case ae_state (snd e) of
          Used \<Rightarrow> stats\<lparr>used_class_bytes := sat_add (used_class_bytes stats) class_bytes\<rparr>
        | Quarantine \<Rightarrow>
            stats\<lparr>quarantine_class_bytes := sat_add (quarantine_class_bytes stats) class_bytes\<rparr>
        | Free \<Rightarrow> stats\<lparr>free_class_bytes := sat_add (free_class_bytes stats) class_bytes\<rparr>)"

definition scan_usage_totals :: "(alloc_key, alloc_entry) omap \<Rightarrow> u64 \<Rightarrow> blob_usage_stats" where
  "scan_usage_totals table arena_end =
    fold add_usage (entries table)
      \<lparr>used_class_bytes = 0, quarantine_class_bytes = 0, free_class_bytes = 0,
       arena_end_bytes = arena_end\<rparr>"

definition blob_store_new ::
  "arena \<Rightarrow> u64 \<Rightarrow> (alloc_key, alloc_entry) omap \<Rightarrow> (alloc_key, unit) omap \<Rightarrow> blob_store" where
  "blob_store_new ar arena_end table free_list =
    \<lparr>bs_arena = ar, bs_arena_end = arena_end, alloc_table = table, free_list_by_class = free_list,
     usage_totals = scan_usage_totals table arena_end\<rparr>"

definition pages_required :: "u64 \<Rightarrow> u64 blob_result" where
  "pages_required end_offset =
    (if end_offset = 0 then BOk 0
     else
       case checked_sub 65536 1 of
         None \<Rightarrow> BErr Overflow
       | Some add \<Rightarrow>
           (case checked_add end_offset add of
              None \<Rightarrow> BErr Overflow
            | Some rounded \<Rightarrow> BOk (rounded div 65536)))"

definition ensure_capacity :: "grow_fn \<Rightarrow> u64 \<Rightarrow> blob_store \<Rightarrow> unit blob_result \<times> blob_store" where
  "ensure_capacity grow end_offset s =
    (let current_pages = pages (bs_arena s)
     in case pages_required end_offset of
          BErr e \<Rightarrow> (BErr e, s)
        | BTrap \<Rightarrow> (BTrap, s)
        | BOk required \<Rightarrow>
            if required > current_pages then
              let delta = sat_sub required current_pages
              in if grow current_pages delta
                 then (BOk (), s\<lparr>bs_arena := (bs_arena s)\<lparr>pages := current_pages + delta\<rparr>\<rparr>)
                 else (BErr GrowFailed, s)
            else (BOk (), s))"

definition class_range :: "('a::linorder \<times> 'v) list \<Rightarrow> 'a \<Rightarrow> 'a \<Rightarrow> ('a \<times> 'v) list" where
  "class_range es lo hi = filter (\<lambda>e. lo \<le> fst e \<and> fst e \<le> hi) es"

definition pop_free :: "u32 \<Rightarrow> blob_store \<Rightarrow> u64 option \<times> blob_store" where
  "pop_free cls s =
    (let start = alloc_key_new cls 0;
         stop = alloc_key_new cls (- 1)
     in case class_range (entries (free_list_by_class s)) start stop of
          (key, _) # _ \<Rightarrow>
            (Some (alloc_key_offset key), s\<lparr>free_list_by_class := oremove key (free_list_by_class s)\<rparr>)
        | [] \<Rightarrow>
            (map_option (\<lambda>e. alloc_key_offset (fst e))
               (find (\<lambda>e. ae_state (snd e) = Free) (class_range (entries (alloc_table s)) start stop)),
             s))"

definition current_gen :: "u32 \<Rightarrow> u64 \<Rightarrow> blob_store \<Rightarrow> u32 blob_result" where
  "current_gen cls offset s =
    (case oget (alloc_table s) (alloc_key_new cls offset) of
       None \<Rightarrow> BErr MissingAllocEntry
     | Some entry \<Rightarrow> BOk (ae_gen entry))"

definition finish_allocate :: "u32 \<Rightarrow> u32 \<Rightarrow> u64 \<Rightarrow> blob_store \<Rightarrow> blob_ptr blob_result \<times> blob_store" where
  "finish_allocate cls len_u32 offset s =
    (case current_gen cls offset s of
       BErr e \<Rightarrow> (BErr e, s)
     | BTrap \<Rightarrow> (BTrap, s)
     | BOk g \<Rightarrow> (BOk (blob_ptr_new offset len_u32 cls g), s))"

definition reuse_slot :: "u32 \<Rightarrow> u32 \<Rightarrow> u64 \<Rightarrow> blob_store \<Rightarrow> blob_ptr blob_result \<times> blob_store" where
  "reuse_slot cls len_u32 offset s =
    (let key = alloc_key_new cls offset
     in case oget (alloc_table s) key of
          None \<Rightarrow> (BErr MissingAllocEntry, s)
        | Some entry \<Rightarrow>
            if ae_state entry \<noteq> Free then (BErr InvalidState, s)
            else
              case checked_add (ae_gen entry) 1 of
                None \<Rightarrow> (BErr Overflow, s)
              | Some g \<Rightarrow>
                  finish_allocate cls len_u32 offset
                    (s\<lparr>alloc_table := oinsert key \<lparr>ae_gen = g, ae_state = Used\<rparr> (alloc_table s),
                       usage_totals := (usage_totals s)
                         \<lparr>free_class_bytes := sat_sub (free_class_bytes (usage_totals s)) (class_u64 cls),
                          used_class_bytes := sat_add (used_class_bytes (usage_totals s)) (class_u64 cls)\<rparr>\<rparr>))"

definition carve_slot :: "grow_fn \<Rightarrow> u32 \<Rightarrow> u32 \<Rightarrow> blob_store \<Rightarrow> blob_ptr blob_result \<times> blob_store" where
  "carve_slot grow cls len_u32 s =
    (let current = bs_arena_end s
     in case checked_add current (class_u64 cls) of
          None \<Rightarrow> (BErr Overflow, s)
        | Some stop \<Rightarrow>
            (case ensure_capacity grow stop s of
               (BErr e, s') \<Rightarrow> (BErr e, s')
             | (BTrap, s') \<Rightarrow> (BTrap, s')
             | (BOk _, s') \<Rightarrow>
                 finish_allocate cls len_u32 current
                   (s'\<lparr>bs_arena_end := stop,
                       alloc_table := oinsert (alloc_key_new cls current)
                         \<lparr>ae_gen = 1, ae_state = Used\<rparr> (alloc_table s'),
                       usage_totals := (usage_totals s')
                         \<lparr>used_class_bytes := sat_add (used_class_bytes (usage_totals s')) (class_u64 cls),
                          arena_end_bytes := stop\<rparr>\<rparr>)))"

definition allocate :: "grow_fn \<Rightarrow> nat \<Rightarrow> blob_store \<Rightarrow> blob_ptr blob_result \<times> blob_store" where
  "allocate grow len s =
    (case smallest_class len of
       Inl e \<Rightarrow> (BErr (SizeClass e), s)
     | Inr cls \<Rightarrow>
         (case (try_of_nat len :: u32 option) of
            None \<Rightarrow> (BErr LengthTooLarge, s)
          | Some len_u32 \<Rightarrow>
              (case pop_free cls s of
                 (Some offset, s') \<Rightarrow> reuse_slot cls len_u32 offset s'
               | (None, s') \<Rightarrow> carve_slot grow cls len_u32 s')))"

definition arena_read :: "nat \<Rightarrow> nat \<Rightarrow> arena \<Rightarrow> bytes option" where
  "arena_read off n ar =
    (if off + n \<le> unat (pages ar) * 65536 then Some (map (cells ar) [off ..< off + n]) else None)"

definition arena_write :: "nat \<Rightarrow> bytes \<Rightarrow> arena \<Rightarrow> arena option" where
  "arena_write off data ar =
    (if off + length data \<le> unat (pages ar) * 65536
     then Some (ar\<lparr>cells := (\<lambda>a. if off \<le> a \<and> a < off + length data then data ! (a - off) else cells ar a)\<rparr>)
     else None)"

definition blob_read :: "blob_ptr \<Rightarrow> blob_store \<Rightarrow> bytes blob_result" where
  "blob_read p s =
    (case oget (alloc_table s) (alloc_key_new (blob_ptr_class p) (blob_ptr_offset p)) of
       None \<Rightarrow> BErr MissingAllocEntry
     | Some entry \<Rightarrow>
         if ae_gen entry \<noteq> blob_ptr_gen p then BErr InvalidPointer
         else if ae_state entry = Free then BErr InvalidState
         else
           case checked_add (blob_ptr_offset p) (ucast (blob_ptr_len p)) of
             None \<Rightarrow> BErr Overflow
           | Some stop \<Rightarrow>
               if stop > bs_arena_end s then BErr InvalidPointer
               else
                 case arena_read (unat (blob_ptr_offset p)) (unat (blob_ptr_len p)) (bs_arena s) of
                   None \<Rightarrow> BTrap
                 | Some out \<Rightarrow> BOk out)"

definition blob_write :: "grow_fn \<Rightarrow> blob_ptr \<Rightarrow> bytes \<Rightarrow> blob_store \<Rightarrow> unit blob_result \<times> blob_store" where
  "blob_write grow p data s =
    (if length data \<noteq> unat (blob_ptr_len p) then (BErr LengthMismatch, s)
     else
       case oget (alloc_table s) (alloc_key_new (blob_ptr_class p) (blob_ptr_offset p)) of
         None \<Rightarrow> (BErr MissingAllocEntry, s)
       | Some entry \<Rightarrow>
           if ae_gen entry \<noteq> blob_ptr_gen p \<or> ae_state entry \<noteq> Used then (BErr InvalidState, s)
           else
             case checked_add (blob_ptr_offset p) (ucast (blob_ptr_class p)) of
               None \<Rightarrow> (BErr Overflow, s)
             | Some stop \<Rightarrow>
                 (case ensure_capacity grow stop s of
                    (BErr e, s') \<Rightarrow> (BErr e, s')
                  | (BTrap, s') \<Rightarrow> (BTrap, s')
                  | (BOk _, s') \<Rightarrow>
                      (case arena_write (unat (blob_ptr_offset p)) data (bs_arena s') of
                         None \<Rightarrow> (BTrap, s')
                       | Some ar \<Rightarrow> (BOk (), s'\<lparr>bs_arena := ar\<rparr>))))"

definition store_bytes :: "grow_fn \<Rightarrow> bytes \<Rightarrow> blob_store \<Rightarrow> blob_ptr blob_result \<times> blob_store" where
  "store_bytes grow data s =
    (case allocate grow (length data) s of
       (BErr e, s') \<Rightarrow> (BErr e, s')
     | (BTrap, s') \<Rightarrow> (BTrap, s')
     | (BOk p, s') \<Rightarrow>
         (case blob_write grow p data s' of
            (BErr e, s'') \<Rightarrow> (BErr e, s'')
          | (BTrap, s'') \<Rightarrow> (BTrap, s'')
          | (BOk _, s'') \<Rightarrow> (BOk p, s'')))"

definition mark_quarantine :: "blob_ptr \<Rightarrow> blob_store \<Rightarrow> unit blob_result \<times> blob_store" where
  "mark_quarantine p s =
    (let key = alloc_key_new (blob_ptr_class p) (blob_ptr_offset p)
     in case oget (alloc_table s) key of
          None \<Rightarrow> (BErr MissingAllocEntry, s)
        | Some entry \<Rightarrow>
            if ae_gen entry \<noteq> blob_ptr_gen p then (BErr InvalidPointer, s)
            else if ae_state entry = Quarantine then (BOk (), s)
            else if ae_state entry \<noteq> Used then (BErr InvalidState, s)
            else
              (BOk (),
               s\<lparr>alloc_table := oinsert key (entry\<lparr>ae_state := Quarantine\<rparr>) (alloc_table s),
                 usage_totals := (usage_totals s)
                   \<lparr>used_class_bytes :=
                      sat_sub (used_class_bytes (usage_totals s)) (class_u64 (blob_ptr_class p)),
                    quarantine_class_bytes :=
                      sat_add (quarantine_class_bytes (usage_totals s)) (class_u64 (blob_ptr_class p))\<rparr>\<rparr>))"

definition mark_free :: "blob_ptr \<Rightarrow> blob_store \<Rightarrow> unit blob_result \<times> blob_store" where
  "mark_free p s =
    (let key = alloc_key_new (blob_ptr_class p) (blob_ptr_offset p)
     in case oget (alloc_table s) key of
          None \<Rightarrow> (BErr MissingAllocEntry, s)
        | Some entry \<Rightarrow>
            if ae_gen entry \<noteq> blob_ptr_gen p then (BErr InvalidPointer, s)
            else if ae_state entry = Free then (BOk (), s)
            else if ae_state entry \<noteq> Quarantine then (BErr InvalidState, s)
            else if oget (free_list_by_class s) key \<noteq> None then (BErr DuplicateFree, s)
            else
              (BOk (),
               s\<lparr>alloc_table := oinsert key (entry\<lparr>ae_state := Free\<rparr>) (alloc_table s),
                 free_list_by_class := oinsert key () (free_list_by_class s),
                 usage_totals := (usage_totals s)
                   \<lparr>quarantine_class_bytes :=
                      sat_sub (quarantine_class_bytes (usage_totals s)) (class_u64 (blob_ptr_class p)),
                    free_class_bytes :=
                      sat_add (free_class_bytes (usage_totals s)) (class_u64 (blob_ptr_class p))\<rparr>\<rparr>))"

definition reclaim_for_prune :: "blob_ptr \<Rightarrow> blob_store \<Rightarrow> unit blob_result \<times> blob_store" where
  "reclaim_for_prune p s =
    (let key = alloc_key_new (blob_ptr_class p) (blob_ptr_offset p);
         c = class_u64 (blob_ptr_class p)
     in case oget (alloc_table s) key of
          None \<Rightarrow> (BErr MissingAllocEntry, s)
        | Some entry \<Rightarrow>
            if ae_gen entry \<noteq> blob_ptr_gen p then (BErr InvalidPointer, s)
            else if ae_state entry = Free then (BOk (), s)
            else if ae_state entry \<noteq> Quarantine \<and> ae_state entry \<noteq> Used then (BErr InvalidState, s)
            else
              let u = usage_totals s;
                  u1 = (case ae_state entry of
                      Used \<Rightarrow> u\<lparr>used_class_bytes := sat_sub (used_class_bytes u) c\<rparr>
                    | Quarantine \<Rightarrow> u\<lparr>quarantine_class_bytes := sat_sub (quarantine_class_bytes u) c\<rparr>
                    | Free \<Rightarrow> u)
              in (BOk (),
                  s\<lparr>alloc_table := oinsert key (entry\<lparr>ae_state := Free\<rparr>) (alloc_table s),
                    usage_totals := u1\<lparr>free_class_bytes := sat_add (free_class_bytes u1) c\<rparr>\<rparr>))"

definition usage_stats :: "blob_store \<Rightarrow> blob_usage_stats" where
  "usage_stats s = (usage_totals s)\<lparr>arena_end_bytes := bs_arena_end s\<rparr>"


section \<open>Keys, pointers and pages\<close>

interpretation blob_ptr_codec: codec blob_ptr_to_bytes blob_ptr_from_bytes "\<lambda>p. length p = 20" 20
  by unfold_locales (auto simp: blob_ptr_to_bytes_def blob_ptr_from_bytes_def)

interpretation alloc_entry_codec: codec alloc_entry_to_bytes alloc_entry_from_bytes "\<lambda>_. True" 8
proof
  fix e :: alloc_entry
  show "alloc_entry_from_bytes (fst (alloc_entry_to_bytes e)) = (e, [])"
    by (cases "ae_state e")
      (simp_all add: alloc_entry_to_bytes_def alloc_entry_from_bytes_def blob_state_from_u8_def nth_append)
qed (auto simp: alloc_entry_to_bytes_def)

lemma alloc_key_new_parts [simp]:
  "alloc_key_class (alloc_key_new c off) = c" "alloc_key_offset (alloc_key_new c off) = off"
  "length (alloc_key_new c off) = 12"
  by (simp_all add: alloc_key_new_def alloc_key_class_def alloc_key_offset_def)

lemma alloc_key_new_inj [simp]: "alloc_key_new c off = alloc_key_new c' off' \<longleftrightarrow> c = c' \<and> off = off'"
  by (metis alloc_key_new_parts(1,2))

lemma alloc_key_surj: "length k = 12 \<Longrightarrow> alloc_key_new (alloc_key_class k) (alloc_key_offset k) = k"
  by (simp add: alloc_key_new_def alloc_key_class_def alloc_key_offset_def to_be_bytes_from_be_bytes
      length_slice) (simp add: byte_slice_def)

lemma alloc_key_le:
  "alloc_key_new c off \<le> alloc_key_new c' off' \<longleftrightarrow> c < c' \<or> c = c' \<and> off \<le> off'"
  by (auto simp: le_less alloc_key_new_def append_less_iff to_be_bytes_less to_be_bytes_inj)

lemma alloc_key_in_class:
  assumes "length k = 12"
  shows "alloc_key_new c 0 \<le> k \<and> k \<le> alloc_key_new c (- 1) \<longleftrightarrow> alloc_key_class k = c"
proof -
  have "alloc_key_offset k \<le> - 1"
    using unat_bound [of "alloc_key_offset k"] by (simp add: word_le_nat_alt)
  then show ?thesis
    using alloc_key_le [of c 0 "alloc_key_class k" "alloc_key_offset k"]
      alloc_key_le [of "alloc_key_class k" "alloc_key_offset k" c "- 1"] alloc_key_surj [OF assms]
    by auto
qed

lemma blob_ptr_new_parts [simp]:
  "blob_ptr_offset (blob_ptr_new off len c g) = off" "blob_ptr_len (blob_ptr_new off len c g) = len"
  "blob_ptr_class (blob_ptr_new off len c g) = c" "blob_ptr_gen (blob_ptr_new off len c g) = g"
  by (simp_all add: blob_ptr_new_def blob_ptr_offset_def blob_ptr_len_def blob_ptr_class_def blob_ptr_gen_def)

lemma class_bounds: "c \<in> set classes \<Longrightarrow> 8192 \<le> unat c \<and> unat c \<le> 4194304"
  by (auto simp: classes_def)

lemma smallest_class_fits:
  "smallest_class n = Inr c \<Longrightarrow> c \<in> set classes \<and> 0 < n \<and> n \<le> unat c"
  by (auto simp: smallest_class_def find_Some_iff unat_try_of_nat word_le_nat_alt
      split: if_splits option.splits)

lemma smallest_class_least:
  "smallest_class n = Inr c \<Longrightarrow> d \<in> set classes \<Longrightarrow> n \<le> unat d \<Longrightarrow> unat c \<le> unat d"
  by (auto simp: smallest_class_def classes_def unat_try_of_nat word_le_nat_alt
      split: if_splits option.splits)

lemma pages_required_ok:
  "pages_required e = BOk r \<Longrightarrow> unat e \<le> unat r * 65536"
  by (auto simp: pages_required_def checked_sub_def checked_add_Some unat_word_div
      split: option.splits if_splits)


section \<open>The allocator invariant\<close>

abbreviation slot_start :: "alloc_key \<Rightarrow> nat" where
  "slot_start k \<equiv> unat (alloc_key_offset k)"

abbreviation slot_size :: "alloc_key \<Rightarrow> nat" where
  "slot_size k \<equiv> unat (alloc_key_class k)"

definition slots_disjoint :: "alloc_key \<Rightarrow> alloc_key \<Rightarrow> bool" where
  "slots_disjoint k k' \<longleftrightarrow> slot_start k + slot_size k \<le> slot_start k' \<or> slot_start k' + slot_size k' \<le> slot_start k"

definition slot_weight :: "blob_state \<Rightarrow> alloc_key \<Rightarrow> alloc_entry \<Rightarrow> nat" where
  "slot_weight st k e = (if ae_state e = st then slot_size k else 0)"

definition table_ok :: "(alloc_key, alloc_entry) omap \<Rightarrow> nat \<Rightarrow> bool" where
  "table_ok t stop \<longleftrightarrow>
    (\<forall>k e. oget t k = Some e \<longrightarrow>
      length k = 12 \<and> alloc_key_class k \<in> set classes \<and> ae_gen e \<noteq> 0 \<and> slot_start k + slot_size k \<le> stop)
    \<and> (\<forall>k e k' e'. oget t k = Some e \<longrightarrow> oget t k' = Some e' \<longrightarrow> k \<noteq> k' \<longrightarrow> slots_disjoint k k')"

definition free_ok :: "(alloc_key, alloc_entry) omap \<Rightarrow> (alloc_key, unit) omap \<Rightarrow> bool" where
  "free_ok t f \<longleftrightarrow> (\<forall>k. oget f k = Some () \<longrightarrow> (\<exists>e. oget t k = Some e \<and> ae_state e = Free))"

definition usage_ok :: "blob_usage_stats \<Rightarrow> (alloc_key, alloc_entry) omap \<Rightarrow> u64 \<Rightarrow> bool" where
  "usage_ok u t stop \<longleftrightarrow>
    unat (used_class_bytes u) = osum (slot_weight Used) t
    \<and> unat (quarantine_class_bytes u) = osum (slot_weight Quarantine) t
    \<and> unat (free_class_bytes u) = osum (slot_weight Free) t
    \<and> osum (slot_weight Used) t + osum (slot_weight Quarantine) t + osum (slot_weight Free) t = unat stop
    \<and> arena_end_bytes u = stop"

definition blob_inv :: "blob_store \<Rightarrow> bool" where
  "blob_inv s \<longleftrightarrow>
    table_ok (alloc_table s) (unat (bs_arena_end s))
    \<and> free_ok (alloc_table s) (free_list_by_class s)
    \<and> usage_ok (usage_totals s) (alloc_table s) (bs_arena_end s)
    \<and> unat (bs_arena_end s) \<le> unat (pages (bs_arena s)) * 65536"

abbreviation ptr_key :: "blob_ptr \<Rightarrow> alloc_key" where
  "ptr_key p \<equiv> alloc_key_new (blob_ptr_class p) (blob_ptr_offset p)"

definition live :: "blob_ptr \<Rightarrow> blob_store \<Rightarrow> bool" where
  "live p s \<longleftrightarrow> unat (blob_ptr_len p) \<le> unat (blob_ptr_class p) \<and>
    (\<exists>e. oget (alloc_table s) (ptr_key p) = Some e \<and> ae_gen e = blob_ptr_gen p \<and> ae_state e \<noteq> Free)"

definition stale :: "blob_ptr \<Rightarrow> blob_store \<Rightarrow> bool" where
  "stale p s \<longleftrightarrow>
    (\<exists>e. oget (alloc_table s) (ptr_key p) = Some e \<and>
      (blob_ptr_gen p < ae_gen e \<or> blob_ptr_gen p = ae_gen e \<and> ae_state e = Free))"

lemma unat_class_u64 [simp]: "unat (class_u64 c) = unat c"
  unfolding class_u64_def by (rule unat_ucast_fit) (use unsigned_less [of c, where 'a = nat] in simp)

lemma table_ok_retag:
  "table_ok t stop \<Longrightarrow> oget t k = Some e \<Longrightarrow> ae_gen e' \<noteq> 0 \<Longrightarrow> table_ok (oinsert k e' t) stop"
  unfolding table_ok_def by (auto split: if_splits)

lemma table_ok_carve:
  assumes "table_ok t stop" and "c \<in> set classes" and "unat off = stop" and "ae_gen e \<noteq> 0"
  shows "table_ok (oinsert (alloc_key_new c off) e t) (stop + unat c)"
proof -
  have le: "slot_start k + slot_size k \<le> stop" if "oget t k = Some e'" for k e'
    using assms(1) that by (auto simp: table_ok_def)
  show ?thesis
    using assms le unfolding table_ok_def slots_disjoint_def
    by (auto split: if_splits) (fastforce dest: le)+
qed

lemma osum_move:
  assumes "oget t k = Some e" and "ae_state e \<noteq> ae_state e'"
  shows "slot_size k \<le> osum (slot_weight (ae_state e)) t"
    and "osum (slot_weight st) (oinsert k e' t) =
      (if st = ae_state e then osum (slot_weight st) t - slot_size k
       else if st = ae_state e' then osum (slot_weight st) t + slot_size k
       else osum (slot_weight st) t)"
  using osum_oinsert [of "slot_weight st" k e' t] osum_ge [of t k e "slot_weight (ae_state e)"] assms
  by (auto simp: slot_weight_def)

lemma osum_carve:
  "oget t k = None \<Longrightarrow> osum (slot_weight st) (oinsert k e t)
    = (if st = ae_state e then osum (slot_weight st) t + slot_size k else osum (slot_weight st) t)"
  using osum_oinsert [of "slot_weight st" k e t] by (auto simp: slot_weight_def)

lemma carve_key_fresh: "table_ok t stop \<Longrightarrow> unat off = stop \<Longrightarrow> oget t (alloc_key_new c off) = None"
proof (rule ccontr)
  assume ok: "table_ok t stop" and off: "unat off = stop" and "oget t (alloc_key_new c off) \<noteq> None"
  then have "c \<in> set classes" and "unat off + unat c \<le> stop"
    unfolding table_ok_def by (metis alloc_key_new_parts(1,2) not_None_eq)+
  with off show False
    using class_bounds [of c] by simp
qed

lemma usage_ok_bounds:
  "usage_ok u t stop \<Longrightarrow> osum (slot_weight Used) t \<le> unat stop"
  "usage_ok u t stop \<Longrightarrow> osum (slot_weight Quarantine) t \<le> unat stop"
  "usage_ok u t stop \<Longrightarrow> osum (slot_weight Free) t \<le> unat stop"
  by (auto simp: usage_ok_def)


lemma u64_sum_fits: "unat (a :: u64) + n \<le> unat (b :: u64) \<Longrightarrow> min (unat a + n) (2 ^ 64 - 1) = unat a + n"
  using unat_bound [of b] by simp

lemma usage_ok_move:
  assumes u: "usage_ok u t stop" and k: "oget t k = Some e" and ne: "ae_state e \<noteq> ae_state e'"
    and c: "unat c = slot_size k"
  shows "ae_state e = Free \<Longrightarrow> ae_state e' = Used \<Longrightarrow>
      usage_ok (u\<lparr>free_class_bytes := sat_sub (free_class_bytes u) c,
        used_class_bytes := sat_add (used_class_bytes u) c\<rparr>) (oinsert k e' t) stop"
    and "ae_state e = Used \<Longrightarrow> ae_state e' = Quarantine \<Longrightarrow>
      usage_ok (u\<lparr>used_class_bytes := sat_sub (used_class_bytes u) c,
        quarantine_class_bytes := sat_add (quarantine_class_bytes u) c\<rparr>) (oinsert k e' t) stop"
    and "ae_state e = Quarantine \<Longrightarrow> ae_state e' = Free \<Longrightarrow>
      usage_ok (u\<lparr>quarantine_class_bytes := sat_sub (quarantine_class_bytes u) c,
        free_class_bytes := sat_add (free_class_bytes u) c\<rparr>) (oinsert k e' t) stop"
    and "ae_state e = Used \<Longrightarrow> ae_state e' = Free \<Longrightarrow>
      usage_ok (u\<lparr>used_class_bytes := sat_sub (used_class_bytes u) c,
        free_class_bytes := sat_add (free_class_bytes u) c\<rparr>) (oinsert k e' t) stop"
  using u osum_move [OF k ne] c unat_bound [of stop]
  unfolding usage_ok_def by (auto simp: unat_sat_add unat_sat_sub)

lemma free_ok_retag:
  "free_ok t f \<Longrightarrow> oget f k = None \<or> ae_state e' = Free \<Longrightarrow> free_ok (oinsert k e' t) f"
  unfolding free_ok_def by auto

lemma free_ok_remove: "free_ok t f \<Longrightarrow> free_ok t (oremove k f)"
  unfolding free_ok_def by (auto split: if_splits)

lemma class_range_mem:
  "(k, v) \<in> set (class_range (entries m) lo hi) \<longleftrightarrow> oget m k = Some v \<and> lo \<le> k \<and> k \<le> hi"
  by (auto simp: class_range_def oget_entries)

lemma pop_free_cases:
  assumes "pop_free c s = (r, s')"
  obtains (listed) k where "oget (free_list_by_class s) k = Some ()"
      "alloc_key_new c 0 \<le> k" "k \<le> alloc_key_new c (- 1)" "r = Some (alloc_key_offset k)"
      "s' = s\<lparr>free_list_by_class := oremove k (free_list_by_class s)\<rparr>"
  | (scanned) k e where "s' = s" "r = Some (alloc_key_offset k)" "oget (alloc_table s) k = Some e"
      "ae_state e = Free" "alloc_key_new c 0 \<le> k" "k \<le> alloc_key_new c (- 1)" "oget (free_list_by_class s) k = None"
  | (none) "s' = s" "r = None"
proof (cases "class_range (entries (free_list_by_class s)) (alloc_key_new c 0) (alloc_key_new c (- 1))")
  case Nil
  let ?es = "class_range (entries (alloc_table s)) (alloc_key_new c 0) (alloc_key_new c (- 1))"
  have s': "s' = s" and r: "r = map_option (\<lambda>e. alloc_key_offset (fst e)) (find (\<lambda>e. ae_state (snd e) = Free) ?es)"
    using assms Nil by (auto simp: pop_free_def)
  show thesis
  proof (cases "find (\<lambda>e. ae_state (snd e) = Free) ?es")
    case None
    with s' r none show thesis
      by simp
  next
    case (Some a)
    obtain k e where a: "a = (k, e)"
      by (cases a)
    with Some have "(k, e) \<in> set ?es" "ae_state e = Free"
      by (auto dest: find_Some_mem)
    moreover have "oget (free_list_by_class s) k = None" if "(k, e) \<in> set ?es"
      using that class_range_mem [of k "()" "free_list_by_class s" "alloc_key_new c 0" "alloc_key_new c (- 1)"]
      unfolding Nil by (cases "oget (free_list_by_class s) k") (auto simp: class_range_mem)
    ultimately show thesis
      using s' r Some a scanned [of k e] by (auto simp: class_range_mem)
  qed
next
  case (Cons a l)
  obtain k u where a: "a = (k, u)"
    by (cases a)
  have "(k, u) \<in> set (class_range (entries (free_list_by_class s)) (alloc_key_new c 0) (alloc_key_new c (- 1)))"
    using Cons a by simp
  then have "oget (free_list_by_class s) k = Some () \<and> alloc_key_new c 0 \<le> k \<and> k \<le> alloc_key_new c (- 1)"
    unfolding class_range_mem by simp
  then show thesis
    using assms Cons a listed [of k] by (auto simp: pop_free_def)
qed

lemma pop_free_spec:
  assumes inv: "blob_inv s" and pop: "pop_free c s = (r, s')"
  shows "blob_inv s' \<and> alloc_table s' = alloc_table s \<and> bs_arena s' = bs_arena s \<and> bs_arena_end s' = bs_arena_end s
    \<and> (\<forall>off. r = Some off \<longrightarrow> oget (free_list_by_class s') (alloc_key_new c off) = None \<and>
      (\<exists>e. oget (alloc_table s) (alloc_key_new c off) = Some e \<and> ae_state e = Free))"
proof -
  have key: "alloc_key_new c (alloc_key_offset k) = k"
    if "alloc_key_new c 0 \<le> k" "k \<le> alloc_key_new c (- 1)" "oget (alloc_table s) k = Some e" for k e
  proof -
    have "length k = 12"
      using inv that by (auto simp: blob_inv_def table_ok_def)
    then show ?thesis
      using that alloc_key_in_class [of k c] alloc_key_surj [of k] by auto
  qed
  show ?thesis
    using pop
  proof (cases rule: pop_free_cases)
    case (listed k)
    then obtain e where "oget (alloc_table s) k = Some e" "ae_state e = Free"
      using inv by (auto simp: blob_inv_def free_ok_def)
    then show ?thesis
      using listed key [of k e] inv free_ok_remove by (auto simp: blob_inv_def)
  next
    case (scanned k e)
    then show ?thesis
      using key [of k e] inv by auto
  qed (use inv in simp)
qed


section \<open>Allocation\<close>

lemma ensure_capacity_spec:
  assumes "ensure_capacity grow stop s = (r, s')"
  shows "s' = s\<lparr>bs_arena := (bs_arena s)\<lparr>pages := pages (bs_arena s')\<rparr>\<rparr>"
    and "unat (pages (bs_arena s)) \<le> unat (pages (bs_arena s'))"
    and "r \<noteq> BTrap"
    and "r = BOk () \<Longrightarrow> unat stop \<le> unat (pages (bs_arena s')) * 65536"
proof -
  have trap: "pages_required stop \<noteq> BTrap"
    by (auto simp: pages_required_def split: option.split)
  have grow: "pages (bs_arena s) + sat_sub q (pages (bs_arena s)) = q" if "pages (bs_arena s) < q" for q
    using that by (simp add: sat_sub_def less_imp_le)
  show "s' = s\<lparr>bs_arena := (bs_arena s)\<lparr>pages := pages (bs_arena s')\<rparr>\<rparr>"
    "unat (pages (bs_arena s)) \<le> unat (pages (bs_arena s'))" "r \<noteq> BTrap"
    using assms trap
    by (auto simp: ensure_capacity_def Let_def grow word_less_nat_alt less_imp_le
        split: blob_result.splits if_splits)
  show "unat stop \<le> unat (pages (bs_arena s')) * 65536" if ok: "r = BOk ()"
  proof -
    obtain q where q: "pages_required stop = BOk q" "unat q \<le> unat (pages (bs_arena s'))"
      using assms ok trap
      by (auto simp: ensure_capacity_def Let_def grow word_le_nat_alt not_less
          split: blob_result.splits if_splits)
    then show ?thesis
      using pages_required_ok [OF q(1)] mult_le_mono1 [OF q(2), of 65536] by simp
  qed
qed

definition alloc_effect :: "nat \<Rightarrow> blob_store \<Rightarrow> blob_ptr blob_result \<Rightarrow> blob_store \<Rightarrow> bool" where
  "alloc_effect n s r s' \<longleftrightarrow>
    blob_inv s' \<and> cells (bs_arena s') = cells (bs_arena s)
    \<and> unat (bs_arena_end s) \<le> unat (bs_arena_end s')
    \<and> (case r of
         BTrap \<Rightarrow> False
       | BErr err \<Rightarrow> alloc_table s' = alloc_table s \<and> bs_arena_end s' = bs_arena_end s
           \<and> (err = Overflow \<or> err = GrowFailed \<or> (\<exists>e. err = SizeClass e \<and> smallest_class n = Inl e))
       | BOk p \<Rightarrow>
           unat (blob_ptr_len p) = n \<and> smallest_class n = Inr (blob_ptr_class p)
           \<and> oget (alloc_table s') (ptr_key p) = Some \<lparr>ae_gen = blob_ptr_gen p, ae_state = Used\<rparr>
           \<and> (\<forall>k. k \<noteq> ptr_key p \<longrightarrow> oget (alloc_table s') k = oget (alloc_table s) k)
           \<and> (case oget (alloc_table s) (ptr_key p) of
                None \<Rightarrow> True
              | Some e \<Rightarrow> ae_state e = Free \<and> unat (blob_ptr_gen p) = Suc (unat (ae_gen e))))"

lemma reuse_slot_effect:
  assumes inv: "blob_inv s" and c: "smallest_class n = Inr c" and n: "unat len = n"
    and free: "oget (free_list_by_class s) (alloc_key_new c off) = None"
    and e: "oget (alloc_table s) (alloc_key_new c off) = Some e" "ae_state e = Free"
    and r: "reuse_slot c len off s = (r, s')"
  shows "alloc_effect n s r s'"
proof (cases "checked_add (ae_gen e) 1")
  case None
  with inv e r show ?thesis
    by (auto simp: reuse_slot_def alloc_effect_def)
next
  case (Some g)
  let ?k = "alloc_key_new c off" and ?e = "\<lparr>ae_gen = g, ae_state = Used\<rparr>"
  have g: "unat g = Suc (unat (ae_gen e))"
    using Some by (simp add: checked_add_Some)
  then have "g \<noteq> 0"
    by auto
  moreover have "usage_ok ((usage_totals s)
      \<lparr>free_class_bytes := sat_sub (free_class_bytes (usage_totals s)) (class_u64 c),
       used_class_bytes := sat_add (used_class_bytes (usage_totals s)) (class_u64 c)\<rparr>)
      (oinsert ?k ?e (alloc_table s)) (bs_arena_end s)"
    using inv e by (intro usage_ok_move(1) [of _ _ _ ?k e]) (auto simp: blob_inv_def)
  ultimately have "blob_inv (s\<lparr>alloc_table := oinsert ?k ?e (alloc_table s), usage_totals := (usage_totals s)
      \<lparr>free_class_bytes := sat_sub (free_class_bytes (usage_totals s)) (class_u64 c),
       used_class_bytes := sat_add (used_class_bytes (usage_totals s)) (class_u64 c)\<rparr>\<rparr>)"
    using inv e free table_ok_retag [of "alloc_table s" _ ?k e ?e] free_ok_retag [of "alloc_table s" _ ?k ?e]
    by (simp add: blob_inv_def)
  then show ?thesis
    using r e Some c n g by (auto simp: reuse_slot_def finish_allocate_def current_gen_def alloc_effect_def)
qed

lemma carve_slot_effect:
  assumes inv: "blob_inv s" and c: "smallest_class n = Inr c" and n: "unat len = n"
    and r: "carve_slot grow c len s = (r, s')"
  shows "alloc_effect n s r s'"
proof (cases "checked_add (bs_arena_end s) (class_u64 c)")
  case None
  with inv r show ?thesis
    by (auto simp: carve_slot_def alloc_effect_def)
next
  case (Some stop)
  have stop: "unat stop = unat (bs_arena_end s) + unat c"
    using Some by (simp add: checked_add_Some)
  obtain rc s1 where cap: "ensure_capacity grow stop s = (rc, s1)"
    by (cases "ensure_capacity grow stop s")
  note spec = ensure_capacity_spec [OF cap]
  have same: "alloc_table s1 = alloc_table s" "free_list_by_class s1 = free_list_by_class s"
    "usage_totals s1 = usage_totals s" "bs_arena_end s1 = bs_arena_end s" "cells (bs_arena s1) = cells (bs_arena s)"
    by (subst spec(1), simp)+
  have inv1: "blob_inv s1"
    using inv spec(2) unfolding blob_inv_def same by auto
  show ?thesis
  proof (cases rc)
    case (BErr err)
    with inv1 r Some cap same spec show ?thesis
      by (auto simp: carve_slot_def alloc_effect_def ensure_capacity_def pages_required_def Let_def
          split: option.splits if_splits)
  next
    case (BOk u)
    let ?k = "alloc_key_new c (bs_arena_end s)" and ?e = "\<lparr>ae_gen = 1, ae_state = Used\<rparr>"
    have cls: "c \<in> set classes"
      using smallest_class_fits [OF c] by simp
    have t: "table_ok (alloc_table s) (unat (bs_arena_end s))"
      using inv by (simp add: blob_inv_def)
    have fresh: "oget (alloc_table s) ?k = None"
      using carve_key_fresh [OF t] by simp
    have "usage_ok ((usage_totals s)\<lparr>used_class_bytes := sat_add (used_class_bytes (usage_totals s)) (class_u64 c),
        arena_end_bytes := stop\<rparr>) (oinsert ?k ?e (alloc_table s)) stop"
      using inv osum_carve [OF fresh, of _ ?e] stop unat_bound [of stop]
      by (auto simp: blob_inv_def usage_ok_def unat_sat_add)
    moreover have "table_ok (oinsert ?k ?e (alloc_table s)) (unat stop)"
      using table_ok_carve [OF t cls, of "bs_arena_end s" ?e] stop by simp
    moreover have "free_ok (oinsert ?k ?e (alloc_table s)) (free_list_by_class s)"
      using inv fresh by (auto simp: blob_inv_def free_ok_def)
    ultimately show ?thesis
      using r Some cap BOk c n spec(4) fresh stop
      by (auto simp: carve_slot_def finish_allocate_def current_gen_def alloc_effect_def blob_inv_def same Let_def)
  qed (use spec(3) in simp)
qed

lemma allocate_effect:
  assumes inv: "blob_inv s" and r: "allocate grow n s = (r, s')"
  shows "alloc_effect n s r s'"
proof (cases "smallest_class n")
  case (Inl e)
  with inv r show ?thesis
    by (auto simp: allocate_def alloc_effect_def)
next
  case (Inr c)
  obtain len :: u32 where len: "try_of_nat n = Some len" "unat len = n"
    using Inr by (auto simp: smallest_class_def unat_try_of_nat split: if_splits option.splits)
  obtain off s1 where pop: "pop_free c s = (off, s1)"
    by (cases "pop_free c s")
  note spec = pop_free_spec [OF inv pop]
  have "alloc_effect n s1 r s'"
  proof (cases off)
    case None
    then show ?thesis
      using r Inr len pop spec carve_slot_effect [of s1 n c len grow r s'] by (auto simp: allocate_def)
  next
    case (Some v)
    then show ?thesis
      using r Inr len pop spec reuse_slot_effect [of s1 n c len v _ r s'] by (auto simp: allocate_def)
  qed
  then show ?thesis
    using spec by (auto simp: alloc_effect_def split: blob_result.splits)
qed


section \<open>Reading, writing and freeing\<close>

lemma unat_len_widen [simp]: "unat (ucast (l :: u32) :: u64) = unat l"
  by (rule unat_ucast_fit) (use unsigned_less [of l, where 'a = nat] in simp)

abbreviation ptr_start :: "blob_ptr \<Rightarrow> nat" where
  "ptr_start p \<equiv> unat (blob_ptr_offset p)"

definition ptr_cells :: "blob_ptr \<Rightarrow> (nat \<Rightarrow> u8) \<Rightarrow> bytes" where
  "ptr_cells p m = map m [ptr_start p ..< ptr_start p + unat (blob_ptr_len p)]"

lemma live_in_arena:
  assumes "blob_inv s" and "live p s"
  shows "ptr_start p + unat (blob_ptr_class p) \<le> unat (bs_arena_end s)"
    and "ptr_start p + unat (blob_ptr_len p) \<le> unat (bs_arena_end s)"
proof -
  obtain e where "oget (alloc_table s) (ptr_key p) = Some e" and l: "unat (blob_ptr_len p) \<le> unat (blob_ptr_class p)"
    using assms(2) by (auto simp: live_def)
  then show "ptr_start p + unat (blob_ptr_class p) \<le> unat (bs_arena_end s)"
    using assms(1) unfolding blob_inv_def table_ok_def by (metis alloc_key_new_parts(1,2))
  with l show "ptr_start p + unat (blob_ptr_len p) \<le> unat (bs_arena_end s)"
    by simp
qed

lemma blob_read_live:
  assumes inv: "blob_inv s" and live: "live p s"
  shows "blob_read p s = BOk (ptr_cells p (cells (bs_arena s)))"
proof -
  obtain e where e: "oget (alloc_table s) (ptr_key p) = Some e" "ae_gen e = blob_ptr_gen p" "ae_state e \<noteq> Free"
    using live by (auto simp: live_def)
  have le: "ptr_start p + unat (blob_ptr_len p) \<le> unat (bs_arena_end s)"
    by (rule live_in_arena(2) [OF inv live])
  then obtain stop where stop: "checked_add (blob_ptr_offset p) (ucast (blob_ptr_len p)) = Some stop"
    using unat_bound [of "bs_arena_end s"] by (simp add: checked_add_def)
  then have "unat stop = ptr_start p + unat (blob_ptr_len p)"
    by (simp add: checked_add_Some)
  moreover have "ptr_start p + unat (blob_ptr_len p) \<le> unat (pages (bs_arena s)) * 65536"
    using le inv by (simp add: blob_inv_def)
  ultimately show ?thesis
    using e stop le by (simp add: blob_read_def arena_read_def word_less_nat_alt ptr_cells_def)
qed

lemma blob_read_stale: "stale p s \<Longrightarrow> \<exists>err. blob_read p s = BErr err"
  by (auto simp: stale_def blob_read_def)

lemma ptr_cells_other:
  assumes "blob_inv s" and "live p s" and "live q s" and "ptr_key p \<noteq> ptr_key q"
    and "length data \<le> unat (blob_ptr_class p)"
    and m': "m' = (\<lambda>a. if ptr_start p \<le> a \<and> a < ptr_start p + length data then data ! (a - ptr_start p) else m a)"
  shows "ptr_cells q m' = ptr_cells q m"
proof -
  obtain ep eq where "oget (alloc_table s) (ptr_key p) = Some ep" "oget (alloc_table s) (ptr_key q) = Some eq"
    using assms(2,3) by (auto simp: live_def)
  then have "slots_disjoint (ptr_key p) (ptr_key q)"
    using assms(1,4) unfolding blob_inv_def table_ok_def by blast
  moreover have "unat (blob_ptr_len q) \<le> unat (blob_ptr_class q)"
    using assms(3) by (simp add: live_def)
  ultimately show ?thesis
    using assms(5) unfolding m' ptr_cells_def slots_disjoint_def by auto
qed

definition same_slots :: "blob_store \<Rightarrow> blob_store \<Rightarrow> bool" where
  "same_slots s s' \<longleftrightarrow> alloc_table s' = alloc_table s \<and> free_list_by_class s' = free_list_by_class s
    \<and> bs_arena_end s' = bs_arena_end s \<and> usage_totals s' = usage_totals s"

lemma same_slots_live: "same_slots s s' \<Longrightarrow> live p s' \<longleftrightarrow> live p s"
  by (simp add: same_slots_def live_def)

lemma blob_write_cases:
  assumes "blob_write grow p data s = (r, s')"
  obtains (refused) err where "r = BErr err" "s' = s"
  | (reached) stop rc s1 where "length data = unat (blob_ptr_len p)"
      "unat stop = ptr_start p + unat (blob_ptr_class p)" "ensure_capacity grow stop s = (rc, s1)"
      "(case rc of BErr err \<Rightarrow> r = BErr err \<and> s' = s1 | BTrap \<Rightarrow> r = BTrap \<and> s' = s1
        | BOk _ \<Rightarrow> (case arena_write (ptr_start p) data (bs_arena s1) of
            None \<Rightarrow> r = BTrap \<and> s' = s1 | Some ar \<Rightarrow> r = BOk () \<and> s' = s1\<lparr>bs_arena := ar\<rparr>))"
proof (cases "\<exists>err. r = BErr err \<and> s' = s")
  case False
  then obtain stop where add: "checked_add (blob_ptr_offset p) (ucast (blob_ptr_class p)) = Some stop"
    and len: "length data = unat (blob_ptr_len p)"
    using assms by (auto simp: blob_write_def split: if_splits option.splits)
  obtain rc s1 where cap: "ensure_capacity grow stop s = (rc, s1)"
    by (cases "ensure_capacity grow stop s")
  have "unat stop = ptr_start p + unat (blob_ptr_class p)"
    using add by (simp add: checked_add_Some)
  from reached [OF len this cap] show thesis
    using assms False len add cap
    by (auto simp: blob_write_def split: if_splits option.splits blob_result.splits)
qed (use refused in blast)

lemma blob_write_effect:
  assumes inv: "blob_inv s" and live: "live p s" and w: "blob_write grow p data s = (r, s')"
  shows "blob_inv s' \<and> same_slots s s' \<and> r \<noteq> BTrap
    \<and> (r = BOk () \<longrightarrow> blob_read p s' = BOk data)
    \<and> (\<forall>q. live q s \<longrightarrow> ptr_key p \<noteq> ptr_key q \<longrightarrow> blob_read q s' = blob_read q s)"
  using w
proof (cases rule: blob_write_cases)
  case (refused err)
  with inv show ?thesis
    by (simp add: same_slots_def)
next
  case (reached stop rc s1)
  note spec = ensure_capacity_spec [OF reached(3)]
  have s1: "same_slots s s1" "cells (bs_arena s1) = cells (bs_arena s)"
    unfolding same_slots_def by (subst spec(1), simp)+
  have inv1: "blob_inv s1"
    using inv s1 spec(2) unfolding blob_inv_def same_slots_def by auto
  have frame1: "blob_read q s1 = blob_read q s" if "live q s" for q
    using that inv inv1 s1 by (simp add: blob_read_live same_slots_live)
  show ?thesis
  proof (cases rc)
    case (BErr err)
    with reached inv1 s1 frame1 show ?thesis
      by simp
  next
    case (BOk u)
    have len: "length data \<le> unat (blob_ptr_class p)"
      using live reached(1) by (simp add: live_def)
    have fits: "ptr_start p + length data \<le> unat (pages (bs_arena s1)) * 65536"
      using spec(4) BOk len reached(2) by simp
    define m where "m = (\<lambda>a. if ptr_start p \<le> a \<and> a < ptr_start p + length data
      then data ! (a - ptr_start p) else cells (bs_arena s1) a)"
    have m: "m = (\<lambda>a. if ptr_start p \<le> a \<and> a < ptr_start p + length data
      then data ! (a - ptr_start p) else cells (bs_arena s) a)"
      unfolding m_def s1(2) ..
    have r: "r = BOk ()" and s': "s' = s1\<lparr>bs_arena := (bs_arena s1)\<lparr>cells := m\<rparr>\<rparr>"
      using reached(4) BOk fits by (auto simp: arena_write_def m_def)
    have same: "same_slots s s'"
      using s1 s' by (simp add: same_slots_def)
    have inv': "blob_inv s'"
      using inv1 s' by (simp add: blob_inv_def)
    have "blob_read p s' = BOk data"
      using inv' live same reached(1) s'
      by (simp add: blob_read_live same_slots_live ptr_cells_def m_def list_eq_iff_nth_eq)
    moreover have "blob_read q s' = blob_read q s" if "live q s" "ptr_key p \<noteq> ptr_key q" for q
      using that inv inv' same s' ptr_cells_other [OF inv live that len m]
      by (simp add: blob_read_live same_slots_live)
    ultimately show ?thesis
      using inv' same r by simp
  qed (use spec(3) in simp)
qed

lemma store_bytes_effect:
  assumes inv: "blob_inv s" and st: "store_bytes grow data s = (r, s')"
  shows "blob_inv s' \<and> r \<noteq> BTrap
    \<and> (\<forall>p. r = BOk p \<longrightarrow> live p s' \<and> \<not> live p s \<and> blob_read p s' = BOk data)
    \<and> (\<forall>q. live q s \<longrightarrow> live q s' \<and> blob_read q s' = blob_read q s)"
proof -
  obtain ra s1 where al: "allocate grow (length data) s = (ra, s1)"
    by (cases "allocate grow (length data) s")
  note eff = allocate_effect [OF inv al, unfolded alloc_effect_def]
  have inv1: "blob_inv s1" and cells: "cells (bs_arena s1) = cells (bs_arena s)"
    using eff by auto
  show ?thesis
  proof (cases ra)
    case (BErr err)
    then have "live q s1 \<longleftrightarrow> live q s" for q
      using eff by (simp add: live_def)
    with BErr al st inv inv1 cells show ?thesis
      by (auto simp: store_bytes_def blob_read_live)
  next
    case (BOk p)
    obtain rw s2 where w: "blob_write grow p data s1 = (rw, s2)"
      by (cases "blob_write grow p data s1")
    have p: "live p s1" "\<not> live p s"
      using eff BOk smallest_class_fits [of "length data" "blob_ptr_class p"]
      by (auto simp: live_def split: option.splits)
    have old: "live q s1 \<and> ptr_key p \<noteq> ptr_key q \<and> blob_read q s1 = blob_read q s" if q: "live q s" for q
    proof -
      have "ptr_key p \<noteq> ptr_key q"
        using q eff BOk by (auto simp: live_def split: option.splits)
      then have "live q s1"
        using q eff BOk by (auto simp: live_def)
      with q inv inv1 cells \<open>ptr_key p \<noteq> ptr_key q\<close> show ?thesis
        by (simp add: blob_read_live)
    qed
    note we = blob_write_effect [OF inv1 p(1) w]
    have "s' = s2" "r = (case rw of BErr e \<Rightarrow> BErr e | BTrap \<Rightarrow> BTrap | BOk _ \<Rightarrow> BOk p)"
      using st al BOk w by (auto simp: store_bytes_def split: blob_result.splits)
    then show ?thesis
      using we p old by (auto simp: same_slots_live split: blob_result.splits)
  qed (use eff in simp)
qed

lemma store_bytes_fresh_key:
  assumes "blob_inv s" and "store_bytes grow data s = (BOk p, s')" and "live q s"
  shows "ptr_key p \<noteq> ptr_key q"
proof -
  obtain s1 where "allocate grow (length data) s = (BOk p, s1)"
    using assms(2) by (auto simp: store_bytes_def split: prod.splits blob_result.splits)
  from allocate_effect [OF assms(1) this] show ?thesis
    using assms(3) by (auto simp: alloc_effect_def live_def split: option.splits)
qed


lemma blob_inv_retag:
  assumes inv: "blob_inv s" and e: "oget (alloc_table s) k = Some e"
    and u: "usage_ok u (oinsert k (e\<lparr>ae_state := st\<rparr>) (alloc_table s)) (bs_arena_end s)"
    and f: "free_ok (oinsert k (e\<lparr>ae_state := st\<rparr>) (alloc_table s)) f"
  shows "blob_inv (s\<lparr>alloc_table := oinsert k (e\<lparr>ae_state := st\<rparr>) (alloc_table s),
    free_list_by_class := f, usage_totals := u\<rparr>)"
proof -
  have "ae_gen e \<noteq> 0"
    using inv e by (auto simp: blob_inv_def table_ok_def)
  then show ?thesis
    using inv e u f table_ok_retag [of "alloc_table s" _ k e "e\<lparr>ae_state := st\<rparr>"] by (simp add: blob_inv_def)
qed

definition retagged :: "blob_ptr \<Rightarrow> blob_state set \<Rightarrow> blob_store \<Rightarrow> blob_store \<Rightarrow> bool" where
  "retagged p sts s s' \<longleftrightarrow> blob_inv s' \<and> bs_arena s' = bs_arena s \<and> bs_arena_end s' = bs_arena_end s
    \<and> (\<exists>e st. oget (alloc_table s) (ptr_key p) = Some e \<and> ae_gen e = blob_ptr_gen p \<and> st \<in> sts
        \<and> alloc_table s' = oinsert (ptr_key p) (e\<lparr>ae_state := st\<rparr>) (alloc_table s))"

lemma used_not_listed: "blob_inv s \<Longrightarrow> oget (alloc_table s) k = Some e \<Longrightarrow> ae_state e \<noteq> Free \<Longrightarrow>
    oget (free_list_by_class s) k = None"
  by (cases "oget (free_list_by_class s) k") (auto simp: blob_inv_def free_ok_def)

lemma retagged_same:
  assumes "blob_inv s" and "oget (alloc_table s) (ptr_key p) = Some e" and "ae_gen e = blob_ptr_gen p"
    and "ae_state e \<in> sts"
  shows "retagged p sts s s"
proof -
  have "e\<lparr>ae_state := ae_state e\<rparr> = e"
    by simp
  then show ?thesis
    using assms oinsert_same [OF assms(2)] unfolding retagged_def by metis
qed

lemma retagged_move:
  assumes inv: "blob_inv s" and e: "oget (alloc_table s) (ptr_key p) = Some e" "ae_gen e = blob_ptr_gen p"
    and u: "usage_ok u (oinsert (ptr_key p) (e\<lparr>ae_state := st\<rparr>) (alloc_table s)) (bs_arena_end s)"
    and f: "free_ok (oinsert (ptr_key p) (e\<lparr>ae_state := st\<rparr>) (alloc_table s)) f"
    and st: "st \<in> sts"
  shows "retagged p sts s (s\<lparr>alloc_table := oinsert (ptr_key p) (e\<lparr>ae_state := st\<rparr>) (alloc_table s),
    free_list_by_class := f, usage_totals := u\<rparr>)"
  using blob_inv_retag [OF inv e(1) u f] e st unfolding retagged_def by auto

lemma mark_quarantine_effect:
  assumes inv: "blob_inv s" and q: "mark_quarantine p s = (r, s')"
  shows "(\<exists>err. r = BErr err \<and> s' = s) \<or> r = BOk () \<and> retagged p {Quarantine} s s'"
proof (cases "\<exists>err. r = BErr err")
  case True
  with q show ?thesis
    by (auto simp: mark_quarantine_def Let_def split: option.splits if_splits)
next
  case False
  then obtain e where e: "oget (alloc_table s) (ptr_key p) = Some e" "ae_gen e = blob_ptr_gen p"
    and st: "ae_state e = Quarantine \<or> ae_state e = Used" and r: "r = BOk ()"
    using q by (auto simp: mark_quarantine_def Let_def split: option.splits if_splits)
  show ?thesis
  proof (cases "ae_state e = Quarantine")
    case True
    then show ?thesis
      using q e r retagged_same [OF inv e] by (auto simp: mark_quarantine_def Let_def)
  next
    case False
    with st have used: "ae_state e = Used"
      by simp
    let ?u = "(usage_totals s)
      \<lparr>used_class_bytes := sat_sub (used_class_bytes (usage_totals s)) (class_u64 (blob_ptr_class p)),
       quarantine_class_bytes := sat_add (quarantine_class_bytes (usage_totals s)) (class_u64 (blob_ptr_class p))\<rparr>"
    have u: "usage_ok ?u (oinsert (ptr_key p) (e\<lparr>ae_state := Quarantine\<rparr>) (alloc_table s)) (bs_arena_end s)"
      by (rule usage_ok_move(2) [OF _ e(1)]) (use inv used in \<open>auto simp: blob_inv_def\<close>)
    have f: "free_ok (oinsert (ptr_key p) (e\<lparr>ae_state := Quarantine\<rparr>) (alloc_table s)) (free_list_by_class s)"
      using inv used_not_listed [OF inv e(1)] used free_ok_retag by (auto simp: blob_inv_def)
    show ?thesis
      using retagged_move [OF inv e u f] q e r used by (auto simp: mark_quarantine_def Let_def)
  qed
qed

lemma mark_free_effect:
  assumes inv: "blob_inv s" and q: "mark_free p s = (r, s')"
  shows "(\<exists>err. r = BErr err \<and> s' = s \<and> err \<noteq> DuplicateFree) \<or> r = BOk () \<and> retagged p {Free} s s'"
proof (cases "\<exists>err. r = BErr err")
  case True
  with q used_not_listed [OF inv] show ?thesis
    by (auto simp: mark_free_def Let_def split: option.splits if_splits)
next
  case False
  then obtain e where e: "oget (alloc_table s) (ptr_key p) = Some e" "ae_gen e = blob_ptr_gen p"
    and st: "ae_state e = Free \<or> ae_state e = Quarantine"
    and r: "r = BOk ()"
    using q by (auto simp: mark_free_def Let_def split: option.splits if_splits)
  show ?thesis
  proof (cases "ae_state e = Free")
    case True
    then show ?thesis
      using q e r retagged_same [OF inv e] by (auto simp: mark_free_def Let_def)
  next
    case False
    with st have used: "ae_state e = Quarantine"
      by simp
    let ?u = "(usage_totals s)
      \<lparr>quarantine_class_bytes := sat_sub (quarantine_class_bytes (usage_totals s)) (class_u64 (blob_ptr_class p)),
       free_class_bytes := sat_add (free_class_bytes (usage_totals s)) (class_u64 (blob_ptr_class p))\<rparr>"
    have u: "usage_ok ?u (oinsert (ptr_key p) (e\<lparr>ae_state := Free\<rparr>) (alloc_table s)) (bs_arena_end s)"
      by (rule usage_ok_move(3) [OF _ e(1)]) (use inv used in \<open>auto simp: blob_inv_def\<close>)
    have f: "free_ok (oinsert (ptr_key p) (e\<lparr>ae_state := Free\<rparr>) (alloc_table s))
        (oinsert (ptr_key p) () (free_list_by_class s))"
      using inv by (auto simp: blob_inv_def free_ok_def)
    show ?thesis
      using retagged_move [OF inv e u f] q e r used used_not_listed [OF inv e(1)]
      by (auto simp: mark_free_def Let_def)
  qed
qed

lemma reclaim_for_prune_effect:
  assumes inv: "blob_inv s" and q: "reclaim_for_prune p s = (r, s')"
  shows "(\<exists>err. r = BErr err \<and> s' = s) \<or> r = BOk () \<and> retagged p {Free} s s'"
proof (cases "\<exists>err. r = BErr err")
  case True
  with q show ?thesis
    by (auto simp: reclaim_for_prune_def Let_def split: option.splits if_splits)
next
  case False
  then obtain e where e: "oget (alloc_table s) (ptr_key p) = Some e" "ae_gen e = blob_ptr_gen p" and r: "r = BOk ()"
    using q by (auto simp: reclaim_for_prune_def Let_def split: option.splits if_splits)
  let ?c = "class_u64 (blob_ptr_class p)" and ?u = "usage_totals s"
  have f: "free_ok (oinsert (ptr_key p) (e\<lparr>ae_state := Free\<rparr>) (alloc_table s)) (free_list_by_class s)"
    using inv by (auto simp: blob_inv_def free_ok_def)
  show ?thesis
  proof (cases "ae_state e")
    case Used
    have u: "usage_ok (?u\<lparr>used_class_bytes := sat_sub (used_class_bytes ?u) ?c,
        free_class_bytes := sat_add (free_class_bytes ?u) ?c\<rparr>)
        (oinsert (ptr_key p) (e\<lparr>ae_state := Free\<rparr>) (alloc_table s)) (bs_arena_end s)"
      by (rule usage_ok_move(4) [OF _ e(1)]) (use inv Used in \<open>auto simp: blob_inv_def\<close>)
    show ?thesis
      using retagged_move [OF inv e u f] q e r Used by (auto simp: reclaim_for_prune_def Let_def)
  next
    case Quarantine
    have u: "usage_ok (?u\<lparr>quarantine_class_bytes := sat_sub (quarantine_class_bytes ?u) ?c,
        free_class_bytes := sat_add (free_class_bytes ?u) ?c\<rparr>)
        (oinsert (ptr_key p) (e\<lparr>ae_state := Free\<rparr>) (alloc_table s)) (bs_arena_end s)"
      by (rule usage_ok_move(3) [OF _ e(1)]) (use inv Quarantine in \<open>auto simp: blob_inv_def\<close>)
    show ?thesis
      using retagged_move [OF inv e u f] q e r Quarantine by (auto simp: reclaim_for_prune_def Let_def)
  next
    case Free
    then show ?thesis
      using q e r retagged_same [OF inv e] by (auto simp: reclaim_for_prune_def Let_def)
  qed
qed


section \<open>The allocator as a state machine\<close>

text \<open>
  Every public operation, plus reopening the store after an upgrade, which rebuilds the totals from
  the table. A write goes through a pointer whose length fits its class, as the pointers the store
  hands out do.
\<close>

inductive blob_step :: "grow_fn \<Rightarrow> blob_store \<Rightarrow> blob_store \<Rightarrow> bool" for grow :: grow_fn where
  step_allocate: "allocate grow n s = (r, s') \<Longrightarrow> blob_step grow s s'"
| step_store: "store_bytes grow data s = (r, s') \<Longrightarrow> blob_step grow s s'"
| step_write: "unat (blob_ptr_len p) \<le> unat (blob_ptr_class p) \<Longrightarrow>
    blob_write grow p data s = (r, s') \<Longrightarrow> blob_step grow s s'"
| step_quarantine: "mark_quarantine p s = (r, s') \<Longrightarrow> blob_step grow s s'"
| step_free: "mark_free p s = (r, s') \<Longrightarrow> blob_step grow s s'"
| step_reclaim: "reclaim_for_prune p s = (r, s') \<Longrightarrow> blob_step grow s s'"
| step_reopen: "blob_step grow s
    (blob_store_new (bs_arena s) (bs_arena_end s) (alloc_table s) (free_list_by_class s))"

inductive_cases blob_stepE: "blob_step grow s s'"

definition blob_init :: "blob_store \<Rightarrow> bool" where
  "blob_init s \<longleftrightarrow> (\<exists>ar. s = blob_store_new ar 0 oempty oempty)"

lemma min_sat: "min (min (a + b) m + c) m = min (a + (b + c)) (m :: nat)"
  by (simp add: min_def)

lemma unat_fold_usage:
  "unat (used_class_bytes (fold add_usage es u))
    = min (unat (used_class_bytes u) + (\<Sum>e\<leftarrow>es. slot_weight Used (fst e) (snd e))) (2 ^ 64 - 1)"
  "unat (quarantine_class_bytes (fold add_usage es u))
    = min (unat (quarantine_class_bytes u) + (\<Sum>e\<leftarrow>es. slot_weight Quarantine (fst e) (snd e))) (2 ^ 64 - 1)"
  "unat (free_class_bytes (fold add_usage es u))
    = min (unat (free_class_bytes u) + (\<Sum>e\<leftarrow>es. slot_weight Free (fst e) (snd e))) (2 ^ 64 - 1)"
  "arena_end_bytes (fold add_usage es u) = arena_end_bytes u"
proof (induction es arbitrary: u)
  case Nil
  case 1 show ?case using unat_bound [of "used_class_bytes u"] by simp
  case 2 show ?case using unat_bound [of "quarantine_class_bytes u"] by simp
  case 3 show ?case using unat_bound [of "free_class_bytes u"] by simp
  case 4 show ?case by simp
next
  case (Cons e es)
  have step: "unat (used_class_bytes (add_usage e u)) = min (unat (used_class_bytes u) + slot_weight Used (fst e) (snd e)) (2 ^ 64 - 1)"
    "unat (quarantine_class_bytes (add_usage e u)) = min (unat (quarantine_class_bytes u) + slot_weight Quarantine (fst e) (snd e)) (2 ^ 64 - 1)"
    "unat (free_class_bytes (add_usage e u)) = min (unat (free_class_bytes u) + slot_weight Free (fst e) (snd e)) (2 ^ 64 - 1)"
    "arena_end_bytes (add_usage e u) = arena_end_bytes u" for u
    using unat_bound [of "used_class_bytes u"] unat_bound [of "quarantine_class_bytes u"] unat_bound [of "free_class_bytes u"]
    by (auto simp: add_usage_def Let_def slot_weight_def unat_sat_add split: blob_state.split)
  case 1 show ?case by (simp add: Cons.IH(1) [of "add_usage e u"] step(1) min_sat)
  case 2 show ?case by (simp add: Cons.IH(2) [of "add_usage e u"] step(2) min_sat)
  case 3 show ?case by (simp add: Cons.IH(3) [of "add_usage e u"] step(3) min_sat)
  case 4 show ?case by (simp add: Cons.IH(4) [of "add_usage e u"] step(4) min_sat)
qed

lemma scan_usage_eq: "usage_ok u t stop \<Longrightarrow> scan_usage_totals t stop = u"
  using unat_fold_usage [of "entries t"] usage_ok_bounds [of u t stop] unat_bound [of stop]
  unfolding scan_usage_totals_def usage_ok_def osum_def
  by (intro blob_usage_stats.equality) (auto simp: word_unat_eq_iff)

lemma blob_reopen: "blob_inv s \<Longrightarrow> blob_store_new (bs_arena s) (bs_arena_end s) (alloc_table s) (free_list_by_class s) = s"
  using scan_usage_eq by (auto simp: blob_store_new_def blob_inv_def)

lemma blob_write_unowned:
  "blob_write grow p data s = (r, s') \<Longrightarrow> unat (blob_ptr_len p) \<le> unat (blob_ptr_class p) \<Longrightarrow> \<not> live p s \<Longrightarrow> s' = s"
  by (auto simp: blob_write_def live_def split: if_splits option.splits)

lemma blob_step_inv:
  assumes "blob_inv s" and "blob_step grow s s'"
  shows "blob_inv s'"
  using assms(2)
proof (cases rule: blob_step.cases)
  case (step_allocate n r)
  then show ?thesis using allocate_effect [OF assms(1)] by (auto simp: alloc_effect_def)
next
  case (step_store data r)
  then show ?thesis using store_bytes_effect [OF assms(1)] by auto
next
  case (step_write p data r)
  then show ?thesis using blob_write_effect [OF assms(1)] blob_write_unowned assms(1) by metis
next
  case (step_quarantine p r)
  then show ?thesis using mark_quarantine_effect [OF assms(1)] assms(1) by (auto simp: retagged_def)
next
  case (step_free p r)
  then show ?thesis using mark_free_effect [OF assms(1)] assms(1) by (auto simp: retagged_def)
next
  case (step_reclaim p r)
  then show ?thesis using reclaim_for_prune_effect [OF assms(1)] assms(1) by (auto simp: retagged_def)
next
  case step_reopen
  then show ?thesis using blob_reopen assms(1) by simp
qed

lemma blob_init_inv: "blob_init s \<Longrightarrow> blob_inv s"
  by (auto simp: blob_init_def blob_store_new_def blob_inv_def table_ok_def free_ok_def usage_ok_def
      scan_usage_totals_def)

interpretation blob_system: invariant_system blob_init "blob_step grow" blob_inv
  by unfold_locales (auto intro: blob_init_inv blob_step_inv)


definition slot_le :: "alloc_entry \<Rightarrow> alloc_entry \<Rightarrow> bool" where
  "slot_le e e' \<longleftrightarrow> ae_gen e < ae_gen e' \<or> ae_gen e = ae_gen e' \<and> (ae_state e = Free \<longrightarrow> ae_state e' = Free)"

definition slots_grow :: "blob_store \<Rightarrow> blob_store \<Rightarrow> bool" where
  "slots_grow s s' \<longleftrightarrow> (\<forall>k e. oget (alloc_table s) k = Some e \<longrightarrow>
    (\<exists>e'. oget (alloc_table s') k = Some e' \<and> slot_le e e'))"

lemma slots_grow_refl: "alloc_table s' = alloc_table s \<Longrightarrow> slots_grow s s'"
  by (auto simp: slots_grow_def slot_le_def)

lemma slots_grow_allocate:
  assumes "blob_inv s" and "allocate grow n s = (r, s')"
  shows "slots_grow s s'"
proof (cases r)
  case (BOk p)
  note eff = allocate_effect [OF assms, unfolded alloc_effect_def BOk, simplified]
  show ?thesis
    unfolding slots_grow_def
  proof (intro allI impI)
    fix k e assume e: "oget (alloc_table s) k = Some e"
    show "\<exists>e'. oget (alloc_table s') k = Some e' \<and> slot_le e e'"
      using eff e by (cases "k = ptr_key p") (auto simp: slot_le_def word_less_nat_alt)
  qed
next
  case (BErr err)
  then show ?thesis
    using allocate_effect [OF assms] slots_grow_refl by (simp add: alloc_effect_def)
next
  case BTrap
  then show ?thesis
    using allocate_effect [OF assms] by (simp add: alloc_effect_def)
qed

lemma slots_grow_write:
  "blob_write grow p data s = (r, s') \<Longrightarrow> slots_grow s s'"
proof (erule blob_write_cases)
  fix stop rc s1
  assume cap: "ensure_capacity grow stop s = (rc, s1)"
    and r: "case rc of BErr err \<Rightarrow> r = BErr err \<and> s' = s1 | BTrap \<Rightarrow> r = BTrap \<and> s' = s1
        | BOk _ \<Rightarrow> (case arena_write (ptr_start p) data (bs_arena s1) of
            None \<Rightarrow> r = BTrap \<and> s' = s1 | Some ar \<Rightarrow> r = BOk () \<and> s' = s1\<lparr>bs_arena := ar\<rparr>)"
  have "alloc_table s1 = alloc_table s"
    by (subst ensure_capacity_spec(1) [OF cap]) simp
  with r show "slots_grow s s'"
    by (intro slots_grow_refl) (auto split: blob_result.splits option.splits)
qed (auto intro: slots_grow_refl)

lemma slot_le_trans: "slot_le a b \<Longrightarrow> slot_le b c \<Longrightarrow> slot_le a c"
  unfolding slot_le_def by auto

lemma slots_grow_trans: "slots_grow s t \<Longrightarrow> slots_grow t u \<Longrightarrow> slots_grow s u"
  unfolding slots_grow_def using slot_le_trans by blast

lemma slots_grow_store:
  assumes inv: "blob_inv s" and st: "store_bytes grow data s = (r, s')"
  shows "slots_grow s s'"
proof -
  obtain ra s1 where al: "allocate grow (length data) s = (ra, s1)"
    by (cases "allocate grow (length data) s")
  have g: "slots_grow s s1"
    by (rule slots_grow_allocate [OF inv al])
  show ?thesis
  proof (cases ra)
    case (BOk p)
    obtain rw s2 where w: "blob_write grow p data s1 = (rw, s2)"
      by (cases "blob_write grow p data s1")
    then have "s' = s2"
      using st al BOk by (auto simp: store_bytes_def split: blob_result.splits)
    then show ?thesis
      using slots_grow_trans [OF g slots_grow_write [OF w]] by simp
  qed (use st al g in \<open>auto simp: store_bytes_def\<close>)
qed

lemma slots_grow_retagged:
  "retagged p sts s s' \<Longrightarrow>
    (\<And>e. oget (alloc_table s) (ptr_key p) = Some e \<Longrightarrow> ae_state e = Free \<Longrightarrow> sts \<subseteq> {Free} \<or> s' = s) \<Longrightarrow> slots_grow s s'"
  unfolding retagged_def slots_grow_def slot_le_def by fastforce

lemma blob_step_slots:
  assumes inv: "blob_inv s" and "blob_step grow s s'"
  shows "slots_grow s s'"
  using assms(2)
proof (cases rule: blob_step.cases)
  case (step_allocate n r)
  then show ?thesis using slots_grow_allocate [OF inv] by blast
next
  case (step_store data r)
  then show ?thesis using slots_grow_store [OF inv] by blast
next
  case (step_write p data r)
  then show ?thesis using slots_grow_write by blast
next
  case (step_quarantine p r)
  have "ae_state e = Free \<Longrightarrow> oget (alloc_table s) (ptr_key p) = Some e \<Longrightarrow> s' = s" for e
    using step_quarantine by (auto simp: mark_quarantine_def Let_def split: if_splits)
  then show ?thesis
    using mark_quarantine_effect [OF inv step_quarantine] slots_grow_refl slots_grow_retagged by blast
next
  case (step_free p r)
  then show ?thesis
    using mark_free_effect [OF inv step_free] slots_grow_refl slots_grow_retagged by blast
next
  case (step_reclaim p r)
  then show ?thesis
    using reclaim_for_prune_effect [OF inv step_reclaim] slots_grow_refl slots_grow_retagged by blast
next
  case step_reopen
  then show ?thesis using slots_grow_refl by (simp add: blob_store_new_def)
qed

lemma stale_step: "blob_inv s \<Longrightarrow> stale p s \<Longrightarrow> blob_step grow s s' \<Longrightarrow> stale p s'"
proof -
  assume "blob_inv s" and "stale p s" and "blob_step grow s s'"
  then obtain e e' where "oget (alloc_table s') (ptr_key p) = Some e'" "slot_le e e'"
    "blob_ptr_gen p < ae_gen e \<or> blob_ptr_gen p = ae_gen e \<and> ae_state e = Free"
    using blob_step_slots [of s grow s'] unfolding slots_grow_def stale_def by blast
  then show ?thesis
    unfolding stale_def slot_le_def by auto
qed

lemma reclaim_stale:
  assumes "blob_inv s" and "live p s"
  shows "fst (reclaim_for_prune p s) = BOk ()" and "stale p (snd (reclaim_for_prune p s))"
proof -
  obtain e where e: "oget (alloc_table s) (ptr_key p) = Some e" "ae_gen e = blob_ptr_gen p" "ae_state e \<noteq> Free"
    using assms(2) by (auto simp: live_def)
  then show ok: "fst (reclaim_for_prune p s) = BOk ()"
    by (cases "ae_state e") (auto simp: reclaim_for_prune_def Let_def)
  show "stale p (snd (reclaim_for_prune p s))"
    using reclaim_for_prune_effect [OF assms(1) prod.collapse [symmetric, of "reclaim_for_prune p s"]] ok
    by (auto simp: retagged_def stale_def)
qed

lemma reclaim_again:
  assumes "blob_inv s" and "reclaim_for_prune p s = (BOk (), s')"
  shows "reclaim_for_prune p s' = (BOk (), s')"
  using reclaim_for_prune_effect [OF assms] by (auto simp: retagged_def reclaim_for_prune_def Let_def)

lemma reclaim_frame:
  assumes inv: "blob_inv s" and r: "reclaim_for_prune p s = (r, s')" and q: "live q s" "ptr_key q \<noteq> ptr_key p"
  shows "live q s' \<and> blob_read q s' = blob_read q s"
proof -
  have "live q s' \<and> blob_inv s' \<and> bs_arena s' = bs_arena s"
    using reclaim_for_prune_effect [OF inv r] inv q by (auto simp: retagged_def live_def)
  then show ?thesis
    using inv q by (simp add: blob_read_live)
qed


section \<open>A concrete store\<close>

text \<open>An empty arena that can always grow, and the store after three bytes have been put in it.\<close>

definition empty_store :: blob_store where
  "empty_store = blob_store_new \<lparr>pages = 0, cells = (\<lambda>_. 0)\<rparr> 0 oempty oempty"

definition sample_store :: blob_store where
  "sample_store = snd (store_bytes (\<lambda>_ _. True) [7, 8, 9] empty_store)"

lemma empty_store_reachable: "reachable blob_init (blob_step grow) empty_store"
  by (rule reach_init) (auto simp: blob_init_def empty_store_def)

lemma sample_store_reachable: "reachable blob_init (blob_step (\<lambda>_ _. True)) sample_store"
proof (rule reach_step)
  show "reachable blob_init (blob_step (\<lambda>_ _. True)) empty_store"
    by (rule empty_store_reachable)
  show "blob_step (\<lambda>_ _. True) empty_store sample_store"
    unfolding sample_store_def by (rule step_store [OF prod.collapse [symmetric]])
qed

lemmas store_eval = empty_store_def store_bytes_def allocate_def smallest_class_def classes_def
  try_of_nat_def pop_free_def class_range_def blob_store_new_def carve_slot_def checked_add_def
  checked_sub_def ensure_capacity_def pages_required_def sat_sub_def Let_def finish_allocate_def
  current_gen_def class_u64_def blob_write_def arena_write_def

lemma sample_store_result:
  "store_bytes (\<lambda>_ _. True) [7, 8, 9] empty_store = (BOk (blob_ptr_new 0 3 8192 1), sample_store)"
  unfolding sample_store_def by (rule prod_eqI) (simp_all add: store_eval)

lemma sample_store_live: "live (blob_ptr_new 0 3 8192 1) sample_store"
  using store_bytes_effect [OF blob_system.reachable_inv [OF empty_store_reachable] sample_store_result] by blast

section \<open>Properties\<close>

text \<open>C16: in every store reached from an empty one by any sequence of operations and upgrades, the
  slots in the allocation table lie inside the arena and never overlap, every slot on the free list
  is free, the three byte counters add up to exactly the arena in use, and the counters that a
  restart recomputes by scanning the table are the ones kept incrementally.\<close>

theorem blob_store_invariant:
  assumes "reachable blob_init (blob_step grow) s"
  shows "(\<forall>k e k' e'. oget (alloc_table s) k = Some e \<longrightarrow> oget (alloc_table s) k' = Some e' \<longrightarrow> k \<noteq> k' \<longrightarrow>
        slot_start k + slot_size k \<le> slot_start k' \<or> slot_start k' + slot_size k' \<le> slot_start k)
    \<and> (\<forall>k e. oget (alloc_table s) k = Some e \<longrightarrow> slot_start k + slot_size k \<le> unat (bs_arena_end s))
    \<and> (\<forall>k. oget (free_list_by_class s) k = Some () \<longrightarrow> (\<exists>e. oget (alloc_table s) k = Some e \<and> ae_state e = Free))
    \<and> unat (used_class_bytes (usage_stats s)) + unat (quarantine_class_bytes (usage_stats s))
        + unat (free_class_bytes (usage_stats s)) = unat (arena_end_bytes (usage_stats s))
    \<and> scan_usage_totals (alloc_table s) (bs_arena_end s) = usage_stats s"
proof -
  have inv: "blob_inv s"
    by (rule blob_system.reachable_inv [OF assms])
  then have "usage_stats s = usage_totals s" "scan_usage_totals (alloc_table s) (bs_arena_end s) = usage_totals s"
    using scan_usage_eq [of "usage_totals s"] by (auto simp: blob_inv_def usage_ok_def usage_stats_def)
  with inv show ?thesis
    by (auto simp: blob_inv_def table_ok_def free_ok_def usage_ok_def slots_disjoint_def)
qed

theorem blob_store_invariant_witness:
  "scan_usage_totals (alloc_table sample_store) (bs_arena_end sample_store) = usage_stats sample_store"
  using blob_store_invariant [OF sample_store_reachable] by blast

text \<open>C24: storing bytes either fails with an error or returns a new pointer through which exactly
  those bytes are read back; it never traps, and in both cases every pointer that was live before
  still is and still reads the same bytes.\<close>

theorem store_bytes_read_back:
  assumes "reachable blob_init (blob_step grow) s" and "store_bytes grow data s = (r, s')"
  shows "r \<noteq> BTrap
    \<and> (\<forall>p. r = BOk p \<longrightarrow> \<not> live p s \<and> live p s' \<and> blob_read p s' = BOk data)
    \<and> (\<forall>q. live q s \<longrightarrow> live q s' \<and> blob_read q s' = blob_read q s)"
  using store_bytes_effect [OF blob_system.reachable_inv [OF assms(1)] assms(2)] by blast

theorem store_bytes_read_back_witness:
  "blob_read (blob_ptr_new 0 3 8192 1) sample_store = BOk [7, 8, 9]"
  using store_bytes_read_back [OF empty_store_reachable sample_store_result] by blast

text \<open>C15: reclaiming a live pointer succeeds and makes it unusable for good: no later sequence of
  operations, including reuse of its slot by a new allocation, ever lets a read through it
  succeed again.\<close>

theorem reclaimed_pointer_stays_unreadable:
  assumes "reachable blob_init (blob_step grow) s" and "live p s"
    and "(blob_step grow)\<^sup>*\<^sup>* (snd (reclaim_for_prune p s)) t"
  shows "fst (reclaim_for_prune p s) = BOk () \<and> (\<exists>err. blob_read p t = BErr err)"
proof -
  have inv: "blob_inv s"
    by (rule blob_system.reachable_inv [OF assms(1)])
  then have inv': "blob_inv (snd (reclaim_for_prune p s))"
    using blob_step_inv [OF inv step_reclaim [OF prod.collapse [symmetric]]] by simp
  have "stale p t"
    by (rule blob_system.steps_preserve [where P = "stale p", OF assms(3) inv' reclaim_stale(2) [OF inv assms(2)]])
      (rule stale_step)
  then show ?thesis
    using blob_read_stale reclaim_stale(1) [OF inv assms(2)] by blast
qed

theorem reclaimed_pointer_stays_unreadable_witness:
  "live (blob_ptr_new 0 3 8192 1) sample_store
    \<and> (\<exists>err. blob_read (blob_ptr_new 0 3 8192 1) (snd (reclaim_for_prune (blob_ptr_new 0 3 8192 1) sample_store)) = BErr err)"
  using reclaimed_pointer_stays_unreadable
      [OF sample_store_reachable sample_store_live rtranclp.rtrancl_refl] sample_store_live by blast

text \<open>Reclaiming is idempotent, which is what makes it safe to replay an interrupted prune, and
  leaves every other live blob readable as before.\<close>

theorem reclaim_idempotent:
  assumes "reachable blob_init (blob_step grow) s" and "reclaim_for_prune p s = (BOk (), s')"
  shows "reclaim_for_prune p s' = (BOk (), s')
    \<and> (\<forall>q. live q s \<longrightarrow> ptr_key q \<noteq> ptr_key p \<longrightarrow> live q s' \<and> blob_read q s' = blob_read q s)"
  using reclaim_again [OF blob_system.reachable_inv [OF assms(1)] assms(2)]
    reclaim_frame [OF blob_system.reachable_inv [OF assms(1)] assms(2)] by blast

text \<open>C25: an allocation fails only for a length no class holds, for an exhausted generation counter
  or address space, or because the memory could not grow; the pointer it returns has the requested
  length and the smallest class that holds it.\<close>

theorem allocate_outcomes:
  assumes "reachable blob_init (blob_step grow) s" and "allocate grow n s = (r, s')"
  shows "(\<exists>e. r = BErr (SizeClass e) \<and> smallest_class n = Inl e) \<or> r = BErr Overflow \<or> r = BErr GrowFailed
    \<or> (\<exists>p. r = BOk p \<and> live p s' \<and> unat (blob_ptr_len p) = n \<and> n \<le> unat (blob_ptr_class p)
        \<and> (\<forall>c\<in>set classes. n \<le> unat c \<longrightarrow> unat (blob_ptr_class p) \<le> unat c))"
  using allocate_effect [OF blob_system.reachable_inv [OF assms(1)] assms(2)] smallest_class_fits [of n]
    smallest_class_least [of n]
  by (auto simp: alloc_effect_def live_def split: blob_result.splits)

theorem allocate_outcomes_witness:
  "fst (allocate (\<lambda>_ _. False) 9000 empty_store) = BErr GrowFailed"
proof -
  have "reachable blob_init (blob_step (\<lambda>_ _. False)) empty_store"
    by (rule empty_store_reachable)
  note out = allocate_outcomes [OF this prod.collapse [symmetric, of "allocate (\<lambda>_ _. False) 9000 empty_store"]]
  show ?thesis
    using out by (simp add: store_eval)
qed

end
