(* ===== verification/Chain_Records.thy ===== *)
theory Chain_Records
  imports Stored_Tx
begin

text \<open>
  The records of the chain itself and their stored forms: the chain state
  (\<open>evm-db/src/chain_data/chain_state.rs\<close>, with the older 88-byte layout that is still read), blocks
  and the head (\<open>block.rs\<close>). The zero-copy wire structs are big-endian fields in declaration order,
  so a wire record is the concatenation of its fields. \<open>usize\<close> is 32 bits wide on the canister.
\<close>

abbreviation USIZE_MAX :: nat where "USIZE_MAX \<equiv> 4294967295"
abbreviation MAX_TXS_PER_BLOCK :: nat where "MAX_TXS_PER_BLOCK \<equiv> 1024"
abbreviation MAX_BLOCK_DATA_SIZE :: nat where "MAX_BLOCK_DATA_SIZE \<equiv> 32960"

section \<open>Chain state\<close>

record chain_state =
  schema_version :: u32
  chain_id :: u64
  last_block_number :: u64
  last_block_time :: u64
  auto_production_enabled :: bool
  is_producing :: bool
  mining_scheduled :: bool
  next_queue_seq :: u64
  mining_interval_ms :: u64
  base_fee :: u64
  min_gas_price :: u64
  min_priority_fee :: u64
  block_gas_limit :: u64
  query_instruction_soft_limit :: u64
  update_instruction_soft_limit :: u64

definition chain_state_new :: "u64 \<Rightarrow> chain_state" where
  "chain_state_new cid =
    \<lparr>schema_version = 3, chain_id = cid, last_block_number = 0, last_block_time = 0,
     auto_production_enabled = True, is_producing = False, mining_scheduled = False,
     next_queue_seq = 0, mining_interval_ms = 2000, base_fee = 250000000000,
     min_gas_price = 150000000000, min_priority_fee = 150000000000, block_gas_limit = 12000000,
     query_instruction_soft_limit = 10000000, update_instruction_soft_limit = 4000000000\<rparr>"

definition chain_state_flags :: "chain_state \<Rightarrow> u8" where
  "chain_state_flags s =
    (let out0 = 0;
         out1 = (if auto_production_enabled s then out0 OR push_bit 0 1 else out0);
         out2 = (if is_producing s then out1 OR push_bit 1 1 else out1)
     in if mining_scheduled s then out2 OR push_bit 2 1 else out2)"

definition apply_flags :: "u8 \<Rightarrow> chain_state \<Rightarrow> chain_state" where
  "apply_flags flags s =
    s\<lparr>auto_production_enabled := flags AND push_bit 0 1 \<noteq> 0,
      is_producing := flags AND push_bit 1 1 \<noteq> 0,
      mining_scheduled := flags AND push_bit 2 1 \<noteq> 0\<rparr>"

definition chain_state_decode_failure_default :: chain_state where
  "chain_state_decode_failure_default =
    (chain_state_new 4801360)\<lparr>auto_production_enabled := False, is_producing := False,
      mining_scheduled := False\<rparr>"

definition chain_state_wire_v4 :: "chain_state \<Rightarrow> bytes" where
  "chain_state_wire_v4 s =
    to_be_bytes (schema_version s) @ to_be_bytes (chain_id s) @ to_be_bytes (last_block_number s)
      @ to_be_bytes (last_block_time s) @ [chain_state_flags s] @ replicate 3 0
      @ to_be_bytes (next_queue_seq s) @ to_be_bytes (mining_interval_ms s) @ to_be_bytes (base_fee s)
      @ to_be_bytes (min_gas_price s) @ to_be_bytes (min_priority_fee s) @ to_be_bytes (block_gas_limit s)
      @ to_be_bytes (query_instruction_soft_limit s) @ to_be_bytes (update_instruction_soft_limit s)"

definition chain_state_to_bytes :: "chain_state \<Rightarrow> bytes \<times> events" where
  "chain_state_to_bytes s = guarded_or ''chain_state'' (chain_state_wire_v4 s) 96 (replicate 96 0)"

definition chain_state_read_common :: "bytes \<Rightarrow> u64 \<Rightarrow> u64 \<Rightarrow> chain_state" where
  "chain_state_read_common data query_limit update_limit =
    apply_flags (data ! 28)
      \<lparr>schema_version = max (from_be_bytes (byte_slice 0 4 data)) 3,
       chain_id = from_be_bytes (byte_slice 4 12 data),
       last_block_number = from_be_bytes (byte_slice 12 20 data),
       last_block_time = from_be_bytes (byte_slice 20 28 data),
       auto_production_enabled = False, is_producing = False, mining_scheduled = False,
       next_queue_seq = from_be_bytes (byte_slice 32 40 data),
       mining_interval_ms = from_be_bytes (byte_slice 40 48 data),
       base_fee = from_be_bytes (byte_slice 48 56 data),
       min_gas_price = from_be_bytes (byte_slice 56 64 data),
       min_priority_fee = from_be_bytes (byte_slice 64 72 data),
       block_gas_limit = from_be_bytes (byte_slice 72 80 data),
       query_instruction_soft_limit = query_limit, update_instruction_soft_limit = update_limit\<rparr>"

definition chain_state_from_bytes :: "bytes \<Rightarrow> chain_state \<times> events" where
  "chain_state_from_bytes data =
    (if length data = 88
     then (chain_state_read_common data 10000000 (from_be_bytes (byte_slice 80 88 data)), [])
     else if length data \<noteq> 96
     then (chain_state_decode_failure_default, mark_decode_failure ''chain_state'' True)
     else
       (chain_state_read_common data (from_be_bytes (byte_slice 80 88 data))
          (from_be_bytes (byte_slice 88 96 data)), []))"

section \<open>Blocks and the head\<close>

record block_data =
  blk_number :: u64
  blk_parent_hash :: bytes
  blk_block_hash :: bytes
  blk_timestamp :: u64
  blk_base_fee_per_gas :: u64
  blk_block_gas_limit :: u64
  blk_gas_used :: u64
  blk_beneficiary :: bytes
  blk_tx_ids :: "tx_id list"
  blk_tx_list_hash :: bytes
  blk_state_root :: bytes

definition zero_block :: block_data where
  "zero_block =
    \<lparr>blk_number = 0, blk_parent_hash = replicate 32 0, blk_block_hash = replicate 32 0,
     blk_timestamp = 0, blk_base_fee_per_gas = 0, blk_block_gas_limit = 0, blk_gas_used = 0,
     blk_beneficiary = replicate 20 0, blk_tx_ids = [], blk_tx_list_hash = replicate 32 0,
     blk_state_root = replicate 32 0\<rparr>"

definition block_fixed_bytes :: "block_data \<Rightarrow> bytes" where
  "block_fixed_bytes b =
    to_be_bytes (blk_number b) @ blk_parent_hash b @ blk_block_hash b @ to_be_bytes (blk_timestamp b)
      @ to_be_bytes (blk_base_fee_per_gas b) @ to_be_bytes (blk_block_gas_limit b)
      @ to_be_bytes (blk_gas_used b) @ blk_beneficiary b @ blk_tx_list_hash b @ blk_state_root b"

definition encode_fallback_block :: "bytes \<times> events" where
  "encode_fallback_block =
    guarded_or ''block_data_encode'' (block_fixed_bytes zero_block @ to_be_bytes (0 :: u32))
      MAX_BLOCK_DATA_SIZE (replicate MAX_BLOCK_DATA_SIZE 0)"

definition block_to_bytes :: "block_data \<Rightarrow> bytes \<times> events" where
  "block_to_bytes b =
    (case len_to_u32 (length (blk_tx_ids b)) of
       None \<Rightarrow> (let (bs, ev) = encode_fallback_block in (bs, Corrupt ''block_len'' # ev))
     | Some len \<Rightarrow>
         let out = block_fixed_bytes b @ to_be_bytes len @ concat (blk_tx_ids b)
         in case encode_guarded ''block_data_encode'' out MAX_BLOCK_DATA_SIZE of
              (Some v, ev) \<Rightarrow> (v, ev)
            | (None, ev) \<Rightarrow> (let (bs, ev') = encode_fallback_block in (bs, ev @ ev')))"

primrec read_hashes :: "nat \<Rightarrow> bytes \<Rightarrow> nat \<Rightarrow> bytes list" where
  "read_hashes 0 data offset = []"
| "read_hashes (Suc n) data offset =
    byte_slice offset (offset + 32) data # read_hashes n data (offset + 32)"

definition block_from_bytes :: "bytes \<Rightarrow> block_data \<times> events" where
  "block_from_bytes data =
    (let base_len = 192
     in if length data < base_len then (zero_block, mark_decode_failure ''block_data'' True)
        else
          let tx_len = unat (from_be_bytes (byte_slice 188 192 data) :: u32)
          in if \<not> variable_items_len_matches USIZE_MAX (length data) base_len tx_len 32 MAX_TXS_PER_BLOCK
             then (zero_block, mark_decode_failure ''block_data'' True)
             else
               (\<lparr>blk_number = from_be_bytes (byte_slice 0 8 data),
                 blk_parent_hash = byte_slice 8 40 data,
                 blk_block_hash = byte_slice 40 72 data,
                 blk_timestamp = from_be_bytes (byte_slice 72 80 data),
                 blk_base_fee_per_gas = from_be_bytes (byte_slice 80 88 data),
                 blk_block_gas_limit = from_be_bytes (byte_slice 88 96 data),
                 blk_gas_used = from_be_bytes (byte_slice 96 104 data),
                 blk_beneficiary = byte_slice 104 124 data,
                 blk_tx_ids = read_hashes tx_len data 192,
                 blk_tx_list_hash = byte_slice 124 156 data,
                 blk_state_root = byte_slice 156 188 data\<rparr>, []))"

record head_rec =
  head_number :: u64
  head_block_hash :: bytes
  head_timestamp :: u64

definition head_to_bytes :: "head_rec \<Rightarrow> bytes \<times> events" where
  "head_to_bytes h =
    guarded_or ''head_encode''
      (to_be_bytes (head_number h) @ head_block_hash h @ to_be_bytes (head_timestamp h)) 48 (replicate 48 0)"

definition head_from_bytes :: "bytes \<Rightarrow> head_rec \<times> events" where
  "head_from_bytes data =
    (if \<not> fixed_len_matches (length data) 48
     then (\<lparr>head_number = 0, head_block_hash = replicate 32 0, head_timestamp = 0\<rparr>,
           mark_decode_failure ''head'' True)
     else
       (\<lparr>head_number = from_be_bytes (byte_slice 0 8 data), head_block_hash = byte_slice 8 40 data,
         head_timestamp = from_be_bytes (byte_slice 40 48 data)\<rparr>, []))"

section \<open>Lemmas\<close>

lemma chain_state_flags_bits:
  "chain_state_flags s AND 1 \<noteq> 0 \<longleftrightarrow> auto_production_enabled s"
  "chain_state_flags s AND 2 \<noteq> 0 \<longleftrightarrow> is_producing s"
  "chain_state_flags s AND 4 \<noteq> 0 \<longleftrightarrow> mining_scheduled s"
  by (auto simp: chain_state_flags_def Let_def)

lemma chain_state_wire_length: "length (chain_state_wire_v4 s) = 96"
  by (simp add: chain_state_wire_v4_def)

lemma chain_state_flag_byte: "chain_state_wire_v4 s ! 28 = chain_state_flags s"
  by (simp add: chain_state_wire_v4_def nth_append)

lemma chain_state_wire_fields:
  "byte_slice 0 4 (chain_state_wire_v4 s) = to_be_bytes (schema_version s)"
  "byte_slice 4 12 (chain_state_wire_v4 s) = to_be_bytes (chain_id s)"
  "byte_slice 12 20 (chain_state_wire_v4 s) = to_be_bytes (last_block_number s)"
  "byte_slice 20 28 (chain_state_wire_v4 s) = to_be_bytes (last_block_time s)"
  "byte_slice 32 40 (chain_state_wire_v4 s) = to_be_bytes (next_queue_seq s)"
  "byte_slice 40 48 (chain_state_wire_v4 s) = to_be_bytes (mining_interval_ms s)"
  "byte_slice 48 56 (chain_state_wire_v4 s) = to_be_bytes (base_fee s)"
  "byte_slice 56 64 (chain_state_wire_v4 s) = to_be_bytes (min_gas_price s)"
  "byte_slice 64 72 (chain_state_wire_v4 s) = to_be_bytes (min_priority_fee s)"
  "byte_slice 72 80 (chain_state_wire_v4 s) = to_be_bytes (block_gas_limit s)"
  "byte_slice 80 88 (chain_state_wire_v4 s) = to_be_bytes (query_instruction_soft_limit s)"
  "byte_slice 88 96 (chain_state_wire_v4 s) = to_be_bytes (update_instruction_soft_limit s)"
  by (simp_all add: chain_state_wire_v4_def)

lemma chain_state_read_wire:
  "3 \<le> schema_version s \<Longrightarrow> chain_state_read_common (chain_state_wire_v4 s) q u
    = s\<lparr>query_instruction_soft_limit := q, update_instruction_soft_limit := u\<rparr>"
  by (simp add: chain_state_read_common_def chain_state_wire_fields chain_state_flag_byte apply_flags_def
      chain_state_flags_bits max_absorb1)

lemma chain_state_dec_enc:
  "3 \<le> schema_version s \<Longrightarrow> chain_state_from_bytes (chain_state_wire_v4 s) = (s, [])"
  by (simp add: chain_state_from_bytes_def chain_state_wire_length chain_state_read_wire chain_state_wire_fields)

interpretation chain_state_codec:
  codec chain_state_to_bytes chain_state_from_bytes "\<lambda>s. 3 \<le> schema_version s" 96
  by unfold_locales
    (auto simp: chain_state_to_bytes_def chain_state_wire_length chain_state_dec_enc)

interpretation head_codec: codec head_to_bytes head_from_bytes "\<lambda>h. length (head_block_hash h) = 32" 48
  by unfold_locales (auto simp: head_to_bytes_def head_from_bytes_def fixed_len_matches_def)

definition block_valid :: "block_data \<Rightarrow> bool" where
  "block_valid b \<longleftrightarrow> length (blk_parent_hash b) = 32 \<and> length (blk_block_hash b) = 32
    \<and> length (blk_beneficiary b) = 20 \<and> length (blk_tx_list_hash b) = 32 \<and> length (blk_state_root b) = 32
    \<and> length (blk_tx_ids b) \<le> MAX_TXS_PER_BLOCK \<and> (\<forall>i\<in>set (blk_tx_ids b). length i = 32)"

lemma length_concat_hashes: "\<forall>i\<in>set ids. length i = 32 \<Longrightarrow> length (concat ids) = 32 * length ids"
  by (induction ids) auto

lemma read_hashes_concat:
  "\<forall>i\<in>set ids. length i = 32 \<Longrightarrow> length pre = off \<Longrightarrow> read_hashes (length ids) (pre @ concat ids) off = ids"
proof (induction ids arbitrary: pre off)
  case (Cons i ids)
  then show ?case
    using Cons.IH [of "pre @ i" "off + 32"] by simp
qed simp

lemma block_dec_enc:
  assumes v: "block_valid b"
  shows "block_to_bytes b = (block_fixed_bytes b @ to_be_bytes (word_of_nat (length (blk_tx_ids b)) :: u32) @ concat (blk_tx_ids b), [])"
    and "block_from_bytes (fst (block_to_bytes b)) = (b, [])"
    and "length (fst (block_to_bytes b)) \<le> MAX_BLOCK_DATA_SIZE"
proof -
  let ?n = "length (blk_tx_ids b)"
  let ?w = "word_of_nat ?n :: u32"
  have n: "unat ?w = ?n" "?n \<le> 1024"
    using v by (simp_all add: block_valid_def unat_of_nat)
  have fixed: "length (block_fixed_bytes b) = 188"
    using v by (simp add: block_valid_def block_fixed_bytes_def)
  have ids: "\<forall>i\<in>set (blk_tx_ids b). length i = 32"
    using v by (simp add: block_valid_def)
  define out where "out = block_fixed_bytes b @ to_be_bytes ?w @ concat (blk_tx_ids b)"
  have len: "length out = 192 + 32 * ?n"
    using length_concat_hashes [OF ids] fixed by (simp add: out_def)
  show enc: "block_to_bytes b = (out, [])"
    using len n by (simp add: block_to_bytes_def len_to_u32_def try_of_nat_def out_def [symmetric] Let_def
        encode_guarded_def ensure_encoded_within_bound_def)
  have cnt: "byte_slice 188 192 out = to_be_bytes ?w"
    using fixed by (simp add: out_def)
  have hashes: "read_hashes ?n out 192 = blk_tx_ids b"
    using read_hashes_concat [OF ids, of "block_fixed_bytes b @ to_be_bytes ?w" 192] fixed by (simp add: out_def)
  have fields: "byte_slice 0 8 out = to_be_bytes (blk_number b)" "byte_slice 8 40 out = blk_parent_hash b"
    "byte_slice 40 72 out = blk_block_hash b" "byte_slice 72 80 out = to_be_bytes (blk_timestamp b)"
    "byte_slice 80 88 out = to_be_bytes (blk_base_fee_per_gas b)" "byte_slice 88 96 out = to_be_bytes (blk_block_gas_limit b)"
    "byte_slice 96 104 out = to_be_bytes (blk_gas_used b)" "byte_slice 104 124 out = blk_beneficiary b"
    "byte_slice 124 156 out = blk_tx_list_hash b" "byte_slice 156 188 out = blk_state_root b"
    using v by (simp_all add: out_def block_fixed_bytes_def block_valid_def)
  show "block_from_bytes (fst (block_to_bytes b)) = (b, [])"
    using len n by (simp add: enc block_from_bytes_def cnt hashes fields Let_def
        variable_items_len_matches_def variable_items_len_def)
  show "length (fst (block_to_bytes b)) \<le> MAX_BLOCK_DATA_SIZE"
    using len n by (simp add: enc)
qed

interpretation block_codec: codec block_to_bytes block_from_bytes block_valid MAX_BLOCK_DATA_SIZE
  by unfold_locales (simp_all add: block_dec_enc(2,3), simp add: block_dec_enc(1))

text \<open>C26: every block a canister can seal (at most 1024 transactions, full-length hashes) and every
  head survive their stored forms unchanged and within the declared bounds.\<close>

theorem block_and_head_roundtrip:
  assumes "block_valid b" and "length (head_block_hash h) = 32"
  shows "block_from_bytes (fst (block_to_bytes b)) = (b, []) \<and> length (fst (block_to_bytes b)) \<le> MAX_BLOCK_DATA_SIZE
    \<and> head_from_bytes (fst (head_to_bytes h)) = (h, [])"
  using block_codec.dec_enc [OF assms(1)] block_codec.enc_bound [OF assms(1)] head_codec.dec_enc [OF assms(2)]
  by blast

theorem block_and_head_roundtrip_witness:
  "block_from_bytes (fst (block_to_bytes (zero_block\<lparr>blk_number := 7, blk_tx_ids := [replicate 32 5]\<rparr>)))
    = (zero_block\<lparr>blk_number := 7, blk_tx_ids := [replicate 32 5]\<rparr>, [])"
  using block_and_head_roundtrip [of "zero_block\<lparr>blk_number := 7, blk_tx_ids := [replicate 32 5]\<rparr>"
      "\<lparr>head_number = 7, head_block_hash = replicate 32 1, head_timestamp = 9\<rparr>"]
  by (simp add: block_valid_def zero_block_def)

text \<open>The chain state round-trips through its 96 bytes; the 88-byte layout of earlier releases
  is still read, taking its one instruction limit for updates and the default for queries; and bytes
  of any other length give a state with block production switched off and raise the
  needs-migration flag.\<close>

theorem chain_state_upgrade_safe:
  assumes "3 \<le> schema_version s"
  shows "chain_state_from_bytes (fst (chain_state_to_bytes s)) = (s, [])
    \<and> chain_state_from_bytes (take 80 (fst (chain_state_to_bytes s)) @ to_be_bytes limit)
      = (s\<lparr>query_instruction_soft_limit := 10000000, update_instruction_soft_limit := limit\<rparr>, [])
    \<and> (length data \<noteq> 88 \<and> length data \<noteq> 96 \<longrightarrow>
        \<not> auto_production_enabled (fst (chain_state_from_bytes data))
        \<and> NeedsMigration \<in> set (snd (chain_state_from_bytes data)))"
proof -
  let ?w = "chain_state_wire_v4 s"
  let ?v3 = "take 80 ?w @ to_be_bytes limit"
  have len: "length ?v3 = 88"
    by (simp add: chain_state_wire_length)
  have sl: "byte_slice i j ?v3 = byte_slice i j ?w" if "j \<le> 80" for i j
    using that slice_append_left [of j "take 80 ?w"] slice_take_prefix [of j 80 i ?w]
    by (simp add: chain_state_wire_length del: slice_append_skip)
  have "chain_state_read_common ?w q u = s\<lparr>query_instruction_soft_limit := q, update_instruction_soft_limit := u\<rparr>" for q u
    by (rule chain_state_read_wire [OF assms])
  moreover have "?v3 ! 28 = ?w ! 28"
    by (simp add: nth_append chain_state_wire_length)
  then have "chain_state_read_common ?v3 q u = chain_state_read_common ?w q u" for q u
    by (simp add: chain_state_read_common_def sl del: slice_append_skip)
  moreover have "byte_slice 80 88 ?v3 = to_be_bytes limit"
    by (simp add: chain_state_wire_length)
  ultimately have v3: "chain_state_from_bytes ?v3
      = (s\<lparr>query_instruction_soft_limit := 10000000, update_instruction_soft_limit := limit\<rparr>, [])"
    using len by (simp add: chain_state_from_bytes_def)
  show ?thesis
    using chain_state_codec.dec_enc [OF assms] v3
    by (simp add: chain_state_to_bytes_def chain_state_wire_length chain_state_from_bytes_def
        mark_decode_failure_def is_fail_closed_label_def chain_state_decode_failure_default_def)
qed

end
