(* ===== verification/Prune_Rules.thy ===== *)
theory Prune_Rules
  imports Blob_Store Chain_Records
begin

text \<open>
  The decisions and the records of pruning: \<open>verified-core/src/prune.rs\<close>,
  \<open>verified-core/src/prune_safety/*.rs\<close>, \<open>evm-db/src/chain_data/prune_config.rs\<close>,
  \<open>evm-db/src/chain_data/prune_state.rs\<close> and \<open>evm-db/src/chain_data/ops_metrics.rs\<close>.
\<close>

unbundle bit_operations_syntax

section \<open>Watermarks and retention\<close>

definition ratio_bytes :: "u64 \<Rightarrow> u32 \<Rightarrow> u64" where
  "ratio_bytes target ratio_bps =
    (let numerator = (ucast target :: u128) * ucast ratio_bps;
         bs = numerator div 10000
     in if bs > ucast (- 1 :: u64) then - 1 else ucast bs)"

definition high_water :: "u64 \<Rightarrow> u32 \<Rightarrow> u64" where
  "high_water target headroom_bps =
    (if headroom_bps = 0 then target else ratio_bytes target (sat_sub 10000 (headroom_bps div 2)))"

definition low_water :: "u64 \<Rightarrow> u32 \<Rightarrow> u64" where
  "low_water target headroom_bps =
    (if headroom_bps = 0 then target else ratio_bytes target (sat_sub 10000 headroom_bps))"

definition clamp_max_ops :: "u32 \<Rightarrow> u32 \<Rightarrow> u32" where
  "clamp_max_ops requested minimum = max requested minimum"

definition need_prune :: "u64 \<Rightarrow> u64 option \<Rightarrow> u64 \<Rightarrow> u64 \<Rightarrow> u64 \<Rightarrow> u64 \<Rightarrow> bool" where
  "need_prune retain_days oldest_timestamp now target_bytes estimated_kept_bytes high_water_bytes =
    (let time_trigger =
           (if retain_days > 0
            then (case oldest_timestamp of
                    Some oldest_ts \<Rightarrow>
                      let retain_secs = (if retain_days > (- 1) div 86400 then - 1 else retain_days * 86400)
                      in oldest_ts < sat_sub now retain_secs
                  | None \<Rightarrow> False)
            else False);
         cap_trigger = (target_bytes > 0 \<and> estimated_kept_bytes > high_water_bytes)
     in time_trigger \<or> cap_trigger)"

record retain_count_input =
  ri_head_block :: u64
  ri_target_bytes :: u64
  ri_estimated_kept_bytes :: u64
  ri_high_water_bytes :: u64
  ri_hard_emergency_bytes :: u64
  ri_retain_blocks :: u64
  ri_retain_days :: u64
  ri_cutoff_block :: "u64 option"

definition retain_count :: "retain_count_input \<Rightarrow> u64" where
  "retain_count i =
    (let emergency = (ri_target_bytes i > 0 \<and> ri_estimated_kept_bytes i > ri_hard_emergency_bytes i);
         cap_trigger = (ri_target_bytes i > 0 \<and> ri_estimated_kept_bytes i > ri_high_water_bytes i)
     in if emergency \<or> cap_trigger then 1
        else
          let m1 = (if ri_retain_blocks i > 0 then sat_sub (ri_head_block i) (sat_sub (ri_retain_blocks i) 1) else 0);
              m2 = (if ri_retain_days i > 0
                    then (case ri_cutoff_block i of Some c \<Rightarrow> max m1 c | None \<Rightarrow> m1)
                    else m1)
          in max (sat_add (sat_sub (ri_head_block i) m2) 1) 1)"

definition prune_before_block :: "u64 \<Rightarrow> u64 \<Rightarrow> u64 option" where
  "prune_before_block head_block retain =
    (if retain = 0 \<or> head_block \<le> retain then None else Some (sat_sub head_block retain))"

record prune_cursor =
  pc_next_prune_block :: u64
  pc_pruned_before_block :: "u64 option"

definition normalize_next_prune_block :: "prune_cursor \<Rightarrow> u64" where
  "normalize_next_prune_block c =
    (case pc_pruned_before_block c of
       Some pruned \<Rightarrow> if pc_next_prune_block c \<le> pruned then sat_add pruned 1 else pc_next_prune_block c
     | None \<Rightarrow> pc_next_prune_block c)"

definition advance_after_pruned_block :: "u64 \<Rightarrow> prune_cursor" where
  "advance_after_pruned_block block_number =
    \<lparr>pc_next_prune_block = sat_add block_number 1, pc_pruned_before_block = Some block_number\<rparr>"

definition recover_pruned_before :: "u64 option \<Rightarrow> u64 \<Rightarrow> u64 option" where
  "recover_pruned_before current journal_block =
    Some (case current of Some pruned \<Rightarrow> max pruned journal_block | None \<Rightarrow> journal_block)"

definition remaining_blocks :: "u64 \<Rightarrow> u64 \<Rightarrow> u64" where
  "remaining_blocks next_prune_block prune_before =
    (if next_prune_block > prune_before then 0
     else sat_add (sat_sub prune_before next_prune_block) 1)"

record prune_tx_presence =
  pp_pending_fee_index :: bool
  pp_principal_pending_count :: bool
  pp_eth_tx_hash_index :: bool
  pp_tx_store :: bool
  pp_receipt :: bool
  pp_tx_index :: bool
  pp_internal_traces :: bool
  pp_tx_loc :: bool
  pp_seen_tx :: bool

definition prune_ops_needed :: "prune_tx_presence \<Rightarrow> u64" where
  "prune_ops_needed i =
    of_bool (pp_pending_fee_index i) + of_bool (pp_principal_pending_count i) + of_bool (pp_eth_tx_hash_index i)
      + of_bool (pp_tx_store i) + of_bool (pp_receipt i) + of_bool (pp_tx_index i)
      + of_bool (pp_internal_traces i) + of_bool (pp_tx_loc i) + of_bool (pp_seen_tx i)"

section \<open>Safety predicates\<close>

definition block_is_prunable :: "u64 \<Rightarrow> u64 \<Rightarrow> u64 \<Rightarrow> bool" where
  "block_is_prunable head_block retain block =
    (if retain = 0 \<or> head_block \<le> retain then False else block \<le> head_block - retain)"

definition block_is_retained :: "u64 \<Rightarrow> u64 \<Rightarrow> u64 \<Rightarrow> bool" where
  "block_is_retained head_block retain block =
    (if block > head_block then False
     else if retain = 0 \<or> head_block \<le> retain then True
     else block > head_block - retain)"

definition prune_boundary_safe :: "bool \<Rightarrow> u64 \<Rightarrow> bool \<Rightarrow> u64 \<Rightarrow> u64 \<Rightarrow> u64 \<Rightarrow> bool" where
  "prune_boundary_safe previous_present previous next_present next_boundary head_block retain =
    (if \<not> next_present then True
     else if retain = 0 \<or> head_block \<le> retain \<or> next_boundary > head_block - retain then False
     else if previous_present then previous \<le> next_boundary
     else True)"

record prune_tx_cleanup_input =
  cl_tx_store :: bool
  cl_receipt :: bool
  cl_tx_index :: bool
  cl_internal_traces :: bool
  cl_tx_loc :: bool
  cl_seen_tx :: bool

definition prune_tx_cleanup_complete :: "prune_tx_cleanup_input \<Rightarrow> bool" where
  "prune_tx_cleanup_complete i =
    (\<not> cl_tx_store i \<and> \<not> cl_receipt i \<and> \<not> cl_tx_index i \<and> \<not> cl_internal_traces i \<and> \<not> cl_tx_loc i \<and> \<not> cl_seen_tx i)"

definition prune_partial_progress_safe_raw ::
  "u64 \<Rightarrow> u64 \<Rightarrow> u64 \<Rightarrow> u64 \<Rightarrow> u64 \<Rightarrow> u64 \<Rightarrow> u64 \<Rightarrow> u64 \<Rightarrow> u64 \<Rightarrow> u64 \<Rightarrow> bool" where
  "prune_partial_progress_safe_raw previous_present previous_boundary next_present next_boundary next_cursor
      max_ops ops_used next_ops_needed did_work stopped_for_budget =
    (previous_present \<le> 1 \<and> next_present \<le> 1 \<and> did_work \<le> 1 \<and> stopped_for_budget \<le> 1
      \<and> ops_used \<le> max_ops
      \<and> (did_work = 0 \<or> next_present = 1)
      \<and> (previous_present = 0 \<or> next_present = 1)
      \<and> (did_work = 0 \<or> previous_present = 0 \<or> previous_boundary < next_boundary)
      \<and> (previous_present = 0 \<or> next_present = 0 \<or> previous_boundary = next_boundary \<or> did_work = 1)
      \<and> (previous_present = 0 \<or> next_present = 0 \<or> previous_boundary \<le> next_boundary)
      \<and> (next_present = 0 \<or> next_boundary < next_cursor)
      \<and> (stopped_for_budget = 0 \<or> next_present = 1)
      \<and> (stopped_for_budget = 0 \<or> max_ops < next_ops_needed
          \<or> (next_ops_needed \<le> max_ops \<and> max_ops - next_ops_needed < ops_used)))"

definition prune_query_observation_safe_raw :: "u64 \<Rightarrow> u64 \<Rightarrow> u64 \<Rightarrow> u64 \<Rightarrow> u64 \<Rightarrow> bool" where
  "prune_query_observation_safe_raw block_number pruned_through retained returned_ok returned_pruned =
    (retained \<le> 1 \<and> returned_ok \<le> 1 \<and> returned_pruned \<le> 1
      \<and> ((block_number \<le> pruned_through \<and> retained = 0 \<and> returned_ok = 0 \<and> returned_pruned = 1)
          \<or> (pruned_through < block_number \<and> returned_pruned = 0 \<and> retained = returned_ok)))"

section \<open>Configuration\<close>

record prune_policy =
  po_target_bytes :: u64
  po_retain_days :: u64
  po_retain_blocks :: u64
  po_headroom_ratio_bps :: u32
  po_hard_emergency_ratio_bps :: u32
  po_max_ops_per_tick :: u32

record prune_config =
  pcfg_schema_version :: u32
  pruning_enabled :: bool
  prune_running :: bool
  prune_scheduled :: bool
  target_bytes :: u64
  retain_days :: u64
  retain_blocks :: u64
  headroom_ratio_bps :: u32
  hard_emergency_ratio_bps :: u32
  timer_interval_ms :: u64
  max_ops_per_tick :: u32
  high_water_bytes :: u64
  low_water_bytes :: u64
  hard_emergency_bytes :: u64
  estimated_kept_bytes :: u64
  oldest_kept_block :: u64
  oldest_kept_timestamp :: u64
  last_prune_at :: u64

definition prune_config_new :: prune_config where
  "prune_config_new =
    \<lparr>pcfg_schema_version = 1, pruning_enabled = False, prune_running = False, prune_scheduled = False,
     target_bytes = 0, retain_days = 0, retain_blocks = 0, headroom_ratio_bps = 2000,
     hard_emergency_ratio_bps = 9500, timer_interval_ms = 3600000, max_ops_per_tick = 5000,
     high_water_bytes = 0, low_water_bytes = 0, hard_emergency_bytes = 0, estimated_kept_bytes = 0,
     oldest_kept_block = - 1, oldest_kept_timestamp = - 1, last_prune_at = 0\<rparr>"

definition prune_config_policy :: "prune_config \<Rightarrow> prune_policy" where
  "prune_config_policy c =
    \<lparr>po_target_bytes = target_bytes c, po_retain_days = retain_days c, po_retain_blocks = retain_blocks c,
     po_headroom_ratio_bps = headroom_ratio_bps c, po_hard_emergency_ratio_bps = hard_emergency_ratio_bps c,
     po_max_ops_per_tick = max_ops_per_tick c\<rparr>"

definition set_policy :: "prune_policy \<Rightarrow> prune_config \<Rightarrow> prune_config" where
  "set_policy p c =
    c\<lparr>target_bytes := po_target_bytes p, retain_days := po_retain_days p, retain_blocks := po_retain_blocks p,
      headroom_ratio_bps := po_headroom_ratio_bps p, hard_emergency_ratio_bps := po_hard_emergency_ratio_bps p,
      max_ops_per_tick := max (po_max_ops_per_tick p) 1,
      high_water_bytes := high_water (po_target_bytes p) (po_headroom_ratio_bps p),
      low_water_bytes := low_water (po_target_bytes p) (po_headroom_ratio_bps p),
      hard_emergency_bytes := ratio_bytes (po_target_bytes p) (po_hard_emergency_ratio_bps p)\<rparr>"

definition oldest_block :: "prune_config \<Rightarrow> u64 option" where
  "oldest_block c = (if oldest_kept_block c = - 1 then None else Some (oldest_kept_block c))"

definition oldest_timestamp :: "prune_config \<Rightarrow> u64 option" where
  "oldest_timestamp c = (if oldest_kept_timestamp c = - 1 then None else Some (oldest_kept_timestamp c))"

definition set_oldest :: "u64 \<Rightarrow> u64 \<Rightarrow> prune_config \<Rightarrow> prune_config" where
  "set_oldest block timestamp c = c\<lparr>oldest_kept_block := block, oldest_kept_timestamp := timestamp\<rparr>"

definition clear_oldest :: "prune_config \<Rightarrow> prune_config" where
  "clear_oldest c = c\<lparr>oldest_kept_block := - 1, oldest_kept_timestamp := - 1\<rparr>"

definition prune_flags :: "bool \<Rightarrow> bool \<Rightarrow> bool \<Rightarrow> u8" where
  "prune_flags enabled running scheduled =
    (let a = (if enabled then 1 else 0 :: u8);
         b = (if running then a OR 2 else a)
     in if scheduled then b OR 4 else b)"

definition decode_prune_flags :: "u8 \<Rightarrow> bool \<times> bool \<times> bool" where
  "decode_prune_flags v = (v AND 1 \<noteq> 0, v AND 2 \<noteq> 0, v AND 4 \<noteq> 0)"

definition prune_config_to_bytes :: "prune_config \<Rightarrow> bytes \<times> events" where
  "prune_config_to_bytes c =
    guarded_or ''prune_config''
      (to_be_bytes (pcfg_schema_version c)
        @ [prune_flags (pruning_enabled c) (prune_running c) (prune_scheduled c)] @ replicate 3 0
        @ to_be_bytes (target_bytes c) @ to_be_bytes (retain_days c) @ to_be_bytes (retain_blocks c)
        @ to_be_bytes (headroom_ratio_bps c) @ to_be_bytes (hard_emergency_ratio_bps c)
        @ to_be_bytes (timer_interval_ms c) @ to_be_bytes (max_ops_per_tick c) @ replicate 4 0
        @ to_be_bytes (high_water_bytes c) @ to_be_bytes (low_water_bytes c) @ to_be_bytes (hard_emergency_bytes c)
        @ to_be_bytes (estimated_kept_bytes c) @ to_be_bytes (oldest_kept_block c)
        @ to_be_bytes (oldest_kept_timestamp c) @ to_be_bytes (last_prune_at c))
      112 (replicate 112 0)"

definition prune_config_from_bytes :: "bytes \<Rightarrow> prune_config \<times> events" where
  "prune_config_from_bytes data =
    (if length data \<noteq> 112 then (prune_config_new, mark_decode_failure ''prune_config'' False)
     else
       let (enabled, running, scheduled) = decode_prune_flags (data ! 4)
       in (\<lparr>pcfg_schema_version = from_be_bytes (byte_slice 0 4 data), pruning_enabled = enabled,
            prune_running = running, prune_scheduled = scheduled,
            target_bytes = from_be_bytes (byte_slice 8 16 data), retain_days = from_be_bytes (byte_slice 16 24 data),
            retain_blocks = from_be_bytes (byte_slice 24 32 data),
            headroom_ratio_bps = from_be_bytes (byte_slice 32 36 data),
            hard_emergency_ratio_bps = from_be_bytes (byte_slice 36 40 data),
            timer_interval_ms = from_be_bytes (byte_slice 40 48 data),
            max_ops_per_tick = from_be_bytes (byte_slice 48 52 data),
            high_water_bytes = from_be_bytes (byte_slice 56 64 data),
            low_water_bytes = from_be_bytes (byte_slice 64 72 data),
            hard_emergency_bytes = from_be_bytes (byte_slice 72 80 data),
            estimated_kept_bytes = from_be_bytes (byte_slice 80 88 data),
            oldest_kept_block = from_be_bytes (byte_slice 88 96 data),
            oldest_kept_timestamp = from_be_bytes (byte_slice 96 104 data),
            last_prune_at = from_be_bytes (byte_slice 104 112 data)\<rparr>, []))"

section \<open>Progress and the journal\<close>

record prune_state =
  pst_schema_version :: u32
  pruned_before_block :: u64
  next_prune_block :: u64
  journal_block_number :: u64

definition prune_state_new :: prune_state where
  "prune_state_new =
    \<lparr>pst_schema_version = 2, pruned_before_block = - 1, next_prune_block = 0, journal_block_number = - 1\<rparr>"

definition pruned_before :: "prune_state \<Rightarrow> u64 option" where
  "pruned_before p = (if pruned_before_block p = - 1 then None else Some (pruned_before_block p))"

definition set_pruned_before :: "u64 \<Rightarrow> prune_state \<Rightarrow> prune_state" where
  "set_pruned_before v p = p\<lparr>pruned_before_block := v\<rparr>"

definition journal_block :: "prune_state \<Rightarrow> u64 option" where
  "journal_block p = (if journal_block_number p = - 1 then None else Some (journal_block_number p))"

definition set_journal_block :: "u64 \<Rightarrow> prune_state \<Rightarrow> prune_state" where
  "set_journal_block v p = p\<lparr>journal_block_number := v\<rparr>"

definition clear_journal :: "prune_state \<Rightarrow> prune_state" where
  "clear_journal p = p\<lparr>journal_block_number := - 1\<rparr>"

definition prune_state_to_bytes :: "prune_state \<Rightarrow> bytes \<times> events" where
  "prune_state_to_bytes p =
    guarded_or ''prune_state''
      (to_be_bytes (pst_schema_version p) @ to_be_bytes (pruned_before_block p) @ to_be_bytes (next_prune_block p)
        @ to_be_bytes (journal_block_number p) @ replicate 4 0)
      32 (replicate 32 0)"

definition prune_state_from_bytes :: "bytes \<Rightarrow> prune_state \<times> events" where
  "prune_state_from_bytes data =
    (if \<not> fixed_len_matches (length data) 32 then (prune_state_new, mark_decode_failure ''prune_state'' False)
     else
       (\<lparr>pst_schema_version = from_be_bytes (byte_slice 0 4 data),
         pruned_before_block = from_be_bytes (byte_slice 4 12 data),
         next_prune_block = from_be_bytes (byte_slice 12 20 data),
         journal_block_number = from_be_bytes (byte_slice 20 28 data)\<rparr>, []))"

type_synonym prune_journal = "blob_ptr list"

abbreviation MAX_PTRS :: nat where "MAX_PTRS \<equiv> 1 + 3 * 1024"
abbreviation JOURNAL_MAX_SIZE :: nat where "JOURNAL_MAX_SIZE \<equiv> 4 + MAX_PTRS * 20"

definition encode_fallback_prune_journal :: "bytes \<times> events" where
  "encode_fallback_prune_journal =
    guarded_or ''prune_journal'' (to_be_bytes (0 :: u32)) JOURNAL_MAX_SIZE (replicate JOURNAL_MAX_SIZE 0)"

definition prune_journal_to_bytes :: "prune_journal \<Rightarrow> bytes \<times> events" where
  "prune_journal_to_bytes ptrs =
    (case (try_of_nat (length ptrs) :: u32 option) of
       None \<Rightarrow> (fst encode_fallback_prune_journal, Corrupt ''prune_journal_len'' # snd encode_fallback_prune_journal)
     | Some len \<Rightarrow>
         if unat len > MAX_PTRS
         then (fst encode_fallback_prune_journal, Corrupt ''prune_journal_len'' # snd encode_fallback_prune_journal)
         else guarded_or ''prune_journal''
                (to_be_bytes len @ concat (map (\<lambda>p. fst (blob_ptr_to_bytes p)) ptrs))
                JOURNAL_MAX_SIZE (replicate JOURNAL_MAX_SIZE 0))"

fun read_ptrs :: "nat \<Rightarrow> bytes \<Rightarrow> nat \<Rightarrow> prune_journal option" where
  "read_ptrs 0 data off = Some []"
| "read_ptrs (Suc n) data off =
    (if off + 20 > length data then None
     else map_option ((#) (fst (blob_ptr_from_bytes (byte_slice off (off + 20) data)))) (read_ptrs n data (off + 20)))"

definition prune_journal_from_bytes :: "bytes \<Rightarrow> prune_journal \<times> events" where
  "prune_journal_from_bytes data =
    (let failed = ([], mark_decode_failure ''prune_journal'' False)
     in if length data < 4 then failed
        else
          let len = (from_be_bytes (byte_slice 0 4 data) :: u32)
          in if unat len > MAX_PTRS then failed
             else if \<not> prune_journal_len_matches USIZE_MAX (length data) len (word_of_nat MAX_PTRS) then failed
             else case read_ptrs (unat len) data 4 of None \<Rightarrow> failed | Some ptrs \<Rightarrow> (ptrs, []))"

section \<open>Execution warnings\<close>

record ops_metrics =
  om_schema_version :: u8
  exec_halt_unknown_count :: u64
  last_exec_halt_unknown_warn_ts :: u64

definition ops_metrics_new :: ops_metrics where
  "ops_metrics_new = \<lparr>om_schema_version = 1, exec_halt_unknown_count = 0, last_exec_halt_unknown_warn_ts = 0\<rparr>"

definition ops_metrics_to_bytes :: "ops_metrics \<Rightarrow> bytes \<times> events" where
  "ops_metrics_to_bytes m =
    guarded_or ''ops_metrics''
      ([om_schema_version m] @ replicate 7 0 @ to_be_bytes (exec_halt_unknown_count m)
        @ to_be_bytes (last_exec_halt_unknown_warn_ts m)) 24 (replicate 24 0)"

definition ops_metrics_from_bytes :: "bytes \<Rightarrow> ops_metrics \<times> events" where
  "ops_metrics_from_bytes data =
    (if length data \<noteq> 24 \<and> length data \<noteq> 40 then (ops_metrics_new, mark_decode_failure ''ops_metrics'' False)
     else
       (\<lparr>om_schema_version = data ! 0, exec_halt_unknown_count = from_be_bytes (byte_slice 8 16 data),
         last_exec_halt_unknown_warn_ts = from_be_bytes (byte_slice 16 24 data)\<rparr>, []))"

section \<open>Lemmas\<close>

lemma unat_ratio_bytes: "unat (ratio_bytes target bps) = min (unat target * unat bps div 10000) (2 ^ 64 - 1)"
proof -
  have b: "unat target < 2 ^ 64" "unat bps < 2 ^ 32"
    using unat_bound [of target] unat_bound [of bps] by simp_all
  then have "unat target * unat bps < 2 ^ 64 * 2 ^ 32"
    by (intro mult_strict_mono) simp_all
  then have m: "unat ((ucast target :: u128) * ucast bps) = unat target * unat bps"
    using b by (subst unat_mult_lem [THEN iffD1]) (simp_all add: unat_ucast_fit)
  then have d: "unat ((ucast target :: u128) * ucast bps div 10000) = unat target * unat bps div 10000"
    by (simp add: unat_div)
  have top: "unat (ucast (- 1 :: u64) :: u128) = 2 ^ 64 - 1"
    by (simp add: unat_ucast_fit)
  show ?thesis
  proof (cases "unat target * unat bps div 10000 \<le> 2 ^ 64 - 1")
    case True
    then have "unat (ucast ((ucast target :: u128) * ucast bps div 10000) :: u64) = unat target * unat bps div 10000"
      by (simp add: unat_ucast_fit d)
    moreover have "\<not> (ucast target :: u128) * ucast bps div 10000 > ucast (- 1 :: u64)"
      using True top by (simp add: word_less_nat_alt d)
    ultimately show ?thesis
      using True by (simp add: ratio_bytes_def Let_def)
  next
    case False
    then have "(ucast target :: u128) * ucast bps div 10000 > ucast (- 1 :: u64)"
      using top by (simp add: word_less_nat_alt d)
    then show ?thesis
      using False by (simp add: ratio_bytes_def Let_def)
  qed
qed


text \<open>The watermarks are ordered: for every policy the pruning floor lies at or below the trigger,
  which lies at or below the target, and each is the stated fraction of the target, without overflow.\<close>
theorem watermarks_ordered:
  "unat (low_water target bps) \<le> unat (high_water target bps) \<and> unat (high_water target bps) \<le> unat target
    \<and> unat (high_water target bps) = unat target * (10000 - unat bps div 2) div 10000
    \<and> unat (low_water target bps) = unat target * (10000 - unat bps) div 10000"
proof -
  have r: "unat target * k div 10000 \<le> unat target" if "k \<le> 10000" for k
    using that by (metis div_le_mono mult_le_mono2 nonzero_mult_div_cancel_right zero_neq_numeral)
  have m: "min (unat target * k div 10000) (2 ^ 64 - 1) = unat target * k div 10000" if "k \<le> 10000" for k
    using r [OF that] unat_bound [of target] by simp
  have h: "unat (high_water target bps) = unat target * (10000 - unat bps div 2) div 10000"
    using m [of "10000 - unat bps div 2"]
    by (simp add: high_water_def unat_ratio_bytes unat_sat_sub unat_div)
  have l: "unat (low_water target bps) = unat target * (10000 - unat bps) div 10000"
    using m [of "10000 - unat bps"] by (simp add: low_water_def unat_ratio_bytes unat_sat_sub)
  have "unat target * (10000 - unat bps) div 10000 \<le> unat target * (10000 - unat bps div 2) div 10000"
    by (intro div_le_mono mult_le_mono2) simp
  then show ?thesis
    using h l r [of "10000 - unat bps div 2"] by simp
qed

text \<open>How many blocks a policy keeps.\<close>

lemma retain_count_positive: "0 < retain_count i"
  by (simp add: retain_count_def Let_def word_less_nat_alt max_def word_le_nat_alt unat_sat_add)

lemma prune_before_Some: "prune_before_block h r = Some b \<Longrightarrow> 0 < r \<and> r < h \<and> unat b = unat h - unat r"
  by (auto simp: prune_before_block_def unat_sat_sub word_less_nat_alt word_le_nat_alt word_neq_0_conv split: if_splits)

text \<open>What is pruned and what is kept. The blocks up to the pruning boundary are exactly the prunable
  ones, every block up to the head is either prunable or retained and never both, the head itself is
  always retained, and when anything is prunable exactly as many blocks as the policy asks for are
  retained.\<close>
theorem prune_partition:
  "(block_is_prunable h r b \<longleftrightarrow> (case prune_before_block h r of Some p \<Rightarrow> b \<le> p | None \<Rightarrow> False))
   \<and> (block_is_retained h r b \<longleftrightarrow> b \<le> h \<and> \<not> block_is_prunable h r b)
   \<and> block_is_retained h r h
   \<and> (case prune_before_block h r of
        Some p \<Rightarrow> card {b. block_is_retained h r b} = unat r
      | None \<Rightarrow> {b. block_is_retained h r b} = {b. b \<le> h})"
proof -
  have sub: "sat_sub h r = h - r" if "r < h"
    using that by (simp add: sat_sub_def word_le_nat_alt word_less_nat_alt)
  have part: "block_is_prunable h r b \<longleftrightarrow> (case prune_before_block h r of Some p \<Rightarrow> b \<le> p | None \<Rightarrow> False)"
    "block_is_retained h r b \<longleftrightarrow> b \<le> h \<and> \<not> block_is_prunable h r b" for b
    using sub by (auto simp: block_is_prunable_def block_is_retained_def prune_before_block_def not_le not_less)
  have hr: "unat (h - r) = unat h - unat r" if "r < h"
    using that by (simp add: unat_sub word_le_nat_alt word_less_nat_alt)
  have hd: "block_is_retained h r h"
    using hr by (auto simp: block_is_retained_def not_le word_less_nat_alt word_neq_0_conv)
  have "card {b. block_is_retained h r b} = unat r" if p: "prune_before_block h r = Some p" for p
  proof -
    have c: "0 < r" "r < h" "unat p = unat h - unat r"
      using prune_before_Some [OF p] by simp_all
    have "bij_betw unat {b. block_is_retained h r b} {Suc (unat p)..unat h}"
    proof (rule bij_betwI')
      show "unat a = unat b \<longleftrightarrow> a = b" for a b :: u64
        by (rule word_unat_eq_iff [symmetric])
      show "unat b \<in> {Suc (unat p)..unat h}" if "b \<in> {b. block_is_retained h r b}" for b
        using that part [of b] p by (auto simp: word_le_nat_alt)
      show "\<exists>b\<in>{b. block_is_retained h r b}. n = unat b" if "n \<in> {Suc (unat p)..unat h}" for n
      proof -
        have "n < 2 ^ 64"
          using that unat_bound [of h] by simp
        then have "unat (word_of_nat n :: u64) = n"
          by (simp add: unat_of_nat)
        then show ?thesis
          using that part [of "word_of_nat n"] p by (intro bexI [of _ "word_of_nat n"]) (auto simp: word_le_nat_alt)
      qed
    qed
    then show ?thesis
      using bij_betw_same_card c unat_bound [of h] by (fastforce simp: word_less_nat_alt)
  qed
  moreover have "{b. block_is_retained h r b} = {b. b \<le> h}" if "prune_before_block h r = None"
    using that by (auto simp: block_is_retained_def prune_before_block_def not_le word_neq_0_conv split: if_splits)
  ultimately have "case prune_before_block h r of
      Some p \<Rightarrow> card {b. block_is_retained h r b} = unat r
    | None \<Rightarrow> {b. block_is_retained h r b} = {b. b \<le> h}"
    by (simp split: option.split)
  with part hd show ?thesis
    by blast
qed

section \<open>Stored records\<close>

lemma prune_flags_bits:
  "decode_prune_flags (prune_flags a b c) = (a, b, c)"
  by (cases a; cases b; cases c) (simp_all add: decode_prune_flags_def prune_flags_def)

lemma prune_config_dec_enc:
  "prune_config_from_bytes (fst (prune_config_to_bytes c)) = (c, [])"
  "snd (prune_config_to_bytes c) = []" "length (fst (prune_config_to_bytes c)) = 112"
proof -
  define out where "out = to_be_bytes (pcfg_schema_version c)
    @ [prune_flags (pruning_enabled c) (prune_running c) (prune_scheduled c)] @ replicate 3 0
    @ to_be_bytes (target_bytes c) @ to_be_bytes (retain_days c) @ to_be_bytes (retain_blocks c)
    @ to_be_bytes (headroom_ratio_bps c) @ to_be_bytes (hard_emergency_ratio_bps c)
    @ to_be_bytes (timer_interval_ms c) @ to_be_bytes (max_ops_per_tick c) @ replicate 4 0
    @ to_be_bytes (high_water_bytes c) @ to_be_bytes (low_water_bytes c) @ to_be_bytes (hard_emergency_bytes c)
    @ to_be_bytes (estimated_kept_bytes c) @ to_be_bytes (oldest_kept_block c)
    @ to_be_bytes (oldest_kept_timestamp c) @ to_be_bytes (last_prune_at c)"
  have len: "length out = 112"
    by (simp add: out_def)
  have enc: "prune_config_to_bytes c = (out, [])"
    unfolding prune_config_to_bytes_def out_def [symmetric] using len by simp
  have flag: "out ! 4 = prune_flags (pruning_enabled c) (prune_running c) (prune_scheduled c)"
    by (simp add: out_def nth_append)
  have fields: "byte_slice 0 4 out = to_be_bytes (pcfg_schema_version c)"
    "byte_slice 8 16 out = to_be_bytes (target_bytes c)" "byte_slice 16 24 out = to_be_bytes (retain_days c)"
    "byte_slice 24 32 out = to_be_bytes (retain_blocks c)" "byte_slice 32 36 out = to_be_bytes (headroom_ratio_bps c)"
    "byte_slice 36 40 out = to_be_bytes (hard_emergency_ratio_bps c)" "byte_slice 40 48 out = to_be_bytes (timer_interval_ms c)"
    "byte_slice 48 52 out = to_be_bytes (max_ops_per_tick c)" "byte_slice 56 64 out = to_be_bytes (high_water_bytes c)"
    "byte_slice 64 72 out = to_be_bytes (low_water_bytes c)" "byte_slice 72 80 out = to_be_bytes (hard_emergency_bytes c)"
    "byte_slice 80 88 out = to_be_bytes (estimated_kept_bytes c)" "byte_slice 88 96 out = to_be_bytes (oldest_kept_block c)"
    "byte_slice 96 104 out = to_be_bytes (oldest_kept_timestamp c)" "byte_slice 104 112 out = to_be_bytes (last_prune_at c)"
    by (simp_all add: out_def)
  show "prune_config_from_bytes (fst (prune_config_to_bytes c)) = (c, [])"
    by (simp add: enc prune_config_from_bytes_def len flag prune_flags_bits fields)
  show "snd (prune_config_to_bytes c) = []" "length (fst (prune_config_to_bytes c)) = 112"
    by (simp_all add: enc len)
qed

interpretation prune_config_codec: codec prune_config_to_bytes prune_config_from_bytes "\<lambda>_. True" 112
  by unfold_locales (simp_all add: prune_config_dec_enc)

interpretation prune_state_codec: codec prune_state_to_bytes prune_state_from_bytes "\<lambda>_. True" 32
  by unfold_locales (simp_all add: prune_state_to_bytes_def prune_state_from_bytes_def fixed_len_matches_def)

interpretation ops_metrics_codec: codec ops_metrics_to_bytes ops_metrics_from_bytes "\<lambda>_. True" 24
  by unfold_locales (simp_all add: ops_metrics_to_bytes_def ops_metrics_from_bytes_def)

definition journal_ok :: "prune_journal \<Rightarrow> bool" where
  "journal_ok ptrs \<longleftrightarrow> length ptrs \<le> MAX_PTRS \<and> list_all (\<lambda>p. length p = 20) ptrs"

lemma read_ptrs_concat:
  "list_all (\<lambda>p. length p = 20) ptrs \<Longrightarrow> length pre = off \<Longrightarrow> read_ptrs (length ptrs) (pre @ concat ptrs) off = Some ptrs"
proof (induction ptrs arbitrary: pre off)
  case (Cons p ptrs)
  then show ?case
    using Cons.IH [of "pre @ p" "off + 20"] by (simp add: blob_ptr_from_bytes_def)
qed simp

lemma length_concat_ptrs: "list_all (\<lambda>p. length p = 20) ptrs \<Longrightarrow> length (concat ptrs) = 20 * length ptrs"
  by (induction ptrs) auto

lemma prune_journal_encoded:
  assumes "journal_ok ptrs"
  shows "prune_journal_to_bytes ptrs = (to_be_bytes (word_of_nat (length ptrs) :: u32) @ concat ptrs, [])"
    and "length (concat ptrs) = 20 * length ptrs" and "unat (word_of_nat (length ptrs) :: u32) = length ptrs"
proof -
  show n: "unat (word_of_nat (length ptrs) :: u32) = length ptrs"
    using assms by (simp add: journal_ok_def unat_of_nat)
  show l: "length (concat ptrs) = 20 * length ptrs"
    using assms by (simp add: journal_ok_def length_concat_ptrs)
  have "map (\<lambda>p. fst (blob_ptr_to_bytes p)) ptrs = ptrs"
    by (simp add: blob_ptr_to_bytes_def)
  moreover have "(try_of_nat (length ptrs) :: u32 option) = Some (word_of_nat (length ptrs))"
    using assms by (simp add: journal_ok_def try_of_nat_def)
  ultimately show "prune_journal_to_bytes ptrs = (to_be_bytes (word_of_nat (length ptrs) :: u32) @ concat ptrs, [])"
    using assms n l by (simp add: prune_journal_to_bytes_def journal_ok_def)
qed

interpretation prune_journal_codec: codec prune_journal_to_bytes prune_journal_from_bytes journal_ok JOURNAL_MAX_SIZE
proof unfold_locales
  fix ptrs
  assume ok: "journal_ok ptrs"
  note e = prune_journal_encoded [OF ok]
  let ?w = "word_of_nat (length ptrs) :: u32"
  show "snd (prune_journal_to_bytes ptrs) = []"
    by (simp add: e(1))
  show "length (fst (prune_journal_to_bytes ptrs)) \<le> JOURNAL_MAX_SIZE"
    using ok by (simp add: e(1,2) journal_ok_def)
  have "read_ptrs (length ptrs) (to_be_bytes ?w @ concat ptrs) 4 = Some ptrs"
    using read_ptrs_concat [of ptrs "to_be_bytes ?w" 4] ok by (simp add: journal_ok_def)
  moreover have "\<not> 3073 < ?w"
    using ok e(3) by (simp add: word_less_nat_alt journal_ok_def)
  ultimately show "prune_journal_from_bytes (fst (prune_journal_to_bytes ptrs)) = (ptrs, [])"
    using ok by (simp add: prune_journal_from_bytes_def e journal_ok_def prune_journal_len_matches_def prune_journal_len_def Let_def)
qed

text \<open>C35: the pruning records survive an upgrade: configuration, progress and execution warnings round-trip
  through their fixed layouts, and the recovery journal of a block round-trips as long as it holds no
  more pointers than a full block has.\<close>
theorem prune_records_roundtrip:
  assumes "journal_ok ptrs"
  shows "prune_config_from_bytes (fst (prune_config_to_bytes c)) = (c, [])
    \<and> prune_state_from_bytes (fst (prune_state_to_bytes p)) = (p, [])
    \<and> ops_metrics_from_bytes (fst (ops_metrics_to_bytes m)) = (m, [])
    \<and> prune_journal_from_bytes (fst (prune_journal_to_bytes ptrs)) = (ptrs, [])
    \<and> length (fst (prune_journal_to_bytes ptrs)) \<le> JOURNAL_MAX_SIZE"
  using assms prune_config_codec.dec_enc prune_state_codec.dec_enc ops_metrics_codec.dec_enc
    prune_journal_codec.dec_enc prune_journal_codec.enc_bound by blast

theorem prune_records_roundtrip_witness:
  "prune_journal_from_bytes (fst (prune_journal_to_bytes [replicate 20 1, replicate 20 2])) = ([replicate 20 1, replicate 20 2], [])"
  using prune_records_roundtrip [of "[replicate 20 1, replicate 20 2]"] by (simp add: journal_ok_def)

end
