(* ===== verification/Receipts.thy ===== *)
theory Receipts
  imports Stored_Keys
begin

text \<open>
  Transaction receipts and their stored form (\<open>evm-db/src/chain_data/receipt.rs\<close>): the checked encoder,
  the decoder of both layouts (with and without the fee fields) and the fallback record that stands for
  an unreadable receipt.
\<close>

abbreviation MAX_RETURN_DATA :: nat where "MAX_RETURN_DATA \<equiv> 32768"
abbreviation MAX_LOGS_PER_TX :: nat where "MAX_LOGS_PER_TX \<equiv> 64"
abbreviation MAX_LOG_TOPICS :: nat where "MAX_LOG_TOPICS \<equiv> 4"
abbreviation MAX_LOG_DATA :: nat where "MAX_LOG_DATA \<equiv> 4096"

abbreviation RECEIPT_MAX_SIZE :: nat where
  "RECEIPT_MAX_SIZE \<equiv> (8 + 16 + 16 + 16) + 32 + 8 + 4 + 1 + 8 + 8 + 4 + 32768 + 1 + 20 + 4
    + 64 * (20 + 4 + 4 * 32 + 4 + 4096)"

definition RECEIPT_V2_MAGIC :: bytes where
  "RECEIPT_V2_MAGIC = [114, 99, 112, 116, 118, 50, 0, 2]"

record log_entry =
  log_address :: bytes
  log_topics :: "bytes list"
  log_data :: bytes

record receipt_like =
  rcpt_tx_id :: tx_id
  rcpt_block_number :: u64
  rcpt_tx_index :: u32
  rcpt_status :: u8
  rcpt_gas_used :: u64
  rcpt_effective_gas_price :: u64
  rcpt_l1_data_fee :: u128
  rcpt_operator_fee :: u128
  rcpt_total_fee :: u128
  rcpt_return_data_hash :: bytes
  rcpt_return_data :: bytes
  rcpt_contract_address :: "bytes option"
  rcpt_logs :: "log_entry list"

datatype receipt_encode_error =
    InvalidStatus | ReturnDataTooLarge | TooManyLogs | TooManyTopics | LogDataTooLarge | LengthOverflow

section \<open>Encoding\<close>

definition encode_log :: "log_entry \<Rightarrow> receipt_encode_error + bytes" where
  "encode_log l =
    (if \<not> bounded_len (length (log_topics l)) MAX_LOG_TOPICS then Inl TooManyTopics
     else if \<not> bounded_len (length (log_data l)) MAX_LOG_DATA then Inl LogDataTooLarge
     else case (try_of_nat (length (log_topics l)) :: u32 option) of
       None \<Rightarrow> Inl LengthOverflow
     | Some topics_len \<Rightarrow>
         (case (try_of_nat (length (log_data l)) :: u32 option) of
            None \<Rightarrow> Inl LengthOverflow
          | Some data_len \<Rightarrow>
              Inr (log_address l @ to_be_bytes topics_len @ concat (log_topics l)
                @ to_be_bytes data_len @ log_data l)))"

fun encode_logs :: "log_entry list \<Rightarrow> receipt_encode_error + bytes" where
  "encode_logs [] = Inr []"
| "encode_logs (l # ls) =
    (case encode_log l of
       Inl e \<Rightarrow> Inl e
     | Inr bs \<Rightarrow> (case encode_logs ls of Inl e \<Rightarrow> Inl e | Inr rest \<Rightarrow> Inr (bs @ rest)))"

definition receipt_head_bytes :: "receipt_like \<Rightarrow> bytes" where
  "receipt_head_bytes r =
    RECEIPT_V2_MAGIC @ rcpt_tx_id r @ to_be_bytes (rcpt_block_number r) @ to_be_bytes (rcpt_tx_index r)
      @ [rcpt_status r] @ to_be_bytes (rcpt_gas_used r) @ to_be_bytes (rcpt_effective_gas_price r)
      @ to_be_bytes (rcpt_l1_data_fee r) @ to_be_bytes (rcpt_operator_fee r) @ to_be_bytes (rcpt_total_fee r)
      @ rcpt_return_data_hash r"

definition contract_bytes :: "bytes option \<Rightarrow> bytes" where
  "contract_bytes a = (case a of Some addr \<Rightarrow> 1 # addr | None \<Rightarrow> 0 # replicate 20 0)"

definition encode_checked :: "receipt_like \<Rightarrow> receipt_encode_error + bytes" where
  "encode_checked r =
    (if \<not> valid_receipt_status (rcpt_status r) then Inl InvalidStatus
     else if \<not> bounded_len (length (rcpt_return_data r)) MAX_RETURN_DATA then Inl ReturnDataTooLarge
     else if \<not> bounded_len (length (rcpt_logs r)) MAX_LOGS_PER_TX then Inl TooManyLogs
     else case (try_of_nat (length (rcpt_return_data r)) :: u32 option) of
       None \<Rightarrow> Inl LengthOverflow
     | Some data_len \<Rightarrow>
         (case (try_of_nat (length (rcpt_logs r)) :: u32 option) of
            None \<Rightarrow> Inl LengthOverflow
          | Some logs_len \<Rightarrow>
              (case encode_logs (rcpt_logs r) of
                 Inl e \<Rightarrow> Inl e
               | Inr logs \<Rightarrow>
                   Inr (receipt_head_bytes r @ to_be_bytes data_len @ rcpt_return_data r
                     @ contract_bytes (rcpt_contract_address r) @ to_be_bytes logs_len @ logs))))"

definition corrupt_receipt_value :: receipt_like where
  "corrupt_receipt_value =
    \<lparr>rcpt_tx_id = replicate 32 0, rcpt_block_number = 0, rcpt_tx_index = 0, rcpt_status = 0, rcpt_gas_used = 0,
     rcpt_effective_gas_price = 0, rcpt_l1_data_fee = 0, rcpt_operator_fee = 0, rcpt_total_fee = 0,
     rcpt_return_data_hash = replicate 32 0, rcpt_return_data = [], rcpt_contract_address = None, rcpt_logs = []\<rparr>"

definition corrupt_receipt :: "receipt_like \<times> events" where
  "corrupt_receipt = (corrupt_receipt_value, mark_decode_failure ''receipt'' True)"

definition encode_fallback_receipt :: "bytes \<times> events" where
  "encode_fallback_receipt =
    (let (receipt, ev) = corrupt_receipt;
         encoded = (case encode_checked receipt of
             Inr bs \<Rightarrow> bs
           | Inl _ \<Rightarrow> RECEIPT_V2_MAGIC @ replicate 32 0 @ to_be_bytes (0 :: u64) @ to_be_bytes (0 :: u32) @ [0]
               @ to_be_bytes (0 :: u64) @ to_be_bytes (0 :: u64) @ to_be_bytes (0 :: u128) @ to_be_bytes (0 :: u128)
               @ to_be_bytes (0 :: u128) @ replicate 32 0 @ to_be_bytes (0 :: u32) @ [0] @ replicate 20 0
               @ to_be_bytes (0 :: u32))
     in case encode_guarded ''receipt_encode'' encoded RECEIPT_MAX_SIZE of
          (Some v, ev2) \<Rightarrow> (v, ev @ ev2)
        | (None, ev2) \<Rightarrow> (replicate RECEIPT_MAX_SIZE 0, ev @ ev2))"

definition receipt_to_bytes :: "receipt_like \<Rightarrow> bytes \<times> events" where
  "receipt_to_bytes r =
    (case encode_checked r of
       Inl _ \<Rightarrow> (fst encode_fallback_receipt, Corrupt ''receipt_encode'' # snd encode_fallback_receipt)
     | Inr encoded \<Rightarrow>
         (case encode_guarded ''receipt_encode'' encoded RECEIPT_MAX_SIZE of
            (Some v, ev) \<Rightarrow> (v, ev)
          | (None, ev) \<Rightarrow> (fst encode_fallback_receipt, ev @ snd encode_fallback_receipt)))"

section \<open>Decoding\<close>

fun read_topics :: "nat \<Rightarrow> bytes \<Rightarrow> nat \<Rightarrow> (bytes list \<times> nat) option" where
  "read_topics 0 data off = Some ([], off)"
| "read_topics (Suc n) data off = do {
     (topic, off) \<leftarrow> read_array 32 data off;
     (topics, off) \<leftarrow> read_topics n data off;
     Some (topic # topics, off)
   }"

text \<open>\<open>LogData::new\<close> of the alloy library accepts at most four topics; the bound check before it is the
  same.\<close>

definition read_log :: "bytes \<Rightarrow> nat \<Rightarrow> (log_entry \<times> nat) option" where
  "read_log data off = do {
     (address, off) \<leftarrow> read_array 20 data off;
     (topics_len, off) \<leftarrow> read_u32 data off;
     if \<not> bounded_len (unat topics_len) MAX_LOG_TOPICS then None
     else do {
       (topics, off) \<leftarrow> read_topics (unat topics_len) data off;
       (data_len, off) \<leftarrow> read_u32 data off;
       if \<not> bounded_len (unat data_len) MAX_LOG_DATA then None
       else do {
         (bs, off) \<leftarrow> read_vec data off (unat data_len);
         if length topics > 4 then None
         else Some (\<lparr>log_address = address, log_topics = topics, log_data = bs\<rparr>, off)
       }
     }
   }"

fun read_logs :: "nat \<Rightarrow> bytes \<Rightarrow> nat \<Rightarrow> (log_entry list \<times> nat) option" where
  "read_logs 0 data off = Some ([], off)"
| "read_logs (Suc n) data off = do {
     (l, off) \<leftarrow> read_log data off;
     (ls, off) \<leftarrow> read_logs n data off;
     Some (l # ls, off)
   }"

definition read_u128 :: "bytes \<Rightarrow> nat \<Rightarrow> (u128 \<times> nat) option" where
  "read_u128 data off = map_option (\<lambda>(bs, off). (from_be_bytes bs, off)) (read_array 16 data off)"

definition read_fees :: "bool \<Rightarrow> bytes \<Rightarrow> nat \<Rightarrow> ((u128 \<times> u128 \<times> u128) \<times> nat) option" where
  "read_fees is_v2 data off =
    (if is_v2 then do {
       (l1, off) \<leftarrow> read_u128 data off;
       (op, off) \<leftarrow> read_u128 data off;
       (total, off) \<leftarrow> read_u128 data off;
       Some ((l1, op, total), off)
     } else Some ((0, 0, 0), off))"

definition read_receipt_tail :: "bytes \<Rightarrow> nat \<Rightarrow> (bytes \<times> bytes option \<times> log_entry list) option" where
  "read_receipt_tail data off = do {
     (return_data_len, off) \<leftarrow> read_u32 data off;
     if \<not> bounded_len (unat return_data_len) MAX_RETURN_DATA then None
     else do {
       (return_data, off) \<leftarrow> read_vec data off (unat return_data_len);
       (has_contract, off) \<leftarrow> read_u8 data off;
       (raw, off) \<leftarrow> read_array 20 data off;
       (logs_len, off) \<leftarrow> read_u32 data off;
       if \<not> bounded_len (unat logs_len) MAX_LOGS_PER_TX then None
       else do {
         (logs, off) \<leftarrow> read_logs (unat logs_len) data off;
         Some (return_data, if has_contract = 0 then None else Some raw, logs)
       }
     }
   }"

definition decode_receipt :: "bytes \<Rightarrow> receipt_like option" where
  "decode_receipt data =
    (let is_v2 = (take 8 data = RECEIPT_V2_MAGIC);
         off = (if is_v2 then 8 else 0)
     in do {
       (t, off) \<leftarrow> read_array 32 data off;
       (block_number, off) \<leftarrow> read_u64 data off;
       (tx_index, off) \<leftarrow> read_u32 data off;
       (status, off) \<leftarrow> read_u8 data off;
       if \<not> valid_receipt_status status then None
       else do {
         (gas_used, off) \<leftarrow> read_u64 data off;
         (price, off) \<leftarrow> read_u64 data off;
         ((l1, op, total), off) \<leftarrow> read_fees is_v2 data off;
         (hash, off) \<leftarrow> read_array 32 data off;
         (return_data, contract, logs) \<leftarrow> read_receipt_tail data off;
         Some \<lparr>rcpt_tx_id = t, rcpt_block_number = block_number, rcpt_tx_index = tx_index, rcpt_status = status,
               rcpt_gas_used = gas_used, rcpt_effective_gas_price = price, rcpt_l1_data_fee = l1,
               rcpt_operator_fee = op, rcpt_total_fee = total, rcpt_return_data_hash = hash,
               rcpt_return_data = return_data, rcpt_contract_address = contract, rcpt_logs = logs\<rparr>
       }
     })"

definition receipt_from_bytes :: "bytes \<Rightarrow> receipt_like \<times> events" where
  "receipt_from_bytes data =
    (if \<not> bounded_len (length data) RECEIPT_MAX_SIZE then corrupt_receipt
     else case decode_receipt data of
       None \<Rightarrow> corrupt_receipt
     | Some r \<Rightarrow> (r, []))"

section \<open>Sequential readers\<close>

text \<open>\<open>remains data off rest\<close>: what is left to read at an offset. A reader \<open>rd\<close> reads a value off its
  encoding when it yields the value and leaves the rest.\<close>

definition remains :: "bytes \<Rightarrow> nat \<Rightarrow> bytes \<Rightarrow> bool" where
  "remains data off rest \<longleftrightarrow> off \<le> length data \<and> drop off data = rest"

definition reads :: "(bytes \<Rightarrow> nat \<Rightarrow> ('a \<times> nat) option) \<Rightarrow> 'a \<Rightarrow> bytes \<Rightarrow> bool" where
  "reads rd x xs \<longleftrightarrow> (\<forall>data off rest. remains data off (xs @ rest) \<longrightarrow>
    (\<exists>off'. rd data off = Some (x, off') \<and> remains data off' rest))"

lemma read_exact_remains:
  assumes "remains data off (xs @ rest)"
  shows "read_exact data off (length xs) = Some (xs, off + length xs) \<and> remains data (off + length xs) rest"
proof -
  have d: "drop off data = xs @ rest" and o: "off \<le> length data"
    using assms by (simp_all add: remains_def)
  then have l: "length data = off + (length xs + length rest)"
    by (metis length_append length_drop le_add_diff_inverse)
  have "drop (off + length xs) data = rest"
    using d by (metis append_eq_conv_conj add.commute drop_drop)
  then show ?thesis
    using d l by (simp add: read_exact_def byte_slice_def remains_def)
qed

lemma reads_array: "length xs = n \<Longrightarrow> reads (read_array n) xs xs"
  using read_exact_remains by (fastforce simp: reads_def read_array_def)

lemma reads_vec: "length xs = n \<Longrightarrow> reads (\<lambda>data off. read_vec data off n) xs xs"
  using read_exact_remains by (fastforce simp: reads_def read_vec_def)

lemma reads_u8: "reads read_u8 b [b]"
  unfolding reads_def
proof (intro allI impI)
  fix data off rest
  assume "remains data off ([b] @ rest)"
  from read_exact_remains [OF this]
  show "\<exists>off'. read_u8 data off = Some (b, off') \<and> remains data off' rest"
    by (simp add: read_u8_def)
qed

lemma reads_word:
  assumes "\<And>data off. rd data off = map_option (\<lambda>(s, off). (from_be_bytes s, off)) (read_exact data off (LENGTH('a) div 8))"
    and "8 dvd LENGTH('a)"
  shows "reads rd (w :: 'a::len word) (to_be_bytes w)"
  unfolding reads_def
proof (intro allI impI)
  fix data off rest
  assume "remains data off (to_be_bytes w @ rest)"
  from read_exact_remains [OF this]
  show "\<exists>off'. rd data off = Some (w, off') \<and> remains data off' rest"
    using assms(2) by (simp add: assms(1))
qed

lemma reads_ints: "reads read_u32 w4 (to_be_bytes w4)" "reads read_u64 w8 (to_be_bytes w8)" "reads read_u128 w16 (to_be_bytes w16)"
  by (rule reads_word; simp add: read_u32_def read_u64_def read_u128_def read_array_def)+

section \<open>Round trip\<close>

definition log_ok :: "log_entry \<Rightarrow> bool" where
  "log_ok l \<longleftrightarrow> length (log_address l) = 20 \<and> length (log_topics l) \<le> MAX_LOG_TOPICS
    \<and> (\<forall>t\<in>set (log_topics l). length t = 32) \<and> length (log_data l) \<le> MAX_LOG_DATA"

text \<open>A receipt within the limits the executor enforces, and the size of its encoding.\<close>

definition receipt_ok :: "receipt_like \<Rightarrow> bool" where
  "receipt_ok r \<longleftrightarrow> length (rcpt_tx_id r) = 32 \<and> rcpt_status r \<le> 1 \<and> length (rcpt_return_data_hash r) = 32
    \<and> length (rcpt_return_data r) \<le> MAX_RETURN_DATA \<and> length (rcpt_logs r) \<le> MAX_LOGS_PER_TX
    \<and> (case rcpt_contract_address r of Some a \<Rightarrow> length a = 20 | None \<Rightarrow> True) \<and> list_all log_ok (rcpt_logs r)"

definition log_len :: "log_entry \<Rightarrow> nat" where
  "log_len l = 28 + 32 * length (log_topics l) + length (log_data l)"

definition receipt_len :: "receipt_like \<Rightarrow> nat" where
  "receipt_len r = 178 + length (rcpt_return_data r) + (\<Sum>l\<leftarrow>rcpt_logs r. log_len l)"

definition log_bytes :: "log_entry \<Rightarrow> bytes" where
  "log_bytes l = log_address l @ to_be_bytes (word_of_nat (length (log_topics l)) :: u32) @ concat (log_topics l)
    @ to_be_bytes (word_of_nat (length (log_data l)) :: u32) @ log_data l"

lemma try_u32: "n < 2 ^ 32 \<Longrightarrow> (try_of_nat n :: u32 option) = Some (word_of_nat n)"
  by (simp add: try_of_nat_def)

lemma unat_u32: "n < 2 ^ 32 \<Longrightarrow> unat (word_of_nat n :: u32) = n"
  by (simp add: unat_of_nat)

lemma length_concat_topics: "\<forall>t\<in>set ts. length t = 32 \<Longrightarrow> length (concat ts) = 32 * length ts"
  by (induction ts) auto

lemma encode_log_ok: "log_ok l \<Longrightarrow> encode_log l = Inr (log_bytes l) \<and> length (log_bytes l) = log_len l"
  by (simp add: encode_log_def log_ok_def bounded_len_def try_u32 log_bytes_def log_len_def length_concat_topics)

lemma encode_logs_ok:
  "list_all log_ok ls \<Longrightarrow> encode_logs ls = Inr (concat (map log_bytes ls))
    \<and> length (concat (map log_bytes ls)) = (\<Sum>l\<leftarrow>ls. log_len l)"
  by (induction ls) (auto simp: encode_log_ok)

lemma reads_topics: "\<forall>t\<in>set ts. length t = 32 \<Longrightarrow> reads (read_topics (length ts)) ts (concat ts)"
  unfolding reads_def
proof (induction ts)
  case (Cons t ts)
  show ?case
  proof (intro allI impI)
    fix data off rest
    assume "remains data off (concat (t # ts) @ rest)"
    then obtain o1 where o1: "read_array 32 data off = Some (t, o1)" "remains data o1 (concat ts @ rest)"
      using reads_array [of t 32] Cons.prems by (fastforce simp: reads_def)
    obtain o2 where "read_topics (length ts) data o1 = Some (ts, o2)" "remains data o2 rest"
      using Cons.IH [OF _] Cons.prems o1(2) by (meson list.set_intros(2))
    then show "\<exists>off'. read_topics (length (t # ts)) data off = Some (t # ts, off') \<and> remains data off' rest"
      using o1(1) by simp
  qed
qed simp

lemma reads_log:
  assumes "log_ok l"
  shows "reads read_log l (log_bytes l)"
  unfolding reads_def
proof (intro allI impI)
  fix data off rest
  note v = assms [unfolded log_ok_def]
  let ?n = "word_of_nat (length (log_topics l)) :: u32" and ?d = "word_of_nat (length (log_data l)) :: u32"
  have n: "unat ?n = length (log_topics l)" "unat ?d = length (log_data l)"
    using v by (simp_all add: unat_u32)
  assume "remains data off (log_bytes l @ rest)"
  then obtain o1 where o1: "read_array 20 data off = Some (log_address l, o1)"
    "remains data o1 (to_be_bytes ?n @ concat (log_topics l) @ to_be_bytes ?d @ log_data l @ rest)"
    using reads_array [of "log_address l" 20] v by (fastforce simp: reads_def log_bytes_def)
  then obtain o2 where o2: "read_u32 data o1 = Some (?n, o2)"
    "remains data o2 (concat (log_topics l) @ to_be_bytes ?d @ log_data l @ rest)"
    using reads_ints(1) [of ?n] by (fastforce simp: reads_def)
  then obtain o3 where o3: "read_topics (length (log_topics l)) data o2 = Some (log_topics l, o3)"
    "remains data o3 (to_be_bytes ?d @ log_data l @ rest)"
    using reads_topics [of "log_topics l"] v by (fastforce simp: reads_def)
  then obtain o4 where o4: "read_u32 data o3 = Some (?d, o4)" "remains data o4 (log_data l @ rest)"
    using reads_ints(1) [of ?d] by (fastforce simp: reads_def)
  then obtain o5 where o5: "read_vec data o4 (length (log_data l)) = Some (log_data l, o5)" "remains data o5 rest"
    using reads_vec [of "log_data l"] by (fastforce simp: reads_def)
  show "\<exists>off'. read_log data off = Some (l, off') \<and> remains data off' rest"
    using o1(1) o2(1) o3(1) o4(1) o5 v n by (simp add: read_log_def bounded_len_def)
qed

lemma reads_logs: "list_all log_ok ls \<Longrightarrow> reads (read_logs (length ls)) ls (concat (map log_bytes ls))"
  unfolding reads_def
proof (induction ls)
  case (Cons l ls)
  show ?case
  proof (intro allI impI)
    fix data off rest
    assume "remains data off (concat (map log_bytes (l # ls)) @ rest)"
    then obtain o1 where o1: "read_log data off = Some (l, o1)" "remains data o1 (concat (map log_bytes ls) @ rest)"
      using reads_log [of l] Cons.prems by (fastforce simp: reads_def)
    obtain o2 where "read_logs (length ls) data o1 = Some (ls, o2)" "remains data o2 rest"
      using Cons.IH Cons.prems o1(2) unfolding list.pred_inject(2) by blast
    then show "\<exists>off'. read_logs (length (l # ls)) data off = Some (l # ls, off') \<and> remains data off' rest"
      using o1(1) by simp
  qed
qed simp


text \<open>The encoding of a receipt within the limits.\<close>

definition receipt_tail_bytes :: "receipt_like \<Rightarrow> bytes" where
  "receipt_tail_bytes r =
    to_be_bytes (word_of_nat (length (rcpt_return_data r)) :: u32) @ rcpt_return_data r
      @ contract_bytes (rcpt_contract_address r) @ to_be_bytes (word_of_nat (length (rcpt_logs r)) :: u32)
      @ concat (map log_bytes (rcpt_logs r))"

lemma encode_checked_ok:
  assumes "receipt_ok r"
  shows "encode_checked r = Inr (receipt_head_bytes r @ receipt_tail_bytes r)"
    and "length (receipt_head_bytes r @ receipt_tail_bytes r) = receipt_len r"
  using assms encode_logs_ok [of "rcpt_logs r"]
  by (auto simp: receipt_ok_def encode_checked_def valid_receipt_status_def bounded_len_def try_u32 receipt_tail_bytes_def
      receipt_head_bytes_def receipt_len_def contract_bytes_def RECEIPT_V2_MAGIC_def split: option.splits)

lemma read_receipt_tail_ok:
  assumes ok: "receipt_ok r" and rem: "remains data off (receipt_tail_bytes r)"
  shows "read_receipt_tail data off = Some (rcpt_return_data r, rcpt_contract_address r, rcpt_logs r)"
proof -
  let ?n = "word_of_nat (length (rcpt_return_data r)) :: u32" and ?k = "word_of_nat (length (rcpt_logs r)) :: u32"
  note v = ok [unfolded receipt_ok_def]
  have n: "unat ?n = length (rcpt_return_data r)" "unat ?k = length (rcpt_logs r)"
    using v by (simp_all add: unat_u32)
  obtain flag raw where c: "contract_bytes (rcpt_contract_address r) = flag # raw" "length raw = 20"
    "(if flag = 0 then None else Some raw) = rcpt_contract_address r"
    using v by (cases "rcpt_contract_address r") (simp_all add: contract_bytes_def)
  obtain o1 where o1: "read_u32 data off = Some (?n, o1)"
    "remains data o1 (rcpt_return_data r @ flag # raw @ to_be_bytes ?k @ concat (map log_bytes (rcpt_logs r)))"
    using reads_ints(1) [of ?n] rem by (fastforce simp: reads_def receipt_tail_bytes_def c(1))
  then obtain o2 where o2: "read_vec data o1 (length (rcpt_return_data r)) = Some (rcpt_return_data r, o2)"
    "remains data o2 ([flag] @ raw @ to_be_bytes ?k @ concat (map log_bytes (rcpt_logs r)))"
    using reads_vec [of "rcpt_return_data r"] by (fastforce simp: reads_def)
  then obtain o3 where o3: "read_u8 data o2 = Some (flag, o3)"
    "remains data o3 (raw @ to_be_bytes ?k @ concat (map log_bytes (rcpt_logs r)))"
    using reads_u8 [of flag] unfolding reads_def by blast
  then obtain o4 where o4: "read_array 20 data o3 = Some (raw, o4)"
    "remains data o4 (to_be_bytes ?k @ concat (map log_bytes (rcpt_logs r)))"
    using reads_array [OF c(2)] unfolding reads_def by blast
  then obtain o5 where o5: "read_u32 data o4 = Some (?k, o5)" "remains data o5 (concat (map log_bytes (rcpt_logs r)) @ [])"
    using reads_ints(1) [of ?k] by (fastforce simp: reads_def)
  then obtain o6 where o6: "read_logs (length (rcpt_logs r)) data o5 = Some (rcpt_logs r, o6)"
    using reads_logs [of "rcpt_logs r"] v unfolding reads_def by blast
  show ?thesis
    using o1(1) o2(1) o3(1) o4(1) o5(1) o6 v n c(3) by (simp add: read_receipt_tail_def bounded_len_def)
qed

lemma reads_fees: "reads (read_fees True) (a, b, c) (to_be_bytes a @ to_be_bytes b @ to_be_bytes c)"
  unfolding reads_def
proof (intro allI impI)
  fix data off rest
  assume "remains data off ((to_be_bytes a @ to_be_bytes b @ to_be_bytes c) @ rest)"
  then obtain o1 where o1: "read_u128 data off = Some (a, o1)" "remains data o1 (to_be_bytes b @ to_be_bytes c @ rest)"
    using reads_ints(3) [of a] unfolding reads_def append_assoc by blast
  then obtain o2 where o2: "read_u128 data o1 = Some (b, o2)" "remains data o2 (to_be_bytes c @ rest)"
    using reads_ints(3) [of b] unfolding reads_def by blast
  then obtain o3 where o3: "read_u128 data o2 = Some (c, o3)" "remains data o3 rest"
    using reads_ints(3) [of c] unfolding reads_def by blast
  show "\<exists>off'. read_fees True data off = Some ((a, b, c), off') \<and> remains data off' rest"
    using o1(1) o2(1) o3 by (simp add: read_fees_def)
qed

lemma decode_receipt_ok:
  assumes ok: "receipt_ok r"
  shows "decode_receipt (receipt_head_bytes r @ receipt_tail_bytes r) = Some r"
proof -
  define data where "data = receipt_head_bytes r @ receipt_tail_bytes r"
  note v = ok [unfolded receipt_ok_def]
  have magic: "take 8 data = RECEIPT_V2_MAGIC"
    by (simp add: data_def receipt_head_bytes_def RECEIPT_V2_MAGIC_def)
  let ?fees = "to_be_bytes (rcpt_l1_data_fee r) @ to_be_bytes (rcpt_operator_fee r) @ to_be_bytes (rcpt_total_fee r)"
  let ?r1 = "rcpt_return_data_hash r @ receipt_tail_bytes r"
  let ?r2 = "to_be_bytes (rcpt_gas_used r) @ to_be_bytes (rcpt_effective_gas_price r) @ ?fees @ ?r1"
  let ?r3 = "to_be_bytes (rcpt_tx_index r) @ [rcpt_status r] @ ?r2"
  have "remains data 8 (rcpt_tx_id r @ to_be_bytes (rcpt_block_number r) @ ?r3)"
    by (simp add: remains_def data_def receipt_head_bytes_def RECEIPT_V2_MAGIC_def)
  then obtain o1 where o1: "read_array 32 data 8 = Some (rcpt_tx_id r, o1)"
    "remains data o1 (to_be_bytes (rcpt_block_number r) @ ?r3)"
    using reads_array [of "rcpt_tx_id r" 32] v unfolding reads_def by blast
  then obtain o2 where o2: "read_u64 data o1 = Some (rcpt_block_number r, o2)" "remains data o2 ?r3"
    using reads_ints(2) unfolding reads_def by blast
  then obtain o3 where o3: "read_u32 data o2 = Some (rcpt_tx_index r, o3)" "remains data o3 ([rcpt_status r] @ ?r2)"
    using reads_ints(1) unfolding reads_def by blast
  then obtain o4 where o4: "read_u8 data o3 = Some (rcpt_status r, o4)" "remains data o4 ?r2"
    using reads_u8 unfolding reads_def by blast
  then obtain o5 o6 where o5: "read_u64 data o4 = Some (rcpt_gas_used r, o5)"
    "read_u64 data o5 = Some (rcpt_effective_gas_price r, o6)" "remains data o6 (?fees @ ?r1)"
    using reads_ints(2) unfolding reads_def append_assoc by blast
  then obtain o7 where o7: "read_fees True data o6
      = Some ((rcpt_l1_data_fee r, rcpt_operator_fee r, rcpt_total_fee r), o7)" "remains data o7 ?r1"
    using reads_fees unfolding reads_def by blast
  then obtain o8 where o8: "read_array 32 data o7 = Some (rcpt_return_data_hash r, o8)" "remains data o8 (receipt_tail_bytes r)"
    using reads_array [of "rcpt_return_data_hash r" 32] v unfolding reads_def by blast
  show ?thesis
    unfolding data_def [symmetric]
    using magic o1(1) o2(1) o3(1) o4(1) o5(1,2) o7(1) o8(1) read_receipt_tail_ok [OF ok o8(2)] v
    by (simp add: decode_receipt_def valid_receipt_status_def)
qed

lemma fallback_receipt:
  "encode_fallback_receipt
    = (receipt_head_bytes corrupt_receipt_value @ receipt_tail_bytes corrupt_receipt_value, [Corrupt ''receipt''])"
  "receipt_ok corrupt_receipt_value" "receipt_len corrupt_receipt_value = 178"
proof -
  show ok: "receipt_ok corrupt_receipt_value" and len: "receipt_len corrupt_receipt_value = 178"
    by (simp_all add: receipt_ok_def corrupt_receipt_value_def receipt_len_def)
  show "encode_fallback_receipt
      = (receipt_head_bytes corrupt_receipt_value @ receipt_tail_bytes corrupt_receipt_value, [Corrupt ''receipt''])"
    using encode_checked_ok [OF ok] len
    by (simp add: encode_fallback_receipt_def corrupt_receipt_def encode_guarded_def ensure_encoded_within_bound_def
        mark_decode_failure_def is_fail_closed_label_def)
qed

lemma receipt_codec_cases:
  assumes ok: "receipt_ok r"
  shows "receipt_len r \<le> RECEIPT_MAX_SIZE \<Longrightarrow>
      receipt_to_bytes r = (receipt_head_bytes r @ receipt_tail_bytes r, [])
      \<and> receipt_from_bytes (fst (receipt_to_bytes r)) = (r, [])"
    and "RECEIPT_MAX_SIZE < receipt_len r \<Longrightarrow>
      receipt_from_bytes (fst (receipt_to_bytes r)) = (corrupt_receipt_value, [])
      \<and> Corrupt ''receipt_encode'' \<in> set (snd (receipt_to_bytes r))"
proof -
  have dec: "receipt_from_bytes (receipt_head_bytes q @ receipt_tail_bytes q) = (q, [])"
    if "receipt_ok q" "receipt_len q \<le> RECEIPT_MAX_SIZE" for q
    using that decode_receipt_ok [of q] encode_checked_ok(2) [of q]
    by (simp add: receipt_from_bytes_def bounded_len_def del: length_append)
  show "receipt_to_bytes r = (receipt_head_bytes r @ receipt_tail_bytes r, [])
      \<and> receipt_from_bytes (fst (receipt_to_bytes r)) = (r, [])" if "receipt_len r \<le> RECEIPT_MAX_SIZE"
    using that encode_checked_ok [OF ok] dec [OF ok]
    by (simp add: receipt_to_bytes_def encode_guarded_def ensure_encoded_within_bound_def del: length_append)
  show "receipt_from_bytes (fst (receipt_to_bytes r)) = (corrupt_receipt_value, [])
      \<and> Corrupt ''receipt_encode'' \<in> set (snd (receipt_to_bytes r))" if "RECEIPT_MAX_SIZE < receipt_len r"
    using that encode_checked_ok [OF ok] dec [OF fallback_receipt(2)]
    by (simp add: receipt_to_bytes_def encode_guarded_def ensure_encoded_within_bound_def fallback_receipt del: length_append)
qed

interpretation receipt_codec:
  codec receipt_to_bytes receipt_from_bytes "\<lambda>r. receipt_ok r \<and> receipt_len r \<le> RECEIPT_MAX_SIZE" RECEIPT_MAX_SIZE
proof unfold_locales
  fix r
  assume ok: "receipt_ok r \<and> receipt_len r \<le> RECEIPT_MAX_SIZE"
  then have "receipt_to_bytes r = (receipt_head_bytes r @ receipt_tail_bytes r, [])"
    "receipt_from_bytes (fst (receipt_to_bytes r)) = (r, [])"
    using receipt_codec_cases(1) by blast+
  then show "snd (receipt_to_bytes r) = []" "receipt_from_bytes (fst (receipt_to_bytes r)) = (r, [])"
    "length (fst (receipt_to_bytes r)) \<le> RECEIPT_MAX_SIZE"
    using encode_checked_ok(2) [of r] ok by (simp_all del: length_append)
qed

text \<open>C33: a receipt within the limits of the executor survives its stored form whenever its encoding fits
  the declared bound.\<close>
theorem receipt_roundtrip:
  assumes "receipt_ok r" and "receipt_len r \<le> RECEIPT_MAX_SIZE"
  shows "receipt_from_bytes (fst (receipt_to_bytes r)) = (r, []) \<and> snd (receipt_to_bytes r) = []
    \<and> length (fst (receipt_to_bytes r)) \<le> RECEIPT_MAX_SIZE"
  using assms receipt_codec.dec_enc [of r] receipt_codec.silent [of r] receipt_codec.enc_bound [of r] by simp

definition example_receipt :: receipt_like where
  "example_receipt = corrupt_receipt_value\<lparr>rcpt_tx_id := replicate 32 7, rcpt_status := 1, rcpt_gas_used := 21000,
    rcpt_contract_address := Some (replicate 20 9),
    rcpt_logs := [\<lparr>log_address = replicate 20 1, log_topics = [replicate 32 2], log_data = [3, 4]\<rparr>]\<rparr>"

theorem receipt_roundtrip_witness:
  "receipt_from_bytes (fst (receipt_to_bytes example_receipt)) = (example_receipt, [])"
  using receipt_roundtrip [of example_receipt]
  by (simp add: example_receipt_def corrupt_receipt_value_def receipt_ok_def receipt_len_def log_ok_def log_len_def)

text \<open>C34: the declared bound leaves out the 32 bytes of the return-data hash, so receipts near the limits of
  the executor do not fit: a receipt that respects every limit but whose return data and logs exceed the
  remaining bytes is replaced by the corrupt record when it is stored, and reading it back finds no
  receipt of that transaction. With the largest return data and sixty-four full logs the encoding is
  exactly 32 bytes too long.\<close>
theorem full_receipt_lost:
  assumes "receipt_ok r" and "length (rcpt_return_data r) = MAX_RETURN_DATA" and "length (rcpt_logs r) = MAX_LOGS_PER_TX"
    and "list_all (\<lambda>l. length (log_topics l) = MAX_LOG_TOPICS \<and> length (log_data l) = MAX_LOG_DATA) (rcpt_logs r)"
  shows "receipt_len r = RECEIPT_MAX_SIZE + 32
    \<and> receipt_from_bytes (fst (receipt_to_bytes r)) = (corrupt_receipt_value, [])"
proof -
  have "(\<Sum>l\<leftarrow>ls. log_len l) = 4252 * length ls"
    if "list_all (\<lambda>l. length (log_topics l) = MAX_LOG_TOPICS \<and> length (log_data l) = MAX_LOG_DATA) ls" for ls
    using that by (induction ls) (simp_all add: log_len_def)
  from this [OF assms(4)] have "receipt_len r = RECEIPT_MAX_SIZE + 32"
    using assms(2,3) by (simp add: receipt_len_def)
  then show ?thesis
    using receipt_codec_cases(2) [OF assms(1)] by simp
qed

definition full_receipt :: receipt_like where
  "full_receipt = corrupt_receipt_value\<lparr>rcpt_tx_id := replicate 32 7, rcpt_status := 1,
    rcpt_return_data := replicate MAX_RETURN_DATA 0,
    rcpt_logs := replicate MAX_LOGS_PER_TX
      \<lparr>log_address = replicate 20 1, log_topics = replicate MAX_LOG_TOPICS (replicate 32 2), log_data = replicate MAX_LOG_DATA 3\<rparr>\<rparr>"

theorem full_receipt_lost_witness:
  "receipt_ok full_receipt \<and> receipt_from_bytes (fst (receipt_to_bytes full_receipt)) = (corrupt_receipt_value, [])"
proof -
  have "receipt_ok full_receipt"
    by (simp add: full_receipt_def corrupt_receipt_value_def receipt_ok_def log_ok_def list_all_iff)
  moreover from this have "receipt_from_bytes (fst (receipt_to_bytes full_receipt)) = (corrupt_receipt_value, [])"
    using full_receipt_lost [of full_receipt] by (simp add: full_receipt_def list_all_iff)
  ultimately show ?thesis
    by blast
qed

end
