(* ===== verification/Tx_Decode.thy ===== *)
theory Tx_Decode
  imports Stored_Tx
begin

text \<open>
  Decoding of transaction bytes: \<open>evm-core/src/tx_decode.rs\<close>. The synthetic format of canister
  callers is modelled byte for byte. The recovery of signed Ethereum transactions
  (\<open>recover_eth_tx\<close> of \<open>ic-evm-tx/src/lib.rs\<close>) is modelled over the decoders and the signer recovery
  of the alloy library, which are arguments.
\<close>

datatype decode_error =
    InvalidLength | InvalidVersion | DataTooLarge | UnsupportedType | LegacyChainIdMissing
  | WrongChainId | InvalidSignature | InvalidRlp | TrailingBytes

datatype recovery_error =
    RecUnsupportedType | RecLegacyChainIdMissing | RecWrongChainId | RecInvalidSignature
  | RecInvalidRlp | RecTrailingBytes

fun map_recovery_error :: "recovery_error \<Rightarrow> decode_error" where
  "map_recovery_error RecUnsupportedType = UnsupportedType"
| "map_recovery_error RecLegacyChainIdMissing = LegacyChainIdMissing"
| "map_recovery_error RecWrongChainId = WrongChainId"
| "map_recovery_error RecInvalidSignature = InvalidSignature"
| "map_recovery_error RecInvalidRlp = InvalidRlp"
| "map_recovery_error RecTrailingBytes = TrailingBytes"

record ic_synthetic_tx_input =
  ic_to :: "bytes option"
  ic_value :: bytes
  ic_gas_limit :: u64
  ic_nonce :: u64
  ic_max_fee_per_gas :: u128
  ic_max_priority_fee_per_gas :: u128
  ic_data :: bytes

type_synonym ic_tx_header = ic_synthetic_tx_input

abbreviation IC_TX_BASE_HEADER_LEN :: nat where
  "IC_TX_BASE_HEADER_LEN \<equiv> 1 + 32 + 8 + 8 + 16 + 16 + 4"

abbreviation CHAIN_ID :: u64 where
  "CHAIN_ID \<equiv> 4801360"

definition decode_ic_synthetic_header_impl :: "bool \<Rightarrow> bytes \<Rightarrow> decode_error + ic_tx_header" where
  "decode_ic_synthetic_header_impl enforce_data_size_limit bs =
    (if length bs < IC_TX_BASE_HEADER_LEN then Inl InvalidLength
     else if hd bs \<noteq> 0 \<and> hd bs \<noteq> 1 then Inl InvalidVersion
     else
       let to_len = (if hd bs = 0 then 0 else 20);
           fixed_len = IC_TX_BASE_HEADER_LEN + to_len
       in if length bs < fixed_len then Inl InvalidLength
          else
            let receiver = (if to_len = 0 then None else Some (byte_slice 1 21 bs));
                off = 1 + to_len;
                data_len = unat (from_be_bytes (byte_slice (off + 80) (off + 84) bs) :: u32)
            in if length bs - (off + 84) \<noteq> data_len then Inl InvalidLength
               else if enforce_data_size_limit \<and> data_len > MAX_TX_SIZE then Inl DataTooLarge
               else Inr \<lparr>ic_to = receiver,
                         ic_value = byte_slice off (off + 32) bs,
                         ic_gas_limit = from_be_bytes (byte_slice (off + 32) (off + 40) bs),
                         ic_nonce = from_be_bytes (byte_slice (off + 40) (off + 48) bs),
                         ic_max_fee_per_gas = from_be_bytes (byte_slice (off + 48) (off + 64) bs),
                         ic_max_priority_fee_per_gas = from_be_bytes (byte_slice (off + 64) (off + 80) bs),
                         ic_data = drop (off + 84) bs\<rparr>)"

definition decode_ic_synthetic_header :: "bytes \<Rightarrow> decode_error + ic_tx_header" where
  "decode_ic_synthetic_header bs = decode_ic_synthetic_header_impl True bs"

definition encode_ic_synthetic_input :: "ic_synthetic_tx_input \<Rightarrow> bytes" where
  "encode_ic_synthetic_input i =
    (case ic_to i of Some r \<Rightarrow> 1 # r | None \<Rightarrow> [0])
      @ ic_value i @ to_be_bytes (ic_gas_limit i) @ to_be_bytes (ic_nonce i)
      @ to_be_bytes (ic_max_fee_per_gas i) @ to_be_bytes (ic_max_priority_fee_per_gas i)
      @ to_be_bytes (case try_of_nat (length (ic_data i)) of Some l \<Rightarrow> l | None \<Rightarrow> (- 1 :: u32))
      @ ic_data i"

datatype revm_tx_kind = Call bytes | Create

record tx_env =
  te_caller :: bytes
  te_gas_limit :: u64
  te_gas_price :: u128
  te_kind :: revm_tx_kind
  te_value :: "256 word"
  te_data :: bytes
  te_nonce :: u64
  te_chain_id :: "u64 option"
  te_access_list :: "(bytes \<times> bytes list) list"
  te_gas_priority_fee :: "u128 option"
  te_tx_type :: u8

record recovered_tx =
  rc_from :: bytes
  rc_to :: "bytes option"
  rc_nonce :: u64
  rc_value :: "256 word"
  rc_input :: bytes
  rc_gas_limit :: u64
  rc_gas_price :: "u128 option"
  rc_max_fee_per_gas :: "u128 option"
  rc_max_priority_fee_per_gas :: "u128 option"
  rc_chain_id :: "u64 option"
  rc_tx_type :: u8
  rc_access_list :: "(bytes \<times> bytes list) list"
  rc_signature_v :: u64
  rc_signature_r :: bytes
  rc_signature_s :: bytes

text \<open>What the library reads off a decoded signed transaction, and its decoders: each yields the
  transaction and the bytes it left unread.\<close>

record signed_tx =
  sg_kind :: revm_tx_kind
  sg_nonce :: u64
  sg_value :: "256 word"
  sg_input :: bytes
  sg_gas_limit :: u64
  sg_is_dynamic_fee :: bool
  sg_gas_price :: "u128 option"
  sg_max_fee_per_gas :: u128
  sg_max_priority_fee_per_gas :: "u128 option"
  sg_chain_id :: "u64 option"
  sg_access_list :: "(bytes \<times> bytes list) list option"
  sg_v :: bool
  sg_r :: bytes
  sg_s :: bytes

record alloy_lib =
  legacy_rlp_decode :: "bytes \<Rightarrow> (signed_tx \<times> bytes) option"
  eip2930_decode :: "bytes \<Rightarrow> (signed_tx \<times> bytes) option"
  eip1559_decode :: "bytes \<Rightarrow> (signed_tx \<times> bytes) option"
  recover_signer :: "signed_tx \<Rightarrow> bytes option"

definition validate_chain_id :: "u64 option \<Rightarrow> recovery_error + unit" where
  "validate_chain_id chain_id =
    (case chain_id of
       None \<Rightarrow> Inl RecLegacyChainIdMissing
     | Some i \<Rightarrow> if i \<noteq> CHAIN_ID then Inl RecWrongChainId else Inr ())"

definition recovered_from_tx :: "signed_tx \<Rightarrow> bytes \<Rightarrow> u8 \<Rightarrow> recovered_tx" where
  "recovered_from_tx tx from tx_type =
    (let parity = (if sg_v tx then 1 else 0)
     in \<lparr>rc_from = from,
         rc_to = (case sg_kind tx of Call a \<Rightarrow> Some a | Create \<Rightarrow> None),
         rc_nonce = sg_nonce tx, rc_value = sg_value tx, rc_input = sg_input tx, rc_gas_limit = sg_gas_limit tx,
         rc_gas_price = (if sg_is_dynamic_fee tx then None else sg_gas_price tx),
         rc_max_fee_per_gas = (if sg_is_dynamic_fee tx then Some (sg_max_fee_per_gas tx) else None),
         rc_max_priority_fee_per_gas = (if sg_is_dynamic_fee tx then sg_max_priority_fee_per_gas tx else None),
         rc_chain_id = sg_chain_id tx, rc_tx_type = tx_type,
         rc_access_list = (case sg_access_list tx of Some l \<Rightarrow> l | None \<Rightarrow> []),
         rc_signature_v =
           (if tx_type = 0
            then (case sg_chain_id tx of
                    Some i \<Rightarrow> sat_add (sat_mul i 2) (35 + parity)
                  | None \<Rightarrow> 27 + parity)
            else parity),
         rc_signature_r = sg_r tx, rc_signature_s = sg_s tx\<rparr>)"

definition finalize_recovered :: "alloy_lib \<Rightarrow> signed_tx \<Rightarrow> u8 \<Rightarrow> bytes \<Rightarrow> recovery_error + recovered_tx" where
  "finalize_recovered lib stx tx_type trailing =
    (if trailing \<noteq> [] then Inl RecTrailingBytes
     else case validate_chain_id (sg_chain_id stx) of
       Inl e \<Rightarrow> Inl e
     | Inr _ \<Rightarrow>
         (case recover_signer lib stx of
            None \<Rightarrow> Inl RecInvalidSignature
          | Some from \<Rightarrow> Inr (recovered_from_tx stx from tx_type)))"

definition recover_with ::
  "alloy_lib \<Rightarrow> (bytes \<Rightarrow> (signed_tx \<times> bytes) option) \<Rightarrow> u8 \<Rightarrow> bytes \<Rightarrow> recovery_error + recovered_tx" where
  "recover_with lib decoder tx_type bs =
    (case decoder bs of
       None \<Rightarrow> Inl RecInvalidRlp
     | Some (stx, rest) \<Rightarrow> finalize_recovered lib stx tx_type rest)"

definition recover_eth_tx :: "alloy_lib \<Rightarrow> bytes \<Rightarrow> recovery_error + recovered_tx" where
  "recover_eth_tx lib bs =
    (case bs of
       [] \<Rightarrow> Inl RecInvalidRlp
     | first_byte # _ \<Rightarrow>
         if first_byte \<ge> 0xc0 then recover_with lib (legacy_rlp_decode lib) 0 bs
         else if first_byte = 1 then recover_with lib (eip2930_decode lib) 1 bs
         else if first_byte = 2 then recover_with lib (eip1559_decode lib) 2 bs
         else Inl RecUnsupportedType)"

type_synonym recover_fn = "bytes \<Rightarrow> recovery_error + recovered_tx"

definition kind_of_to :: "bytes option \<Rightarrow> revm_tx_kind" where
  "kind_of_to r = (case r of Some a \<Rightarrow> Call a | None \<Rightarrow> Create)"

definition decode_ic_synthetic :: "bytes \<Rightarrow> bytes \<Rightarrow> decode_error + tx_env" where
  "decode_ic_synthetic caller bs =
    (case decode_ic_synthetic_header bs of
       Inl e \<Rightarrow> Inl e
     | Inr h \<Rightarrow> Inr \<lparr>te_caller = caller, te_gas_limit = ic_gas_limit h, te_gas_price = ic_max_fee_per_gas h,
         te_kind = kind_of_to (ic_to h), te_value = from_be_bytes (ic_value h), te_data = ic_data h,
         te_nonce = ic_nonce h, te_chain_id = Some CHAIN_ID, te_access_list = [],
         te_gas_priority_fee = Some (ic_max_priority_fee_per_gas h), te_tx_type = 2\<rparr>)"

definition decoded_to_tx_env :: "recovered_tx \<Rightarrow> tx_env" where
  "decoded_to_tx_env d =
    \<lparr>te_caller = rc_from d, te_gas_limit = rc_gas_limit d,
     te_gas_price = (case rc_gas_price d of
         Some p \<Rightarrow> p
       | None \<Rightarrow> (case rc_max_fee_per_gas d of Some p \<Rightarrow> p | None \<Rightarrow> 0)),
     te_kind = kind_of_to (rc_to d), te_value = rc_value d, te_data = rc_input d,
     te_nonce = rc_nonce d, te_chain_id = rc_chain_id d, te_access_list = rc_access_list d,
     te_gas_priority_fee = rc_max_priority_fee_per_gas d, te_tx_type = rc_tx_type d\<rparr>"

definition should_reject_unsupported_typed_tx :: "u8 \<Rightarrow> bool" where
  "should_reject_unsupported_typed_tx first_byte = (first_byte = 3 \<or> first_byte = 4)"

definition decode_eth_raw_tx_to_recovered :: "recover_fn \<Rightarrow> bytes \<Rightarrow> decode_error + recovered_tx" where
  "decode_eth_raw_tx_to_recovered recover bs =
    (if bs = [] then Inl InvalidLength
     else if length bs > MAX_TX_SIZE then Inl DataTooLarge
     else if should_reject_unsupported_typed_tx (hd bs) then Inl UnsupportedType
     else case recover bs of Inl e \<Rightarrow> Inl (map_recovery_error e) | Inr d \<Rightarrow> Inr d)"

definition decode_eth_raw_tx :: "recover_fn \<Rightarrow> bytes \<Rightarrow> decode_error + tx_env" where
  "decode_eth_raw_tx recover bs =
    (if bs \<noteq> [] \<and> (hd bs = 3 \<or> hd bs = 4) then Inl UnsupportedType
     else case decode_eth_raw_tx_to_recovered recover bs of
            Inl e \<Rightarrow> Inl e
          | Inr d \<Rightarrow> Inr (decoded_to_tx_env d))"

fun decode_tx :: "recover_fn \<Rightarrow> tx_kind \<Rightarrow> bytes \<Rightarrow> bytes \<Rightarrow> decode_error + tx_env" where
  "decode_tx recover IcSynthetic caller bs = decode_ic_synthetic caller bs"
| "decode_tx recover EthSigned caller bs = decode_eth_raw_tx recover bs"

text \<open>The view the query interface shows of a transaction.\<close>

record decoded_tx_view =
  dv_from :: bytes
  dv_to :: "bytes option"
  dv_nonce :: u64
  dv_value :: bytes
  dv_input :: bytes
  dv_gas_limit :: u64
  dv_gas_price :: "u128 option"
  dv_max_fee_per_gas :: "u128 option"
  dv_max_priority_fee_per_gas :: "u128 option"
  dv_chain_id :: "u64 option"
  dv_tx_type :: u8
  dv_signature_v :: "u64 option"
  dv_signature_r :: "bytes option"
  dv_signature_s :: "bytes option"

definition recovered_to_decoded_view :: "recovered_tx \<Rightarrow> decoded_tx_view" where
  "recovered_to_decoded_view d =
    \<lparr>dv_from = rc_from d, dv_to = rc_to d, dv_nonce = rc_nonce d, dv_value = to_be_bytes (rc_value d),
     dv_input = rc_input d, dv_gas_limit = rc_gas_limit d, dv_gas_price = rc_gas_price d,
     dv_max_fee_per_gas = rc_max_fee_per_gas d, dv_max_priority_fee_per_gas = rc_max_priority_fee_per_gas d,
     dv_chain_id = rc_chain_id d, dv_tx_type = rc_tx_type d, dv_signature_v = Some (rc_signature_v d),
     dv_signature_r = Some (rc_signature_r d), dv_signature_s = Some (rc_signature_s d)\<rparr>"

fun decode_tx_view :: "recover_fn \<Rightarrow> tx_kind \<Rightarrow> bytes \<Rightarrow> bytes \<Rightarrow> decode_error + decoded_tx_view" where
  "decode_tx_view recover IcSynthetic caller bs =
    (case decode_ic_synthetic_header bs of
       Inl e \<Rightarrow> Inl e
     | Inr h \<Rightarrow> Inr \<lparr>dv_from = caller, dv_to = ic_to h, dv_nonce = ic_nonce h, dv_value = ic_value h,
         dv_input = ic_data h, dv_gas_limit = ic_gas_limit h, dv_gas_price = None,
         dv_max_fee_per_gas = Some (ic_max_fee_per_gas h),
         dv_max_priority_fee_per_gas = Some (ic_max_priority_fee_per_gas h), dv_chain_id = Some CHAIN_ID,
         dv_tx_type = 2, dv_signature_v = None, dv_signature_r = None, dv_signature_s = None\<rparr>)"
| "decode_tx_view recover EthSigned caller bs =
    (case decode_eth_raw_tx_to_recovered recover bs of
       Inl e \<Rightarrow> Inl e
     | Inr d \<Rightarrow> Inr (recovered_to_decoded_view d))"

section \<open>Correctness of the synthetic format\<close>

definition ic_valid :: "ic_synthetic_tx_input \<Rightarrow> bool" where
  "ic_valid i \<longleftrightarrow> (case ic_to i of Some r \<Rightarrow> length r = 20 | None \<Rightarrow> True)
    \<and> length (ic_value i) = 32 \<and> length (ic_data i) \<le> MAX_TX_SIZE"

lemma try_of_nat_data:
  "n \<le> MAX_TX_SIZE \<Longrightarrow> (try_of_nat n :: u32 option) = Some (word_of_nat n) \<and> unat (word_of_nat n :: u32) = n"
  by (simp add: try_of_nat_def unsigned_of_nat take_bit_nat_eq_self)

lemma decode_encode_ic:
  assumes "ic_valid i"
  shows "decode_ic_synthetic_header (encode_ic_synthetic_input i) = Inr i"
  using assms try_of_nat_data [of "length (ic_data i)"]
  by (cases "ic_to i")
    (simp_all add: ic_valid_def decode_ic_synthetic_header_def decode_ic_synthetic_header_impl_def
      encode_ic_synthetic_input_def Let_def)

lemma slices_concat: "i \<le> j \<Longrightarrow> byte_slice i j xs @ drop j xs = drop i xs"
  by (simp add: byte_slice_def) (metis append_take_drop_id drop_drop le_add_diff_inverse2)

lemma from_be_bytes_slice:
  "LENGTH('a) = 8 * (j - i) \<Longrightarrow> i \<le> j \<Longrightarrow> j \<le> length xs \<Longrightarrow>
    to_be_bytes (from_be_bytes (byte_slice i j xs) :: 'a::len word) = byte_slice i j xs"
  by (rule to_be_bytes_from_be_bytes) (simp_all add: length_slice)

lemma encode_decode_ic:
  assumes "decode_ic_synthetic_header bs = Inr i"
  shows "encode_ic_synthetic_input i = bs" and "ic_valid i"
proof -
  define off :: nat where "off = (if hd bs = 0 then 1 else 21)"
  have l: "off + 84 \<le> length bs" and h: "hd bs = 0 \<or> hd bs = 1"
    and n: "length bs - (off + 84) = unat (from_be_bytes (byte_slice (off + 80) (off + 84) bs) :: u32)"
    and m: "length bs - (off + 84) \<le> MAX_TX_SIZE"
    and i: "i = \<lparr>ic_to = (if hd bs = 0 then None else Some (byte_slice 1 21 bs)),
        ic_value = byte_slice off (off + 32) bs,
        ic_gas_limit = from_be_bytes (byte_slice (off + 32) (off + 40) bs),
        ic_nonce = from_be_bytes (byte_slice (off + 40) (off + 48) bs),
        ic_max_fee_per_gas = from_be_bytes (byte_slice (off + 48) (off + 64) bs),
        ic_max_priority_fee_per_gas = from_be_bytes (byte_slice (off + 64) (off + 80) bs),
        ic_data = drop (off + 84) bs\<rparr>"
    using assms by (auto simp: decode_ic_synthetic_header_def decode_ic_synthetic_header_impl_def Let_def off_def
        split: if_splits)
  have ne: "bs \<noteq> []"
    using l by auto
  have front: "(case ic_to i of Some r \<Rightarrow> 1 # r | None \<Rightarrow> [0]) @ drop off bs = bs"
    using h ne slices_concat [of 1 21 bs] by (cases bs) (auto simp: i off_def)
  have len: "(case try_of_nat (length (ic_data i)) of Some l \<Rightarrow> l | None \<Rightarrow> (- 1 :: u32))
      = from_be_bytes (byte_slice (off + 80) (off + 84) bs)"
    using try_of_nat_data [of "length bs - (off + 84)"] m n by (simp add: i)
  have field: "to_be_bytes (from_be_bytes (byte_slice a b bs) :: 'w::len word) = byte_slice a b bs"
    if "LENGTH('w) = 8 * (b - a)" "a \<le> b" "b \<le> off + 84" for a b
    using that l by (intro from_be_bytes_slice) simp_all
  have sp: "byte_slice a b bs @ drop b bs = drop a bs" if "a \<le> b" for a b
    using that by (rule slices_concat)
  show "encode_ic_synthetic_input i = bs"
    unfolding encode_ic_synthetic_input_def len using front
    by (simp add: i field sp)
  show "ic_valid i"
    using l m by (auto simp: ic_valid_def i length_slice off_def)
qed

text \<open>C31: the byte format of synthetic transactions is canonical. Every well-formed input is decoded back
  to itself, and conversely the decoder accepts a byte string only if it is the encoding of the (well
  formed) input it yields, so no two byte strings decode to the same transaction.\<close>
theorem ic_synthetic_canonical:
  "(ic_valid i \<longrightarrow> decode_ic_synthetic_header (encode_ic_synthetic_input i) = Inr i)
   \<and> (decode_ic_synthetic_header bs = Inr i \<longleftrightarrow> ic_valid i \<and> bs = encode_ic_synthetic_input i)"
  using decode_encode_ic encode_decode_ic by auto

theorem ic_synthetic_canonical_witness:
  "decode_ic_synthetic_header (encode_ic_synthetic_input
      \<lparr>ic_to = None, ic_value = replicate 32 0, ic_gas_limit = 21000, ic_nonce = 7, ic_max_fee_per_gas = 5,
       ic_max_priority_fee_per_gas = 1, ic_data = [1, 2]\<rparr>)
    = Inr \<lparr>ic_to = None, ic_value = replicate 32 0, ic_gas_limit = 21000, ic_nonce = 7, ic_max_fee_per_gas = 5,
       ic_max_priority_fee_per_gas = 1, ic_data = [1, 2]\<rparr>"
  by (rule ic_synthetic_canonical [THEN conjunct1, THEN mp]) (simp add: ic_valid_def)

section \<open>What the decoder lets through\<close>

text \<open>The envelope and the view agree on what both show.\<close>

definition view_matches :: "tx_env \<Rightarrow> decoded_tx_view \<Rightarrow> bool" where
  "view_matches e v \<longleftrightarrow>
    dv_from v = te_caller e \<and> kind_of_to (dv_to v) = te_kind e \<and> dv_nonce v = te_nonce e
    \<and> from_be_bytes (dv_value v) = te_value e \<and> dv_input v = te_data e \<and> dv_gas_limit v = te_gas_limit e
    \<and> dv_chain_id v = te_chain_id e \<and> dv_tx_type v = te_tx_type e
    \<and> dv_max_priority_fee_per_gas v = te_gas_priority_fee e"

lemma recover_eth_tx_accepted:
  assumes "recover_eth_tx lib bs = Inr d"
  shows "rc_chain_id d = Some CHAIN_ID" and "rc_tx_type d \<in> {0, 1, 2}"
    and "\<exists>stx. recover_signer lib stx = Some (rc_from d)
      \<and> (legacy_rlp_decode lib bs = Some (stx, []) \<or> eip2930_decode lib bs = Some (stx, [])
         \<or> eip1559_decode lib bs = Some (stx, []))"
  using assms
  by (auto simp: recover_eth_tx_def recover_with_def finalize_recovered_def validate_chain_id_def
      recovered_from_tx_def Let_def split: list.splits if_splits option.splits prod.splits sum.splits)

lemma decode_eth_raw_tx_accepted:
  assumes "decode_eth_raw_tx (recover_eth_tx lib) bs = Inr e"
  obtains d where "recover_eth_tx lib bs = Inr d" and "e = decoded_to_tx_env d" and "length bs \<le> MAX_TX_SIZE"
    and "decode_eth_raw_tx_to_recovered (recover_eth_tx lib) bs = Inr d"
  using assms
  by (auto simp: decode_eth_raw_tx_def decode_eth_raw_tx_to_recovered_def split: if_splits sum.splits)

text \<open>C32: a signed Ethereum transaction is only accepted when one of the three supported decoders consumed
  all of its bytes, it names this chain (so it cannot be replayed from another one, and legacy
  transactions without a chain id are refused), its type is legacy, 2930 or 1559, and its sender is the
  signer recovered from the signature; the view shown to clients agrees with what is executed.\<close>
theorem eth_signed_replay_protected:
  assumes "decode_tx (recover_eth_tx lib) EthSigned caller bs = Inr e"
  shows "te_chain_id e = Some CHAIN_ID \<and> te_tx_type e \<in> {0, 1, 2} \<and> length bs \<le> MAX_TX_SIZE
    \<and> (\<exists>stx. recover_signer lib stx = Some (te_caller e)
        \<and> (legacy_rlp_decode lib bs = Some (stx, []) \<or> eip2930_decode lib bs = Some (stx, [])
           \<or> eip1559_decode lib bs = Some (stx, [])))
    \<and> (\<exists>v. decode_tx_view (recover_eth_tx lib) EthSigned caller bs = Inr v \<and> view_matches e v)"
proof -
  obtain d where d: "recover_eth_tx lib bs = Inr d" "e = decoded_to_tx_env d" "length bs \<le> MAX_TX_SIZE"
    "decode_eth_raw_tx_to_recovered (recover_eth_tx lib) bs = Inr d"
    using assms by (auto elim: decode_eth_raw_tx_accepted)
  then show ?thesis
    using recover_eth_tx_accepted [OF d(1)]
    by (simp add: decoded_to_tx_env_def view_matches_def recovered_to_decoded_view_def)
qed

definition example_signed_tx :: signed_tx where
  "example_signed_tx =
    \<lparr>sg_kind = Create, sg_nonce = 3, sg_value = 0, sg_input = [], sg_gas_limit = 21000, sg_is_dynamic_fee = True,
     sg_gas_price = None, sg_max_fee_per_gas = 9, sg_max_priority_fee_per_gas = Some 1,
     sg_chain_id = Some CHAIN_ID, sg_access_list = None, sg_v = True, sg_r = [1], sg_s = [2]\<rparr>"

definition example_alloy_lib :: alloy_lib where
  "example_alloy_lib =
    \<lparr>legacy_rlp_decode = (\<lambda>_. None), eip2930_decode = (\<lambda>_. None),
     eip1559_decode = (\<lambda>bs. Some (example_signed_tx, tl bs)), recover_signer = (\<lambda>_. Some (replicate 20 7))\<rparr>"

theorem eth_signed_replay_protected_witness:
  "te_chain_id (decoded_to_tx_env (recovered_from_tx example_signed_tx (replicate 20 7) 2)) = Some CHAIN_ID
    \<and> decode_tx (recover_eth_tx example_alloy_lib) EthSigned [] [2]
      = Inr (decoded_to_tx_env (recovered_from_tx example_signed_tx (replicate 20 7) 2))"
proof -
  have d: "decode_tx (recover_eth_tx example_alloy_lib) EthSigned [] [2]
      = Inr (decoded_to_tx_env (recovered_from_tx example_signed_tx (replicate 20 7) 2))"
    by (simp add: decode_eth_raw_tx_def decode_eth_raw_tx_to_recovered_def should_reject_unsupported_typed_tx_def
        recover_eth_tx_def recover_with_def finalize_recovered_def validate_chain_id_def example_alloy_lib_def
        example_signed_tx_def)
  show ?thesis
    using eth_signed_replay_protected [OF d] d by simp
qed

end
