(* ===== verification/Evm_Address.thy ===== *)
theory Evm_Address
  imports Stable_Codec
begin

text \<open>
  The Ethereum address of a principal: \<open>ic-evm-address/src/lib.rs\<close>. The key derivation of the
  \<open>ic_pub_key\<close> package, the point encoding of \<open>k256\<close> and the hash function are arguments.
\<close>

datatype address_derivation_error =
    InvalidSignerCanisterId | DerivationFailed | InvalidDerivedPublicKeyEncoding

text \<open>What the packages provide: the signer canister read from its textual form, the key derived for a
  canister along a path, and the uncompressed encoding of an encoded public key.\<close>

record pub_key_lib =
  signer_canister :: "bytes option"
  derive_ecdsa_key :: "bytes \<Rightarrow> bytes list \<Rightarrow> bytes option"
  uncompressed_sec1 :: "bytes \<Rightarrow> bytes option"

abbreviation ETH_DOMAIN_SEPARATOR :: bytes where
  "ETH_DOMAIN_SEPARATOR \<equiv> [1]"

definition signer_canister_id_bytes :: "pub_key_lib \<Rightarrow> address_derivation_error + bytes" where
  "signer_canister_id_bytes lib =
    (case signer_canister lib of None \<Rightarrow> Inl InvalidSignerCanisterId | Some c \<Rightarrow> Inr c)"

definition derive_evm_address_from_uncompressed_sec1 ::
  "(bytes \<Rightarrow> bytes) \<Rightarrow> bytes \<Rightarrow> address_derivation_error + bytes" where
  "derive_evm_address_from_uncompressed_sec1 kec point =
    (if length point \<noteq> 65 \<or> hd point \<noteq> 4 then Inl InvalidDerivedPublicKeyEncoding
     else Inr (byte_slice 12 32 (kec (tl point))))"

definition derive_evm_address_from_principal ::
  "pub_key_lib \<Rightarrow> (bytes \<Rightarrow> bytes) \<Rightarrow> bytes \<Rightarrow> address_derivation_error + bytes" where
  "derive_evm_address_from_principal lib kec principal_bytes =
    (case signer_canister_id_bytes lib of
       Inl e \<Rightarrow> Inl e
     | Inr signer \<Rightarrow>
         (case derive_ecdsa_key lib signer [ETH_DOMAIN_SEPARATOR, principal_bytes] of
            None \<Rightarrow> Inl DerivationFailed
          | Some public_key \<Rightarrow>
              (case uncompressed_sec1 lib public_key of
                 None \<Rightarrow> Inl InvalidDerivedPublicKeyEncoding
               | Some point \<Rightarrow> derive_evm_address_from_uncompressed_sec1 kec point)))"

lemma derived_address_length:
  assumes "\<And>bs. length (kec bs) = 32" and "derive_evm_address_from_principal lib kec p = Inr a"
  shows "length a = 20"
  using assms
  by (auto simp: derive_evm_address_from_principal_def derive_evm_address_from_uncompressed_sec1_def length_slice
      split: sum.splits option.splits if_splits)

end
