(* ===== verification/Stable_State.thy ===== *)
theory Stable_State
  imports Fee_Rules Chain_Rules Metrics Prune_Rules Receipts Tx_Decode Evm_Address
begin

text \<open>
  The persistent state the chain operations share (\<open>StableState\<close> of \<open>evm-db/src/stable_state.rs\<close>), the
  volatile tables kept beside it (the thread-locals of \<open>evm-core/src/chain.rs\<close>), the errors of the chain
  operations, and the account credits. A stable map is an ordered map of values: the codec theories show
  that what is written is what is read back. A stable cell is a field named after it.
\<close>

section \<open>Account records\<close>

type_synonym account_val = bytes
type_synonym account_key = bytes
type_synonym u256 = "256 word"

definition make_account_key :: "bytes \<Rightarrow> account_key" where
  "make_account_key addr20 = 1 # addr20"

definition make_storage_key :: "bytes \<Rightarrow> bytes \<Rightarrow> bytes" where
  "make_storage_key addr20 slot32 = 2 # addr20 @ slot32"

definition make_code_key :: "bytes \<Rightarrow> bytes" where
  "make_code_key code_hash32 = 3 # code_hash32"

definition parse_account_key_bytes :: "bytes \<Rightarrow> bytes option" where
  "parse_account_key_bytes raw =
    (if length raw \<noteq> 21 then None else if hd raw \<noteq> 1 then None else Some (byte_slice 1 21 raw))"

definition parse_storage_key_bytes :: "bytes \<Rightarrow> (bytes \<times> bytes) option" where
  "parse_storage_key_bytes raw =
    (if length raw \<noteq> 53 then None
     else if hd raw \<noteq> 2 then None
     else Some (byte_slice 1 21 raw, byte_slice 21 53 raw))"

definition account_from_parts :: "u64 \<Rightarrow> bytes \<Rightarrow> bytes \<Rightarrow> account_val" where
  "account_from_parts nonce balance code_hash = to_be_bytes nonce @ balance @ code_hash"

definition account_nonce :: "account_val \<Rightarrow> u64" where
  "account_nonce v = from_be_bytes (byte_slice 0 8 v)"

definition account_balance :: "account_val \<Rightarrow> bytes" where
  "account_balance v = byte_slice 8 40 v"

definition account_code_hash :: "account_val \<Rightarrow> bytes" where
  "account_code_hash v = byte_slice 40 72 v"

record native_credit_record =
  nc_recipient :: bytes
  nc_amount_wei :: bytes

section \<open>State\<close>

record stable_state =
  accounts :: "(account_key, account_val) omap"
  storage :: "(bytes, bytes) omap"
  codes :: "(bytes, bytes) omap"
  seen_tx :: "(tx_id, u8) omap"
  tx_store :: "(tx_id, stored_tx_bytes) omap"
  tx_index :: "(tx_id, blob_ptr) omap"
  receipts :: "(tx_id, blob_ptr) omap"
  blocks :: "(u64, blob_ptr) omap"
  internal_traces :: "(tx_id, blob_ptr) omap"
  blob_store_cell :: blob_store
  queue_meta_cell :: queue_meta
  head_cell :: head_rec
  chain_state_cell :: chain_state
  metrics_state_cell :: metrics_state
  prune_state_cell :: prune_state
  prune_config_cell :: prune_config
  ops_metrics_cell :: ops_metrics
  prune_journal :: "(u64, prune_journal) omap"
  tx_locs :: "(tx_id, tx_loc) omap"
  tx_locs_v3 :: "(tx_id, tx_loc) omap"
  tx_locs_v3_active :: bool
  ready_queue :: "(ready_key, tx_id) omap"
  ready_key_by_tx_id :: "(tx_id, ready_key) omap"
  ready_by_seq :: "(ready_seq_key, tx_id) omap"
  pending_by_sender_nonce :: "(sender_nonce_key, tx_id) omap"
  pending_meta_by_tx_id :: "(tx_id, sender_nonce_key) omap"
  pending_min_nonce :: "(sender_key, u64) omap"
  sender_expected_nonce :: "(sender_key, u64) omap"
  pending_current_by_sender :: "(sender_key, tx_id) omap"
  principal_pending_count :: "(caller_key, u32) omap"
  pending_fee_index :: "(pending_fee_key, tx_id) omap"
  pending_fee_key_by_tx_id :: "(tx_id, pending_fee_key) omap"
  eth_tx_hash_index :: "(bytes, tx_id) omap"
  dropped_ring_state_cell :: dropped_ring_state
  dropped_ring :: "(u64, tx_id) omap"
  native_credit_records :: "(bytes, native_credit_record) omap"
  evm_state_epoch :: u64

definition init_stable_state :: "bool \<Rightarrow> stable_state" where
  "init_stable_state v3_active =
    \<lparr>accounts = oempty, storage = oempty, codes = oempty, seen_tx = oempty, tx_store = oempty, tx_index = oempty, receipts = oempty,
     blocks = oempty, internal_traces = oempty,
     blob_store_cell = blob_store_new \<lparr>pages = 0, cells = \<lambda>_. 0\<rparr> 0 oempty oempty,
     queue_meta_cell = queue_meta_new,
     head_cell = \<lparr>head_number = 0, head_block_hash = replicate 32 0, head_timestamp = 0\<rparr>,
     chain_state_cell = chain_state_new CHAIN_ID, metrics_state_cell = metrics_state_new,
     prune_state_cell = prune_state_new, prune_config_cell = prune_config_new, ops_metrics_cell = ops_metrics_new,
     prune_journal = oempty,
     tx_locs = oempty, tx_locs_v3 = oempty, tx_locs_v3_active = v3_active,
     ready_queue = oempty, ready_key_by_tx_id = oempty, ready_by_seq = oempty,
     pending_by_sender_nonce = oempty, pending_meta_by_tx_id = oempty, pending_min_nonce = oempty,
     sender_expected_nonce = oempty, pending_current_by_sender = oempty,
     principal_pending_count = oempty, pending_fee_index = oempty, pending_fee_key_by_tx_id = oempty,
     eth_tx_hash_index = oempty, dropped_ring_state_cell = dropped_ring_state_new, dropped_ring = oempty,
     native_credit_records = oempty, evm_state_epoch = 0\<rparr>"

text \<open>The volatile tables: until when a principal is not decoded, and the cache of derived addresses.\<close>

record node =
  decode_suppress_until :: "(bytes, u64) omap"
  caller_evm_by_principal :: "(bytes, bytes) omap"
  stable :: stable_state

text \<open>Code outside the repository: the hash function, the key derivation of the Internet Computer and the
  decoders of signed transactions. From them the two functions the chain calls: the address of a
  principal and the recovery of a signed transaction.\<close>

record ext =
  keccak :: "bytes \<Rightarrow> bytes"
  pub_key :: pub_key_lib
  alloy :: alloy_lib

definition derive :: "ext \<Rightarrow> bytes \<Rightarrow> bytes option" where
  "derive x who =
    (case derive_evm_address_from_principal (pub_key x) (keccak x) who of Inl _ \<Rightarrow> None | Inr a \<Rightarrow> Some a)"

definition recover :: "ext \<Rightarrow> recover_fn" where
  "recover x = recover_eth_tx (alloy x)"

abbreviation try_from :: "ext \<Rightarrow> stored_tx_bytes \<Rightarrow> stored_tx_error + stored_tx" where
  "try_from x \<equiv> stored_tx_try_from (keccak x) (derive x)"

text \<open>The errors of an execution (\<open>evm-core/src/revm_exec.rs\<close>) and of the chain operations.\<close>

datatype op_transaction_error = TxBuildFailed | TxRejectedByPolicy | TxPrecheckFailed | TxExecutionFailed

datatype op_halt_reason =
    OutOfGas | InvalidOpcode | StackOverflow | StackUnderflow | InvalidJump | StateChangeDuringStaticCall
  | PrecompileError | UnknownHalt

record icp_query_request =
  iq_target :: bytes
  iq_method :: bytes
  iq_arg :: bytes

datatype exec_error =
    ExecDecode decode_error | TxError op_transaction_error | ExecRevert | EvmHalt op_halt_reason
  | ExecutionFailed | InvalidGasFee | ResultTooLarge | InstructionBudgetExceeded | SnapshotChanged
  | ExternalQuery icp_query_request

datatype chain_error =
    TxAlreadySeen | QueueEmpty | TxTooLarge | InvalidLimit | UnsupportedTxKind | DecodeFailed
  | AddressDerivationFailed | InvalidFee | NonceTooLow | NonceGap | NonceConflict | QueueFull
  | SenderQueueFull | PrincipalQueueFull | DecodeRateLimited | ExecFailed "exec_error option"
  | InvariantViolation string
  | NoExecutableTx | MintOverflow

section \<open>Account credits\<close>

definition u128_from_u256_bytes :: "bytes \<Rightarrow> u128 option" where
  "u128_from_u256_bytes bs =
    (if list_ex (\<lambda>b. b \<noteq> 0) (take 16 bs) then None else Some (from_be_bytes (byte_slice 16 32 bs)))"

definition account_parts :: "account_val option \<Rightarrow> u64 \<times> bytes \<times> bytes" where
  "account_parts existing =
    (case existing of
       Some v \<Rightarrow> (account_nonce v, account_balance v, account_code_hash v)
     | None \<Rightarrow> (0, replicate 32 0, replicate 32 0))"

definition bump_evm_state_epoch :: "stable_state \<Rightarrow> stable_state" where
  "bump_evm_state_epoch s = s\<lparr>evm_state_epoch := sat_add (evm_state_epoch s) 1\<rparr>"

definition add_to_account :: "account_key \<Rightarrow> u128 \<Rightarrow> stable_state \<Rightarrow> (bool \<times> stable_state) option" where
  "add_to_account key amount s =
    (let existing = oget (accounts s) key;
         materialized = (existing = None);
         (nonce, balance, code_hash) = account_parts existing;
         current = (from_be_bytes balance :: u256);
         add = (ucast amount :: u256)
     in case checked_add current add of
          None \<Rightarrow> None
        | Some next_balance \<Rightarrow>
            Some (materialized \<or> next_balance \<noteq> current,
              s\<lparr>accounts := oinsert key (account_from_parts nonce (to_be_bytes next_balance) code_hash) (accounts s)\<rparr>))"

definition credit_balance :: "bytes \<Rightarrow> u128 \<Rightarrow> stable_state \<Rightarrow> (chain_error + unit) \<times> stable_state" where
  "credit_balance address amount s =
    (case add_to_account (make_account_key address) amount s of
       None \<Rightarrow> (Inl MintOverflow, s)
     | Some (changed, s1) \<Rightarrow> (Inr (), if changed then bump_evm_state_epoch s1 else s1))"

definition credit_native_deposit ::
  "bytes \<Rightarrow> bytes \<Rightarrow> bytes \<Rightarrow> stable_state \<Rightarrow> (chain_error + unit) \<times> stable_state" where
  "credit_native_deposit request_id recipient amount_wei s =
    (let credit = \<lparr>nc_recipient = recipient, nc_amount_wei = amount_wei\<rparr>
     in case u128_from_u256_bytes amount_wei of
          None \<Rightarrow> (Inl MintOverflow, s)
        | Some amount \<Rightarrow>
            (case oget (native_credit_records s) request_id of
               Some existing \<Rightarrow>
                 if existing = credit then (Inr (), s) else (Inl TxAlreadySeen, s)
             | None \<Rightarrow>
                 (case add_to_account (make_account_key recipient) amount s of
                    None \<Rightarrow> (Inl MintOverflow, s)
                  | Some (changed, s1) \<Rightarrow>
                      let s2 = s1\<lparr>native_credit_records := oinsert request_id credit (native_credit_records s1)\<rparr>
                      in (Inr (), if changed then bump_evm_state_epoch s2 else s2))))"

definition balance_of :: "stable_state \<Rightarrow> bytes \<Rightarrow> nat" where
  "balance_of s address =
    (case oget (accounts s) (make_account_key address) of
       Some v \<Rightarrow> unat (from_be_bytes (account_balance v) :: u256)
     | None \<Rightarrow> 0)"

lemma account_parts_roundtrip [simp]:
  "length b = 32 \<Longrightarrow> account_balance (account_from_parts n b c) = b"
  "account_nonce (account_from_parts n b c) = n"
  by (simp_all add: account_balance_def account_nonce_def account_from_parts_def)

lemma make_account_key_inj [simp]: "make_account_key a = make_account_key b \<longleftrightarrow> a = b"
  by (simp add: make_account_key_def)

lemma from_be_zeros [simp]: "from_be (replicate n 0) = 0"
  by (induction n) (simp_all add: from_be_Cons)

lemma from_be_append: "from_be (xs @ ys) = from_be xs * 256 ^ length ys + from_be ys"
  by (induction xs) (simp_all add: from_be_Cons power_add algebra_simps)

lemma account_parts_balance:
  "account_parts (oget (accounts s) (make_account_key a)) = (n, b, c) \<Longrightarrow>
    unat (from_be_bytes b :: u256) = balance_of s a"
  by (auto simp: account_parts_def balance_of_def unat_from_be_bytes split: option.splits)

lemma unat_u128_from_u256:
  assumes "u128_from_u256_bytes bs = Some w" and "length bs = 32"
  shows "unat w = from_be bs"
proof -
  have "take 16 bs = replicate 16 0"
    using assms by (intro replicate_eqI) (auto simp: u128_from_u256_bytes_def list_ex_iff split: if_splits)
  then have "bs = replicate 16 0 @ drop 16 bs"
    by (metis append_take_drop_id)
  then have "from_be bs = from_be (drop 16 bs)"
    using from_be_append [of "replicate 16 0" "drop 16 bs"] by (metis add_0 from_be_zeros mult_zero_left)
  moreover have "w = from_be_bytes (drop 16 bs)"
    using assms by (auto simp: u128_from_u256_bytes_def byte_slice_def split: if_splits)
  ultimately show ?thesis
    using assms(2) by (simp add: unat_from_be_bytes)
qed

lemma add_to_account_effect:
  "case add_to_account (make_account_key a) amount s of
     None \<Rightarrow> 2 ^ 256 \<le> balance_of s a + unat amount
   | Some (changed, s') \<Rightarrow>
       balance_of s a + unat amount < 2 ^ 256
       \<and> (\<forall>b. balance_of s' b = balance_of s b + (if b = a then unat amount else 0))
       \<and> s' = s\<lparr>accounts := accounts s'\<rparr>"
proof -
  obtain n bal c where p: "account_parts (oget (accounts s) (make_account_key a)) = (n, bal, c)"
    by (cases "account_parts (oget (accounts s) (make_account_key a))")
  have cur: "unat (from_be_bytes bal :: u256) = balance_of s a"
    using account_parts_balance [OF p] .
  have am: "unat (ucast amount :: u256) = unat amount"
    using unat_bound [of amount] by (intro unat_ucast_fit) simp
  show ?thesis
  proof (cases "checked_add (from_be_bytes bal :: u256) (ucast amount)")
    case None
    then have "2 ^ 256 \<le> balance_of s a + unat amount"
      by (auto simp: checked_add_def cur am split: if_splits)
    then show ?thesis
      using None p by (simp add: add_to_account_def)
  next
    case (Some nb)
    then have "unat nb = balance_of s a + unat amount" "balance_of s a + unat amount < 2 ^ 256"
      using checked_add_Some [of "from_be_bytes bal :: u256" "ucast amount" nb] cur am
      by (auto simp: checked_add_def split: if_splits)
    then show ?thesis
      using Some p by (auto simp: add_to_account_def Let_def balance_of_def)
  qed
qed

text \<open>C30: crediting an account adds exactly the amount to its balance and changes no other account,
  unless the sum would not fit into 256 bits: then the state is unchanged and the overflow is
  reported.\<close>
theorem credit_balance_exact:
  "(if balance_of s a + unat amount < 2 ^ 256
    then fst (credit_balance a amount s) = Inr ()
      \<and> (\<forall>b. balance_of (snd (credit_balance a amount s)) b = balance_of s b + (if b = a then unat amount else 0))
    else credit_balance a amount s = (Inl MintOverflow, s))"
  using add_to_account_effect [where a = a and amount = amount and s = s]
  by (cases "add_to_account (make_account_key a) amount s")
    (auto simp: credit_balance_def bump_evm_state_epoch_def balance_of_def)

definition credited :: "stable_state \<Rightarrow> bytes \<Rightarrow> nat" where
  "credited s a = osum (\<lambda>_ r. if nc_recipient r = a then from_be (nc_amount_wei r) else 0) (native_credit_records s)"

lemma credit_native_deposit_step:
  assumes "length amount_wei = 32" and "credit_native_deposit rid recipient amount_wei s = (r, s')"
  shows "balance_of s' a + credited s a = balance_of s a + credited s' a"
    and "r = Inr () \<longleftrightarrow> oget (native_credit_records s') rid = Some \<lparr>nc_recipient = recipient, nc_amount_wei = amount_wei\<rparr>
      \<and> u128_from_u256_bytes amount_wei \<noteq> None"
proof -
  let ?c = "\<lparr>nc_recipient = recipient, nc_amount_wei = amount_wei\<rparr>"
  consider (big) "u128_from_u256_bytes amount_wei = None"
    | (known) am where "u128_from_u256_bytes amount_wei = Some am" "oget (native_credit_records s) rid \<noteq> None"
    | (fresh) am where "u128_from_u256_bytes amount_wei = Some am" "oget (native_credit_records s) rid = None"
    by (cases "u128_from_u256_bytes amount_wei") auto
  then have "balance_of s' a + credited s a = balance_of s a + credited s' a
    \<and> (r = Inr () \<longleftrightarrow> oget (native_credit_records s') rid = Some ?c \<and> u128_from_u256_bytes amount_wei \<noteq> None)"
  proof cases
    case (fresh am)
    show ?thesis
    proof (cases "add_to_account (make_account_key recipient) am s")
      case None
      then show ?thesis
        using assms fresh by (auto simp: credit_native_deposit_def Let_def)
    next
      case (Some p)
      then obtain ch s1 where p: "add_to_account (make_account_key recipient) am s = Some (ch, s1)"
        by (cases p) auto
      define s2 where "s2 = s1\<lparr>native_credit_records := oinsert rid ?c (native_credit_records s1)\<rparr>"
      have s1: "s1 = s\<lparr>accounts := accounts s1\<rparr>"
        and bal: "balance_of s1 a = balance_of s a + (if a = recipient then from_be amount_wei else 0)"
        using add_to_account_effect [where a = recipient and amount = am and s = s] p unat_u128_from_u256 [OF fresh(1) assms(1)] by auto
      have rec: "native_credit_records s1 = native_credit_records s"
        by (subst s1) simp
      have s': "s' = (if ch then bump_evm_state_epoch s2 else s2)" "r = Inr ()"
        using assms(2) fresh p by (auto simp: credit_native_deposit_def Let_def s2_def)
      have "balance_of s' a = balance_of s1 a" "native_credit_records s' = oinsert rid ?c (native_credit_records s)"
        using rec by (auto simp: s' s2_def bump_evm_state_epoch_def balance_of_def)
      then show ?thesis
        using s'(2) fresh bal osum_oinsert [of "\<lambda>_ r. if nc_recipient r = a then from_be (nc_amount_wei r) else 0"
            rid ?c "native_credit_records s"]
        by (auto simp: credited_def)
    qed
  qed (use assms in \<open>auto simp: credit_native_deposit_def Let_def split: if_splits\<close>)
  then show "balance_of s' a + credited s a = balance_of s a + credited s' a"
    and "r = Inr () \<longleftrightarrow> oget (native_credit_records s') rid = Some ?c \<and> u128_from_u256_bytes amount_wei \<noteq> None"
    by blast+
qed

text \<open>Any sequence of deposit calls, retries included, as (request, recipient, amount) triples.\<close>

definition run_deposits :: "(bytes \<times> bytes \<times> bytes) list \<Rightarrow> stable_state \<Rightarrow> stable_state" where
  "run_deposits ds s = fold (\<lambda>(rid, recipient, amount) s. snd (credit_native_deposit rid recipient amount s)) ds s"

lemma run_deposits_conserve:
  assumes "\<forall>(rid, recipient, amount) \<in> set ds. length amount = 32"
  shows "balance_of (run_deposits ds s) a + credited s a = balance_of s a + credited (run_deposits ds s) a"
  using assms
proof (induction ds arbitrary: s)
  case (Cons d ds)
  obtain rid recipient amount where d: "d = (rid, recipient, amount)"
    by (cases d)
  obtain r s1 where c: "credit_native_deposit rid recipient amount s = (r, s1)"
    by fastforce
  have "balance_of s1 a + credited s a = balance_of s a + credited s1 a"
    using credit_native_deposit_step(1) [OF _ c] Cons.prems d by auto
  moreover have "balance_of (run_deposits ds s1) a + credited s1 a = balance_of s1 a + credited (run_deposits ds s1) a"
    using Cons by auto
  ultimately show ?case
    by (simp add: run_deposits_def d c)
qed (simp add: run_deposits_def)

text \<open>C9: native deposits never mint twice. Over any sequence of deposit calls, with any retries, every
  account gains exactly what the recorded requests for it add up to; a call succeeds exactly when the
  request is then recorded with the same recipient and amount (and the amount fits), and repeating a
  call that succeeded changes nothing.\<close>
theorem native_deposit_credited_once:
  assumes "\<forall>(rid, recipient, amount) \<in> set ds. length amount = 32" and "length amount_wei = 32"
  shows "balance_of (run_deposits ds s) a + credited s a = balance_of s a + credited (run_deposits ds s) a
    \<and> (fst (credit_native_deposit rid recipient amount_wei s) = Inr () \<longrightarrow>
        credit_native_deposit rid recipient amount_wei (snd (credit_native_deposit rid recipient amount_wei s))
          = credit_native_deposit rid recipient amount_wei s)
    \<and> (\<forall>c. oget (native_credit_records s) rid = Some c \<longrightarrow>
        c \<noteq> \<lparr>nc_recipient = recipient, nc_amount_wei = amount_wei\<rparr> \<longrightarrow>
        snd (credit_native_deposit rid recipient amount_wei s) = s
          \<and> fst (credit_native_deposit rid recipient amount_wei s) \<noteq> Inr ())"
proof (intro conjI impI allI)
  show "balance_of (run_deposits ds s) a + credited s a = balance_of s a + credited (run_deposits ds s) a"
    using run_deposits_conserve [OF assms(1)] .
next
  assume "fst (credit_native_deposit rid recipient amount_wei s) = Inr ()"
  then obtain s' where c: "credit_native_deposit rid recipient amount_wei s = (Inr (), s')"
    by (cases "credit_native_deposit rid recipient amount_wei s") auto
  then show "credit_native_deposit rid recipient amount_wei (snd (credit_native_deposit rid recipient amount_wei s))
      = credit_native_deposit rid recipient amount_wei s"
    using credit_native_deposit_step(2) [OF assms(2) c] by (auto simp: credit_native_deposit_def)
next
  fix c
  assume "oget (native_credit_records s) rid = Some c" "c \<noteq> \<lparr>nc_recipient = recipient, nc_amount_wei = amount_wei\<rparr>"
  then show "snd (credit_native_deposit rid recipient amount_wei s) = s"
    and "fst (credit_native_deposit rid recipient amount_wei s) \<noteq> Inr ()"
    by (cases "u128_from_u256_bytes amount_wei"; auto simp: credit_native_deposit_def)+
qed

theorem native_deposit_credited_once_witness:
  "balance_of (run_deposits [([1], [2], replicate 31 0 @ [5]), ([1], [2], replicate 31 0 @ [5])] (init_stable_state True)) [2]
    = credited (run_deposits [([1], [2], replicate 31 0 @ [5]), ([1], [2], replicate 31 0 @ [5])] (init_stable_state True)) [2]"
  using native_deposit_credited_once [THEN conjunct1,
    of "[([1], [2], replicate 31 0 @ [5]), ([1], [2], replicate 31 0 @ [5])]" "replicate 32 0" "init_stable_state True" "[2]"]
  by (simp add: init_stable_state_def credited_def balance_of_def)

section \<open>A concrete environment\<close>

definition example_pub_key :: pub_key_lib where
  "example_pub_key =
    \<lparr>signer_canister = Some [1], derive_ecdsa_key = (\<lambda>c path. Some (concat path)),
     uncompressed_sec1 = (\<lambda>k. Some (4 # take 64 (k @ replicate 64 0)))\<rparr>"

definition example_ext :: ext where
  "example_ext =
    \<lparr>keccak = (\<lambda>bs. replicate 31 0 @ [word_of_nat (length bs)]), pub_key = example_pub_key, alloy = example_alloy_lib\<rparr>"

lemma example_keccak [simp]: "length (keccak example_ext bs) = 32"
  by (simp add: example_ext_def)

end
