(* ===== verification/Mempool.thy ===== *)
theory Mempool
  imports Stable_State
begin

text \<open>
  The mempool: admission, replacement, eviction and removal of pending transactions over the indexes of
  the stable state (\<open>evm-core/src/tx_submit.rs\<close> and the mempool half of \<open>evm-core/src/chain.rs\<close>).

  A panic of the code (a principal longer than 29 bytes) is the value None; the canister then rolls the
  message back. Operations that return an error keep what they already wrote, as the code does.
\<close>

abbreviation MAX_PENDING_GLOBAL :: nat where "MAX_PENDING_GLOBAL \<equiv> 8192"
abbreviation MAX_PENDING_PER_SENDER :: nat where "MAX_PENDING_PER_SENDER \<equiv> 64"
abbreviation MAX_PENDING_PER_PRINCIPAL :: nat where "MAX_PENDING_PER_PRINCIPAL \<equiv> 32"
abbreviation READY_CANDIDATE_LIMIT :: nat where "READY_CANDIDATE_LIMIT \<equiv> 256"
abbreviation DROPPED_RING_CAPACITY :: u64 where "DROPPED_RING_CAPACITY \<equiv> 1000"
abbreviation DROP_CODE_DECODE :: u16 where "DROP_CODE_DECODE \<equiv> 1"
abbreviation DROP_CODE_EXEC :: u16 where "DROP_CODE_EXEC \<equiv> 2"
abbreviation DROP_CODE_INVALID_FEE :: u16 where "DROP_CODE_INVALID_FEE \<equiv> 5"
abbreviation DROP_CODE_REPLACED :: u16 where "DROP_CODE_REPLACED \<equiv> 6"

section \<open>Locations and the hash index\<close>

definition active_locs :: "stable_state \<Rightarrow> (tx_id, tx_loc) omap" where
  "active_locs s = (if tx_locs_v3_active s then tx_locs_v3 s else tx_locs s)"

definition tx_locs_get :: "stable_state \<Rightarrow> tx_id \<Rightarrow> tx_loc option" where
  "tx_locs_get s t =
    (case oget (active_locs s) t of
       None \<Rightarrow> None
     | Some loc \<Rightarrow> if tx_loc_is_placeholder loc then None else Some loc)"

definition tx_locs_insert :: "tx_id \<Rightarrow> tx_loc \<Rightarrow> stable_state \<Rightarrow> stable_state" where
  "tx_locs_insert t loc s =
    (if tx_locs_v3_active s then s\<lparr>tx_locs_v3 := oinsert t loc (tx_locs_v3 s)\<rparr>
     else s\<lparr>tx_locs := oinsert t loc (tx_locs s)\<rparr>)"

definition tx_locs_remove :: "tx_id \<Rightarrow> stable_state \<Rightarrow> stable_state" where
  "tx_locs_remove t s =
    (if tx_locs_v3_active s then s\<lparr>tx_locs_v3 := oremove t (tx_locs_v3 s)\<rparr>
     else s\<lparr>tx_locs := oremove t (tx_locs s)\<rparr>)"

definition insert_eth_tx_hash_index_for_envelope ::
  "ext \<Rightarrow> tx_id \<Rightarrow> stored_tx_bytes \<Rightarrow> stable_state \<Rightarrow> stable_state" where
  "insert_eth_tx_hash_index_for_envelope x t envelope s =
    (case try_from x envelope of
       Inl _ \<Rightarrow> s
     | Inr stored \<Rightarrow>
         if st_kind stored \<noteq> EthSigned then s
         else s\<lparr>eth_tx_hash_index := oinsert (keccak x (st_raw stored)) t (eth_tx_hash_index s)\<rparr>)"

definition remove_eth_tx_hash_index_for_tx_id :: "ext \<Rightarrow> tx_id \<Rightarrow> stable_state \<Rightarrow> stable_state" where
  "remove_eth_tx_hash_index_for_tx_id x t s =
    (case oget (tx_store s) t of
       None \<Rightarrow> s
     | Some envelope \<Rightarrow>
         (case try_from x envelope of
            Inl _ \<Rightarrow> s
          | Inr stored \<Rightarrow>
              if st_kind stored \<noteq> EthSigned then s
              else s\<lparr>eth_tx_hash_index := oremove (keccak x (st_raw stored)) (eth_tx_hash_index s)\<rparr>))"

section \<open>Nonce rules\<close>

datatype nonce_rule_error = TooLow | Gap | Conflict

definition account_nonce_from_state :: "stable_state \<Rightarrow> sender_key \<Rightarrow> u64" where
  "account_nonce_from_state s sender =
    (case oget (accounts s) (make_account_key sender) of Some v \<Rightarrow> account_nonce v | None \<Rightarrow> 0)"

definition expected_nonce_for_sender :: "sender_key \<Rightarrow> stable_state \<Rightarrow> u64 \<times> stable_state" where
  "expected_nonce_for_sender sender s =
    (case oget (sender_expected_nonce s) sender of
       Some v \<Rightarrow> (v, s)
     | None \<Rightarrow>
         let nonce = account_nonce_from_state s sender
         in (nonce, s\<lparr>sender_expected_nonce := oinsert sender nonce (sender_expected_nonce s)\<rparr>))"

definition finalize_pending_for_sender_without_nonce_bump ::
  "sender_key \<Rightarrow> tx_id \<Rightarrow> stable_state \<Rightarrow> stable_state" where
  "finalize_pending_for_sender_without_nonce_bump sender t s =
    (case oget (pending_current_by_sender s) sender of
       Some current \<Rightarrow>
         if should_clear_current (current = t)
         then s\<lparr>pending_current_by_sender := oremove sender (pending_current_by_sender s)\<rparr>
         else s
     | None \<Rightarrow> s)"

definition bump_expected_nonce :: "sender_key \<Rightarrow> stable_state \<Rightarrow> stable_state" where
  "bump_expected_nonce sender s =
    (let current = (case oget (sender_expected_nonce s) sender of
                      Some v \<Rightarrow> v
                    | None \<Rightarrow> account_nonce_from_state s sender)
     in s\<lparr>sender_expected_nonce := oinsert sender (next_expected_nonce current) (sender_expected_nonce s)\<rparr>)"

definition stored_effective_price :: "stored_tx \<Rightarrow> u64 \<Rightarrow> u64 option" where
  "stored_effective_price st base =
    effective_gas_price (st_max_fee_per_gas st)
      (if st_is_dynamic_fee st then st_max_priority_fee_per_gas st else 0) base"

definition effective_gas_price_for_tx :: "ext \<Rightarrow> tx_id \<Rightarrow> u64 \<Rightarrow> stable_state \<Rightarrow> nonce_rule_error + u64" where
  "effective_gas_price_for_tx x t base s =
    (case oget (tx_store s) t of
       None \<Rightarrow> Inl Conflict
     | Some envelope \<Rightarrow>
         (case try_from x envelope of
            Inl _ \<Rightarrow> Inl Conflict
          | Inr stored \<Rightarrow>
              (case stored_effective_price stored base of None \<Rightarrow> Inl Conflict | Some p \<Rightarrow> Inr p)))"

definition nonce_rule :: "ext \<Rightarrow> sender_key \<Rightarrow> u64 \<Rightarrow> u64 \<Rightarrow> u64 \<Rightarrow> stable_state
    \<Rightarrow> (nonce_rule_error + tx_id option) \<times> stable_state" where
  "nonce_rule x sender nonce price base s0 =
    (let (expected, s) = expected_nonce_for_sender sender s0
     in if nonce < expected then (Inl TooLow, s)
        else if nonce > expected then (Inl Gap, s)
        else
          let current = oget (pending_current_by_sender s) sender
          in case (case current of
                     None \<Rightarrow> Inr None
                   | Some old \<Rightarrow>
                       (case effective_gas_price_for_tx x old base s of Inl e \<Rightarrow> Inl e | Inr p \<Rightarrow> Inr (Some p))) of
               Inl e \<Rightarrow> (Inl e, s)
             | Inr old_effective \<Rightarrow>
                 (case classify_nonce expected nonce old_effective price of
                    NdAccept \<Rightarrow> (Inr None, s)
                  | NdTooLow \<Rightarrow> (Inl TooLow, s)
                  | NdGap \<Rightarrow> (Inl Gap, s)
                  | NdConflict \<Rightarrow> (Inl Conflict, s)
                  | NdReplace \<Rightarrow> (case current of None \<Rightarrow> (Inl Conflict, s) | Some old \<Rightarrow> (Inr (Some old), s))))"

section \<open>Index maintenance\<close>

definition insert_ready :: "tx_id \<Rightarrow> u128 \<Rightarrow> u128 \<Rightarrow> bool \<Rightarrow> u64 \<Rightarrow> stable_state \<Rightarrow> stable_state" where
  "insert_ready t max_fee max_priority dynamic sq s =
    (let priority = (if dynamic then max_priority else 0);
         key = ready_key_new max_fee priority sq t
     in s\<lparr>ready_queue := oinsert key t (ready_queue s),
          ready_by_seq := oinsert (ready_seq_key_new sq t) t (ready_by_seq s),
          ready_key_by_tx_id := oinsert t key (ready_key_by_tx_id s)\<rparr>)"

definition remove_ready_by_tx_id :: "tx_id \<Rightarrow> stable_state \<Rightarrow> stable_state" where
  "remove_ready_by_tx_id t s =
    (case oget (ready_key_by_tx_id s) t of
       None \<Rightarrow> s
     | Some key \<Rightarrow>
         s\<lparr>ready_key_by_tx_id := oremove t (ready_key_by_tx_id s),
           ready_queue := oremove key (ready_queue s),
           ready_by_seq := oremove (ready_seq_key_new (ready_key_seq key) t) (ready_by_seq s)\<rparr>)"

definition remove_pending_fee_index_by_tx_id :: "tx_id \<Rightarrow> stable_state \<Rightarrow> stable_state" where
  "remove_pending_fee_index_by_tx_id t s =
    (case oget (pending_fee_key_by_tx_id s) t of
       None \<Rightarrow> s
     | Some key \<Rightarrow>
         s\<lparr>pending_fee_key_by_tx_id := oremove t (pending_fee_key_by_tx_id s),
           pending_fee_index := oremove key (pending_fee_index s)\<rparr>)"

definition decrement_principal_pending_count_for_tx :: "ext \<Rightarrow> tx_id \<Rightarrow> stable_state \<Rightarrow> stable_state option" where
  "decrement_principal_pending_count_for_tx x t s =
    (case oget (tx_store s) t of
       None \<Rightarrow> Some s
     | Some envelope \<Rightarrow>
         (case try_from x envelope of
            Inl _ \<Rightarrow> Some s
          | Inr stored \<Rightarrow> do {
              key \<leftarrow> caller_key_from_principal (st_caller_principal stored);
              let current = (case oget (principal_pending_count s) key of Some c \<Rightarrow> c | None \<Rightarrow> 0);
              Some (case decrement_count current of
                 CountRemove \<Rightarrow> s\<lparr>principal_pending_count := oremove key (principal_pending_count s)\<rparr>
               | CountSet nxt \<Rightarrow> s\<lparr>principal_pending_count := oinsert key nxt (principal_pending_count s)\<rparr>)
            }))"

definition track_pending_indexes_on_insert ::
  "tx_id \<Rightarrow> bytes \<Rightarrow> u64 \<Rightarrow> stable_state \<Rightarrow> stable_state option" where
  "track_pending_indexes_on_insert t caller price s = do {
     key \<leftarrow> caller_key_from_principal caller;
     let current = (case oget (principal_pending_count s) key of Some c \<Rightarrow> c | None \<Rightarrow> 0);
     let fee_key = pending_fee_key_new price t;
     Some (s\<lparr>principal_pending_count := oinsert key (sat_add current 1) (principal_pending_count s),
             pending_fee_index := oinsert fee_key t (pending_fee_index s),
             pending_fee_key_by_tx_id := oinsert t fee_key (pending_fee_key_by_tx_id s)\<rparr>)
   }"

definition rebuild_fee_entry :: "ext \<Rightarrow> u64 \<Rightarrow> tx_id \<Rightarrow> stable_state \<Rightarrow> stable_state" where
  "rebuild_fee_entry x base t s =
    (case oget (tx_store s) t of
       None \<Rightarrow> s
     | Some envelope \<Rightarrow>
         (case try_from x envelope of
            Inl _ \<Rightarrow> s
          | Inr stored \<Rightarrow>
              let effective = (case stored_effective_price stored base of Some p \<Rightarrow> p | None \<Rightarrow> 0);
                  fee_key = pending_fee_key_new effective t
              in s\<lparr>pending_fee_index := oinsert fee_key t (pending_fee_index s),
                   pending_fee_key_by_tx_id := oinsert t fee_key (pending_fee_key_by_tx_id s)\<rparr>))"

definition rebuild_pending_fee_index_for_base_fee :: "ext \<Rightarrow> u64 \<Rightarrow> stable_state \<Rightarrow> stable_state" where
  "rebuild_pending_fee_index_for_base_fee x base s =
    (let s1 = s\<lparr>pending_fee_index := oempty, pending_fee_key_by_tx_id := oempty\<rparr>;
         pending_ids = map snd (entries (pending_by_sender_nonce s1))
     in fold (rebuild_fee_entry x base) pending_ids s1)"

definition record_drop_metric :: "u16 \<Rightarrow> stable_state \<Rightarrow> stable_state" where
  "record_drop_metric code s = s\<lparr>metrics_state_cell := record_drop code 1 (metrics_state_cell s)\<rparr>"

definition push_dropped_ring :: "tx_id \<Rightarrow> stable_state \<Rightarrow> stable_state" where
  "push_dropped_ring t s =
    (let ring = dropped_ring_state_cell s;
         tr = dropped_ring_push (drs_next_seq ring) (drs_len ring) DROPPED_RING_CAPACITY;
         s1 = s\<lparr>dropped_ring := oinsert (insert_seq tr) t (dropped_ring s)\<rparr>;
         ring1 = ring\<lparr>drs_next_seq := next_seq tr, drs_len := ring_len tr\<rparr>;
         s2 = (case evict_seq tr of
                 None \<Rightarrow> s1
               | Some q \<Rightarrow>
                   (case oget (dropped_ring s1) q of
                      None \<Rightarrow> s1
                    | Some evicted \<Rightarrow>
                        let s1' = s1\<lparr>dropped_ring := oremove q (dropped_ring s1)\<rparr>
                        in (case tx_locs_get s1' evicted of
                              None \<Rightarrow> s1'
                            | Some loc \<Rightarrow> if loc_kind loc = Dropped then tx_locs_remove evicted s1' else s1')))
     in s2\<lparr>dropped_ring_state_cell := ring1\<rparr>)"

definition mark_dropped_and_purge_payload :: "ext \<Rightarrow> tx_id \<Rightarrow> u16 \<Rightarrow> stable_state \<Rightarrow> stable_state" where
  "mark_dropped_and_purge_payload x t code s =
    (let s1 = remove_pending_fee_index_by_tx_id t s;
         s2 = remove_eth_tx_hash_index_for_tx_id x t s1;
         s3 = s2\<lparr>tx_store := oremove t (tx_store s2)\<rparr>;
         s4 = tx_locs_insert t (tx_loc_dropped code) s3
     in push_dropped_ring t s4)"

definition finalize_pending_for_sender :: "sender_key \<Rightarrow> tx_id \<Rightarrow> bool \<Rightarrow> stable_state \<Rightarrow> stable_state" where
  "finalize_pending_for_sender sender t bump s =
    (let s1 = finalize_pending_for_sender_without_nonce_bump sender t s
     in if bump then bump_expected_nonce sender s1 else s1)"

definition next_pending_for_sender :: "sender_key \<Rightarrow> u64 \<Rightarrow> stable_state \<Rightarrow> (u64 \<times> tx_id) option" where
  "next_pending_for_sender sender after_nonce s =
    (case orange_from (SenderNonceKey sender (next_pending_start_nonce after_nonce)) (pending_by_sender_nonce s) of
       [] \<Rightarrow> None
     | (key, t) # _ \<Rightarrow> if snk_sender key \<noteq> sender then None else Some (snk_nonce key, t))"

definition load_fee_fields_and_seq ::
  "ext \<Rightarrow> tx_id \<Rightarrow> stable_state \<Rightarrow> unit + (u128 \<times> u128 \<times> bool \<times> u64) option" where
  "load_fee_fields_and_seq x t s =
    (case oget (tx_store s) t of
       None \<Rightarrow> Inr None
     | Some envelope \<Rightarrow>
         (case try_from x envelope of
            Inl _ \<Rightarrow> Inl ()
          | Inr stored \<Rightarrow>
              (case tx_locs_get s t of
                 None \<Rightarrow> Inr None
               | Some loc \<Rightarrow>
                   Inr (Some (st_max_fee_per_gas stored, st_max_priority_fee_per_gas stored,
                              st_is_dynamic_fee stored, loc_seq loc)))))"


section \<open>Removing a pending transaction\<close>

text \<open>
  After a removal the next pending transaction of the sender becomes ready; an unreadable one is dropped
  in turn, which removes it the same way. The recursion is bounded by a fuel argument: None stands for a
  panic or for exhausted fuel, and \<open>Mempool_Inv\<close> shows that two units are enough in every reachable
  state.
\<close>

definition drop_pending_with ::
  "ext \<Rightarrow> (tx_id \<Rightarrow> stable_state \<Rightarrow> stable_state option) \<Rightarrow> u16 \<Rightarrow> tx_id \<Rightarrow> stable_state \<Rightarrow> stable_state option" where
  "drop_pending_with x advance code t s =
    map_option (\<lambda>s1. record_drop_metric code (mark_dropped_and_purge_payload x t code s1)) (advance t s)"

definition pending_min_set :: "sender_key \<Rightarrow> u64 option \<Rightarrow> stable_state \<Rightarrow> stable_state" where
  "pending_min_set sender next_nonce s =
    (case pending_min_after_advance next_nonce of
       MinSet nonce \<Rightarrow> s\<lparr>pending_min_nonce := oinsert sender nonce (pending_min_nonce s)\<rparr>
     | MinRemove \<Rightarrow> s\<lparr>pending_min_nonce := oremove sender (pending_min_nonce s)\<rparr>)"

fun advance_sender_after_tx ::
  "ext \<Rightarrow> nat \<Rightarrow> tx_id \<Rightarrow> bytes option \<Rightarrow> u64 option \<Rightarrow> bool \<Rightarrow> stable_state \<Rightarrow> stable_state option"
and advance_loop :: "ext \<Rightarrow> nat \<Rightarrow> sender_key \<Rightarrow> u64 \<Rightarrow> stable_state \<Rightarrow> stable_state option" where
  "advance_sender_after_tx x 0 t sender_override nonce_override bump s = None"
| "advance_sender_after_tx x (Suc fuel) t sender_override nonce_override bump s =
    (let s1 = remove_ready_by_tx_id t s
     in case (case oget (pending_meta_by_tx_id s1) t of
                Some key \<Rightarrow> Some key
              | None \<Rightarrow>
                  (case (sender_override, nonce_override) of
                     (Some sender, Some nonce) \<Rightarrow> Some (SenderNonceKey sender nonce)
                   | _ \<Rightarrow> None)) of
          None \<Rightarrow> Some s1
        | Some key \<Rightarrow>
            let s2 = s1\<lparr>pending_meta_by_tx_id := oremove t (pending_meta_by_tx_id s1)\<rparr>;
                s3 = s2\<lparr>pending_by_sender_nonce := oremove key (pending_by_sender_nonce s2)\<rparr>;
                s4 = remove_pending_fee_index_by_tx_id t s3
            in case decrement_principal_pending_count_for_tx x t s4 of
                 None \<Rightarrow> None
               | Some s5 \<Rightarrow>
                   let s6 = finalize_pending_for_sender (snk_sender key) t bump s5
                   in if \<not> should_refresh_pending_min (oget (pending_min_nonce s6) (snk_sender key)) (snk_nonce key)
                      then Some s6
                      else advance_loop x fuel (snk_sender key) (snk_nonce key) s6)"
| "advance_loop x 0 sender cursor s = None"
| "advance_loop x (Suc fuel) sender cursor s =
    (case next_pending_for_sender sender cursor s of
       Some (next_nonce, next_tx) \<Rightarrow>
         let s1 = pending_min_set sender (Some next_nonce) s
         in (case load_fee_fields_and_seq x next_tx s1 of
               Inr (Some (max_fee, max_priority, dynamic, sq)) \<Rightarrow>
                 Some (insert_ready next_tx max_fee max_priority dynamic sq s1)
             | Inr None \<Rightarrow>
                 (case drop_pending_with x (\<lambda>t. advance_sender_after_tx x fuel t None None False)
                         DROP_CODE_INVALID_FEE next_tx s1 of
                    None \<Rightarrow> None
                  | Some s2 \<Rightarrow> advance_loop x fuel sender next_nonce s2)
             | Inl () \<Rightarrow>
                 (case drop_pending_with x (\<lambda>t. advance_sender_after_tx x fuel t None None False)
                         DROP_CODE_DECODE next_tx s1 of
                    None \<Rightarrow> None
                  | Some s2 \<Rightarrow> advance_loop x fuel sender next_nonce s2))
     | None \<Rightarrow> Some (pending_min_set sender None s))"

abbreviation advance_fuel :: nat where
  "advance_fuel \<equiv> 2"

definition drop_invalid_fee_pending :: "ext \<Rightarrow> tx_id \<Rightarrow> stable_state \<Rightarrow> stable_state option" where
  "drop_invalid_fee_pending x =
    drop_pending_with x (\<lambda>t. advance_sender_after_tx x advance_fuel t None None False) DROP_CODE_INVALID_FEE"

definition drop_invalid_fee_pending_decode :: "ext \<Rightarrow> tx_id \<Rightarrow> stable_state \<Rightarrow> stable_state option" where
  "drop_invalid_fee_pending_decode x =
    drop_pending_with x (\<lambda>t. advance_sender_after_tx x advance_fuel t None None False) DROP_CODE_DECODE"

definition replace_pending_for_sender :: "ext \<Rightarrow> sender_key \<Rightarrow> tx_id \<Rightarrow> stable_state \<Rightarrow> stable_state option" where
  "replace_pending_for_sender x sender old s = do {
     let s1 = remove_ready_by_tx_id old s;
     let s2 = remove_pending_fee_index_by_tx_id old s1;
     s3 \<leftarrow> decrement_principal_pending_count_for_tx x old s2;
     let s4 = (case oget (pending_meta_by_tx_id s3) old of
                 Some key \<Rightarrow> s3\<lparr>pending_meta_by_tx_id := oremove old (pending_meta_by_tx_id s3),
                               pending_by_sender_nonce := oremove key (pending_by_sender_nonce s3)\<rparr>
               | None \<Rightarrow> s3);
     let s5 = s4\<lparr>pending_min_nonce := oremove sender (pending_min_nonce s4),
                 pending_current_by_sender := oremove sender (pending_current_by_sender s4)\<rparr>;
     Some (record_drop_metric DROP_CODE_REPLACED (mark_dropped_and_purge_payload x old DROP_CODE_REPLACED s5))
   }"

definition apply_nonce_and_replacement :: "ext \<Rightarrow> sender_key \<Rightarrow> u64 \<Rightarrow> u64 \<Rightarrow> u64 \<Rightarrow> stable_state
    \<Rightarrow> ((chain_error + tx_id option) \<times> stable_state) option" where
  "apply_nonce_and_replacement x sender nonce price base s =
    (case nonce_rule x sender nonce price base s of
       (Inl TooLow, s1) \<Rightarrow> Some (Inl NonceTooLow, s1)
     | (Inl Gap, s1) \<Rightarrow> Some (Inl NonceGap, s1)
     | (Inl Conflict, s1) \<Rightarrow> Some (Inl NonceConflict, s1)
     | (Inr None, s1) \<Rightarrow> Some (Inr None, s1)
     | (Inr (Some old), s1) \<Rightarrow>
         map_option (\<lambda>s2. (Inr (Some old), s2)) (replace_pending_for_sender x sender old s1))"

section \<open>Caps and eviction\<close>

definition count_pending_for_principal :: "bytes \<Rightarrow> stable_state \<Rightarrow> nat option" where
  "count_pending_for_principal caller s =
    (if caller = [] then Some 0
     else do {
       key \<leftarrow> caller_key_from_principal caller;
       Some (case oget (principal_pending_count s) key of Some c \<Rightarrow> unat c | None \<Rightarrow> 0)
     })"

definition count_pending_for_sender :: "sender_key \<Rightarrow> stable_state \<Rightarrow> nat" where
  "count_pending_for_sender sender s =
    length (takeWhile (\<lambda>e. snk_sender (fst e) = sender)
      (orange_from (SenderNonceKey sender 0) (pending_by_sender_nonce s)))"

definition fee_of_key :: "pending_fee_key \<Rightarrow> u64" where
  "fee_of_key key = from_be_bytes (byte_slice 0 8 key)"

definition evict_lowest_fee_pending ::
  "ext \<Rightarrow> u64 \<Rightarrow> stable_state \<Rightarrow> ((chain_error + unit) \<times> stable_state) option" where
  "evict_lowest_fee_pending x price s =
    (case ofirst (pending_fee_index s) of
       None \<Rightarrow> Some (Inl QueueFull, s)
     | Some (key, t) \<Rightarrow>
         if price \<le> fee_of_key key then Some (Inl QueueFull, s)
         else do {
           s1 \<leftarrow> advance_sender_after_tx x advance_fuel t None None False s;
           let s2 = mark_dropped_and_purge_payload x t DROP_CODE_REPLACED s1;
           Some (Inr (), record_drop_metric DROP_CODE_REPLACED s2)
         })"

definition enforce_pending_caps ::
  "ext \<Rightarrow> sender_key \<Rightarrow> bytes \<Rightarrow> u64 \<Rightarrow> stable_state \<Rightarrow> ((chain_error + unit) \<times> stable_state) option" where
  "enforce_pending_caps x sender caller price s = do {
     let lowest = map_option (\<lambda>e. fee_of_key (fst e)) (ofirst (pending_fee_index s));
     pc \<leftarrow> count_pending_for_principal caller s;
     case classify_pending_caps
            \<lparr>sender_count = count_pending_for_sender sender s, principal_count = pc,
             global_count = olen (pending_by_sender_nonce s), max_per_sender = MAX_PENDING_PER_SENDER,
             max_per_principal = MAX_PENDING_PER_PRINCIPAL, max_global = MAX_PENDING_GLOBAL,
             incoming_effective_gas_price = price, lowest_effective_gas_price = lowest\<rparr> of
       CapAccept \<Rightarrow> Some (Inr (), s)
     | SenderFull \<Rightarrow> Some (Inl SenderQueueFull, s)
     | PrincipalFull \<Rightarrow> Some (Inl PrincipalQueueFull, s)
     | GlobalFull \<Rightarrow> Some (Inl QueueFull, s)
     | EvictLowest \<Rightarrow> evict_lowest_fee_pending x price s
   }"

definition promote_if_next_nonce ::
  "sender_key \<Rightarrow> tx_id \<Rightarrow> u64 \<Rightarrow> u128 \<Rightarrow> u128 \<Rightarrow> bool \<Rightarrow> u64 \<Rightarrow> stable_state \<Rightarrow> stable_state" where
  "promote_if_next_nonce sender t nonce max_fee max_priority dynamic sq s =
    (case classify_promote (oget (pending_min_nonce s) sender) nonce of
       InsertFirst \<Rightarrow>
         insert_ready t max_fee max_priority dynamic sq
           (s\<lparr>pending_min_nonce := oinsert sender nonce (pending_min_nonce s)\<rparr>)
     | ReplaceMin \<Rightarrow>
         let s1 = (case oget (pending_min_nonce s) sender of
                     Some current \<Rightarrow>
                       (case oget (pending_by_sender_nonce s) (SenderNonceKey sender current) of
                          Some old \<Rightarrow> remove_ready_by_tx_id old s
                        | None \<Rightarrow> s)
                   | None \<Rightarrow> s)
         in insert_ready t max_fee max_priority dynamic sq
              (s1\<lparr>pending_min_nonce := oinsert sender nonce (pending_min_nonce s1)\<rparr>)
     | KeepCurrent \<Rightarrow> s)"


section \<open>Submission\<close>

definition is_principal_decode_suppressed :: "bytes \<Rightarrow> u64 \<Rightarrow> node \<Rightarrow> bool \<times> node" where
  "is_principal_decode_suppressed who now n =
    (if who = [] then (False, n)
     else
       let tbl = decode_suppress_until n;
           expired = map fst (filter (\<lambda>e. snd e \<le> now) (entries tbl));
           tbl' = fold oremove expired tbl
       in (case oget tbl' who of Some until \<Rightarrow> until > now | None \<Rightarrow> False,
           n\<lparr>decode_suppress_until := tbl'\<rparr>))"

definition derive_caller_evm_cached :: "ext \<Rightarrow> bytes \<Rightarrow> node \<Rightarrow> (chain_error + bytes) \<times> node" where
  "derive_caller_evm_cached x who n =
    (case oget (caller_evm_by_principal n) who of
       Some found \<Rightarrow> (Inr found, n)
     | None \<Rightarrow>
         (case derive x who of
            None \<Rightarrow> (Inl AddressDerivationFailed, n)
          | Some derived \<Rightarrow>
              let cache = caller_evm_by_principal n;
                  cache1 = (if olen cache \<ge> 4096 then oempty else cache)
              in (Inr derived, n\<lparr>caller_evm_by_principal := oinsert who derived cache1\<rparr>)))"

definition try_address_to_bytes :: "bytes \<Rightarrow> string + bytes" where
  "try_address_to_bytes address =
    (if length address \<noteq> 20 then Inl ''address must be 20 bytes'' else Inr address)"

definition fee_fields_from_tx_env :: "tx_env \<Rightarrow> u128 \<times> u128 \<times> bool" where
  "fee_fields_from_tx_env e =
    (te_gas_price e, case te_gas_priority_fee e of Some p \<Rightarrow> p | None \<Rightarrow> 0, te_gas_priority_fee e \<noteq> None)"

text \<open>The common tail of both submissions: everything after the payload is stored.\<close>

definition enqueue_pending ::
  "tx_id \<Rightarrow> sender_key \<Rightarrow> u64 \<Rightarrow> bytes \<Rightarrow> u64 \<Rightarrow> u128 \<Rightarrow> u128 \<Rightarrow> bool \<Rightarrow> stable_state \<Rightarrow> stable_state option" where
  "enqueue_pending t sender nonce caller price max_fee max_priority dynamic s = do {
     let s1 = s\<lparr>pending_current_by_sender := oinsert sender t (pending_current_by_sender s),
                metrics_state_cell := record_submission 1 (metrics_state_cell s)\<rparr>;
     let (sq, meta) = queue_meta_push (queue_meta_cell s1);
     let s2 = tx_locs_insert t (tx_loc_queued sq) (s1\<lparr>queue_meta_cell := meta\<rparr>);
     let key = SenderNonceKey sender nonce;
     let s3 = s2\<lparr>chain_state_cell := (chain_state_cell s2)\<lparr>next_queue_seq := tail meta\<rparr>,
                 pending_by_sender_nonce := oinsert key t (pending_by_sender_nonce s2),
                 pending_meta_by_tx_id := oinsert t key (pending_meta_by_tx_id s2)\<rparr>;
     s4 \<leftarrow> track_pending_indexes_on_insert t caller price s3;
     Some (promote_if_next_nonce sender t nonce max_fee max_priority dynamic sq s4)
   }"

text \<open>The nonce rule, the caps and the conflict check, then the payload and the tail. \<open>hash_index\<close> says
  whether the caller maintains the Ethereum hash index.\<close>

definition admit_pending ::
  "ext \<Rightarrow> bool \<Rightarrow> stored_tx_bytes \<Rightarrow> sender_key \<Rightarrow> u64 \<Rightarrow> bytes \<Rightarrow> u64 \<Rightarrow> u128 \<Rightarrow> u128 \<Rightarrow> bool \<Rightarrow> stable_state
    \<Rightarrow> ((chain_error + tx_id) \<times> stable_state) option" where
  "admit_pending x hash_index envelope sender nonce caller price max_fee max_priority dynamic s = do {
     (r, s1) \<leftarrow> apply_nonce_and_replacement x sender nonce price (base_fee (chain_state_cell s)) s;
     case r of
       Inl e \<Rightarrow> Some (Inl e, s1)
     | Inr replaced \<Rightarrow> do {
         (c, s2) \<leftarrow> (if replaced = None then enforce_pending_caps x sender caller price s1 else Some (Inr (), s1));
         case c of
           Inl e \<Rightarrow> Some (Inl e, s2)
         | Inr _ \<Rightarrow>
             if oget (pending_by_sender_nonce s2) (SenderNonceKey sender nonce) \<noteq> None
             then Some (Inl NonceConflict, s2)
             else do {
               let t = stb_tx_id envelope;
               let s3 = s2\<lparr>seen_tx := oinsert t 1 (seen_tx s2), tx_store := oinsert t envelope (tx_store s2)\<rparr>;
               let s4 = (if hash_index then insert_eth_tx_hash_index_for_envelope x t envelope s3 else s3);
               s5 \<leftarrow> enqueue_pending t sender nonce caller price max_fee max_priority dynamic s4;
               Some (Inr t, s5)
             }
       }
   }"

definition submit_tx_state ::
  "ext \<Rightarrow> tx_kind \<Rightarrow> bytes \<Rightarrow> bytes \<Rightarrow> stable_state \<Rightarrow> ((chain_error + tx_id) \<times> stable_state) option" where
  "submit_tx_state x kind tx_bytes caller s =
    (let t = stored_tx_id (keccak x) kind tx_bytes None None None
     in if length tx_bytes > MAX_TX_SIZE then Some (Inl TxTooLarge, s)
        else if oget (seen_tx s) t \<noteq> None then Some (Inl TxAlreadySeen, s)
        else case decode_tx (recover x) kind (replicate 20 0) tx_bytes of
          Inl _ \<Rightarrow> Some (Inl DecodeFailed, s)
        | Inr e \<Rightarrow>
            let (max_fee, max_priority, dynamic) = fee_fields_from_tx_env e;
                envelope = new_with_fees t kind tx_bytes None [] caller max_fee max_priority dynamic;
                cs = chain_state_cell s
            in if \<not> min_fee_satisfied (te_gas_price e) (te_gas_priority_fee e) (base_fee cs) (min_priority_fee cs) (min_gas_price cs)
               then Some (Inl InvalidFee, s)
               else case effective_gas_price max_fee (if dynamic then max_priority else 0) (base_fee cs) of
                 None \<Rightarrow> Some (Inl InvalidFee, s)
               | Some price \<Rightarrow>
                   (case try_address_to_bytes (te_caller e) of
                      Inl msg \<Rightarrow> Some (Inl (InvariantViolation msg), s)
                    | Inr sender \<Rightarrow>
                        admit_pending x True envelope sender (te_nonce e) caller price max_fee max_priority dynamic s))"

definition submit_tx ::
  "ext \<Rightarrow> u64 \<Rightarrow> tx_kind \<Rightarrow> bytes \<Rightarrow> bytes \<Rightarrow> node \<Rightarrow> ((chain_error + tx_id) \<times> node) option" where
  "submit_tx x now kind tx_bytes caller n =
    (let (suppressed, n1) = is_principal_decode_suppressed caller now n
     in if suppressed then Some (Inl DecodeRateLimited, n1)
        else map_option (\<lambda>(r, s). (r, n1\<lparr>stable := s\<rparr>)) (submit_tx_state x kind tx_bytes caller (stable n1)))"

definition submit_ic_state ::
  "ext \<Rightarrow> bytes \<Rightarrow> bytes \<Rightarrow> bytes \<Rightarrow> ic_synthetic_tx_input \<Rightarrow> bytes \<Rightarrow> stable_state
    \<Rightarrow> ((chain_error + tx_id) \<times> stable_state) option" where
  "submit_ic_state x caller canister_id tx_bytes tx caller_evm s =
    (let t = stored_tx_id (keccak x) IcSynthetic tx_bytes (Some caller_evm) (Some canister_id) (Some caller)
     in if oget (seen_tx s) t \<noteq> None then Some (Inl TxAlreadySeen, s)
        else
          let max_fee = ic_max_fee_per_gas tx;
              max_priority = ic_max_priority_fee_per_gas tx;
              dynamic = True;
              envelope = new_with_fees t IcSynthetic tx_bytes (Some caller_evm) canister_id caller max_fee max_priority dynamic;
              cs = chain_state_cell s
          in if \<not> min_fee_satisfied max_fee (Some max_priority) (base_fee cs) (min_priority_fee cs) (min_gas_price cs)
             then Some (Inl InvalidFee, s)
             else case effective_gas_price max_fee (if dynamic then max_priority else 0) (base_fee cs) of
               None \<Rightarrow> Some (Inl InvalidFee, s)
             | Some price \<Rightarrow>
                 admit_pending x False envelope caller_evm (ic_nonce tx) caller price max_fee max_priority dynamic s)"

definition submit_ic_tx_input ::
  "ext \<Rightarrow> u64 \<Rightarrow> bytes \<Rightarrow> bytes \<Rightarrow> ic_synthetic_tx_input \<Rightarrow> node \<Rightarrow> ((chain_error + tx_id) \<times> node) option" where
  "submit_ic_tx_input x now caller canister_id tx n =
    (let (suppressed, n1) = is_principal_decode_suppressed caller now n
     in if suppressed then Some (Inl DecodeRateLimited, n1)
        else
          let tx_bytes = encode_ic_synthetic_input tx
          in if length tx_bytes > MAX_TX_SIZE then Some (Inl TxTooLarge, n1)
             else case derive_caller_evm_cached x caller n1 of
               (Inl e, n2) \<Rightarrow> Some (Inl e, n2)
             | (Inr caller_evm, n2) \<Rightarrow>
                 map_option (\<lambda>(r, s). (r, n2\<lparr>stable := s\<rparr>))
                   (submit_ic_state x caller canister_id tx_bytes tx caller_evm (stable n2)))"

datatype tx_in =
    TxInEthSigned bytes bytes
  | TxInIcSynthetic bytes bytes ic_synthetic_tx_input

fun submit_tx_in :: "ext \<Rightarrow> u64 \<Rightarrow> tx_in \<Rightarrow> node \<Rightarrow> ((chain_error + tx_id) \<times> node) option" where
  "submit_tx_in x now (TxInEthSigned tx_bytes caller) n = submit_tx x now EthSigned tx_bytes caller n"
| "submit_tx_in x now (TxInIcSynthetic caller canister_id tx) n = submit_ic_tx_input x now caller canister_id tx n"

section \<open>Upgrade\<close>

definition clear_mempool_on_upgrade :: "stable_state \<Rightarrow> stable_state" where
  "clear_mempool_on_upgrade s =
    s\<lparr>ready_queue := oempty, ready_by_seq := oempty, ready_key_by_tx_id := oempty,
      pending_by_sender_nonce := oempty, pending_min_nonce := oempty, pending_meta_by_tx_id := oempty,
      pending_current_by_sender := oempty, principal_pending_count := oempty,
      pending_fee_index := oempty, pending_fee_key_by_tx_id := oempty, sender_expected_nonce := oempty\<rparr>"

definition rebuild_principal_entry :: "ext \<Rightarrow> tx_id \<Rightarrow> stable_state \<Rightarrow> stable_state option" where
  "rebuild_principal_entry x t s =
    (case oget (tx_store s) t of
       None \<Rightarrow> Some s
     | Some envelope \<Rightarrow>
         (case try_from x envelope of
            Inl _ \<Rightarrow> drop_invalid_fee_pending_decode x t s
          | Inr stored \<Rightarrow>
              (case rebuild_pending_decision_of (oget (pending_meta_by_tx_id s) t \<noteq> None) of
                 SkipPending \<Rightarrow> Some s
               | CountPrincipal \<Rightarrow> do {
                   key \<leftarrow> caller_key_from_principal (st_caller_principal stored);
                   let count = (case oget (principal_pending_count s) key of Some c \<Rightarrow> c | None \<Rightarrow> 0);
                   Some (s\<lparr>principal_pending_count := oinsert key (increment_count count) (principal_pending_count s)\<rparr>)
                 })))"

fun rebuild_principal_counts :: "ext \<Rightarrow> tx_id list \<Rightarrow> stable_state \<Rightarrow> stable_state option" where
  "rebuild_principal_counts x [] s = Some s"
| "rebuild_principal_counts x (t # ts) s = do {
     s1 \<leftarrow> rebuild_principal_entry x t s;
     rebuild_principal_counts x ts s1
   }"

definition rebuild_pending_runtime_indexes :: "ext \<Rightarrow> stable_state \<Rightarrow> stable_state option" where
  "rebuild_pending_runtime_indexes x s = do {
     let s1 = s\<lparr>principal_pending_count := oempty, ready_by_seq := oempty\<rparr>;
     s2 \<leftarrow> rebuild_principal_counts x (map snd (entries (pending_by_sender_nonce s1))) s1;
     let s3 = rebuild_pending_fee_index_for_base_fee x (base_fee (chain_state_cell s2)) s2;
     Some (fold (\<lambda>(t, key) s. s\<lparr>ready_by_seq := oinsert (ready_seq_key_new (ready_key_seq key) t) t (ready_by_seq s)\<rparr>)
       (entries (ready_key_by_tx_id s3)) s3)
   }"

section \<open>Candidate selection\<close>

record ready_candidate =
  rc_tx_id :: tx_id
  rc_price :: u64
  rc_seq :: u64

text \<open>\<open>cmp_priority\<close>: a greater candidate has the higher price, then the earlier sequence, then the
  smaller id.\<close>

definition candidate_less :: "ready_candidate \<Rightarrow> ready_candidate \<Rightarrow> bool" where
  "candidate_less a b \<longleftrightarrow>
    rc_price a < rc_price b
    \<or> rc_price a = rc_price b \<and> (rc_seq b < rc_seq a \<or> rc_seq b = rc_seq a \<and> rc_tx_id b < rc_tx_id a)"

definition candidate_le :: "ready_candidate \<Rightarrow> ready_candidate \<Rightarrow> bool" where
  "candidate_le a b \<longleftrightarrow> \<not> candidate_less b a"

text \<open>The heap of kept candidates as the sorted list its operations amount to, worst first: \<open>peek\<close> is the
  head, \<open>pop\<close> drops it, \<open>push\<close> inserts.\<close>

fun heap_push :: "ready_candidate \<Rightarrow> ready_candidate list \<Rightarrow> ready_candidate list" where
  "heap_push c [] = [c]"
| "heap_push c (h # t) = (if candidate_le c h then c # h # t else h # heap_push c t)"

definition push_top_k_candidate :: "nat \<Rightarrow> ready_candidate \<Rightarrow> ready_candidate list \<Rightarrow> ready_candidate list" where
  "push_top_k_candidate max_txs c heap =
    (if length heap < max_txs then heap_push c heap
     else
       case heap of
         [] \<Rightarrow> heap
       | worst # rest \<Rightarrow> if candidate_less worst c then heap_push c rest else heap)"

definition select_top_k_ready_candidates :: "ready_candidate list \<Rightarrow> nat \<Rightarrow> tx_id list" where
  "select_top_k_ready_candidates candidates max_txs =
    (if max_txs = 0 then []
     else
       let selected_heap = fold (push_top_k_candidate max_txs) candidates [];
           selected = rev (foldr heap_push selected_heap [])
       in map rc_tx_id selected)"

definition ready_candidate_of :: "ext \<Rightarrow> u64 \<Rightarrow> stable_state \<Rightarrow> ready_key \<times> tx_id \<Rightarrow> ready_candidate" where
  "ready_candidate_of x base s e =
    (case load_fee_fields_and_seq x (snd e) s of
       Inr (Some (max_fee, max_priority, dynamic, sq)) \<Rightarrow>
         \<lparr>rc_tx_id = snd e,
          rc_price = (case effective_gas_price max_fee (if dynamic then max_priority else 0) base of Some p \<Rightarrow> p | None \<Rightarrow> 0),
          rc_seq = sq\<rparr>
     | _ \<Rightarrow> \<lparr>rc_tx_id = snd e, rc_price = 0, rc_seq = ready_key_seq (fst e)\<rparr>)"

definition select_ready_candidates :: "ext \<Rightarrow> u64 \<Rightarrow> nat \<Rightarrow> stable_state \<Rightarrow> tx_id list" where
  "select_ready_candidates x base max_txs s =
    (if max_txs = 0 then []
     else
       let es = take READY_CANDIDATE_LIMIT (entries (ready_queue s))
       in select_top_k_ready_candidates (map (ready_candidate_of x base s) es) max_txs)"

end
