(* ===== verification/Ready_Selection.thy ===== *)
theory Ready_Selection
  imports Mempool "HOL-Library.Multiset"
begin

text \<open>
  Correctness of the selection of block candidates (\<open>select_ready_candidates\<close> and the bounded heap of
  \<open>select_top_k_ready_candidates\<close> in \<open>evm-core/src/chain.rs\<close>): the priority is a linear order, and the
  bounded heap keeps exactly the best candidates.
\<close>

lemma candidate_le_refl [simp]: "candidate_le a a"
  by (simp add: candidate_le_def candidate_less_def)

lemma candidate_le_trans: "candidate_le a b \<Longrightarrow> candidate_le b c \<Longrightarrow> candidate_le a c"
  by (auto simp: candidate_le_def candidate_less_def not_less order_less_imp_le)

lemma candidate_le_linear: "candidate_le a b \<or> candidate_le b a"
  by (auto simp: candidate_le_def candidate_less_def)

lemma candidate_le_antisym: "candidate_le a b \<Longrightarrow> candidate_le b a \<Longrightarrow> a = b"
  by (cases a; cases b) (auto simp: candidate_le_def candidate_less_def)

text \<open>A bounded buffer over any linear order: the client proof of the heap needs only these laws.\<close>

locale linear_rank =
  fixes le :: "'a \<Rightarrow> 'a \<Rightarrow> bool"
  assumes le_refl: "le a a"
    and le_trans: "le a b \<Longrightarrow> le b c \<Longrightarrow> le a c"
    and le_linear: "le a b \<or> le b a"
    and le_antisym: "le a b \<Longrightarrow> le b a \<Longrightarrow> a = b"
begin

definition best_of :: "nat \<Rightarrow> 'a list \<Rightarrow> 'a list \<Rightarrow> bool" where
  "best_of k xs h \<longleftrightarrow> sorted_wrt le h \<and> length h = min k (length xs)
    \<and> (\<exists>rest. mset xs = mset h + mset rest \<and> (\<forall>r\<in>set rest. \<forall>y\<in>set h. le r y))"

lemma best_of_Nil: "best_of k [] []"
  by (simp add: best_of_def)

lemma best_of_push:
  assumes "best_of k xs h" and "length h < k"
    and "mset h' = add_mset c (mset h)" and "sorted_wrt le h'"
  shows "best_of k (xs @ [c]) h'"
proof -
  obtain rest where r: "mset xs = mset h + mset rest"
    using assms(1) by (auto simp: best_of_def)
  have "length h = length xs"
    using assms(1,2) by (auto simp: best_of_def)
  then have "rest = []"
    using arg_cong [OF r, of size] by simp
  moreover have "length h' = Suc (length h)"
    using arg_cong [OF assms(3), of size] by simp
  ultimately show ?thesis
    using assms r by (auto simp: best_of_def intro!: exI [of _ "[]"])
qed

lemma best_of_replace:
  assumes "best_of k xs (w # t)" and "Suc (length t) = k" and "le w c"
    and "mset h' = add_mset c (mset t)" and "sorted_wrt le h'"
  shows "best_of k (xs @ [c]) h'"
proof -
  obtain rest where r: "mset xs = add_mset w (mset t) + mset rest"
    and lt: "\<And>r y. r \<in> set rest \<Longrightarrow> y \<in> set (w # t) \<Longrightarrow> le r y"
    using assms(1) by (auto simp: best_of_def)
  have w: "le w y" if "y \<in> set t" for y
    using assms(1) that by (auto simp: best_of_def)
  have set': "set h' = insert c (set t)"
    using arg_cong [OF assms(4), of set_mset] by simp
  have low: "\<forall>r\<in>set (w # rest). \<forall>y\<in>set h'. le r y"
    using set' lt w assms(3) le_trans [OF lt assms(3)] by auto
  have m: "mset (xs @ [c]) = mset h' + mset (w # rest)"
    using r assms(4) by simp
  have "length h' = Suc (length t)"
    using arg_cong [OF assms(4), of size] by simp
  moreover have "k \<le> length xs"
    using assms(1,2) by (auto simp: best_of_def)
  ultimately show ?thesis
    using low m assms(2,5) by (auto simp: best_of_def intro!: exI [of _ "w # rest"])
qed

lemma best_of_skip:
  assumes "best_of k xs h" and "length h = k" and "\<forall>y\<in>set h. le c y"
  shows "best_of k (xs @ [c]) h"
proof -
  obtain rest where "mset xs = mset h + mset rest" "\<forall>r\<in>set rest. \<forall>y\<in>set h. le r y"
    using assms(1) by (auto simp: best_of_def)
  then show ?thesis
    using assms by (auto simp: best_of_def intro!: exI [of _ "c # rest"])
qed

end

interpretation priority: linear_rank candidate_le
  by unfold_locales
    (auto intro: candidate_le_trans candidate_le_antisym simp: candidate_le_linear)

lemma mset_heap_push [simp]: "mset (heap_push c h) = add_mset c (mset h)"
  by (induction h) auto

lemma set_heap_push [simp]: "set (heap_push c h) = insert c (set h)"
  by (metis mset_heap_push set_mset_add_mset_insert set_mset_mset)

lemma sorted_heap_push: "sorted_wrt candidate_le h \<Longrightarrow> sorted_wrt candidate_le (heap_push c h)"
  using candidate_le_linear by (induction h) (auto intro: candidate_le_trans)

lemma heap_push_min: "\<forall>y\<in>set h. candidate_le c y \<Longrightarrow> heap_push c h = c # h"
  by (cases h) auto

lemma sorted_resort: "sorted_wrt candidate_le h \<Longrightarrow> foldr heap_push h [] = h"
  by (induction h) (auto simp: heap_push_min)

lemma push_top_k_best:
  assumes "priority.best_of k xs h" and "0 < k"
  shows "priority.best_of k (xs @ [c]) (push_top_k_candidate k c h)"
proof (cases "length h < k")
  case True
  then show ?thesis
    using priority.best_of_push [OF assms(1) True mset_heap_push sorted_heap_push] assms(1)
    by (simp add: push_top_k_candidate_def) (simp add: priority.best_of_def)
next
  case False
  have s: "sorted_wrt candidate_le h" and l: "length h = k"
    using assms(1) False by (auto simp: priority.best_of_def)
  then obtain w t where h: "h = w # t"
    using assms(2) by (cases h) auto
  show ?thesis
  proof (cases "candidate_less w c")
    case True
    then have "candidate_le w c"
      by (auto simp: candidate_le_def candidate_less_def)
    then have "priority.best_of k (xs @ [c]) (heap_push c t)"
      using assms(1) l s sorted_heap_push [of t c]
      by (intro priority.best_of_replace [of k xs w t c "heap_push c t"]) (auto simp: h)
    then show ?thesis
      using True False by (simp add: push_top_k_candidate_def h)
  next
    case False
    then have "candidate_le c w"
      by (simp add: candidate_le_def)
    then have "\<forall>y\<in>set h. candidate_le c y"
      using s h candidate_le_trans by auto
    then show ?thesis
      using priority.best_of_skip [OF assms(1) l] False \<open>\<not> length h < k\<close> by (simp add: push_top_k_candidate_def h)
  qed
qed

lemma fold_push_best:
  "0 < k \<Longrightarrow> priority.best_of k xs h \<Longrightarrow> priority.best_of k (xs @ cs) (fold (push_top_k_candidate k) cs h)"
proof (induction cs arbitrary: xs h)
  case (Cons c cs)
  then show ?case
    using push_top_k_best [of k xs h c] Cons.IH [of "xs @ [c]"] by simp
qed simp

lemma select_top_k_spec:
  "\<exists>sel rest. select_top_k_ready_candidates cs k = map rc_tx_id sel
    \<and> mset cs = mset sel + mset rest \<and> length sel = min k (length cs)
    \<and> sorted_wrt (\<lambda>a b. candidate_le b a) sel
    \<and> (\<forall>r\<in>set rest. \<forall>c\<in>set sel. candidate_le r c)"
proof (cases "k = 0")
  case True
  then show ?thesis
    by (auto simp: select_top_k_ready_candidates_def intro!: exI [of _ "[]"] exI [of _ cs])
next
  case False
  define h where "h = fold (push_top_k_candidate k) cs []"
  have b: "priority.best_of k cs h"
    using fold_push_best [OF _ priority.best_of_Nil, of k cs] False by (simp add: h_def)
  then obtain rest where "mset cs = mset h + mset rest" "\<forall>r\<in>set rest. \<forall>y\<in>set h. candidate_le r y"
    by (auto simp: priority.best_of_def)
  moreover have "select_top_k_ready_candidates cs k = map rc_tx_id (rev h)"
    using False b by (simp add: select_top_k_ready_candidates_def h_def [symmetric] sorted_resort priority.best_of_def)
  ultimately show ?thesis
    using b by (intro exI [of _ "rev h"] exI [of _ rest]) (simp add: priority.best_of_def sorted_wrt_rev)
qed

text \<open>C14: block candidates are chosen by price. Of the first 256 entries of the ready queue the selection
  returns the best \<open>max_txs\<close>, best first: by effective gas price at the current base fee, then by earlier
  queue sequence, then by smaller id; no entry left out ranks above one that is returned.\<close>
theorem select_ready_candidates_best:
  "\<exists>sel rest. select_ready_candidates x base max_txs s = map rc_tx_id sel
    \<and> mset (map (ready_candidate_of x base s) (take READY_CANDIDATE_LIMIT (entries (ready_queue s)))) = mset sel + mset rest
    \<and> length sel = min max_txs (min READY_CANDIDATE_LIMIT (olen (ready_queue s)))
    \<and> sorted_wrt (\<lambda>a b. candidate_le b a) sel
    \<and> list_all (\<lambda>r. list_all (candidate_le r) sel) rest"
proof -
  let ?cs = "map (ready_candidate_of x base s) (take READY_CANDIDATE_LIMIT (entries (ready_queue s)))"
  have "select_ready_candidates x base max_txs s = select_top_k_ready_candidates ?cs max_txs"
    by (simp add: select_ready_candidates_def select_top_k_ready_candidates_def)
  moreover have "length ?cs = min READY_CANDIDATE_LIMIT (olen (ready_queue s))"
    by (simp add: olen_def min.commute)
  ultimately show ?thesis
    using select_top_k_spec [of ?cs max_txs] by (simp only: list_all_iff)
qed

end
