(* ===== verification/Evm_State.thy ===== *)
theory Evm_State
  imports Stable_State
begin

text \<open>
  The database the execution engine reads and writes (\<open>evm-core/src/revm_db.rs\<close>,
  \<open>evm-core/src/selfdestruct.rs\<close>): reading accounts, code, storage and block hashes from the stable
  state, and committing the accounts an execution changed. What the engine hands over per account is its
  record after the execution, whether it was touched or destroyed, and the changed storage slots with
  their new values; whether the engine calls an account empty is a function of the engine.
\<close>

section \<open>Data of the engine\<close>

record account_info =
  info_balance :: u256
  info_nonce :: u64
  info_code_hash :: bytes
  info_code :: "bytes option"

record evm_account =
  acc_info :: account_info
  acc_selfdestructed :: bool
  acc_touched :: bool
  acc_changed_slots :: "(u256 \<times> u256) list"

type_synonym state_diff = "(bytes \<times> evm_account) list"

text \<open>The parts of the engine the database relies on: the hash of the empty code, the record of an account
  that does not exist, and its notion of an empty account. A block hash is None where reading the stored
  block traps.\<close>

record revm_lib =
  keccak_empty :: bytes
  default_info :: account_info
  account_is_empty :: "evm_account \<Rightarrow> bool"

section \<open>Reading\<close>

definition account_val_to_info :: "account_val \<Rightarrow> account_info" where
  "account_val_to_info v =
    \<lparr>info_balance = from_be_bytes (account_balance v), info_nonce = account_nonce v,
     info_code_hash = account_code_hash v, info_code = None\<rparr>"

definition info_to_account_val :: "account_info \<Rightarrow> account_val" where
  "info_to_account_val info =
    account_from_parts (info_nonce info) (to_be_bytes (info_balance info)) (info_code_hash info)"

definition db_basic :: "stable_state \<Rightarrow> bytes \<Rightarrow> account_info option" where
  "db_basic s addr = map_option account_val_to_info (oget (accounts s) (make_account_key addr))"

definition db_code_by_hash :: "revm_lib \<Rightarrow> stable_state \<Rightarrow> bytes \<Rightarrow> bytes" where
  "db_code_by_hash e s code_hash =
    (if code_hash = keccak_empty e then []
     else (case oget (codes s) (make_code_key code_hash) of Some code \<Rightarrow> code | None \<Rightarrow> []))"

definition db_storage :: "stable_state \<Rightarrow> bytes \<Rightarrow> u256 \<Rightarrow> u256" where
  "db_storage s addr index =
    (case oget (storage s) (make_storage_key addr (to_be_bytes index)) of
       Some v \<Rightarrow> from_be_bytes v
     | None \<Rightarrow> 0)"

definition db_block_hash :: "stable_state \<Rightarrow> u64 \<Rightarrow> bytes option" where
  "db_block_hash s number =
    (case oget (blocks s) number of
       Some ptr \<Rightarrow>
         (case blob_read ptr (blob_store_cell s) of
            BOk bytes \<Rightarrow> Some (blk_block_hash (fst (block_from_bytes bytes)))
          | BErr _ \<Rightarrow> Some (replicate 32 0)
          | BTrap \<Rightarrow> None)
     | None \<Rightarrow> Some (replicate 32 0))"

section \<open>Destroying an account\<close>

abbreviation SELFDESTRUCT_DELETE_BATCH :: nat where
  "SELFDESTRUCT_DELETE_BATCH \<equiv> 256"

definition storage_batch :: "bytes \<Rightarrow> bytes \<Rightarrow> bytes option \<Rightarrow> (bytes, bytes) omap \<Rightarrow> bytes list" where
  "storage_batch start stop cursor m =
    take SELFDESTRUCT_DELETE_BATCH
      (filter (\<lambda>k. (case cursor of Some c \<Rightarrow> c < k | None \<Rightarrow> start \<le> k) \<and> k \<le> stop) (okeys m))"

lemma oget_fold_oremove: "oget (fold oremove ks m) k = (if k \<in> set ks then None else oget m k)"
  by (induction ks arbitrary: m) auto

lemma storage_batch_mem: "k \<in> set (storage_batch start stop cursor m) \<Longrightarrow>
    oget m k \<noteq> None \<and> (case cursor of Some c \<Rightarrow> c < k | None \<Rightarrow> start \<le> k) \<and> k \<le> stop"
  using set_okeys [of m] by (auto simp: storage_batch_def dest!: in_set_takeD)

lemma storage_batch_shrinks:
  assumes "storage_batch start stop cursor m = k # ks"
  shows "olen (fold oremove (k # ks) m) < olen m"
proof -
  have "k \<in> dom (oget m)"
    using storage_batch_mem [of k start stop cursor m] assms by auto
  moreover have "dom (oget (fold oremove (k # ks) m)) \<subseteq> dom (oget m) - {k}"
    by (auto simp: oget_fold_oremove simp del: fold_simps split: if_splits)
  ultimately have "dom (oget (fold oremove (k # ks) m)) \<subset> dom (oget m)"
    by blast
  then show ?thesis
    unfolding olen_card by (rule psubset_card_mono [OF finite_dom_oget])
qed

function delete_storage_range :: "bytes \<Rightarrow> bytes \<Rightarrow> bytes option \<Rightarrow> (bytes, bytes) omap \<Rightarrow> (bytes, bytes) omap" where
  "delete_storage_range start stop cursor m =
    (case storage_batch start stop cursor m of
       [] \<Rightarrow> m
     | k # ks \<Rightarrow> delete_storage_range start stop (Some (last (k # ks))) (fold oremove (k # ks) m))"
  by pat_completeness auto
termination
  by (relation "measure (\<lambda>(_, _, _, m). olen m)") (use storage_batch_shrinks in auto)

declare delete_storage_range.simps [simp del]

definition selfdestruct_address :: "bytes \<Rightarrow> stable_state \<Rightarrow> stable_state" where
  "selfdestruct_address addr20 s =
    (let account_key = make_account_key addr20;
         s1 = (case oget (accounts s) account_key of
                 Some account \<Rightarrow> s\<lparr>codes := oremove (make_code_key (account_code_hash account)) (codes s)\<rparr>
               | None \<Rightarrow> s);
         s2 = s1\<lparr>accounts := oremove account_key (accounts s1)\<rparr>;
         start = make_storage_key addr20 (replicate 32 0);
         stop = make_storage_key addr20 (replicate 32 (- 1))
     in s2\<lparr>storage := delete_storage_range start stop None (storage s2)\<rparr>)"

section \<open>Committing a state difference\<close>

definition commit_slot :: "bytes \<Rightarrow> u256 \<times> u256 \<Rightarrow> stable_state \<Rightarrow> stable_state" where
  "commit_slot addr = (\<lambda>(slot, present) s.
    let storage_key = make_storage_key addr (to_be_bytes slot)
    in case storage_commit_decision_of (present = 0) of
         StorageRemove \<Rightarrow> s\<lparr>storage := oremove storage_key (storage s)\<rparr>
       | StorageInsert \<Rightarrow> s\<lparr>storage := oinsert storage_key (to_be_bytes present) (storage s)\<rparr>)"

definition commit_code :: "account_info \<Rightarrow> stable_state \<Rightarrow> stable_state" where
  "commit_code info s =
    (let code_key = make_code_key (info_code_hash info)
     in case info_code info of
          None \<Rightarrow> s
        | Some code \<Rightarrow>
            (case code_commit_decision_of True (code = []) of
               CodeSkip \<Rightarrow> s
             | CodeRemove \<Rightarrow> s\<lparr>codes := oremove code_key (codes s)\<rparr>
             | CodeInsert \<Rightarrow> s\<lparr>codes := oinsert code_key code (codes s)\<rparr>))"

definition commit_account :: "revm_lib \<Rightarrow> bytes \<times> evm_account \<Rightarrow> stable_state \<Rightarrow> stable_state" where
  "commit_account e = (\<lambda>(addr, account) s.
    case account_commit_decision_of (acc_selfdestructed account) (account_is_empty e account) (acc_touched account) of
      AccountDelete \<Rightarrow> selfdestruct_address addr s
    | AccountUpsert \<Rightarrow>
        let s1 = s\<lparr>accounts := oinsert (make_account_key addr) (info_to_account_val (acc_info account)) (accounts s)\<rparr>;
            s2 = fold (commit_slot addr) (acc_changed_slots account) s1
        in commit_code (acc_info account) s2)"

definition commit :: "revm_lib \<Rightarrow> state_diff \<Rightarrow> stable_state \<Rightarrow> stable_state" where
  "commit e changes s =
    (let s1 = fold (commit_account e) changes s;
         mutated = (changes \<noteq> [])
     in if mutated then bump_evm_state_epoch s1 else s1)"

section \<open>What the engine sees after a commit\<close>

text \<open>The specification: a deleted account reads as missing with zero storage, a written one as its new
  record with the changed slots overlaid, and everything else as before.\<close>

definition deleted :: "revm_lib \<Rightarrow> evm_account \<Rightarrow> bool" where
  "deleted e account \<longleftrightarrow> acc_selfdestructed account \<or> account_is_empty e account \<and> acc_touched account"

definition spec_basic :: "revm_lib \<Rightarrow> evm_account option \<Rightarrow> account_info option \<Rightarrow> account_info option" where
  "spec_basic e change old =
    (case change of
       None \<Rightarrow> old
     | Some account \<Rightarrow> if deleted e account then None else Some ((acc_info account)\<lparr>info_code := None\<rparr>))"

definition spec_storage :: "revm_lib \<Rightarrow> evm_account option \<Rightarrow> u256 \<Rightarrow> u256 \<Rightarrow> u256" where
  "spec_storage e change slot old =
    (case change of
       None \<Rightarrow> old
     | Some account \<Rightarrow>
         if deleted e account then 0
         else (case map_of (rev (acc_changed_slots account)) slot of Some v \<Rightarrow> v | None \<Rightarrow> old))"

text \<open>Addresses have 20 bytes, hashes and storage keys their fixed length.\<close>

definition diff_ok :: "state_diff \<Rightarrow> bool" where
  "diff_ok changes \<longleftrightarrow> distinct (map fst changes)
    \<and> list_all (\<lambda>(a, account). length a = 20 \<and> length (info_code_hash (acc_info account)) = 32) changes"

definition storage_ok :: "stable_state \<Rightarrow> bool" where
  "storage_ok s \<longleftrightarrow> (\<forall>k v. oget (storage s) k = Some v \<longrightarrow> length k = 53)"

lemma length_storage_key [simp]: "length (make_storage_key a b) = Suc (length a + length b)"
  by (simp add: make_storage_key_def)

lemma storage_key_inj:
  "length a = length a' \<Longrightarrow> make_storage_key a b = make_storage_key a' b' \<longleftrightarrow> a = a' \<and> b = b'"
  by (simp add: make_storage_key_def)

lemma bytes_bounds:
  assumes "length (b :: bytes) = n"
  shows "replicate n 0 \<le> b" "b \<le> replicate n (- 1)"
proof -
  have "Suc (from_be (replicate n (- 1))) = 256 ^ n" for n
    by (induction n) (simp_all add: from_be_Cons)
  from this [of n] have "from_be b \<le> from_be (replicate n (- 1))"
    using from_be_less [of b] assms by simp
  then show "replicate n 0 \<le> b" "b \<le> replicate n (- 1)"
    using assms bytes_less_numeric [of b "replicate n 0"] bytes_less_numeric [of "replicate n (- 1)" b]
    by (simp_all add: not_less [symmetric])
qed

lemma split_list_at: "n \<le> length xs \<Longrightarrow> \<exists>u v. xs = u @ v \<and> length u = n"
  by (metis append_take_drop_id length_take min.absorb2)

lemma storage_key_range:
  assumes "length a = 20" and "length k = 53"
  shows "make_storage_key a (replicate 32 0) \<le> k \<and> k \<le> make_storage_key a (replicate 32 (- 1))
    \<longleftrightarrow> (\<exists>b. length b = 32 \<and> k = make_storage_key a b)"
proof -
  obtain u b where k: "k = u @ b" "length u = 21" "length b = 32"
    using split_list_at [of 21 k] assms(2) by auto
  have key: "make_storage_key a c = (2 # a) @ c" for c
    by (simp add: make_storage_key_def)
  have "(2 # a) @ replicate 32 0 \<le> u @ b \<and> u @ b \<le> (2 # a) @ replicate 32 (- 1) \<longleftrightarrow> u = 2 # a"
    using append_less_iff [of u "2 # a" b "replicate 32 0"] append_less_iff [of "2 # a" u "replicate 32 (- 1)" b]
      bytes_bounds [OF k(3)] assms(1) k(2) by (auto simp: not_less [symmetric] simp del: append_Cons)
  moreover have "(\<exists>c. length c = 32 \<and> u @ b = (2 # a) @ c) \<longleftrightarrow> u = 2 # a"
    using k assms(1) append_eq_append_conv [of u "2 # a"] by (auto simp del: append_Cons)
  ultimately show ?thesis
    unfolding key k(1) by (simp del: append_Cons)
qed

lemma sorted_batch_covers:
  assumes "sorted_wrt (<) xs" and "take n xs = ys" and "ys \<noteq> []" and "k \<in> set xs"
  shows "k \<in> set ys \<or> last ys < (k :: 'a::linorder)"
proof -
  have "k \<in> set (take n xs) \<or> k \<in> set (drop n xs)"
    using assms(4) by (metis Un_iff append_take_drop_id set_append)
  moreover have "a < k" if "a \<in> set (take n xs)" "k \<in> set (drop n xs)" for a
    using assms(1) that by (metis append_take_drop_id sorted_wrt_append)
  ultimately show ?thesis
    using assms(2,3) last_in_set by blast
qed

lemma sorted_okeys: "sorted_wrt (<) (okeys m)"
  by (simp add: okeys_def)

lemma delete_storage_range_get:
  "oget (delete_storage_range start stop cursor m) k =
    (if (case cursor of Some c \<Rightarrow> c < k | None \<Rightarrow> start \<le> k) \<and> k \<le> stop then None else oget m k)"
proof (induction start stop cursor m rule: delete_storage_range.induct)
  case (1 start stop cursor m)
  let ?in = "\<lambda>k. (case cursor of Some c \<Rightarrow> c < k | None \<Rightarrow> start \<le> k) \<and> k \<le> stop"
  let ?all = "filter ?in (okeys m)"
  show ?case
  proof (cases "storage_batch start stop cursor m")
    case Nil
    then have "?all = []"
      by (simp add: storage_batch_def)
    then have "oget m k = None" if "?in k"
      using that set_okeys [of m] unfolding filter_empty_conv by blast
    then show ?thesis
      using Nil by (subst delete_storage_range.simps) simp
  next
    case (Cons q qs)
    let ?c = "last (q # qs)"
    have c: "?in ?c"
      using storage_batch_mem [of ?c start stop cursor m] Cons by simp
    have "?in k \<Longrightarrow> oget m k = None \<or> k \<in> set (q # qs) \<or> ?c < k"
      using sorted_batch_covers [of ?all SELFDESTRUCT_DELETE_BATCH "q # qs" k] Cons set_okeys [of m]
        sorted_wrt_filter [OF sorted_okeys [of m], of ?in]
      unfolding storage_batch_def set_filter domIff by blast
    moreover have "k \<in> set (q # qs) \<Longrightarrow> ?in k"
      using storage_batch_mem [of k start stop cursor m] Cons by simp
    moreover have "?c < k \<Longrightarrow> k \<le> stop \<Longrightarrow> ?in k"
      using c by (auto split: option.splits)
    ultimately have "(if ?c < k \<and> k \<le> stop then None else if k \<in> set (q # qs) then None else oget m k)
        = (if ?in k then None else oget m k)"
      by (metis (no_types, lifting))
    moreover have "delete_storage_range start stop cursor m =
        delete_storage_range start stop (Some ?c) (fold oremove (q # qs) m)"
      using Cons by (subst delete_storage_range.simps) simp
    ultimately show ?thesis
      using "1.IH" [OF Cons] unfolding oget_fold_oremove option.case by metis
  qed
qed

text \<open>One account at a time.\<close>

lemma info_val_info [simp]:
  "length (info_code_hash i) = 32 \<Longrightarrow> account_val_to_info (info_to_account_val i) = i\<lparr>info_code := None\<rparr>"
  by (simp add: account_val_to_info_def info_to_account_val_def account_code_hash_def account_from_parts_def
      account_balance_def account_nonce_def byte_slice_def)

text \<open>A commit touches the accounts, their storage and code, and the state epoch, and nothing else.\<close>

definition evm_frame :: "stable_state \<Rightarrow> stable_state \<Rightarrow> bool" where
  "evm_frame s s' \<longleftrightarrow> (\<exists>a st c ep. s' = s\<lparr>accounts := a, storage := st, codes := c, evm_state_epoch := ep\<rparr>)"

lemma evm_frameI:
  "s' = s\<lparr>accounts := accounts s', storage := storage s', codes := codes s', evm_state_epoch := evm_state_epoch s'\<rparr> \<Longrightarrow>
    evm_frame s s'"
  unfolding evm_frame_def by metis

lemma evm_frame_trans: "evm_frame s s' \<Longrightarrow> evm_frame s' s'' \<Longrightarrow> evm_frame s s''"
  unfolding evm_frame_def by fastforce

lemma selfdestruct_effect:
  assumes "length a = 20" and "storage_ok s"
  shows "evm_frame s (selfdestruct_address a s)"
    and "accounts (selfdestruct_address a s) = oremove (make_account_key a) (accounts s)"
    and "oget (storage (selfdestruct_address a s)) k =
      (if \<exists>b. length b = 32 \<and> k = make_storage_key a b then None else oget (storage s) k)"
proof -
  show "evm_frame s (selfdestruct_address a s)"
    by (cases "oget (accounts s) (make_account_key a)"; rule evm_frameI) (simp_all add: selfdestruct_address_def Let_def)
  show "accounts (selfdestruct_address a s) = oremove (make_account_key a) (accounts s)"
    by (cases "oget (accounts s) (make_account_key a)") (simp_all add: selfdestruct_address_def Let_def)
  have st: "storage (selfdestruct_address a s) =
      delete_storage_range (make_storage_key a (replicate 32 0)) (make_storage_key a (replicate 32 (- 1))) None (storage s)"
    by (cases "oget (accounts s) (make_account_key a)") (simp_all add: selfdestruct_address_def Let_def)
  show "oget (storage (selfdestruct_address a s)) k =
      (if \<exists>b. length b = 32 \<and> k = make_storage_key a b then None else oget (storage s) k)"
  proof (cases "length k = 53")
    case True
    then show ?thesis
      using storage_key_range [OF assms(1) True] unfolding st delete_storage_range_get by simp
  next
    case False
    then have "oget (storage s) k = None"
      using assms(2) by (cases "oget (storage s) k") (auto simp: storage_ok_def)
    with False show ?thesis
      using assms(1) unfolding st delete_storage_range_get by auto
  qed
qed

lemma commit_slot_effect:
  "evm_frame s (commit_slot a (j, w) s)" "accounts (commit_slot a (j, w) s) = accounts s"
  "codes (commit_slot a (j, w) s) = codes s"
  "oget (storage (commit_slot a (j, w) s)) q = (if q = make_storage_key a (to_be_bytes j)
     then (if w = 0 then None else Some (to_be_bytes w)) else oget (storage s) q)"
  by (auto intro: evm_frameI simp: commit_slot_def Let_def storage_commit_decision_of_def)

lemma commit_slots_frame:
  "evm_frame s (fold (commit_slot a) slots s)" "accounts (fold (commit_slot a) slots s) = accounts s"
  "codes (fold (commit_slot a) slots s) = codes s"
proof (induction slots arbitrary: s)
  case (Cons p slots)
  obtain j w where p: "p = (j, w)"
    by fastforce
  {
    case 1
    show ?case
      using evm_frame_trans [OF commit_slot_effect(1) Cons.IH(1)] p by simp
  next
    case 2
    show ?case
      using Cons.IH(2) commit_slot_effect(2) p by simp
  next
    case 3
    show ?case
      using Cons.IH(3) commit_slot_effect(3) p by simp
  }
qed (auto intro: evm_frameI)

lemma commit_slots_get:
  fixes i :: u256
  shows "oget (storage (fold (commit_slot a) slots s)) (make_storage_key a (to_be_bytes i)) =
    (case map_of (rev slots) i of
       Some v \<Rightarrow> if v = 0 then None else Some (to_be_bytes v)
     | None \<Rightarrow> oget (storage s) (make_storage_key a (to_be_bytes i)))"
proof (induction slots rule: rev_induct)
  case (snoc p slots)
  obtain j w where p: "p = (j, w)"
    by fastforce
  have "make_storage_key a (to_be_bytes i) = make_storage_key a (to_be_bytes j) \<longleftrightarrow> i = j"
    by (simp add: storage_key_inj to_be_bytes_inj)
  then show ?case
    using snoc by (simp add: p commit_slot_effect(4))
qed simp

lemma commit_slots_other:
  "(\<And>i :: u256. k \<noteq> make_storage_key a (to_be_bytes i)) \<Longrightarrow>
    oget (storage (fold (commit_slot a) slots s)) k = oget (storage s) k"
  by (induction slots rule: rev_induct) (auto simp: commit_slot_effect(4))

lemma commit_code_frame:
  "evm_frame s (commit_code i s)" "accounts (commit_code i s) = accounts s" "storage (commit_code i s) = storage s"
  by (auto intro: evm_frameI simp: commit_code_def code_commit_decision_of_def Let_def split: option.split)

definition upserted :: "bytes \<Rightarrow> evm_account \<Rightarrow> stable_state \<Rightarrow> stable_state" where
  "upserted a acc s =
    s\<lparr>accounts := oinsert (make_account_key a) (info_to_account_val (acc_info acc)) (accounts s)\<rparr>"

lemma upserted_fields [simp]:
  "storage (upserted a acc s) = storage s" "codes (upserted a acc s) = codes s" "evm_frame s (upserted a acc s)"
  by (auto intro: evm_frameI simp: upserted_def)

lemma commit_account_eq:
  "commit_account e (a, acc) s =
    (if deleted e acc then selfdestruct_address a s
     else commit_code (acc_info acc) (fold (commit_slot a) (acc_changed_slots acc) (upserted a acc s)))"
  by (simp add: commit_account_def account_commit_decision_of_def deleted_def upserted_def)

lemma commit_account_frame:
  assumes "length a = 20" and "storage_ok s"
  shows "evm_frame s (commit_account e (a, acc) s)"
proof -
  have "evm_frame s (commit_code (acc_info acc) (fold (commit_slot a) (acc_changed_slots acc) (upserted a acc s)))"
    by (rule evm_frame_trans [OF evm_frame_trans [OF upserted_fields(3) commit_slots_frame(1)] commit_code_frame(1)])
  then show ?thesis
    using selfdestruct_effect(1) [OF assms] by (simp add: commit_account_eq)
qed

lemma commit_account_basic:
  assumes "length a = 20" and "storage_ok s" and "length (info_code_hash (acc_info acc)) = 32"
  shows "db_basic (commit_account e (a, acc) s) b = spec_basic e (if b = a then Some acc else None) (db_basic s b)"
  using assms selfdestruct_effect(2) [OF assms(1,2)]
  by (simp add: db_basic_def commit_account_eq spec_basic_def upserted_def commit_slots_frame commit_code_frame)

lemma commit_account_storage:
  fixes i :: u256
  assumes "length a = 20" and "storage_ok s" and "length b = 20"
  shows "db_storage (commit_account e (a, acc) s) b i =
    spec_storage e (if b = a then Some acc else None) i (db_storage s b i)"
proof (cases "deleted e acc")
  case True
  then have c: "commit_account e (a, acc) s = selfdestruct_address a s"
    by (simp add: commit_account_eq)
  have "(\<exists>c. length c = 32 \<and> make_storage_key b (to_be_bytes i) = make_storage_key a c) \<longleftrightarrow> b = a"
    using assms(1,3) by (auto simp: storage_key_inj)
  then show ?thesis
    using True unfolding c by (simp add: db_storage_def selfdestruct_effect(3) [OF assms(1,2)] spec_storage_def)
next
  case False
  have "make_storage_key b (to_be_bytes i) \<noteq> make_storage_key a (to_be_bytes j)" if "b \<noteq> a" for j :: u256
    using that assms(1,3) by (simp add: storage_key_inj)
  then have "db_storage (fold (commit_slot a) (acc_changed_slots acc) s') b i =
      spec_storage e (if b = a then Some acc else None) i (db_storage s' b i)" for s'
    using False by (auto simp: db_storage_def spec_storage_def commit_slots_get commit_slots_other split: option.splits)
  from this [of "upserted a acc s"] show ?thesis
    using False by (simp add: commit_account_eq db_storage_def commit_code_frame)
qed

lemma commit_account_storage_ok:
  assumes "length a = 20" and "storage_ok s"
  shows "storage_ok (commit_account e (a, acc) s)"
proof -
  have "storage_ok (fold (commit_slot a) slots s')" if "storage_ok s'" for slots s'
  proof -
    have "length k = 53" if "oget (storage (fold (commit_slot a) slots s')) k = Some v" for k v
    proof (cases "\<exists>i :: u256. k = make_storage_key a (to_be_bytes i)")
      case False
      then show ?thesis
        using that commit_slots_other [of k a slots s'] \<open>storage_ok s'\<close> by (auto simp: storage_ok_def)
    qed (use assms(1) in auto)
    then show ?thesis
      by (auto simp: storage_ok_def)
  qed
  moreover have "storage_ok (selfdestruct_address a s)"
    using assms(2) by (auto simp: storage_ok_def selfdestruct_effect(3) [OF assms] split: if_splits)
  moreover have "storage_ok (upserted a acc s)"
    using assms(2) by (simp add: storage_ok_def)
  moreover have "storage_ok (commit_code i s') \<longleftrightarrow> storage_ok s'" for i s'
    by (simp add: storage_ok_def commit_code_frame)
  ultimately show ?thesis
    by (simp add: commit_account_eq)
qed

text \<open>All accounts of a difference.\<close>

lemma commit_accounts_frame:
  assumes "diff_ok changes" and "storage_ok s"
  shows "evm_frame s (fold (commit_account e) changes s) \<and> storage_ok (fold (commit_account e) changes s)"
  using assms
proof (induction changes arbitrary: s)
  case (Cons p changes)
  obtain a acc where p: "p = (a, acc)"
    by fastforce
  have ok: "diff_ok changes" "length a = 20"
    using Cons.prems(1) by (simp_all add: p diff_ok_def)
  from Cons.IH [OF ok(1) commit_account_storage_ok [OF ok(2) Cons.prems(2)], of e acc] show ?case
    using evm_frame_trans [OF commit_account_frame [OF ok(2) Cons.prems(2), of e acc]] by (auto simp: p)
qed (auto intro: evm_frameI)

lemma commit_accounts_basic:
  assumes "diff_ok changes" and "storage_ok s"
  shows "db_basic (fold (commit_account e) changes s) b = spec_basic e (map_of changes b) (db_basic s b)"
  using assms
proof (induction changes arbitrary: s)
  case (Cons p changes)
  obtain a acc where p: "p = (a, acc)"
    by fastforce
  have ok: "diff_ok changes" "length a = 20" "length (info_code_hash (acc_info acc)) = 32" "a \<notin> fst ` set changes"
    using Cons.prems(1) by (simp_all add: p diff_ok_def)
  have "map_of changes a = None"
    using ok(4) by (simp add: map_of_eq_None_iff)
  then show ?case
    using Cons.IH [OF ok(1) commit_account_storage_ok [OF ok(2) Cons.prems(2)], of e acc]
      commit_account_basic [OF ok(2) Cons.prems(2) ok(3), of e b] by (simp add: p spec_basic_def split: option.splits)
qed (simp add: spec_basic_def)

lemma commit_accounts_storage:
  assumes "diff_ok changes" and "storage_ok s" and "length b = 20"
  shows "db_storage (fold (commit_account e) changes s) b i = spec_storage e (map_of changes b) i (db_storage s b i)"
  using assms(1,2)
proof (induction changes arbitrary: s)
  case (Cons p changes)
  obtain a acc where p: "p = (a, acc)"
    by fastforce
  have ok: "diff_ok changes" "length a = 20" "a \<notin> fst ` set changes"
    using Cons.prems(1) by (simp_all add: p diff_ok_def)
  have "map_of changes a = None"
    using ok(3) by (simp add: map_of_eq_None_iff)
  then show ?case
    using Cons.IH [OF ok(1) commit_account_storage_ok [OF ok(2) Cons.prems(2)], of e acc]
      commit_account_storage [OF ok(2) Cons.prems(2) assms(3), of e acc i]
    by (cases "b = a") (simp_all add: p spec_storage_def)
qed (simp add: spec_storage_def)

text \<open>Account records keep their length.\<close>

definition accounts_ok :: "stable_state \<Rightarrow> bool" where
  "accounts_ok s \<longleftrightarrow> (\<forall>k v. oget (accounts s) k = Some v \<longrightarrow> length v = 72)"

lemma commit_account_accounts_ok:
  assumes "length (info_code_hash (acc_info acc)) = 32" and "accounts_ok s"
  shows "accounts_ok (commit_account e (a, acc) s)"
proof -
  have "accounts (selfdestruct_address a s) = oremove (make_account_key a) (accounts s)"
    by (cases "oget (accounts s) (make_account_key a)") (simp_all add: selfdestruct_address_def Let_def)
  then show ?thesis
    using assms
    by (auto simp: accounts_ok_def commit_account_eq commit_code_frame commit_slots_frame upserted_def
        info_to_account_val_def account_from_parts_def split: if_splits)
qed

lemma commit_accounts_accounts_ok:
  "diff_ok changes \<Longrightarrow> accounts_ok s \<Longrightarrow> accounts_ok (fold (commit_account e) changes s)"
proof (induction changes arbitrary: s)
  case (Cons p changes)
  then show ?case
    using commit_account_accounts_ok [of "snd p" s e "fst p"] by (auto simp: diff_ok_def)
qed simp

lemma commit_accounts_of_commit:
  "accounts (commit e changes s) = accounts (fold (commit_account e) changes s)"
  "storage (commit e changes s) = storage (fold (commit_account e) changes s)"
  "codes (commit e changes s) = codes (fold (commit_account e) changes s)"
  "evm_frame (fold (commit_account e) changes s) (commit e changes s)"
  by (auto intro: evm_frameI simp: commit_def Let_def bump_evm_state_epoch_def)

text \<open>C13: committing a state difference makes the database read as the specification says: a deleted
  account is gone with its whole storage, however many slots it had; a written account reads as its new
  record, its changed slots as their new values; every other account and slot reads as before. Apart
  from accounts, storage and code only the epoch counter changes.\<close>
theorem commit_refines_spec:
  assumes "diff_ok changes" and "storage_ok s"
  shows "db_basic (commit e changes s) a = spec_basic e (map_of changes a) (db_basic s a)
    \<and> (length a = 20 \<longrightarrow>
        db_storage (commit e changes s) a i = spec_storage e (map_of changes a) i (db_storage s a i))
    \<and> storage_ok (commit e changes s) \<and> evm_frame s (commit e changes s)"
  using commit_accounts_basic [OF assms, of e a] commit_accounts_storage [OF assms, of a e i]
    commit_accounts_frame [OF assms, of e] evm_frame_trans [OF _ commit_accounts_of_commit(4), of s e changes s]
  by (simp add: db_basic_def db_storage_def storage_ok_def commit_accounts_of_commit)

definition example_engine :: revm_lib where
  "example_engine = \<lparr>keccak_empty = replicate 32 9,
    default_info = \<lparr>info_balance = 0, info_nonce = 0, info_code_hash = replicate 32 9, info_code = Some []\<rparr>,
    account_is_empty = (\<lambda>a. info_balance (acc_info a) = 0 \<and> info_nonce (acc_info a) = 0 \<and> info_code (acc_info a) = None)\<rparr>"

definition example_account :: "u256 \<Rightarrow> bool \<Rightarrow> (u256 \<times> u256) list \<Rightarrow> evm_account" where
  "example_account balance gone slots =
    \<lparr>acc_info = \<lparr>info_balance = balance, info_nonce = 1, info_code_hash = replicate 32 4, info_code = None\<rparr>,
     acc_selfdestructed = gone, acc_touched = True, acc_changed_slots = slots\<rparr>"

theorem commit_refines_spec_witness:
  "let a = replicate 20 1; b = replicate 20 2;
       changes = [(a, example_account 5 False [(7, 8)]), (b, example_account 6 True [])];
       s = commit example_engine changes (init_stable_state True)
   in db_basic s a = Some \<lparr>info_balance = 5, info_nonce = 1, info_code_hash = replicate 32 4, info_code = None\<rparr>
      \<and> db_basic s b = None \<and> db_storage s a 7 = 8"
proof -
  let ?changes = "[(replicate 20 1, example_account 5 False [(7, 8)]), (replicate 20 2, example_account 6 True [])]"
  have "diff_ok ?changes" "storage_ok (init_stable_state True)"
    by (simp_all add: diff_ok_def example_account_def storage_ok_def init_stable_state_def)
  from commit_refines_spec [OF this, of example_engine "replicate 20 1" 7]
    commit_refines_spec [OF this, of example_engine "replicate 20 2" 7]
  show ?thesis
    by (simp add: Let_def spec_basic_def spec_storage_def deleted_def example_account_def example_engine_def)
qed

end
