(* ===== verification/Internal_Trace.thy ===== *)
theory Internal_Trace
  imports Receipts Chain_Records
begin

text \<open>
  The internal actions of a transaction: the inspector that records calls, creations and self-destructs
  while the engine runs (\<open>InternalTraceInspector\<close> of \<open>evm-core/src/revm_exec.rs\<close>) and the stored form of
  what it recorded (\<open>evm-db/src/chain_data/internal_trace.rs\<close>). The engine drives the inspector: what it
  reports is a list of events. A Rust string is the list of its UTF-8 bytes, a stack a list with its top
  first.
\<close>

section \<open>Data\<close>

abbreviation MAX_INTERNAL_TRACES_PER_TX :: nat where "MAX_INTERNAL_TRACES_PER_TX \<equiv> MAX_TXS_PER_BLOCK"
abbreviation MAX_TRACE_ID_LEN :: nat where "MAX_TRACE_ID_LEN \<equiv> 64"
abbreviation MAX_ERROR_CODE_LEN :: nat where "MAX_ERROR_CODE_LEN \<equiv> 96"
abbreviation INTERNAL_TRACES_MAX_SIZE :: nat where
  "INTERNAL_TRACES_MAX_SIZE \<equiv> 26 + MAX_INTERNAL_TRACES_PER_TX * (114 + MAX_TRACE_ID_LEN + MAX_ERROR_CODE_LEN)"

definition INTERNAL_TRACES_MAGIC :: bytes where
  "INTERNAL_TRACES_MAGIC = ascii ''itrace01''"

datatype internal_trace_action_kind =
    ActCall | ActCallCode | ActDelegateCall | ActStaticCall | ActCreate | ActCreate2 | ActCustom | ActSelfdestruct

fun action_kind_to_u8 :: "internal_trace_action_kind \<Rightarrow> u8" where
  "action_kind_to_u8 ActCall = 1"
| "action_kind_to_u8 ActCallCode = 2"
| "action_kind_to_u8 ActDelegateCall = 3"
| "action_kind_to_u8 ActStaticCall = 4"
| "action_kind_to_u8 ActCreate = 5"
| "action_kind_to_u8 ActCreate2 = 6"
| "action_kind_to_u8 ActCustom = 7"
| "action_kind_to_u8 ActSelfdestruct = 8"

definition action_kind_from_u8 :: "u8 \<Rightarrow> internal_trace_action_kind option" where
  "action_kind_from_u8 v =
    (if v = 1 then Some ActCall else if v = 2 then Some ActCallCode else if v = 3 then Some ActDelegateCall
     else if v = 4 then Some ActStaticCall else if v = 5 then Some ActCreate else if v = 6 then Some ActCreate2
     else if v = 7 then Some ActCustom else if v = 8 then Some ActSelfdestruct else None)"

record internal_trace =
  it_block_number :: u64
  it_tx_index :: u32
  it_trace_id :: bytes
  it_depth :: u16
  it_action_kind :: internal_trace_action_kind
  it_from_address :: bytes
  it_to_address :: "bytes option"
  it_value :: bytes
  it_created_contract_address :: "bytes option"
  it_success :: bool
  it_error_code :: "bytes option"

record internal_trace_set =
  its_items :: "internal_trace list"
  its_encode_failed :: bool
  its_captured_count :: u32
  its_total_count :: u32
  its_truncated :: bool

definition u32_of_len :: "nat \<Rightarrow> u32" where
  "u32_of_len n = (case try_of_nat n of Some v \<Rightarrow> v | None \<Rightarrow> - 1)"

definition trace_set_new :: "internal_trace list \<Rightarrow> internal_trace_set" where
  "trace_set_new items =
    \<lparr>its_items = items, its_encode_failed = False, its_captured_count = u32_of_len (length items),
     its_total_count = u32_of_len (length items), its_truncated = False\<rparr>"

definition trace_set_new_with_counts :: "internal_trace list \<Rightarrow> u32 \<Rightarrow> internal_trace_set" where
  "trace_set_new_with_counts items total_count =
    (let captured_count = u32_of_len (length items)
     in \<lparr>its_items = items, its_encode_failed = False, its_captured_count = captured_count,
         its_total_count = total_count, its_truncated = (total_count > captured_count)\<rparr>)"

definition trace_set_failed :: "u32 \<Rightarrow> internal_trace_set" where
  "trace_set_failed total_count =
    \<lparr>its_items = [], its_encode_failed = True, its_captured_count = 0, its_total_count = total_count,
     its_truncated = False\<rparr>"

section \<open>The inspector\<close>

datatype call_scheme = SchemeCall | SchemeCallCode | SchemeDelegateCall | SchemeStaticCall
datatype create_scheme = SchemeCreate | SchemeCreate2 | SchemeCustom

text \<open>The outcome of a frame: the results the inspector tells apart; any other one carries its printed
  name.\<close>

datatype instruction_result = ResultStop | ResultReturn | ResultSelfDestruct | ResultRevert | ResultOther bytes

datatype inspector_event =
    Step u64
  | CallStart call_scheme bytes bytes "256 word"
  | CallEnd instruction_result
  | CreateStart create_scheme bytes "256 word"
  | CreateEnd instruction_result "bytes option"
  | SelfDestructed bytes bytes "256 word"

record trace_draft =
  td_trace_id :: "u32 list"
  td_trace :: internal_trace

record trace_inspector =
  ti_block_number :: u64
  ti_tx_index :: u32
  ti_frame_children :: "u32 list"
  ti_active_paths :: "u32 list option list"
  ti_traces :: "trace_draft list"
  ti_total_count :: u32

definition trace_inspector_new :: "u64 \<Rightarrow> u32 \<Rightarrow> trace_inspector" where
  "trace_inspector_new block_number tx_index =
    \<lparr>ti_block_number = block_number, ti_tx_index = tx_index, ti_frame_children = [0], ti_active_paths = [],
     ti_traces = [], ti_total_count = 0\<rparr>"

definition trace_inspector_finish :: "trace_inspector \<Rightarrow> internal_trace_set" where
  "trace_inspector_finish i = trace_set_new_with_counts (map td_trace (ti_traces i)) (ti_total_count i)"

fun decimal :: "nat \<Rightarrow> bytes" where
  "decimal n = (if n < 10 then [] else decimal (n div 10)) @ [word_of_nat (48 + n mod 10)]"

fun render_trace_id :: "u32 list \<Rightarrow> bytes" where
  "render_trace_id [] = []"
| "render_trace_id [segment] = decimal (unat segment)"
| "render_trace_id (segment # segments) = decimal (unat segment) @ 95 # render_trace_id segments"

fun trace_outcome_status :: "instruction_result \<Rightarrow> bool \<times> bytes option" where
  "trace_outcome_status ResultRevert = (False, Some (ascii ''Revert''))"
| "trace_outcome_status (ResultOther name) = (False, Some name)"
| "trace_outcome_status _ = (True, None)"

text \<open>The path of the innermost active action, extended by the index of the next child of its frame.\<close>

definition child_path :: "trace_inspector \<Rightarrow> u32 \<Rightarrow> u32 list" where
  "child_path i child_index =
    (case ti_active_paths i of Some path # _ \<Rightarrow> path | _ \<Rightarrow> []) @ [child_index]"

definition allocate_trace_id :: "trace_inspector \<Rightarrow> (u32 list \<times> trace_inspector) option" where
  "allocate_trace_id i =
    (case ti_frame_children i of
       [] \<Rightarrow> None
     | next_child # rest \<Rightarrow>
         Some (child_path i next_child, i\<lparr>ti_frame_children := 0 # sat_add next_child 1 # rest\<rparr>))"

definition allocate_event_trace_id :: "trace_inspector \<Rightarrow> (u32 list \<times> trace_inspector) option" where
  "allocate_event_trace_id i =
    (case ti_frame_children i of
       [] \<Rightarrow> None
     | next_child # rest \<Rightarrow>
         Some (child_path i next_child, i\<lparr>ti_frame_children := sat_add next_child 1 # rest\<rparr>))"

definition push_trace ::
  "u32 list \<Rightarrow> internal_trace_action_kind \<Rightarrow> bytes \<Rightarrow> bytes option \<Rightarrow> bytes \<Rightarrow> bytes option \<Rightarrow> bool \<Rightarrow> bytes option
    \<Rightarrow> trace_inspector \<Rightarrow> trace_inspector" where
  "push_trace trace_id kind from_address to_address value created success error_code i =
    (let i1 = i\<lparr>ti_total_count := sat_add (ti_total_count i) 1\<rparr>
     in if length (ti_traces i1) < MAX_INTERNAL_TRACES_PER_TX
        then i1\<lparr>ti_traces := ti_traces i1 @
               [\<lparr>td_trace_id = trace_id,
                 td_trace = \<lparr>it_block_number = ti_block_number i1, it_tx_index = ti_tx_index i1,
                             it_trace_id = render_trace_id trace_id, it_depth = word_of_nat (length trace_id),
                             it_action_kind = kind, it_from_address = from_address, it_to_address = to_address,
                             it_value = value, it_created_contract_address = created, it_success = success,
                             it_error_code = error_code\<rparr>\<rparr>]\<rparr>
        else i1)"

text \<open>Starting an action panics when the root frame is gone: None.\<close>

definition start_action ::
  "internal_trace_action_kind \<Rightarrow> bytes \<Rightarrow> bytes option \<Rightarrow> bytes option \<Rightarrow> bytes \<Rightarrow> trace_inspector \<Rightarrow> trace_inspector option" where
  "start_action kind from_address to_address created value i =
    (case allocate_trace_id i of
       None \<Rightarrow> None
     | Some (trace_id, i1) \<Rightarrow>
         if ti_active_paths i1 \<noteq> []
         then let i2 = push_trace trace_id kind from_address to_address value created False (Some (ascii ''pending'')) i1
              in Some (i2\<lparr>ti_active_paths := Some trace_id # ti_active_paths i2\<rparr>)
         else Some (i1\<lparr>ti_active_paths := [None]\<rparr>))"

fun update_first :: "('a \<Rightarrow> bool) \<Rightarrow> ('a \<Rightarrow> 'a) \<Rightarrow> 'a list \<Rightarrow> 'a list" where
  "update_first P f [] = []"
| "update_first P f (x # xs) = (if P x then f x # xs else x # update_first P f xs)"

definition finish_draft :: "bool \<Rightarrow> bytes option \<Rightarrow> bytes option \<Rightarrow> trace_draft \<Rightarrow> trace_draft" where
  "finish_draft success error_code created item =
    item\<lparr>td_trace := (td_trace item)\<lparr>it_success := success, it_error_code := error_code,
      it_created_contract_address :=
        (if created \<noteq> None then created else it_created_contract_address (td_trace item))\<rparr>\<rparr>"

definition finish_action :: "bool \<Rightarrow> bytes option \<Rightarrow> bytes option \<Rightarrow> trace_inspector \<Rightarrow> trace_inspector" where
  "finish_action success error_code created i =
    (let active = ti_active_paths i;
         i1 = i\<lparr>ti_active_paths := tl active, ti_frame_children := tl (ti_frame_children i)\<rparr>
     in case active of
          Some trace_id # _ \<Rightarrow>
            i1\<lparr>ti_traces := rev (update_first (\<lambda>item. td_trace_id item = trace_id)
                 (finish_draft success error_code created) (rev (ti_traces i1)))\<rparr>
        | _ \<Rightarrow> i1)"

definition record_selfdestruct :: "bytes \<Rightarrow> bytes \<Rightarrow> 256 word \<Rightarrow> trace_inspector \<Rightarrow> trace_inspector" where
  "record_selfdestruct contract target value i =
    (if ti_active_paths i = [] then i
     else case allocate_event_trace_id i of
       None \<Rightarrow> i
     | Some (trace_id, i1) \<Rightarrow>
         push_trace trace_id ActSelfdestruct contract (Some target) (to_be_bytes value) None True None i1)"

fun call_action_kind :: "call_scheme \<Rightarrow> internal_trace_action_kind" where
  "call_action_kind SchemeCall = ActCall"
| "call_action_kind SchemeCallCode = ActCallCode"
| "call_action_kind SchemeDelegateCall = ActDelegateCall"
| "call_action_kind SchemeStaticCall = ActStaticCall"

fun create_action_kind :: "create_scheme \<Rightarrow> internal_trace_action_kind" where
  "create_action_kind SchemeCreate = ActCreate"
| "create_action_kind SchemeCreate2 = ActCreate2"
| "create_action_kind SchemeCustom = ActCustom"

fun inspect_trace :: "inspector_event \<Rightarrow> trace_inspector \<Rightarrow> trace_inspector option" where
  "inspect_trace (Step now) i = Some i"
| "inspect_trace (CallStart scheme caller target value) i =
    start_action (call_action_kind scheme) caller (Some target) None (to_be_bytes value) i"
| "inspect_trace (CallEnd res) i =
    (let (success, error_code) = trace_outcome_status res in Some (finish_action success error_code None i))"
| "inspect_trace (CreateStart scheme caller value) i =
    start_action (create_action_kind scheme) caller None None (to_be_bytes value) i"
| "inspect_trace (CreateEnd res created) i =
    (let (success, error_code) = trace_outcome_status res in Some (finish_action success error_code created i))"
| "inspect_trace (SelfDestructed contract target value) i = Some (record_selfdestruct contract target value i)"

fun inspect_traces :: "inspector_event list \<Rightarrow> trace_inspector \<Rightarrow> trace_inspector option" where
  "inspect_traces [] i = Some i"
| "inspect_traces (ev # evs) i = (case inspect_trace ev i of None \<Rightarrow> None | Some i1 \<Rightarrow> inspect_traces evs i1)"

text \<open>The instruction budget of the transaction: the first step at or past the limit trips it.\<close>

definition budget_step :: "u64 \<Rightarrow> u64 \<Rightarrow> inspector_event \<Rightarrow> bool \<Rightarrow> bool" where
  "budget_step start limit ev tripped =
    (case ev of
       Step now \<Rightarrow> if limit = 0 \<or> tripped then tripped else limit \<le> sat_sub now start
     | _ \<Rightarrow> tripped)"

definition budget_tripped :: "u64 \<Rightarrow> u64 \<Rightarrow> inspector_event list \<Rightarrow> bool" where
  "budget_tripped start limit evs = fold (budget_step start limit) evs False"

section \<open>Stored form\<close>

datatype internal_trace_encode_error = TooManyItems | TraceIdTooLong | ErrorCodeTooLong | EncodedSizeExceeded

definition flag_byte :: "bool \<Rightarrow> u8" where
  "flag_byte b = (if b then 1 else 0)"

definition optional_address :: "bytes option \<Rightarrow> bytes" where
  "optional_address a = (case a of Some value \<Rightarrow> 1 # value | None \<Rightarrow> [0])"

definition encode_trace :: "internal_trace \<Rightarrow> internal_trace_encode_error + bytes" where
  "encode_trace item =
    (case (try_of_nat (length (it_trace_id item)) :: u16 option) of
       None \<Rightarrow> Inl TraceIdTooLong
     | Some trace_id_len \<Rightarrow>
         if unat trace_id_len > MAX_TRACE_ID_LEN then Inl TraceIdTooLong
         else let error_code_bytes = (case it_error_code item of Some v \<Rightarrow> v | None \<Rightarrow> [])
              in case (try_of_nat (length error_code_bytes) :: u16 option) of
                   None \<Rightarrow> Inl ErrorCodeTooLong
                 | Some error_len \<Rightarrow>
                     if unat error_len > MAX_ERROR_CODE_LEN then Inl ErrorCodeTooLong
                     else Inr (to_be_bytes (it_block_number item) @ to_be_bytes (it_tx_index item)
                       @ to_be_bytes trace_id_len @ it_trace_id item @ to_be_bytes (it_depth item)
                       @ [action_kind_to_u8 (it_action_kind item)] @ it_from_address item
                       @ optional_address (it_to_address item) @ it_value item
                       @ optional_address (it_created_contract_address item) @ [flag_byte (it_success item)]
                       @ to_be_bytes error_len @ error_code_bytes))"

fun encode_traces :: "internal_trace list \<Rightarrow> internal_trace_encode_error + bytes" where
  "encode_traces [] = Inr []"
| "encode_traces (item # items) =
    (case encode_trace item of
       Inl err \<Rightarrow> Inl err
     | Inr bs \<Rightarrow> (case encode_traces items of Inl err \<Rightarrow> Inl err | Inr rest \<Rightarrow> Inr (bs @ rest)))"

text \<open>The consistency the counts must have, on both sides of the codec.\<close>

definition trace_counts_ok :: "u32 \<Rightarrow> u32 \<Rightarrow> u32 \<Rightarrow> bool \<Rightarrow> bool \<Rightarrow> bool" where
  "trace_counts_ok count captured all_count failed truncated \<longleftrightarrow>
    \<not> (unat count > MAX_INTERNAL_TRACES_PER_TX \<or> captured \<noteq> count \<or> all_count < captured
       \<or> (\<not> failed \<and> truncated \<noteq> (all_count > captured))
       \<or> (failed \<and> (captured \<noteq> 0 \<or> count \<noteq> 0 \<or> truncated)))"

definition encode_trace_set :: "internal_trace_set \<Rightarrow> internal_trace_encode_error + bytes" where
  "encode_trace_set ts =
    (case (try_of_nat (length (its_items ts)) :: u32 option) of
       None \<Rightarrow> Inl TooManyItems
     | Some count \<Rightarrow>
         if \<not> trace_counts_ok count (its_captured_count ts) (its_total_count ts) (its_encode_failed ts) (its_truncated ts)
         then Inl TooManyItems
         else case encode_traces (its_items ts) of
                Inl err \<Rightarrow> Inl err
              | Inr body \<Rightarrow>
                  Inr (INTERNAL_TRACES_MAGIC @ [flag_byte (its_encode_failed ts), flag_byte (its_truncated ts)]
                    @ to_be_bytes (its_captured_count ts) @ to_be_bytes (its_total_count ts) @ to_be_bytes count @ body))"

definition to_bytes_checked :: "internal_trace_set \<Rightarrow> internal_trace_encode_error + bytes" where
  "to_bytes_checked ts =
    (case encode_trace_set ts of
       Inl err \<Rightarrow> Inl err
     | Inr encoded \<Rightarrow>
         (case fst (encode_guarded ''internal_traces'' encoded INTERNAL_TRACES_MAX_SIZE) of
            Some v \<Rightarrow> Inr v
          | None \<Rightarrow> Inl EncodedSizeExceeded))"

text \<open>Well-formed UTF-8, as \<open>String::from_utf8\<close> checks it.\<close>

definition utf8_cont :: "u8 \<Rightarrow> bool" where
  "utf8_cont b \<longleftrightarrow> 0x80 \<le> b \<and> b \<le> 0xBF"

fun utf8_valid :: "bytes \<Rightarrow> bool" where
  "utf8_valid [] = True"
| "utf8_valid (a # bs) =
    (if a < 0x80 then utf8_valid bs
     else case bs of
       [] \<Rightarrow> False
     | b # cs \<Rightarrow>
         if 0xC2 \<le> a \<and> a \<le> 0xDF then utf8_cont b \<and> utf8_valid cs
         else case cs of
           [] \<Rightarrow> False
         | c # ds \<Rightarrow>
             if 0xE0 \<le> a \<and> a \<le> 0xEF
             then (if a = 0xE0 then 0xA0 \<le> b \<and> b \<le> 0xBF else if a = 0xED then 0x80 \<le> b \<and> b \<le> 0x9F else utf8_cont b)
               \<and> utf8_cont c \<and> utf8_valid ds
             else case ds of
               [] \<Rightarrow> False
             | d # es \<Rightarrow>
                 if 0xF0 \<le> a \<and> a \<le> 0xF4
                 then (if a = 0xF0 then 0x90 \<le> b \<and> b \<le> 0xBF else if a = 0xF4 then 0x80 \<le> b \<and> b \<le> 0x8F else utf8_cont b)
                   \<and> utf8_cont c \<and> utf8_cont d \<and> utf8_valid es
                 else False)"

definition read_optional_address :: "bytes \<Rightarrow> nat \<Rightarrow> (bytes option \<times> nat) option" where
  "read_optional_address data off = do {
     (present, off) \<leftarrow> read_u8 data off;
     if present = 0 then Some (None, off)
     else do { (value, off) \<leftarrow> read_array 20 data off; Some (Some value, off) }
   }"

definition read_error_code :: "bytes \<Rightarrow> nat \<Rightarrow> (bytes option \<times> nat) option" where
  "read_error_code data off = do {
     (error_len, off) \<leftarrow> read_u16 data off;
     if unat error_len > MAX_ERROR_CODE_LEN then None
     else if error_len = 0 then Some (None, off)
     else do {
       (error_bytes, off) \<leftarrow> read_vec data off (unat error_len);
       if \<not> utf8_valid error_bytes then None else Some (Some error_bytes, off)
     }
   }"

definition read_action :: "bytes \<Rightarrow> nat \<Rightarrow> (internal_trace_action_kind \<times> nat) option" where
  "read_action data off = do {
     (action_raw, off) \<leftarrow> read_u8 data off;
     kind \<leftarrow> action_kind_from_u8 action_raw;
     Some (kind, off)
   }"

definition read_flag :: "bytes \<Rightarrow> nat \<Rightarrow> (bool \<times> nat) option" where
  "read_flag data off = do {
     (raw, off) \<leftarrow> read_u8 data off;
     if raw > 1 then None else Some (raw = 1, off)
   }"

definition read_trace_id :: "bytes \<Rightarrow> nat \<Rightarrow> (bytes \<times> nat) option" where
  "read_trace_id data off = do {
     (trace_id_len, off) \<leftarrow> read_u16 data off;
     if unat trace_id_len > MAX_TRACE_ID_LEN then None
     else do {
       (trace_id, off) \<leftarrow> read_vec data off (unat trace_id_len);
       if \<not> utf8_valid trace_id then None else Some (trace_id, off)
     }
   }"

definition read_trace :: "bytes \<Rightarrow> nat \<Rightarrow> (internal_trace \<times> nat) option" where
  "read_trace data off = do {
     (block_number, off) \<leftarrow> read_u64 data off;
     (tx_index, off) \<leftarrow> read_u32 data off;
     (trace_id, off) \<leftarrow> read_trace_id data off;
     (depth, off) \<leftarrow> read_u16 data off;
     (kind, off) \<leftarrow> read_action data off;
     (from_address, off) \<leftarrow> read_array 20 data off;
     (to_address, off) \<leftarrow> read_optional_address data off;
     (value, off) \<leftarrow> read_array 32 data off;
     (created, off) \<leftarrow> read_optional_address data off;
     (success, off) \<leftarrow> read_flag data off;
     (error_code, off) \<leftarrow> read_error_code data off;
     Some (\<lparr>it_block_number = block_number, it_tx_index = tx_index, it_trace_id = trace_id, it_depth = depth,
            it_action_kind = kind, it_from_address = from_address, it_to_address = to_address, it_value = value,
            it_created_contract_address = created, it_success = success, it_error_code = error_code\<rparr>, off)
   }"

fun read_traces :: "nat \<Rightarrow> bytes \<Rightarrow> nat \<Rightarrow> (internal_trace list \<times> nat) option" where
  "read_traces 0 data off = Some ([], off)"
| "read_traces (Suc n) data off = do {
     (item, off) \<leftarrow> read_trace data off;
     (items, off) \<leftarrow> read_traces n data off;
     Some (item # items, off)
   }"

definition decode_trace_set :: "bytes \<Rightarrow> nat \<Rightarrow> (internal_trace_set \<times> nat) option" where
  "decode_trace_set data off = do {
     (magic, off) \<leftarrow> read_array 8 data off;
     if magic \<noteq> INTERNAL_TRACES_MAGIC then None
     else do {
       (failed, off) \<leftarrow> read_flag data off;
       (truncated, off) \<leftarrow> read_flag data off;
       (captured, off) \<leftarrow> read_u32 data off;
       (all_count, off) \<leftarrow> read_u32 data off;
       (count, off) \<leftarrow> read_u32 data off;
       if \<not> trace_counts_ok count captured all_count failed truncated then None
       else do {
         (items, off) \<leftarrow> read_traces (unat count) data off;
         Some (\<lparr>its_items = items, its_encode_failed = failed, its_captured_count = captured,
                its_total_count = all_count, its_truncated = truncated\<rparr>, off)
       }
     }
   }"

definition trace_set_from_bytes :: "bytes \<Rightarrow> internal_trace_set \<times> events" where
  "trace_set_from_bytes data =
    (if length data > INTERNAL_TRACES_MAX_SIZE then (trace_set_new [], mark_decode_failure ''internal_traces'' False)
     else case decode_trace_set data 0 of
       None \<Rightarrow> (trace_set_new [], mark_decode_failure ''internal_traces'' False)
     | Some (ts, _) \<Rightarrow> (ts, []))"

text \<open>What is stored for a recorded set: its encoding, or a marker with its count when it does not encode.
  None is the panic of the marker failing to encode.\<close>

definition internal_trace_bytes :: "internal_trace_set \<Rightarrow> bytes option" where
  "internal_trace_bytes ts =
    (case to_bytes_checked ts of
       Inr bs \<Rightarrow> Some bs
     | Inl _ \<Rightarrow> (case to_bytes_checked (trace_set_failed (its_total_count ts)) of Inr bs \<Rightarrow> Some bs | Inl _ \<Rightarrow> None))"

section \<open>Reading back what was written\<close>

text \<open>Readers compose: these rules follow the shape of a reader written with bind.\<close>

lemma reads_ret: "x = y \<Longrightarrow> reads (\<lambda>data off. Some (x, off)) y []"
  by (simp add: reads_def)

lemma reads_bind:
  assumes "reads rd x xs" and "reads (f x) y ys"
  shows "reads (\<lambda>data off. Option.bind (rd data off) (\<lambda>(x, off). f x data off)) y (xs @ ys)"
  unfolding reads_def
proof (intro allI impI)
  fix data off rest
  assume "remains data off ((xs @ ys) @ rest)"
  then obtain o1 where o1: "rd data off = Some (x, o1)" "remains data o1 (ys @ rest)"
    using assms(1) unfolding reads_def append_assoc by blast
  then obtain o2 where "f x data o1 = Some (y, o2)" "remains data o2 rest"
    using assms(2) unfolding reads_def by blast
  with o1(1) show "\<exists>off'. Option.bind (rd data off) (\<lambda>(x, off). f x data off) = Some (y, off') \<and> remains data off' rest"
    by simp
qed

lemma reads_last:
  "reads rd x xs \<Longrightarrow> reads (f x) y [] \<Longrightarrow>
    reads (\<lambda>data off. Option.bind (rd data off) (\<lambda>(x, off). f x data off)) y xs"
  using reads_bind [of rd x xs f y "[]"] by simp

lemma reads_unless:
  "\<not> c \<Longrightarrow> reads rd x xs \<Longrightarrow> reads (\<lambda>data off. if c then None else rd data off) x xs"
  "\<not> c \<Longrightarrow> reads rd x xs \<Longrightarrow> reads (\<lambda>data off. if c then r1 data off else rd data off) x xs"
  "c \<Longrightarrow> reads r1 x xs \<Longrightarrow> reads (\<lambda>data off. if c then r1 data off else rd data off) x xs"
  by simp_all

lemma reads_u16: "reads read_u16 w (to_be_bytes w)"
  by (rule reads_word) (simp_all add: read_u16_def)

lemma action_kind_roundtrip [simp]: "action_kind_from_u8 (action_kind_to_u8 k) = Some k"
  by (cases k) (simp_all add: action_kind_from_u8_def)

lemma reads_action: "reads read_action k [action_kind_to_u8 k]"
  unfolding read_action_def by (rule reads_last [OF reads_u8]) (simp add: reads_ret)

lemma reads_flag: "reads read_flag b [flag_byte b]"
  unfolding read_flag_def by (rule reads_last [OF reads_u8]) (simp add: reads_ret flag_byte_def)

lemma reads_optional_address:
  assumes "case a of Some v \<Rightarrow> length v = 20 | None \<Rightarrow> True"
  shows "reads read_optional_address a (optional_address a)"
proof (cases a)
  case None
  then show ?thesis
    unfolding read_optional_address_def
    by (auto simp: optional_address_def intro!: reads_last [OF reads_u8] reads_ret)
next
  case (Some v)
  have "reads (\<lambda>data off. do { (value, off) \<leftarrow> read_array 20 data off; Some (Some value, off) }) (Some v) v"
    using assms Some by (intro reads_last [OF reads_array] reads_ret) simp_all
  then have "reads read_optional_address (Some v) ([1] @ v)"
    unfolding read_optional_address_def by (intro reads_bind [OF reads_u8]) simp
  with Some show ?thesis
    by (simp add: optional_address_def)
qed

definition trace_ok :: "internal_trace \<Rightarrow> bool" where
  "trace_ok item \<longleftrightarrow> length (it_trace_id item) \<le> MAX_TRACE_ID_LEN \<and> utf8_valid (it_trace_id item)
    \<and> length (it_from_address item) = 20 \<and> length (it_value item) = 32
    \<and> (case it_to_address item of Some v \<Rightarrow> length v = 20 | None \<Rightarrow> True)
    \<and> (case it_created_contract_address item of Some v \<Rightarrow> length v = 20 | None \<Rightarrow> True)
    \<and> (case it_error_code item of
         Some v \<Rightarrow> v \<noteq> [] \<and> utf8_valid v \<and> length v \<le> MAX_ERROR_CODE_LEN | None \<Rightarrow> True)"

definition error_bytes :: "bytes option \<Rightarrow> bytes" where
  "error_bytes err = (case err of Some v \<Rightarrow> v | None \<Rightarrow> [])"

definition trace_bytes :: "internal_trace \<Rightarrow> bytes" where
  "trace_bytes item = to_be_bytes (it_block_number item) @ to_be_bytes (it_tx_index item)
    @ (to_be_bytes (word_of_nat (length (it_trace_id item)) :: u16) @ it_trace_id item) @ to_be_bytes (it_depth item)
    @ [action_kind_to_u8 (it_action_kind item)] @ it_from_address item @ optional_address (it_to_address item)
    @ it_value item @ optional_address (it_created_contract_address item) @ [flag_byte (it_success item)]
    @ to_be_bytes (word_of_nat (length (error_bytes (it_error_code item))) :: u16) @ error_bytes (it_error_code item)"

lemma u16_len: "n \<le> 96 \<Longrightarrow> unat (word_of_nat n :: u16) = n" "n \<le> 96 \<Longrightarrow> (try_of_nat n :: u16 option) = Some (word_of_nat n)"
  by (simp_all add: unat_of_nat try_of_nat_def)

lemma encode_trace_ok:
  assumes "trace_ok item"
  shows "encode_trace item = Inr (trace_bytes item)"
    and "length (trace_bytes item) \<le> 114 + MAX_TRACE_ID_LEN + MAX_ERROR_CODE_LEN"
proof -
  have b: "length (error_bytes (it_error_code item)) \<le> 96" "length (it_trace_id item) \<le> 64"
    using assms by (auto simp: trace_ok_def error_bytes_def split: option.splits)
  then show "encode_trace item = Inr (trace_bytes item)"
    unfolding encode_trace_def error_bytes_def [symmetric] by (simp add: Let_def u16_len trace_bytes_def)
  have "length (optional_address a) \<le> 21" if "case a of Some v \<Rightarrow> length v = 20 | None \<Rightarrow> True" for a
    using that by (cases a) (simp_all add: optional_address_def)
  from this [of "it_to_address item"] this [of "it_created_contract_address item"]
  show "length (trace_bytes item) \<le> 114 + MAX_TRACE_ID_LEN + MAX_ERROR_CODE_LEN"
    using b assms by (simp add: trace_bytes_def trace_ok_def)
qed

lemma reads_error_code:
  assumes "case err of Some v \<Rightarrow> v \<noteq> [] \<and> utf8_valid v \<and> length v \<le> MAX_ERROR_CODE_LEN | None \<Rightarrow> True"
  shows "reads read_error_code err (to_be_bytes (word_of_nat (length (error_bytes err)) :: u16) @ error_bytes err)"
proof (cases err)
  case None
  then show ?thesis
    unfolding read_error_code_def by (auto simp: error_bytes_def intro!: reads_last [OF reads_u16] reads_ret)
next
  case (Some v)
  have n: "unat (word_of_nat (length v) :: u16) = length v" "(word_of_nat (length v) :: u16) \<noteq> 0"
    using assms Some u16_len(1) [of "length v"] by (auto dest: arg_cong [where f = unat])
  have "reads (\<lambda>data off. do { (bs, off) \<leftarrow> read_vec data off (length v); if \<not> utf8_valid bs then None else Some (Some bs, off) })
      (Some v) v"
    using assms Some by (intro reads_last [OF reads_vec]) (simp_all add: reads_ret)
  then show ?thesis
    unfolding read_error_code_def Some
    using assms Some n by (intro reads_bind [OF reads_u16]) (simp add: error_bytes_def)
qed

lemma reads_trace_id:
  assumes "length v \<le> MAX_TRACE_ID_LEN" and "utf8_valid v"
  shows "reads read_trace_id v (to_be_bytes (word_of_nat (length v) :: u16) @ v)"
proof -
  have "reads (\<lambda>data off. do { (bs, off) \<leftarrow> read_vec data off (length v); if \<not> utf8_valid bs then None else Some (bs, off) }) v v"
    using assms by (intro reads_last [OF reads_vec]) (simp_all add: reads_ret)
  then show ?thesis
    unfolding read_trace_id_def using assms u16_len(1) [of "length v"] by (intro reads_bind [OF reads_u16]) simp
qed

lemma reads_trace:
  assumes "trace_ok item"
  shows "reads read_trace item (trace_bytes item)"
  unfolding read_trace_def trace_bytes_def
  using assms
  by (intro reads_bind [OF reads_ints(2)] reads_bind [OF reads_ints(1)] reads_bind [OF reads_trace_id] reads_bind [OF reads_u16]
      reads_bind [OF reads_action] reads_bind [OF reads_array] reads_bind [OF reads_optional_address] reads_bind [OF reads_flag]
      reads_last [OF reads_error_code] reads_ret) (simp_all add: trace_ok_def)

lemma reads_traces: "list_all trace_ok items \<Longrightarrow> reads (read_traces (length items)) items (concat (map trace_bytes items))"
proof (induction items)
  case (Cons item items)
  have "reads (\<lambda>data off. do { (items, off) \<leftarrow> read_traces (length items) data off; Some (item # items, off) })
      (item # items) (concat (map trace_bytes items))"
    using Cons by (intro reads_last [of "read_traces (length items)" items] reads_ret) simp_all
  then show ?case
    using reads_bind [OF reads_trace [of item], of "\<lambda>item data off. do {
        (items, off) \<leftarrow> read_traces (length items) data off; Some (item # items, off) }"] Cons.prems
    by (simp add: reads_def)
qed (simp add: reads_def)

lemma encode_traces_ok:
  "list_all trace_ok items \<Longrightarrow> encode_traces items = Inr (concat (map trace_bytes items))
    \<and> length (concat (map trace_bytes items)) \<le> length items * (114 + MAX_TRACE_ID_LEN + MAX_ERROR_CODE_LEN)"
proof (induction items)
  case (Cons item items)
  then show ?case
    using encode_trace_ok [of item] by simp
qed simp

definition trace_set_ok :: "internal_trace_set \<Rightarrow> bool" where
  "trace_set_ok ts \<longleftrightarrow> length (its_items ts) \<le> MAX_INTERNAL_TRACES_PER_TX \<and> list_all trace_ok (its_items ts)
    \<and> trace_counts_ok (word_of_nat (length (its_items ts))) (its_captured_count ts) (its_total_count ts)
        (its_encode_failed ts) (its_truncated ts)"

lemma trace_set_roundtrip:
  assumes "trace_set_ok ts"
  obtains bs where "to_bytes_checked ts = Inr bs" and "trace_set_from_bytes bs = (ts, [])"
    and "length bs \<le> INTERNAL_TRACES_MAX_SIZE"
proof -
  let ?n = "word_of_nat (length (its_items ts)) :: u32" and ?body = "concat (map trace_bytes (its_items ts))"
  note ok = assms [unfolded trace_set_ok_def]
  have n: "unat ?n = length (its_items ts)"
    using ok by (simp add: unat_u32)
  define bs where "bs = INTERNAL_TRACES_MAGIC @ [flag_byte (its_encode_failed ts)] @ [flag_byte (its_truncated ts)]
    @ to_be_bytes (its_captured_count ts) @ to_be_bytes (its_total_count ts) @ to_be_bytes ?n @ ?body"
  have body: "encode_traces (its_items ts) = Inr ?body"
    "length ?body \<le> length (its_items ts) * (114 + MAX_TRACE_ID_LEN + MAX_ERROR_CODE_LEN)"
    using encode_traces_ok [of "its_items ts"] ok by simp_all
  have "length INTERNAL_TRACES_MAGIC = 8"
    by (simp add: INTERNAL_TRACES_MAGIC_def ascii_def)
  then have len: "length bs \<le> INTERNAL_TRACES_MAX_SIZE"
    using body(2) ok by (simp add: bs_def)
  have "encode_trace_set ts = Inr bs"
    using ok body(1) by (simp add: encode_trace_set_def try_u32 bs_def)
  then have enc: "to_bytes_checked ts = Inr bs"
    using len by (simp add: to_bytes_checked_def encode_guarded_def ensure_encoded_within_bound_def)
  have items: "reads (read_traces (unat ?n)) (its_items ts) ?body"
    unfolding n using reads_traces ok by blast
  have "reads decode_trace_set ts bs"
    unfolding decode_trace_set_def bs_def
    using ok \<open>length INTERNAL_TRACES_MAGIC = 8\<close>
    by (intro reads_bind [OF reads_array] reads_unless(1) reads_bind [OF reads_flag] reads_bind [OF reads_ints(1)]
        reads_last [OF items] reads_ret) simp_all
  moreover have "remains bs 0 (bs @ [])"
    by (simp add: remains_def)
  ultimately obtain off where "decode_trace_set bs 0 = Some (ts, off)"
    unfolding reads_def by blast
  then have "trace_set_from_bytes bs = (ts, [])"
    using len by (simp add: trace_set_from_bytes_def)
  with enc len that show ?thesis
    by blast
qed

lemma failed_marker: "trace_set_ok (trace_set_failed n)"
  by (simp add: trace_set_ok_def trace_set_failed_def trace_counts_ok_def)

lemma internal_trace_bytes_ok:
  "trace_set_ok ts \<Longrightarrow> \<exists>bs. internal_trace_bytes ts = Some bs \<and> trace_set_from_bytes bs = (ts, [])
    \<and> length bs \<le> INTERNAL_TRACES_MAX_SIZE"
  by (erule trace_set_roundtrip) (simp add: internal_trace_bytes_def)

interpretation trace_set_codec:
  codec "\<lambda>ts. (the (internal_trace_bytes ts), [])" trace_set_from_bytes trace_set_ok INTERNAL_TRACES_MAX_SIZE
  by unfold_locales (use internal_trace_bytes_ok in force)+

section \<open>What the inspector records\<close>

text \<open>The events of an execution: frames are properly nested, addresses have 20 bytes, and a printed
  result is a nonempty string.\<close>

fun result_ok :: "instruction_result \<Rightarrow> bool" where
  "result_ok (ResultOther name) \<longleftrightarrow> name \<noteq> [] \<and> utf8_valid name"
| "result_ok _ \<longleftrightarrow> True"

fun nested :: "nat \<Rightarrow> inspector_event list \<Rightarrow> bool" where
  "nested d [] \<longleftrightarrow> True"
| "nested d (Step now # evs) \<longleftrightarrow> nested d evs"
| "nested d (CallStart scheme caller target value # evs) \<longleftrightarrow> length caller = 20 \<and> length target = 20 \<and> nested (Suc d) evs"
| "nested d (CreateStart scheme caller value # evs) \<longleftrightarrow> length caller = 20 \<and> nested (Suc d) evs"
| "nested d (CallEnd res # evs) \<longleftrightarrow> 0 < d \<and> result_ok res \<and> nested (d - 1) evs"
| "nested d (CreateEnd res created # evs) \<longleftrightarrow>
    0 < d \<and> result_ok res \<and> (case created of Some a \<Rightarrow> length a = 20 | None \<Rightarrow> True) \<and> nested (d - 1) evs"
| "nested d (SelfDestructed contract target value # evs) \<longleftrightarrow> length contract = 20 \<and> length target = 20 \<and> nested d evs"

definition within_limits :: "internal_trace \<Rightarrow> bool" where
  "within_limits item \<longleftrightarrow> length (it_trace_id item) \<le> MAX_TRACE_ID_LEN
    \<and> length (error_bytes (it_error_code item)) \<le> MAX_ERROR_CODE_LEN"

definition shape_ok :: "internal_trace \<Rightarrow> bool" where
  "shape_ok item \<longleftrightarrow> utf8_valid (it_trace_id item)
    \<and> length (it_from_address item) = 20 \<and> length (it_value item) = 32
    \<and> (case it_to_address item of Some v \<Rightarrow> length v = 20 | None \<Rightarrow> True)
    \<and> (case it_created_contract_address item of Some v \<Rightarrow> length v = 20 | None \<Rightarrow> True)
    \<and> (case it_error_code item of Some v \<Rightarrow> v \<noteq> [] \<and> utf8_valid v | None \<Rightarrow> True)"

lemma trace_ok_split: "trace_ok item \<longleftrightarrow> shape_ok item \<and> within_limits item"
  by (auto simp: trace_ok_def shape_ok_def within_limits_def error_bytes_def split: option.splits)

lemma utf8_ascii: "list_all (\<lambda>b. b < 0x80) bs \<Longrightarrow> utf8_valid bs"
  by (induction bs) simp_all

lemma decimal_ascii: "list_all (\<lambda>b. b < 0x80) (decimal n)"
proof (induction n rule: decimal.induct)
  case (1 n)
  have "48 + n mod 10 < 128"
    using mod_less_divisor [of 10 n] by linarith
  then have "(word_of_nat (48 + n mod 10) :: u8) < 0x80"
    by (simp add: word_less_nat_alt unat_of_nat del: of_nat_add)
  with 1 show ?case
    by (subst decimal.simps) (simp del: decimal.simps)
qed

lemma render_ascii: "list_all (\<lambda>b. b < 0x80) (render_trace_id segments)"
  by (induction segments rule: render_trace_id.induct) (simp_all add: decimal_ascii del: decimal.simps)

definition inspector_inv :: "nat \<Rightarrow> trace_inspector \<Rightarrow> bool" where
  "inspector_inv d i \<longleftrightarrow> length (ti_active_paths i) = d \<and> length (ti_frame_children i) = Suc d
    \<and> length (ti_traces i) = min (unat (ti_total_count i)) MAX_INTERNAL_TRACES_PER_TX
    \<and> list_all (\<lambda>item. shape_ok (td_trace item)) (ti_traces i)"

lemma inspector_push:
  assumes "inspector_inv d i" and "shape_ok \<lparr>it_block_number = ti_block_number i, it_tx_index = ti_tx_index i,
      it_trace_id = render_trace_id tid, it_depth = word_of_nat (length tid), it_action_kind = k, it_from_address = a,
      it_to_address = b, it_value = v, it_created_contract_address = c, it_success = ok, it_error_code = err\<rparr>"
  shows "inspector_inv d (push_trace tid k a b v c ok err i)"
proof -
  have "unat (sat_add (ti_total_count i) 1) = min (Suc (unat (ti_total_count i))) (2 ^ 32 - 1)"
    by (simp add: unat_sat_add)
  then have "length (ti_traces (push_trace tid k a b v c ok err i))
      = min (unat (ti_total_count (push_trace tid k a b v c ok err i))) MAX_INTERNAL_TRACES_PER_TX"
    using assms(1) by (auto simp: inspector_inv_def push_trace_def Let_def min_def split: if_splits)
  then show ?thesis
    using assms by (simp add: inspector_inv_def push_trace_def Let_def)
qed

lemma inspector_start:
  assumes "inspector_inv d i" and "length a = 20" and "case b of Some t \<Rightarrow> length t = 20 | None \<Rightarrow> True" and "length v = 32"
  shows "\<exists>i'. start_action k a b None v i = Some i' \<and> inspector_inv (Suc d) i'"
proof -
  obtain c cs where c: "ti_frame_children i = c # cs"
    using assms(1) by (cases "ti_frame_children i") (auto simp: inspector_inv_def)
  define i1 where "i1 = i\<lparr>ti_frame_children := 0 # sat_add c 1 # cs\<rparr>"
  define i2 where "i2 = push_trace (child_path i c) k a b v None False (Some (ascii ''pending'')) i"
  have "utf8_valid (ascii ''pending'')"
    by (rule utf8_ascii) (simp add: ascii_def)
  then have "inspector_inv d i2"
    unfolding i2_def using assms utf8_ascii [OF render_ascii]
    by (intro inspector_push) (simp_all add: shape_ok_def ascii_def)
  moreover have "push_trace (child_path i c) k a b v None False (Some (ascii ''pending'')) i1
      = i2\<lparr>ti_frame_children := 0 # sat_add c 1 # cs\<rparr>"
    by (simp add: i1_def i2_def push_trace_def Let_def)
  ultimately show ?thesis
    using assms(1) c
    by (auto simp: start_action_def allocate_trace_id_def i1_def [symmetric] Let_def inspector_inv_def)
      (auto simp: i1_def)
qed

lemma update_first_all:
  "list_all P xs \<Longrightarrow> (\<And>x. P x \<Longrightarrow> P (f x)) \<Longrightarrow> list_all P (update_first Q f xs)"
  "length (update_first Q f xs) = length xs"
  by (induction xs) simp_all

lemma inspector_finish:
  assumes "inspector_inv (Suc d) i" and "case err of Some v \<Rightarrow> v \<noteq> [] \<and> utf8_valid v | None \<Rightarrow> True"
    and "case created of Some a \<Rightarrow> length a = 20 | None \<Rightarrow> True"
  shows "inspector_inv d (finish_action ok err created i)"
proof -
  have "shape_ok (td_trace (finish_draft ok err created item))" if "shape_ok (td_trace item)" for item
    using that assms(2,3) by (auto simp: shape_ok_def finish_draft_def split: option.splits)
  then have "list_all (\<lambda>item. shape_ok (td_trace item))
      (rev (update_first Q (finish_draft ok err created) (rev (ti_traces i))))" for Q
    using assms(1) update_first_all(1) [of "\<lambda>item. shape_ok (td_trace item)" "rev (ti_traces i)"]
    by (simp add: inspector_inv_def)
  then show ?thesis
    using assms(1) by (auto simp: inspector_inv_def finish_action_def Let_def update_first_all(2) split: list.split option.split)
qed

lemma inspector_selfdestruct:
  assumes "inspector_inv d i" and "length a = 20" and "length b = 20"
  shows "inspector_inv d (record_selfdestruct a b v i)"
proof -
  obtain c cs where c: "ti_frame_children i = c # cs"
    using assms(1) by (cases "ti_frame_children i") (auto simp: inspector_inv_def)
  have "inspector_inv d (i\<lparr>ti_frame_children := sat_add c 1 # cs\<rparr>)"
    using assms(1) c by (simp add: inspector_inv_def)
  then show ?thesis
    using assms utf8_ascii [OF render_ascii]
    by (auto simp: record_selfdestruct_def allocate_event_trace_id_def c shape_ok_def intro!: inspector_push)
qed

lemma outcome_status_ok:
  "result_ok res \<Longrightarrow> case snd (trace_outcome_status res) of Some v \<Rightarrow> v \<noteq> [] \<and> utf8_valid v | None \<Rightarrow> True"
  by (cases res) (simp_all add: ascii_def)

lemma inspect_traces_inv:
  "inspector_inv d i \<Longrightarrow> nested d evs \<Longrightarrow> \<exists>d' i'. inspect_traces evs i = Some i' \<and> inspector_inv d' i'"
proof (induction d evs arbitrary: i rule: nested.induct)
  case (3 d scheme caller target v evs)
  then show ?case
    using inspector_start [of d i caller "Some target" "to_be_bytes v" "call_action_kind scheme"] by fastforce
next
  case (4 d scheme caller v evs)
  then show ?case
    using inspector_start [of d i caller None "to_be_bytes v" "create_action_kind scheme"] by fastforce
next
  case (5 d res evs)
  then show ?case
    using inspector_finish [of "d - 1" i "snd (trace_outcome_status res)" None "fst (trace_outcome_status res)"]
      outcome_status_ok [of res] by (simp add: case_prod_beta)
next
  case (6 d res created evs)
  then show ?case
    using inspector_finish [of "d - 1" i "snd (trace_outcome_status res)" created "fst (trace_outcome_status res)"]
      outcome_status_ok [of res] by (simp add: case_prod_beta)
next
  case (7 d a b v evs)
  then show ?case
    using inspector_selfdestruct [of d i a b v] by simp
qed auto

lemma encode_traces_too_long:
  "list_all shape_ok items \<Longrightarrow> \<not> list_all within_limits items \<Longrightarrow> \<exists>err. encode_traces items = Inl err"
proof (induction items)
  case (Cons item items)
  show ?case
  proof (cases "within_limits item")
    case True
    then show ?thesis
      using Cons by (auto split: sum.split)
  next
    case False
    then have "\<exists>err. encode_trace item = Inl err"
      by (auto simp: encode_trace_def within_limits_def error_bytes_def [symmetric] Let_def try_of_nat_def unat_of_nat
          split: if_splits)
    then show ?thesis
      by auto
  qed
qed simp

lemma recorded_traces_full:
  assumes "nested 0 evs"
  shows "\<exists>i bs. inspect_traces evs (trace_inspector_new n k) = Some i
    \<and> internal_trace_bytes (trace_inspector_finish i) = Some bs
    \<and> length (its_items (trace_inspector_finish i)) = min (unat (ti_total_count i)) MAX_INTERNAL_TRACES_PER_TX
    \<and> trace_set_from_bytes bs =
        (if list_all within_limits (its_items (trace_inspector_finish i)) then trace_inspector_finish i
         else trace_set_failed (ti_total_count i), [])"
proof -
  have "inspector_inv 0 (trace_inspector_new n k)"
    by (simp add: inspector_inv_def trace_inspector_new_def)
  then obtain d i where run: "inspect_traces evs (trace_inspector_new n k) = Some i" and inv: "inspector_inv d i"
    using inspect_traces_inv assms by blast
  let ?ts = "trace_inspector_finish i"
  have shape: "list_all shape_ok (its_items ?ts)" and len: "length (its_items ?ts) = min (unat (ti_total_count i)) MAX_INTERNAL_TRACES_PER_TX"
    and tot: "its_total_count ?ts = ti_total_count i"
    using inv by (simp_all add: inspector_inv_def trace_inspector_finish_def trace_set_new_with_counts_def Let_def list.pred_map comp_def)
  have counts: "trace_counts_ok (word_of_nat (length (its_items ?ts))) (its_captured_count ?ts) (its_total_count ?ts)
      (its_encode_failed ?ts) (its_truncated ?ts)"
    using inv by (auto simp: inspector_inv_def trace_inspector_finish_def trace_set_new_with_counts_def Let_def
        trace_counts_ok_def u32_of_len_def try_u32 unat_u32 word_less_nat_alt)
  show ?thesis
  proof (cases "list_all within_limits (its_items ?ts)")
    case True
    then have "trace_set_ok ?ts"
      using shape counts len by (simp add: trace_set_ok_def trace_ok_split list_all_iff)
    then show ?thesis
      using internal_trace_bytes_ok [of ?ts] run len True by auto
  next
    case False
    then obtain err where "encode_traces (its_items ?ts) = Inl err"
      using encode_traces_too_long [OF shape] by blast
    then have "to_bytes_checked ?ts = Inl err"
      using counts len by (simp add: to_bytes_checked_def encode_trace_set_def try_u32)
    moreover obtain bs where "to_bytes_checked (trace_set_failed (ti_total_count i)) = Inr bs"
      "trace_set_from_bytes bs = (trace_set_failed (ti_total_count i), [])"
      using trace_set_roundtrip [OF failed_marker] by blast
    ultimately show ?thesis
      using run len False tot by (auto simp: internal_trace_bytes_def)
  qed
qed

lemma recorded_traces:
  "nested 0 evs \<Longrightarrow> \<exists>i bs. inspect_traces evs (trace_inspector_new n k) = Some i
    \<and> internal_trace_bytes (trace_inspector_finish i) = Some bs"
  using recorded_traces_full by blast

text \<open>C36: the internal actions of any properly nested execution are recorded without a panic, up to the
  limit of 1024 with the total still counted, and what is stored for them is read back: the recorded
  actions themselves, or, when an identifier or error text exceeds its limit, the failure marker with the
  total count.\<close>
theorem internal_traces_recorded:
  assumes "nested 0 evs"
  shows "\<exists>i bs. inspect_traces evs (trace_inspector_new n k) = Some i
    \<and> internal_trace_bytes (trace_inspector_finish i) = Some bs
    \<and> length (its_items (trace_inspector_finish i)) = min (unat (ti_total_count i)) MAX_INTERNAL_TRACES_PER_TX
    \<and> trace_set_from_bytes bs =
        (if list_all within_limits (its_items (trace_inspector_finish i)) then trace_inspector_finish i
         else trace_set_failed (ti_total_count i), [])"
  by (rule recorded_traces_full [OF assms])

theorem internal_traces_recorded_witness:
  "let a = replicate 20 1;
       evs = [CallStart SchemeCall a a 0, Step 5, CreateStart SchemeCreate2 a 9, CreateEnd ResultReturn (Some a),
              SelfDestructed a a 1, CallEnd ResultStop]
   in nested 0 evs \<and> (\<exists>i. inspect_traces evs (trace_inspector_new 7 0) = Some i \<and> ti_total_count i = 2
        \<and> (\<exists>bs. internal_trace_bytes (trace_inspector_finish i) = Some bs))"
proof -
  let ?a = "replicate 20 1 :: bytes"
  let ?evs = "[CallStart SchemeCall ?a ?a 0, Step 5, CreateStart SchemeCreate2 ?a 9, CreateEnd ResultReturn (Some ?a),
    SelfDestructed ?a ?a 1, CallEnd ResultStop]"
  have n: "nested 0 ?evs"
    by simp
  obtain i bs where i: "inspect_traces ?evs (trace_inspector_new 7 0) = Some i"
    "internal_trace_bytes (trace_inspector_finish i) = Some bs"
    using internal_traces_recorded [OF n, of 7 0] by blast
  have "ti_total_count i = 2"
    using i(1) by (auto simp: trace_inspector_new_def start_action_def allocate_trace_id_def push_trace_def Let_def
        finish_action_def record_selfdestruct_def allocate_event_trace_id_def sat_add_def)
  with n i show ?thesis
    by (auto simp: Let_def)
qed

end
