(* ===== verification/Evm_Exec.thy ===== *)
theory Evm_Exec
  imports Evm_State Internal_Trace
begin

text \<open>
  Executing one transaction (\<open>evm-core/src/revm_exec.rs\<close>). The engine itself is outside the repository: an
  execution is what it reports, namely the events the inspectors see, a query it asked to be resolved,
  and an error or a result with the changed accounts. It runs on the stable state overlaid with the state
  differences committed since the block began; that list of differences stands for the cache database.
\<close>

section \<open>Data\<close>

datatype exec_path = UserTx | SystemTx

record block_exec_context =
  bx_block_number :: u64
  bx_timestamp :: u64
  bx_base_fee :: u64
  bx_block_gas_limit :: u64

record fee_breakdown =
  fb_l1_data_fee :: u128
  fb_operator_fee :: u128

record exec_outcome =
  eo_tx_id :: tx_id
  eo_tx_index :: u32
  eo_receipt :: receipt_like
  eo_return_data :: bytes
  eo_final_status :: string
  eo_halt_reason :: "op_halt_reason option"
  eo_internal_traces :: internal_trace_set

datatype evm_error = EvmTransaction | EvmHeader | EvmDatabase | EvmCustom

datatype halt_reason =
    HaltOutOfGas | HaltOpcodeNotFound | HaltInvalidFEOpcode | HaltStackOverflow | HaltStackUnderflow | HaltInvalidJump
  | HaltStateChangeDuringStaticCall | HaltCallNotAllowedInsideStatic | HaltPrecompileError
  | HaltPrecompileErrorWithContext | HaltOther

datatype execution_result =
    Success u64 bytes "bytes option" "log_entry list"
  | Revert u64 bytes
  | Halt u64 halt_reason

text \<open>One run of the engine: the counter reading when it starts, the events of the inspectors, the query it
  stopped at, and its result.\<close>

record inspect_run =
  run_start :: u64
  run_events :: "inspector_event list"
  run_query :: "icp_query_request option"
  run_result :: "evm_error + execution_result \<times> state_diff"

record engine =
  revm :: revm_lib
  inspect_tx :: "stable_state \<Rightarrow> state_diff list \<Rightarrow> block_exec_context \<Rightarrow> u64 \<Rightarrow> tx_env \<Rightarrow> inspect_run"

section \<open>Fees\<close>

definition FEE_RECIPIENT :: bytes where
  "FEE_RECIPIENT = [0x6b, 0x9b, 0x5f, 0xd6, 0x2c, 0xc6, 0x6f, 0xc9, 0xfe, 0xf7, 0x42, 0x10, 0xc9, 0x29, 0x8b, 0x1b,
    0x6b, 0xcb, 0xfc, 0x52]"

definition breakdown_total_fee :: "fee_breakdown \<Rightarrow> u64 \<Rightarrow> u64 \<Rightarrow> u128" where
  "breakdown_total_fee fb price gas_used = total_fee gas_used price (fb_l1_data_fee fb) (fb_operator_fee fb)"

definition touch_and_credit :: "u128 \<Rightarrow> evm_account \<Rightarrow> evm_account" where
  "touch_and_credit reward account =
    account\<lparr>acc_touched := True,
      acc_info := (acc_info account)\<lparr>info_balance := sat_add (info_balance (acc_info account)) (ucast reward)\<rparr>\<rparr>"

definition account_from_info :: "account_info \<Rightarrow> evm_account" where
  "account_from_info info =
    \<lparr>acc_info = info, acc_selfdestructed = False, acc_touched = False, acc_changed_slots = []\<rparr>"

definition add_base_fee_portion_to_recipient ::
  "revm_lib \<Rightarrow> stable_state \<Rightarrow> u64 \<Rightarrow> u64 \<Rightarrow> state_diff \<Rightarrow> state_diff" where
  "add_base_fee_portion_to_recipient e s gas_used base diff =
    (if gas_used = 0 \<or> base = 0 then diff
     else let reward = base_fee_reward gas_used base
          in if reward = 0 then diff
             else let entry = (if map_of diff FEE_RECIPIENT = None
                               then diff @ [(FEE_RECIPIENT, account_from_info
                                      (case db_basic s FEE_RECIPIENT of Some info \<Rightarrow> info | None \<Rightarrow> default_info e))]
                               else diff)
                  in map (\<lambda>(a, acc). (a, if a = FEE_RECIPIENT then touch_and_credit reward acc else acc)) entry)"

section \<open>Results\<close>

fun map_halt_reason :: "halt_reason \<Rightarrow> op_halt_reason" where
  "map_halt_reason HaltOutOfGas = OutOfGas"
| "map_halt_reason HaltOpcodeNotFound = InvalidOpcode"
| "map_halt_reason HaltInvalidFEOpcode = InvalidOpcode"
| "map_halt_reason HaltStackOverflow = StackOverflow"
| "map_halt_reason HaltStackUnderflow = StackUnderflow"
| "map_halt_reason HaltInvalidJump = InvalidJump"
| "map_halt_reason HaltStateChangeDuringStaticCall = StateChangeDuringStaticCall"
| "map_halt_reason HaltCallNotAllowedInsideStatic = StateChangeDuringStaticCall"
| "map_halt_reason HaltPrecompileError = PrecompileError"
| "map_halt_reason HaltPrecompileErrorWithContext = PrecompileError"
| "map_halt_reason HaltOther = UnknownHalt"

fun halt_name :: "op_halt_reason \<Rightarrow> string" where
  "halt_name OutOfGas = ''OutOfGas''"
| "halt_name InvalidOpcode = ''InvalidOpcode''"
| "halt_name StackOverflow = ''StackOverflow''"
| "halt_name StackUnderflow = ''StackUnderflow''"
| "halt_name InvalidJump = ''InvalidJump''"
| "halt_name StateChangeDuringStaticCall = ''StateChangeDuringStaticCall''"
| "halt_name PrecompileError = ''PrecompileError''"
| "halt_name UnknownHalt = ''Unknown''"

fun map_tx_error_stage :: "evm_error \<Rightarrow> exec_error" where
  "map_tx_error_stage EvmTransaction = TxError TxPrecheckFailed"
| "map_tx_error_stage EvmHeader = TxError TxPrecheckFailed"
| "map_tx_error_stage EvmDatabase = TxError TxExecutionFailed"
| "map_tx_error_stage EvmCustom = TxError TxExecutionFailed"

record result_parts =
  rp_status :: u8
  rp_gas_used :: u64
  rp_output :: bytes
  rp_contract_address :: "bytes option"
  rp_logs :: "log_entry list"
  rp_final_status :: string
  rp_halt_reason :: "op_halt_reason option"

fun result_parts_of :: "execution_result \<Rightarrow> result_parts" where
  "result_parts_of (Success gas_used output created logs) =
    \<lparr>rp_status = 1, rp_gas_used = gas_used, rp_output = output, rp_contract_address = created, rp_logs = logs,
     rp_final_status = ''Success'', rp_halt_reason = None\<rparr>"
| "result_parts_of (Revert gas_used output) =
    \<lparr>rp_status = 0, rp_gas_used = gas_used, rp_output = output, rp_contract_address = None, rp_logs = [],
     rp_final_status = ''Revert'', rp_halt_reason = None\<rparr>"
| "result_parts_of (Halt gas_used reason) =
    \<lparr>rp_status = 0, rp_gas_used = gas_used, rp_output = [], rp_contract_address = None, rp_logs = [],
     rp_final_status = ''Halt:'' @ halt_name (map_halt_reason reason), rp_halt_reason = Some (map_halt_reason reason)\<rparr>"

definition validate_execution_result_sizes :: "bytes \<Rightarrow> log_entry list \<Rightarrow> bool" where
  "validate_execution_result_sizes output logs \<longleftrightarrow>
    length output \<le> MAX_RETURN_DATA \<and> length logs \<le> MAX_LOGS_PER_TX
    \<and> list_all (\<lambda>l. length (log_topics l) \<le> MAX_LOG_TOPICS \<and> length (log_data l) \<le> MAX_LOG_DATA) logs"

definition store_receipt_index ::
  "grow_fn \<Rightarrow> tx_id \<Rightarrow> u64 \<Rightarrow> u32 \<Rightarrow> receipt_like \<Rightarrow> stable_state \<Rightarrow> stable_state option" where
  "store_receipt_index grow t block_number index receipt s =
    (let entry = \<lparr>tie_block_number = block_number, tie_tx_index = index\<rparr>
     in case store_bytes grow (fst (tx_index_entry_to_bytes entry)) (blob_store_cell s) of
          (BOk entry_ptr, b1) \<Rightarrow>
            (case store_bytes grow (fst (receipt_to_bytes receipt)) b1 of
               (BOk receipt_ptr, b2) \<Rightarrow>
                 Some (s\<lparr>blob_store_cell := b2, tx_index := oinsert t entry_ptr (tx_index s),
                        receipts := oinsert t receipt_ptr (receipts s)\<rparr>)
             | _ \<Rightarrow> None)
        | _ \<Rightarrow> None)"

section \<open>Execution\<close>

text \<open>\<open>execute_tx_on\<close> returns the result, the differences in the database after it and the stable state; None is
  a panic or a trap. The difference is committed to the database before the sizes of the result are
  checked.\<close>

definition exec_receipt :: "ext \<Rightarrow> tx_id \<Rightarrow> u32 \<Rightarrow> block_exec_context \<Rightarrow> u64 \<Rightarrow> result_parts \<Rightarrow> receipt_like" where
  "exec_receipt x t index ctx price parts =
    (let fb = \<lparr>fb_l1_data_fee = 0, fb_operator_fee = 0\<rparr>
     in \<lparr>rcpt_tx_id = t, rcpt_block_number = bx_block_number ctx, rcpt_tx_index = index, rcpt_status = rp_status parts,
         rcpt_gas_used = rp_gas_used parts, rcpt_effective_gas_price = price,
         rcpt_l1_data_fee = fb_l1_data_fee fb, rcpt_operator_fee = fb_operator_fee fb,
         rcpt_total_fee = breakdown_total_fee fb price (rp_gas_used parts),
         rcpt_return_data_hash = keccak x (rp_output parts), rcpt_return_data = rp_output parts,
         rcpt_contract_address = rp_contract_address parts, rcpt_logs = rp_logs parts\<rparr>)"

type_synonym exec_result = "exec_error + exec_outcome \<times> state_diff"

definition execute_tx_on ::
  "ext \<Rightarrow> engine \<Rightarrow> grow_fn \<Rightarrow> tx_id \<Rightarrow> u32 \<Rightarrow> tx_env \<Rightarrow> block_exec_context \<Rightarrow> exec_path \<Rightarrow> bool \<Rightarrow> u64 option
    \<Rightarrow> state_diff list \<Rightarrow> stable_state \<Rightarrow> (exec_result \<times> state_diff list \<times> stable_state) option" where
  "execute_tx_on x e grow t index env ctx path persist soft_limit db s =
    (if path = SystemTx then Some (Inl (TxError TxRejectedByPolicy), db, s)
     else case effective_gas_price (te_gas_price env) (case te_gas_priority_fee env of Some p \<Rightarrow> p | None \<Rightarrow> 0) (bx_base_fee ctx) of
       None \<Rightarrow> Some (Inl InvalidGasFee, db, s)
     | Some price \<Rightarrow>
         let limit = (case soft_limit of Some l \<Rightarrow> l | None \<Rightarrow> 0);
             run = inspect_tx e s db ctx limit env
         in case inspect_traces (run_events run) (trace_inspector_new (bx_block_number ctx) index) of
              None \<Rightarrow> None
            | Some tracer \<Rightarrow>
                if budget_tripped (run_start run) limit (run_events run)
                then Some (Inl InstructionBudgetExceeded, db, s)
                else case run_query run of
                  Some request \<Rightarrow> Some (Inl (ExternalQuery request), db, s)
                | None \<Rightarrow>
                    (case run_result run of
                       Inl err \<Rightarrow> Some (Inl (map_tx_error_stage err), db, s)
                     | Inr (result, state) \<Rightarrow>
                         let parts = result_parts_of result;
                             diff = add_base_fee_portion_to_recipient (revm e) s (rp_gas_used parts) (bx_base_fee ctx) state;
                             db1 = db @ [diff]
                         in if \<not> validate_execution_result_sizes (rp_output parts) (rp_logs parts)
                            then Some (Inl ResultTooLarge, db1, s)
                            else let receipt = exec_receipt x t index ctx price parts;
                                     outcome = \<lparr>eo_tx_id = t, eo_tx_index = index, eo_receipt = receipt,
                                       eo_return_data = rp_output parts, eo_final_status = rp_final_status parts,
                                       eo_halt_reason = rp_halt_reason parts,
                                       eo_internal_traces = trace_inspector_finish tracer\<rparr>
                                 in if persist
                                    then (case store_receipt_index grow t (bx_block_number ctx) index receipt s of
                                            None \<Rightarrow> None
                                          | Some s1 \<Rightarrow> Some (Inr (outcome, diff), db1, s1))
                                    else Some (Inr (outcome, diff), db1, s)))"

text \<open>Executing directly on the stable state commits the difference there.\<close>

definition execute_tx ::
  "ext \<Rightarrow> engine \<Rightarrow> grow_fn \<Rightarrow> tx_id \<Rightarrow> u32 \<Rightarrow> tx_env \<Rightarrow> block_exec_context \<Rightarrow> exec_path
    \<Rightarrow> stable_state \<Rightarrow> ((exec_error + exec_outcome) \<times> stable_state) option" where
  "execute_tx x e grow t index env ctx path s =
    (case execute_tx_on x e grow t index env ctx path True None [] s of
       None \<Rightarrow> None
     | Some (r, db, s1) \<Rightarrow>
         let s2 = fold (commit (revm e)) db s1
         in Some (case r of Inl err \<Rightarrow> (Inl err, s2) | Inr (outcome, _) \<Rightarrow> (Inr outcome, s2)))"

section \<open>What an execution guarantees\<close>

text \<open>What the chain relies on from the engine: frames are reported properly nested, a transaction never uses
  more gas than its limit, and addresses, topics and hashes have their length.\<close>

fun result_shape :: "u64 \<Rightarrow> execution_result \<Rightarrow> bool" where
  "result_shape gas_limit (Success gas_used output created logs) \<longleftrightarrow> gas_used \<le> gas_limit
    \<and> (case created of Some a \<Rightarrow> length a = 20 | None \<Rightarrow> True)
    \<and> list_all (\<lambda>l. length (log_address l) = 20 \<and> list_all (\<lambda>t. length t = 32) (log_topics l)) logs"
| "result_shape gas_limit (Revert gas_used output) \<longleftrightarrow> gas_used \<le> gas_limit"
| "result_shape gas_limit (Halt gas_used reason) \<longleftrightarrow> gas_used \<le> gas_limit"

definition run_ok :: "u64 \<Rightarrow> inspect_run \<Rightarrow> bool" where
  "run_ok gas_limit run \<longleftrightarrow> nested 0 (run_events run)
    \<and> (case run_result run of Inl _ \<Rightarrow> True | Inr (result, state) \<Rightarrow> result_shape gas_limit result \<and> diff_ok state)"

definition engine_ok :: "engine \<Rightarrow> bool" where
  "engine_ok e \<longleftrightarrow> length (info_code_hash (default_info (revm e))) = 32
    \<and> (\<forall>s db ctx limit env. run_ok (te_gas_limit env) (inspect_tx e s db ctx limit env))"

lemma result_parts_bounds:
  assumes "result_shape gas_limit result"
  shows "rp_gas_used (result_parts_of result) \<le> gas_limit \<and> rp_status (result_parts_of result) \<le> 1
    \<and> (case rp_contract_address (result_parts_of result) of Some a \<Rightarrow> length a = 20 | None \<Rightarrow> True)
    \<and> list_all (\<lambda>l. length (log_address l) = 20 \<and> list_all (\<lambda>t. length t = 32) (log_topics l)) (rp_logs (result_parts_of result))"
  using assms by (cases result) auto

lemma exec_receipt_ok:
  assumes "result_shape gas_limit result" and "length t = 32" and "\<And>bs. length (keccak x bs) = 32"
    and "validate_execution_result_sizes (rp_output (result_parts_of result)) (rp_logs (result_parts_of result))"
  shows "receipt_ok (exec_receipt x t index ctx price (result_parts_of result))"
  using result_parts_bounds [OF assms(1)] assms(2-4)
  by (auto simp: receipt_ok_def exec_receipt_def Let_def validate_execution_result_sizes_def log_ok_def list_all_iff)

text \<open>The fee recipient.\<close>

definition recipient_before :: "revm_lib \<Rightarrow> stable_state \<Rightarrow> state_diff \<Rightarrow> account_info" where
  "recipient_before e s state =
    (case map_of state FEE_RECIPIENT of
       Some acc \<Rightarrow> acc_info acc
     | None \<Rightarrow> (case db_basic s FEE_RECIPIENT of Some info \<Rightarrow> info | None \<Rightarrow> default_info e))"

lemma length_FEE_RECIPIENT [simp]: "length FEE_RECIPIENT = 20"
  by (simp add: FEE_RECIPIENT_def)

lemma map_of_touch:
  "map_of (map (\<lambda>(a, acc). (a, if a = k then f acc else acc)) diff) b =
    (if b = k then map_option f (map_of diff b) else map_of diff b)"
  by (induction diff) auto

lemma base_fee_portion_recipient:
  assumes "gas_used \<noteq> 0" and "base \<noteq> 0"
  shows "\<exists>acc. map_of (add_base_fee_portion_to_recipient e s gas_used base state) FEE_RECIPIENT = Some acc
    \<and> acc_touched acc \<and> info_nonce (acc_info acc) = info_nonce (recipient_before e s state)
    \<and> info_code_hash (acc_info acc) = info_code_hash (recipient_before e s state)
    \<and> unat (info_balance (acc_info acc)) =
        min (unat (info_balance (recipient_before e s state)) + unat gas_used * unat base) (2 ^ 256 - 1)"
proof -
  have r: "unat (base_fee_reward gas_used base) = unat gas_used * unat base"
    by (simp add: base_fee_reward_def unat_l2_fee)
  then have nz: "base_fee_reward gas_used base \<noteq> 0"
    using assms by (auto simp: unat_eq_zero)
  have u: "unat (ucast (base_fee_reward gas_used base) :: u256) = unat gas_used * unat base"
    using r unat_bound [of "base_fee_reward gas_used base"] by (subst unat_ucast_fit) simp_all
  show ?thesis
    using assms nz u
    by (cases "map_of state FEE_RECIPIENT")
      (auto simp: add_base_fee_portion_to_recipient_def Let_def map_of_touch touch_and_credit_def recipient_before_def
        account_from_info_def unat_sat_add map_add_def simp del: map_append map_map)
qed

text \<open>Only the fee recipient is changed beside what the engine reports.\<close>

definition recipient_credited :: "revm_lib \<Rightarrow> stable_state \<Rightarrow> state_diff \<Rightarrow> u64 \<Rightarrow> u64 \<Rightarrow> state_diff \<Rightarrow> bool" where
  "recipient_credited e s state gas_used base diff \<longleftrightarrow>
    (\<forall>a. a \<noteq> FEE_RECIPIENT \<longrightarrow> map_of diff a = map_of state a)
    \<and> (gas_used \<noteq> 0 \<longrightarrow> base \<noteq> 0 \<longrightarrow>
        (\<exists>acc. map_of diff FEE_RECIPIENT = Some acc \<and> acc_touched acc
          \<and> info_nonce (acc_info acc) = info_nonce (recipient_before e s state)
          \<and> info_code_hash (acc_info acc) = info_code_hash (recipient_before e s state)
          \<and> unat (info_balance (acc_info acc)) =
              min (unat (info_balance (recipient_before e s state)) + unat gas_used * unat base) (2 ^ 256 - 1)))"

lemma base_fee_portion_others:
  "a \<noteq> FEE_RECIPIENT \<Longrightarrow> map_of (add_base_fee_portion_to_recipient e s gas_used base state) a = map_of state a"
  by (auto simp: add_base_fee_portion_to_recipient_def Let_def map_of_touch map_add_def split: option.split simp del: map_append)

lemma base_fee_portion_credited:
  "recipient_credited e s state gas_used base (add_base_fee_portion_to_recipient e s gas_used base state)"
  using base_fee_portion_recipient base_fee_portion_others unfolding recipient_credited_def by blast

lemma base_fee_portion_diff_ok:
  assumes "diff_ok state" and "length (info_code_hash (default_info e)) = 32"
    and "accounts_ok s"
  shows "diff_ok (add_base_fee_portion_to_recipient e s gas_used base state)"
proof -
  let ?base = "(case db_basic s FEE_RECIPIENT of Some info \<Rightarrow> info | None \<Rightarrow> default_info e)"
  let ?touch = "map (\<lambda>(a, acc). (a, if a = FEE_RECIPIENT then touch_and_credit (base_fee_reward gas_used base) acc else acc))"
  have "length (info_code_hash ?base) = 32"
    using assms(2,3)
    by (cases "oget (accounts s) (make_account_key FEE_RECIPIENT)")
      (auto simp: db_basic_def account_val_to_info_def account_code_hash_def byte_slice_def accounts_ok_def)
  then have "diff_ok (if map_of state FEE_RECIPIENT = None
      then state @ [(FEE_RECIPIENT, account_from_info ?base)] else state)"
    using assms(1) by (auto simp: diff_ok_def account_from_info_def map_of_eq_None_iff)
  moreover have "diff_ok (?touch d)" if "diff_ok d" for d
  proof -
    have "map fst (?touch d) = map fst d"
      by (induction d) auto
    moreover have "list_all (\<lambda>(a, account). length a = 20 \<and> length (info_code_hash (acc_info account)) = 32) (?touch d)"
      using that by (auto simp: diff_ok_def list.pred_map touch_and_credit_def list_all_iff)
    ultimately show ?thesis
      using that unfolding diff_ok_def by (simp only:)
  qed
  ultimately show ?thesis
    using assms(1) by (simp add: add_base_fee_portion_to_recipient_def Let_def)
qed

text \<open>The cases of an execution that does not persist its receipt.\<close>

definition fee_paid :: "exec_outcome \<Rightarrow> tx_env \<Rightarrow> block_exec_context \<Rightarrow> bool" where
  "fee_paid out env ctx \<longleftrightarrow>
    (let r = eo_receipt out; price = unat (rcpt_effective_gas_price r)
     in unat (bx_base_fee ctx) \<le> price \<and> price \<le> unat (te_gas_price env) \<and> rcpt_gas_used r \<le> te_gas_limit env
        \<and> unat (rcpt_total_fee r) = unat (rcpt_gas_used r) * price)"

lemma execute_tx_cases:
  assumes eng: "engine_ok e" and hash: "\<And>bs. length (keccak x bs) = 32" and t: "length t = 32"
    and acc: "accounts_ok s"
  obtains (failed) err where "execute_tx_on x e grow t index env ctx UserTx False limit db s = Some (Inl err, db, s)"
      "err \<noteq> ResultTooLarge"
  | (oversized) diff where "execute_tx_on x e grow t index env ctx UserTx False limit db s = Some (Inl ResultTooLarge, db @ [diff], s)"
      "diff_ok diff"
  | (executed) out diff state where "execute_tx_on x e grow t index env ctx UserTx False limit db s = Some (Inr (out, diff), db @ [diff], s)"
      "diff_ok diff" "eo_tx_id out = t" "eo_tx_index out = index" "rcpt_tx_id (eo_receipt out) = t"
      "rcpt_block_number (eo_receipt out) = bx_block_number ctx" "rcpt_tx_index (eo_receipt out) = index"
      "receipt_ok (eo_receipt out)" "fee_paid out env ctx"
      "diff = add_base_fee_portion_to_recipient (revm e) s (rcpt_gas_used (eo_receipt out)) (bx_base_fee ctx) state"
      "\<exists>result. run_result (inspect_tx e s db ctx (case limit of Some l \<Rightarrow> l | None \<Rightarrow> 0) env) = Inr (result, state)"
      "\<exists>bs. internal_trace_bytes (eo_internal_traces out) = Some bs"
proof -
  let ?prio = "case te_gas_priority_fee env of Some p \<Rightarrow> p | None \<Rightarrow> 0"
  let ?limit = "case limit of Some l \<Rightarrow> l | None \<Rightarrow> 0"
  define run where "run = inspect_tx e s db ctx ?limit env"
  have run: "run_ok (te_gas_limit env) run" and def: "length (info_code_hash (default_info (revm e))) = 32"
    using eng by (auto simp: engine_ok_def run_def)
  obtain tracer bs where tr: "inspect_traces (run_events run) (trace_inspector_new (bx_block_number ctx) index) = Some tracer"
    "internal_trace_bytes (trace_inspector_finish tracer) = Some bs"
    using recorded_traces [of "run_events run"] run unfolding run_ok_def by blast
  show thesis
  proof (cases "effective_gas_price (te_gas_price env) ?prio (bx_base_fee ctx)")
    case None
    then show thesis
      by (intro failed [of InvalidGasFee]) (simp_all add: execute_tx_on_def)
  next
    case (Some price)
    note unf = execute_tx_on_def Some Let_def run_def [symmetric] tr(1)
    consider "budget_tripped (run_start run) ?limit (run_events run)"
      | request where "\<not> budget_tripped (run_start run) ?limit (run_events run)" "run_query run = Some request"
      | err where "\<not> budget_tripped (run_start run) ?limit (run_events run)" "run_query run = None" "run_result run = Inl err"
      | result state where "\<not> budget_tripped (run_start run) ?limit (run_events run)" "run_query run = None"
          "run_result run = Inr (result, state)"
      by (metis option.exhaust sum.exhaust surj_pair)
    then show thesis
    proof cases
      case 1
      then show thesis
        by (intro failed [of InstructionBudgetExceeded]) (simp_all add: unf)
    next
      case 2
      then show thesis
        by (intro failed [of "ExternalQuery request"]) (simp_all add: unf)
    next
      case 3
      then show thesis
        by (intro failed [of "map_tx_error_stage err"]) (cases err; simp add: unf)+
    next
      case 4
      let ?parts = "result_parts_of result"
      let ?diff = "add_base_fee_portion_to_recipient (revm e) s (rp_gas_used ?parts) (bx_base_fee ctx) state"
      have shape: "result_shape (te_gas_limit env) result" "diff_ok state"
        using run 4(3) by (simp_all add: run_ok_def)
      then have diff: "diff_ok ?diff"
        using base_fee_portion_diff_ok def acc by blast
      show thesis
      proof (cases "validate_execution_result_sizes (rp_output ?parts) (rp_logs ?parts)")
        case False
        then show thesis
          using 4 diff by (intro oversized [of ?diff]) (simp_all add: unf)
      next
        case True
        define out where "out = \<lparr>eo_tx_id = t, eo_tx_index = index, eo_receipt = exec_receipt x t index ctx price ?parts,
          eo_return_data = rp_output ?parts, eo_final_status = rp_final_status ?parts,
          eo_halt_reason = rp_halt_reason ?parts, eo_internal_traces = trace_inspector_finish tracer\<rparr>"
        have "fee_paid out env ctx"
          using result_parts_bounds [OF shape(1)] effective_gas_price_bounds [OF Some]
          by (simp add: fee_paid_def out_def exec_receipt_def Let_def breakdown_total_fee_def total_fee_def unat_l2_fee)
        moreover have "execute_tx_on x e grow t index env ctx UserTx False limit db s = Some (Inr (out, ?diff), db @ [?diff], s)"
          using 4 True by (simp add: unf out_def)
        moreover have "receipt_ok (eo_receipt out)"
          using exec_receipt_ok [OF shape(1) t hash True] by (simp add: out_def)
        ultimately show thesis
          using diff tr(2) 4(3) by (intro executed [of out ?diff state]) (simp_all add: out_def exec_receipt_def Let_def run_def)
      qed
    qed
  qed
qed

text \<open>C12: executing a transaction always returns, and never changes the stable state itself. A failed execution
  leaves the database of the block as it was. A successful one adds exactly its state difference, yields
  a receipt within the limits of the receipt store, charges gas used times an effective price between the
  base fee and the bid, never more gas than the limit of the transaction, and credits the fee recipient
  with the base-fee share. An execution rejected for the size of its result is the exception: its
  difference stays in the database although the transaction is dropped.\<close>
theorem execution_outcome:
  assumes "engine_ok e" and "\<And>bs. length (keccak x bs) = 32" and "length t = 32" and "accounts_ok s"
  shows "\<exists>r db'. execute_tx_on x e grow t index env ctx UserTx False limit db s = Some (r, db', s)
    \<and> (case r of
         Inl err \<Rightarrow> (if err = ResultTooLarge then \<exists>diff. diff_ok diff \<and> db' = db @ [diff] else db' = db)
       | Inr (out, diff) \<Rightarrow> db' = db @ [diff] \<and> diff_ok diff \<and> eo_tx_id out = t \<and> receipt_ok (eo_receipt out)
           \<and> fee_paid out env ctx
           \<and> (\<exists>result state. run_result (inspect_tx e s db ctx (case limit of Some l \<Rightarrow> l | None \<Rightarrow> 0) env) = Inr (result, state)
                \<and> recipient_credited (revm e) s state (rcpt_gas_used (eo_receipt out)) (bx_base_fee ctx) diff))"
  using assms
proof (cases rule: execute_tx_cases [where grow = grow and index = index and env = env and ctx = ctx and limit = limit and db = db])
  case (executed out diff state)
  then show ?thesis
    using base_fee_portion_credited by auto
qed auto

definition example_run :: inspect_run where
  "example_run = \<lparr>run_start = 0, run_events = [CallStart SchemeCall (replicate 20 1) (replicate 20 2) 0, Step 3, CallEnd ResultStop],
    run_query = None, run_result = Inr (Success 21000 [] None [], [(replicate 20 1, example_account 5 False [])])\<rparr>"

definition example_executor :: engine where
  "example_executor = \<lparr>revm = example_engine, inspect_tx = (\<lambda>_ _ _ _ env. if 21000 \<le> te_gas_limit env then example_run
    else example_run\<lparr>run_result := Inl EvmTransaction\<rparr>)\<rparr>"

lemma example_executor_ok: "engine_ok example_executor"
  by (simp add: engine_ok_def example_executor_def example_engine_def run_ok_def example_run_def diff_ok_def
      example_account_def)

definition example_tx_env :: tx_env where
  "example_tx_env = \<lparr>te_caller = replicate 20 1, te_gas_limit = 50000, te_gas_price = 20, te_kind = Call (replicate 20 2),
    te_value = 0, te_data = [], te_nonce = 0, te_chain_id = None, te_access_list = [], te_gas_priority_fee = Some 1,
    te_tx_type = 2\<rparr>"

definition example_context :: block_exec_context where
  "example_context = \<lparr>bx_block_number = 1, bx_timestamp = 5, bx_base_fee = 7, bx_block_gas_limit = 30000000\<rparr>"

theorem execution_outcome_witness:
  "\<exists>out diff. execute_tx_on example_ext example_executor (\<lambda>_ _. True) (replicate 32 3) 0 example_tx_env
      example_context UserTx False None [] (init_stable_state True)
    = Some (Inr (out, diff), [diff], init_stable_state True)
    \<and> fee_paid out example_tx_env example_context \<and> receipt_ok (eo_receipt out)"
proof -
  let ?run = "execute_tx_on example_ext example_executor (\<lambda>_ _. True) (replicate 32 3) 0 example_tx_env
      example_context UserTx False None [] (init_stable_state True)"
  have acc: "accounts_ok (init_stable_state True)"
    by (simp add: accounts_ok_def init_stable_state_def)
  have "effective_gas_price 20 1 7 = Some 8"
    by (simp add: effective_gas_price_def sat_add_def try_narrow_def)
  then have "\<exists>v db s. ?run = Some (Inr v, db, s)"
    by (simp add: execute_tx_on_def example_executor_def example_run_def example_tx_env_def example_context_def Let_def
        trace_inspector_new_def start_action_def allocate_trace_id_def finish_action_def budget_tripped_def budget_step_def
        validate_execution_result_sizes_def)
  then show ?thesis
    using execution_outcome [OF example_executor_ok _ _ acc, of example_ext "replicate 32 3" "\<lambda>_ _. True" 0 example_tx_env
        example_context None "[]"] by auto
qed

end
