(* ===== verification/Block_Production.thy ===== *)
theory Block_Production
  imports Mempool Evm_Exec
begin

text \<open>
  Producing a block (\<open>produce_block\<close> of \<open>evm-core/src/chain.rs\<close>): candidates are decoded and checked, the
  acceptable ones executed one after the other on an overlay of the stable state, and then everything is
  persisted at once: state differences, receipts, locations, the block and the new head. The function is
  split where the code changes phase. A trap of the canister rolls the call back and is None.

  Arguments stand for what is outside: the clock, the readings of the instruction counter, the growth of
  stable memory, the engine, and the computation of the state root.
\<close>

section \<open>Data\<close>

abbreviation DROP_CODE_MISSING :: u16 where "DROP_CODE_MISSING \<equiv> 3"
abbreviation DROP_CODE_CALLER_MISSING :: u16 where "DROP_CODE_CALLER_MISSING \<equiv> 4"
abbreviation DROP_CODE_RESULT_TOO_LARGE :: u16 where "DROP_CODE_RESULT_TOO_LARGE \<equiv> 7"
abbreviation DROP_CODE_BLOCK_GAS_EXCEEDED :: u16 where "DROP_CODE_BLOCK_GAS_EXCEEDED \<equiv> 8"
abbreviation DROP_CODE_INSTRUCTION_BUDGET :: u16 where "DROP_CODE_INSTRUCTION_BUDGET \<equiv> 9"
abbreviation DROP_CODE_EXEC_PRECHECK :: u16 where "DROP_CODE_EXEC_PRECHECK \<equiv> 10"
abbreviation MAX_DECODE_DROPS_PER_BLOCK :: nat where "MAX_DECODE_DROPS_PER_BLOCK \<equiv> 128"
abbreviation DECODE_SUPPRESS_STRIKES_PER_BLOCK :: u16 where "DECODE_SUPPRESS_STRIKES_PER_BLOCK \<equiv> 8"
abbreviation DECODE_SUPPRESS_WINDOW_SECS :: u64 where "DECODE_SUPPRESS_WINDOW_SECS \<equiv> 120"
abbreviation MAX_DECODE_SUPPRESS_PRINCIPALS :: nat where "MAX_DECODE_SUPPRESS_PRINCIPALS \<equiv> 4096"
abbreviation OPS_WARN_RATE_LIMIT_SECS :: u64 where "OPS_WARN_RATE_LIMIT_SECS \<equiv> 60"
abbreviation DROP_CODE_SLOTS :: nat where "DROP_CODE_SLOTS \<equiv> 11"

record queued_drop =
  qd_tx_id :: tx_id
  qd_drop_code :: u16
  qd_sender_override :: "bytes option"
  qd_nonce_override :: "u64 option"

record prepared_tx =
  pt_tx_id :: tx_id
  pt_tx_env :: tx_env
  pt_sender_bytes :: bytes
  pt_sender_nonce :: u64

datatype prepared_item = PreparedDrop queued_drop | PreparedTx prepared_tx

record staged_included_tx =
  si_tx_id :: tx_id
  si_outcome :: exec_outcome
  si_sender_bytes :: bytes
  si_sender_nonce :: u64

record touched_summary =
  ts_accounts_count :: u32
  ts_slots_count :: u32
  ts_delta_digest :: bytes

record produce_block_outcome =
  po_block :: block_data
  po_gas_used :: u64
  po_dropped :: u64

text \<open>What a call of \<open>produce_block\<close> finds around it.\<close>

record host =
  now_sec :: u64
  ticks :: "nat \<Rightarrow> u64"
  grow :: grow_fn
  prepare_root :: "stable_state \<Rightarrow> state_diff list \<Rightarrow> bytes list \<Rightarrow> touched_summary \<Rightarrow> u64 \<Rightarrow> bytes \<Rightarrow> u64 \<Rightarrow> string + bytes"

section \<open>Hashes\<close>

definition keccak256_concat_chunks :: "ext \<Rightarrow> bytes list \<Rightarrow> bytes" where
  "keccak256_concat_chunks x chunks = keccak x (concat chunks)"

definition tx_list_hash :: "ext \<Rightarrow> bytes list \<Rightarrow> bytes" where
  "tx_list_hash x ids = keccak x (0 # concat ids)"

definition block_hash :: "ext \<Rightarrow> bytes \<Rightarrow> u64 \<Rightarrow> u64 \<Rightarrow> bytes \<Rightarrow> bytes \<Rightarrow> bytes" where
  "block_hash x parent_hash number timestamp list_hash root =
    keccak x (1 # parent_hash @ to_be_bytes number @ to_be_bytes timestamp @ list_hash @ root)"

section \<open>Repeated decoding failures\<close>

function evict_first_until :: "nat \<Rightarrow> (bytes, u64) omap \<Rightarrow> (bytes, u64) omap" where
  "evict_first_until cap m =
    (if olen m < cap then m
     else case ofirst m of None \<Rightarrow> m | Some (oldest_key, _) \<Rightarrow> evict_first_until cap (oremove oldest_key m))"
  by pat_completeness auto
termination
proof (relation "measure (\<lambda>(_, m). olen m)")
  fix cap :: nat and m :: "(bytes, u64) omap" and e k v
  assume "ofirst m = Some e" and "(k, v) = e"
  then have "oget m k \<noteq> None"
    using ofirst_Some [of m k v] by auto
  then have "0 < olen m"
    by (auto simp: olen_card card_gt_0_iff)
  with \<open>oget m k \<noteq> None\<close> show "((cap, oremove k m), (cap, m)) \<in> measure (\<lambda>(_, m). olen m)"
    by (simp add: olen_oremove)
qed simp

definition note_decode_drop_for_principal ::
  "bytes \<Rightarrow> u64 \<Rightarrow> node \<Rightarrow> (bytes, u16) omap \<Rightarrow> node \<times> (bytes, u16) omap" where
  "note_decode_drop_for_principal who now n per_block =
    (if who = [] then (n, per_block)
     else
       let strikes = sat_add (case oget per_block who of Some c \<Rightarrow> c | None \<Rightarrow> 0) 1;
           per_block1 = oinsert who strikes per_block
       in if strikes < DECODE_SUPPRESS_STRIKES_PER_BLOCK then (n, per_block1)
          else
            let until = sat_add now DECODE_SUPPRESS_WINDOW_SECS;
                tbl = decode_suppress_until n;
                tbl1 = (if MAX_DECODE_SUPPRESS_PRINCIPALS \<le> olen tbl
                        then evict_first_until MAX_DECODE_SUPPRESS_PRINCIPALS
                               (fold oremove (map fst (filter (\<lambda>e. snd e \<le> now) (entries tbl))) tbl)
                        else tbl)
            in (n\<lparr>decode_suppress_until := oinsert who until tbl1\<rparr>, per_block1))"

section \<open>Preparation\<close>

definition simple_drop :: "tx_id \<Rightarrow> u16 \<Rightarrow> prepared_item" where
  "simple_drop t code =
    PreparedDrop \<lparr>qd_tx_id = t, qd_drop_code = code, qd_sender_override = None, qd_nonce_override = None\<rparr>"

text \<open>The checks on the decoded transaction.\<close>

definition check_fees :: "block_exec_context \<Rightarrow> chain_state \<Rightarrow> tx_id \<Rightarrow> tx_env \<Rightarrow> chain_error + prepared_item" where
  "check_fees ctx cs t env =
    (let fee_ok = min_fee_satisfied (te_gas_price env) (te_gas_priority_fee env) (bx_base_fee ctx) (min_priority_fee cs) (min_gas_price cs);
         effective = effective_gas_price (te_gas_price env) (case te_gas_priority_fee env of Some p \<Rightarrow> p | None \<Rightarrow> 0) (bx_base_fee ctx)
     in case try_address_to_bytes (te_caller env) of
          Inl msg \<Rightarrow> Inl (InvariantViolation msg)
        | Inr sender \<Rightarrow>
            if \<not> fee_ok \<or> effective = None
            then Inr (PreparedDrop \<lparr>qd_tx_id = t, qd_drop_code = DROP_CODE_INVALID_FEE,
                        qd_sender_override = Some sender, qd_nonce_override = Some (te_nonce env)\<rparr>)
            else Inr (PreparedTx \<lparr>pt_tx_id = t, pt_tx_env = env, pt_sender_bytes = sender, pt_sender_nonce = te_nonce env\<rparr>))"

text \<open>Preparing one candidate: the item, whether it counts as a decoding failure, the volatile tables and
  the strikes of the block.\<close>

definition prepare_tx ::
  "ext \<Rightarrow> block_exec_context \<Rightarrow> chain_state \<Rightarrow> tx_id \<Rightarrow> node \<Rightarrow> (bytes, u16) omap
    \<Rightarrow> (chain_error + prepared_item \<times> bool) \<times> node \<times> (bytes, u16) omap" where
  "prepare_tx x ctx cs t n strikes =
    (case oget (tx_store (stable n)) t of
       None \<Rightarrow> (Inr (simple_drop t DROP_CODE_MISSING, False), n, strikes)
     | Some envelope \<Rightarrow>
         (case try_from x envelope of
            Inl err \<Rightarrow>
              (Inr (simple_drop t (if err = MissingCaller then DROP_CODE_CALLER_MISSING else DROP_CODE_DECODE), True), n, strikes)
          | Inr stored \<Rightarrow>
              let (suppressed, n1) = is_principal_decode_suppressed (st_caller_principal stored) (bx_timestamp ctx) n
              in if suppressed then (Inr (simple_drop t DROP_CODE_DECODE, False), n1, strikes)
                 else case (case st_kind stored of
                              IcSynthetic \<Rightarrow> st_caller_evm stored
                            | EthSigned \<Rightarrow> Some (replicate 20 0)) of
                   None \<Rightarrow>
                     let (n2, strikes2) = note_decode_drop_for_principal (st_caller_principal stored) (bx_timestamp ctx) n1 strikes
                     in (Inr (simple_drop t DROP_CODE_CALLER_MISSING, True), n2, strikes2)
                 | Some caller \<Rightarrow>
                     (case decode_tx (recover x) (st_kind stored) caller (st_raw stored) of
                        Inl _ \<Rightarrow>
                          let (n2, strikes2) = note_decode_drop_for_principal (st_caller_principal stored) (bx_timestamp ctx) n1 strikes
                          in (Inr (PreparedDrop \<lparr>qd_tx_id = t, qd_drop_code = DROP_CODE_DECODE,
                                     qd_sender_override = Some caller, qd_nonce_override = None\<rparr>, True), n2, strikes2)
                      | Inr env \<Rightarrow>
                          (case check_fees ctx cs t env of
                             Inl err \<Rightarrow> (Inl err, n1, strikes)
                           | Inr item \<Rightarrow> (Inr (item, False), n1, strikes)))))"

fun prepare_loop ::
  "ext \<Rightarrow> host \<Rightarrow> block_exec_context \<Rightarrow> chain_state \<Rightarrow> u64 \<Rightarrow> tx_id list \<Rightarrow> nat \<Rightarrow> nat \<Rightarrow> (bytes, u16) omap \<Rightarrow> node
    \<Rightarrow> (chain_error + prepared_item list \<times> nat) \<times> node" where
  "prepare_loop x h ctx cs start [] k drops strikes n = (Inr ([], k), n)"
| "prepare_loop x h ctx cs start (t # ts) k drops strikes n =
    (if should_stop_execution 0 (bx_block_gas_limit ctx) (update_instruction_soft_limit cs) start (ticks h k)
     then (Inr ([], Suc k), n)
     else
       case prepare_tx x ctx cs t n strikes of
         (Inl err, n1, _) \<Rightarrow> (Inl err, n1)
       | (Inr (item, failed), n1, strikes1) \<Rightarrow>
           let drops1 = (if failed then Suc drops else drops)
           in if failed \<and> MAX_DECODE_DROPS_PER_BLOCK \<le> drops1 then (Inr ([item], Suc k), n1)
              else
                let (stop, k1) = (case item of
                       PreparedTx _ \<Rightarrow>
                         (should_stop_execution 0 (bx_block_gas_limit ctx) (update_instruction_soft_limit cs) start (ticks h (Suc k)),
                          Suc (Suc k))
                     | PreparedDrop _ \<Rightarrow> (False, Suc k))
                in if stop then (Inr ([item], k1), n1)
                   else case prepare_loop x h ctx cs start ts k1 drops1 strikes1 n1 of
                     (Inl err, n2) \<Rightarrow> (Inl err, n2)
                   | (Inr (items, k2), n2) \<Rightarrow> (Inr (item # items, k2), n2))"

section \<open>Counting drops\<close>

definition track_drop :: "u16 \<Rightarrow> u64 \<times> u64 list \<Rightarrow> u64 \<times> u64 list" where
  "track_drop code = (\<lambda>(total, by_code).
    (sat_add total 1,
     if unat code < length by_code then by_code[unat code := sat_add (by_code ! unat code) 1] else by_code))"

fun record_drops_from :: "nat \<Rightarrow> u64 list \<Rightarrow> metrics_state \<Rightarrow> metrics_state" where
  "record_drops_from idx [] m = m"
| "record_drops_from idx (count # counts) m =
    record_drops_from (Suc idx) counts (if count > 0 then record_drop (word_of_nat idx) count m else m)"

definition apply_drop :: "ext \<Rightarrow> queued_drop \<Rightarrow> stable_state \<Rightarrow> stable_state option" where
  "apply_drop x d s =
    (case advance_sender_after_tx x advance_fuel (qd_tx_id d) (qd_sender_override d) (qd_nonce_override d) False s of
       None \<Rightarrow> None
     | Some s1 \<Rightarrow> Some (mark_dropped_and_purge_payload x (qd_tx_id d) (qd_drop_code d) s1))"

fun apply_drops :: "ext \<Rightarrow> queued_drop list \<Rightarrow> stable_state \<Rightarrow> stable_state option" where
  "apply_drops x [] s = Some s"
| "apply_drops x (d # ds) s = (case apply_drop x d s of None \<Rightarrow> None | Some s1 \<Rightarrow> apply_drops x ds s1)"

definition apply_drops_only :: "ext \<Rightarrow> queued_drop list \<Rightarrow> u64 list \<Rightarrow> stable_state \<Rightarrow> stable_state option" where
  "apply_drops_only x drops by_code s =
    (case apply_drops x drops s of
       None \<Rightarrow> None
     | Some s1 \<Rightarrow> Some (s1\<lparr>metrics_state_cell := record_drops_from 0 by_code (metrics_state_cell s1)\<rparr>))"

definition record_exec_halt_unknown :: "u64 \<Rightarrow> stable_state \<Rightarrow> stable_state" where
  "record_exec_halt_unknown now s =
    (let m = ops_metrics_cell s;
         m1 = m\<lparr>exec_halt_unknown_count := sat_add (exec_halt_unknown_count m) 1\<rparr>;
         should_warn = (last_exec_halt_unknown_warn_ts m1 = 0
           \<or> OPS_WARN_RATE_LIMIT_SECS \<le> sat_sub now (last_exec_halt_unknown_warn_ts m1))
     in s\<lparr>ops_metrics_cell := (if should_warn then m1\<lparr>last_exec_halt_unknown_warn_ts := now\<rparr> else m1)\<rparr>)"

definition observe_exec_error :: "exec_error \<Rightarrow> u64 \<Rightarrow> stable_state \<Rightarrow> stable_state" where
  "observe_exec_error err now s = (if err = EvmHalt UnknownHalt then record_exec_halt_unknown now s else s)"

definition observe_exec_outcome :: "u64 \<Rightarrow> exec_outcome \<Rightarrow> stable_state \<Rightarrow> stable_state" where
  "observe_exec_outcome now outcome s =
    (if eo_halt_reason outcome = Some UnknownHalt then record_exec_halt_unknown now s else s)"

section \<open>Execution\<close>

text \<open>The accumulators of the execution loop; the tick counts the readings of the instruction counter.\<close>

record exec_state =
  xs_gas_used :: u64
  xs_drops :: "queued_drop list"
  xs_drop_counts :: "u64 \<times> u64 list"
  xs_included :: "staged_included_tx list"
  xs_touched :: "(bytes, unit) omap"
  xs_slots :: u32
  xs_digests :: "bytes list"
  xs_diffs :: "state_diff list"
  xs_db :: "state_diff list"
  xs_stable :: stable_state
  xs_tick :: nat

definition touch_account :: "ext \<Rightarrow> bytes \<times> evm_account \<Rightarrow> (bytes, unit) omap \<times> u32 \<times> bytes list \<Rightarrow> (bytes, unit) omap \<times> u32 \<times> bytes list" where
  "touch_account x = (\<lambda>(address, account) (touched, slots, digests).
    let changed = acc_changed_slots account;
        payload = address @ concat (map (\<lambda>(slot, present). to_be_bytes slot @ to_be_bytes present) changed);
        slot_count = fold (\<lambda>_ c. sat_add c 1) changed 0
    in (oinsert address () touched, sat_add slots slot_count, digests @ [keccak x payload]))"

definition collect_touched_addresses ::
  "ext \<Rightarrow> state_diff \<Rightarrow> (bytes, unit) omap \<times> u32 \<times> bytes list \<Rightarrow> (bytes, unit) omap \<times> u32 \<times> bytes list" where
  "collect_touched_addresses x diff = fold (touch_account x) diff"

definition exec_drop_code :: "exec_error \<Rightarrow> u16" where
  "exec_drop_code err =
    (if err = InvalidGasFee then DROP_CODE_INVALID_FEE
     else if err = ResultTooLarge then DROP_CODE_RESULT_TOO_LARGE
     else if err = InstructionBudgetExceeded then DROP_CODE_INSTRUCTION_BUDGET
     else if err = TxError TxPrecheckFailed then DROP_CODE_EXEC_PRECHECK
     else DROP_CODE_EXEC)"

definition stage_drop :: "prepared_tx \<Rightarrow> u16 \<Rightarrow> exec_state \<Rightarrow> exec_state" where
  "stage_drop p code st =
    st\<lparr>xs_drops := xs_drops st @ [\<lparr>qd_tx_id = pt_tx_id p, qd_drop_code = code,
         qd_sender_override = Some (pt_sender_bytes p), qd_nonce_override = Some (pt_sender_nonce p)\<rparr>],
       xs_drop_counts := track_drop code (xs_drop_counts st)\<rparr>"

definition stage_included :: "ext \<Rightarrow> u64 \<Rightarrow> prepared_tx \<Rightarrow> exec_outcome \<Rightarrow> state_diff \<Rightarrow> exec_state \<Rightarrow> exec_state" where
  "stage_included x now p outcome diff st =
    (let (touched, slots, digests) = collect_touched_addresses x diff (xs_touched st, xs_slots st, xs_digests st)
     in st\<lparr>xs_gas_used := add_block_gas_used (xs_gas_used st) (rcpt_gas_used (eo_receipt outcome)),
           xs_included := xs_included st @ [\<lparr>si_tx_id = pt_tx_id p, si_outcome = outcome,
              si_sender_bytes = pt_sender_bytes p, si_sender_nonce = pt_sender_nonce p\<rparr>],
           xs_touched := touched, xs_slots := slots, xs_digests := digests,
           xs_diffs := xs_diffs st @ [diff], xs_db := xs_db st @ [diff],
           xs_stable := observe_exec_outcome now outcome (xs_stable st)\<rparr>)"

text \<open>One iteration: an error or whether the loop goes on, with the accumulators.\<close>

definition execute_one ::
  "ext \<Rightarrow> engine \<Rightarrow> host \<Rightarrow> block_exec_context \<Rightarrow> u64 \<Rightarrow> u64 \<Rightarrow> prepared_tx \<Rightarrow> exec_state
    \<Rightarrow> ((chain_error + bool) \<times> exec_state) option" where
  "execute_one x e h ctx soft_limit start p st =
    (let now = ticks h (xs_tick st);
         st1 = st\<lparr>xs_tick := Suc (xs_tick st)\<rparr>;
         remaining = remaining_instruction_budget soft_limit start now
     in if should_stop_execution (xs_gas_used st) (bx_block_gas_limit ctx) soft_limit start now then Some (Inr False, st1)
        else if remaining = Some 0 then Some (Inr False, st1)
        else if \<not> tx_fits_block_gas (xs_gas_used st) (bx_block_gas_limit ctx) (te_gas_limit (pt_tx_env p))
        then Some (Inr True, stage_drop p DROP_CODE_BLOCK_GAS_EXCEEDED st1)
        else case next_included_index (length (xs_included st)) of
          None \<Rightarrow> Some (Inl (InvariantViolation ''tx_index.overflow''), st1)
        | Some index \<Rightarrow>
            (case execute_tx_on x e (grow h) (pt_tx_id p) index (pt_tx_env p) ctx UserTx False remaining
                    (xs_db st) (xs_stable st) of
               None \<Rightarrow> None
             | Some (Inl err, db, s1) \<Rightarrow>
                 Some (Inr True, stage_drop p (exec_drop_code err)
                   (st1\<lparr>xs_db := db, xs_stable := observe_exec_error err (bx_timestamp ctx) s1\<rparr>))
             | Some (Inr (outcome, diff), db, s1) \<Rightarrow>
                 let st2 = stage_included x (bx_timestamp ctx) p outcome diff (st1\<lparr>xs_db := db, xs_stable := s1\<rparr>);
                     stop = should_stop_execution (xs_gas_used st2) (bx_block_gas_limit ctx) soft_limit start (ticks h (xs_tick st2))
                 in Some (Inr (\<not> stop), st2\<lparr>xs_tick := Suc (xs_tick st2)\<rparr>)))"

fun execute_loop ::
  "ext \<Rightarrow> engine \<Rightarrow> host \<Rightarrow> block_exec_context \<Rightarrow> u64 \<Rightarrow> u64 \<Rightarrow> prepared_tx list \<Rightarrow> exec_state
    \<Rightarrow> ((chain_error + unit) \<times> exec_state) option" where
  "execute_loop x e h ctx soft_limit start [] st = Some (Inr (), st)"
| "execute_loop x e h ctx soft_limit start (p # ps) st =
    (case execute_one x e h ctx soft_limit start p st of
       None \<Rightarrow> None
     | Some (Inl err, st1) \<Rightarrow> Some (Inl err, st1)
     | Some (Inr go_on, st1) \<Rightarrow>
         if go_on then execute_loop x e h ctx soft_limit start ps st1 else Some (Inr (), st1))"

section \<open>Storing\<close>

definition store_blob :: "grow_fn \<Rightarrow> bytes \<Rightarrow> stable_state \<Rightarrow> (blob_ptr \<times> stable_state) option" where
  "store_blob g bs s =
    (case store_bytes g bs (blob_store_cell s) of
       (BOk ptr, b) \<Rightarrow> Some (ptr, s\<lparr>blob_store_cell := b\<rparr>)
     | _ \<Rightarrow> None)"

definition store_tx_index_entry :: "grow_fn \<Rightarrow> tx_index_entry \<Rightarrow> stable_state \<Rightarrow> (blob_ptr \<times> stable_state) option" where
  "store_tx_index_entry g entry = store_blob g (fst (tx_index_entry_to_bytes entry))"

definition store_receipt :: "grow_fn \<Rightarrow> receipt_like \<Rightarrow> stable_state \<Rightarrow> (blob_ptr \<times> stable_state) option" where
  "store_receipt g receipt = store_blob g (fst (receipt_to_bytes receipt))"

definition store_internal_traces ::
  "grow_fn \<Rightarrow> internal_trace_set \<Rightarrow> stable_state \<Rightarrow> (blob_ptr option \<times> stable_state) option" where
  "store_internal_traces g traces s =
    (if its_total_count traces = 0 then Some (None, s)
     else case internal_trace_bytes traces of
       None \<Rightarrow> None
     | Some bs \<Rightarrow> map_option (\<lambda>(ptr, s1). (Some ptr, s1)) (store_blob g bs s))"

definition store_block :: "grow_fn \<Rightarrow> block_data \<Rightarrow> stable_state \<Rightarrow> (blob_ptr \<times> stable_state) option" where
  "store_block g block s =
    (case store_blob g (fst (block_to_bytes block)) s of
       None \<Rightarrow> None
     | Some (ptr, s1) \<Rightarrow>
         let config = prune_config_cell s1
         in Some (ptr, if oldest_block config = None
                       then s1\<lparr>prune_config_cell := set_oldest (blk_number block) (blk_timestamp block) config\<rparr>
                       else s1))"

definition is_corrupt_block :: "block_data \<Rightarrow> bool" where
  "is_corrupt_block b \<longleftrightarrow> blk_block_hash b = replicate 32 0 \<and> blk_parent_hash b = replicate 32 0 \<and> blk_tx_ids b = []"

definition is_corrupt_receipt :: "receipt_like \<Rightarrow> tx_id \<Rightarrow> bool" where
  "is_corrupt_receipt r t \<longleftrightarrow> rcpt_tx_id r \<noteq> t \<or> rcpt_tx_id r = replicate 32 0"

text \<open>Loading returns None for a missing record; a trap while reading does not arise here and is None as
  well.\<close>

definition load_block :: "stable_state \<Rightarrow> u64 \<Rightarrow> block_data option" where
  "load_block s number =
    (case oget (blocks s) number of
       None \<Rightarrow> None
     | Some ptr \<Rightarrow>
         (case blob_read ptr (blob_store_cell s) of
            BOk bs \<Rightarrow> let block = fst (block_from_bytes bs) in if is_corrupt_block block then None else Some block
          | _ \<Rightarrow> None))"

definition load_receipt :: "stable_state \<Rightarrow> tx_id \<Rightarrow> receipt_like option" where
  "load_receipt s t =
    (case oget (receipts s) t of
       None \<Rightarrow> None
     | Some ptr \<Rightarrow>
         (case blob_read ptr (blob_store_cell s) of
            BOk bs \<Rightarrow> let receipt = fst (receipt_from_bytes bs) in if is_corrupt_receipt receipt t then None else Some receipt
          | _ \<Rightarrow> None))"

definition get_tx_envelope :: "stable_state \<Rightarrow> tx_id \<Rightarrow> stored_tx_bytes option" where
  "get_tx_envelope s t =
    (case oget (tx_store s) t of None \<Rightarrow> None | Some envelope \<Rightarrow> if stb_is_invalid envelope then None else Some envelope)"

definition included_tx_loc :: "u64 \<Rightarrow> u32 \<Rightarrow> tx_loc" where
  "included_tx_loc block_number index = tx_loc_included block_number index"

section \<open>Persisting the block\<close>

record staged_persist =
  sp_tx_id :: tx_id
  sp_tx_index :: u32
  sp_tx_index_ptr :: blob_ptr
  sp_receipt_ptr :: blob_ptr
  sp_internal_traces_ptr :: "blob_ptr option"
  sp_sender_bytes :: bytes
  sp_sender_nonce :: u64

definition persist_one :: "grow_fn \<Rightarrow> u64 \<Rightarrow> staged_included_tx \<Rightarrow> stable_state \<Rightarrow> (staged_persist \<times> stable_state) option" where
  "persist_one g number inc s = do {
     let out = si_outcome inc;
     (index_ptr, s1) \<leftarrow> store_tx_index_entry g \<lparr>tie_block_number = number, tie_tx_index = eo_tx_index out\<rparr> s;
     (receipt_ptr, s2) \<leftarrow> store_receipt g (eo_receipt out) s1;
     (traces_ptr, s3) \<leftarrow> store_internal_traces g (eo_internal_traces out) s2;
     Some (\<lparr>sp_tx_id = si_tx_id inc, sp_tx_index = eo_tx_index out, sp_tx_index_ptr = index_ptr,
            sp_receipt_ptr = receipt_ptr, sp_internal_traces_ptr = traces_ptr,
            sp_sender_bytes = si_sender_bytes inc, sp_sender_nonce = si_sender_nonce inc\<rparr>, s3)
   }"

fun persist_all :: "grow_fn \<Rightarrow> u64 \<Rightarrow> staged_included_tx list \<Rightarrow> stable_state \<Rightarrow> (staged_persist list \<times> stable_state) option" where
  "persist_all g number [] s = Some ([], s)"
| "persist_all g number (inc # incs) s = do {
     (sp, s1) \<leftarrow> persist_one g number inc s;
     (sps, s2) \<leftarrow> persist_all g number incs s1;
     Some (sp # sps, s2)
   }"

definition index_included :: "ext \<Rightarrow> u64 \<Rightarrow> staged_persist \<Rightarrow> stable_state \<Rightarrow> stable_state option" where
  "index_included x number sp s =
    (let t = sp_tx_id sp;
         s1 = s\<lparr>tx_index := oinsert t (sp_tx_index_ptr sp) (tx_index s), receipts := oinsert t (sp_receipt_ptr sp) (receipts s)\<rparr>;
         s2 = (case sp_internal_traces_ptr sp of
                 Some ptr \<Rightarrow> s1\<lparr>internal_traces := oinsert t ptr (internal_traces s1)\<rparr>
               | None \<Rightarrow> s1);
         s3 = tx_locs_insert t (included_tx_loc number (sp_tx_index sp)) s2
     in advance_sender_after_tx x advance_fuel t (Some (sp_sender_bytes sp)) (Some (sp_sender_nonce sp)) True s3)"

fun index_all :: "ext \<Rightarrow> u64 \<Rightarrow> staged_persist list \<Rightarrow> stable_state \<Rightarrow> stable_state option" where
  "index_all x number [] s = Some s"
| "index_all x number (sp # sps) s = (case index_included x number sp s of None \<Rightarrow> None | Some s1 \<Rightarrow> index_all x number sps s1)"

definition advance_head :: "ext \<Rightarrow> block_data \<Rightarrow> blob_ptr \<Rightarrow> u64 \<times> u64 list \<Rightarrow> stable_state \<Rightarrow> stable_state" where
  "advance_head x block block_ptr counts s =
    (let number = blk_number block;
         s1 = s\<lparr>blocks := oinsert number block_ptr (blocks s),
                head_cell := \<lparr>head_number = number, head_block_hash = blk_block_hash block, head_timestamp = blk_timestamp block\<rparr>\<rparr>;
         cs = chain_state_cell s1;
         cs1 = cs\<lparr>last_block_number := number, last_block_time := blk_timestamp block,
                  base_fee := compute_next_base_fee (base_fee cs) (blk_gas_used block) (block_gas_limit cs)\<rparr>;
         s2 = rebuild_pending_fee_index_for_base_fee x (base_fee cs1) (s1\<lparr>chain_state_cell := cs1\<rparr>);
         txs = word_of_nat (length (blk_tx_ids block));
         m = record_block number (blk_timestamp block) txs (fst counts)
               (record_included txs (record_drops_from 0 (snd counts) (metrics_state_cell s2)))
     in s2\<lparr>metrics_state_cell := m\<rparr>)"

definition persist_block ::
  "ext \<Rightarrow> host \<Rightarrow> block_data \<Rightarrow> exec_state \<Rightarrow> stable_state \<Rightarrow> stable_state option" where
  "persist_block x h block st s = do {
     s1 \<leftarrow> apply_drops x (xs_drops st) s;
     (staged, s2) \<leftarrow> persist_all (grow h) (blk_number block) (xs_included st) s1;
     if classify_persist_batch (length (xs_included st)) (length staged) \<noteq> PersistCommit then None
     else do {
       (block_ptr, s3) \<leftarrow> store_block (grow h) block s2;
       s4 \<leftarrow> index_all x (blk_number block) staged s3;
       Some (advance_head x block block_ptr (xs_drop_counts st) s4)
     }
   }"

section \<open>The whole block\<close>

definition exec_start :: "queued_drop list \<Rightarrow> nat \<Rightarrow> stable_state \<Rightarrow> exec_state" where
  "exec_start drops k s =
    \<lparr>xs_gas_used = 0, xs_drops = drops,
     xs_drop_counts = fold track_drop (map qd_drop_code drops) (0, replicate DROP_CODE_SLOTS 0),
     xs_included = [], xs_touched = oempty, xs_slots = 0, xs_digests = [], xs_diffs = [], xs_db = [],
     xs_stable = s, xs_tick = k\<rparr>"

definition seal_block ::
  "ext \<Rightarrow> engine \<Rightarrow> host \<Rightarrow> block_exec_context \<Rightarrow> bytes \<Rightarrow> exec_state
    \<Rightarrow> ((chain_error + produce_block_outcome) \<times> stable_state) option" where
  "seal_block x e h ctx parent_hash st =
    (let ids = map si_tx_id (xs_included st);
         list_hash = tx_list_hash x ids;
         touched = okeys (xs_touched st);
         summary = \<lparr>ts_accounts_count = u32_of_len (length touched), ts_slots_count = xs_slots st,
                    ts_delta_digest = keccak256_concat_chunks x (xs_digests st)\<rparr>;
         s = xs_stable st
     in case prepare_root h s (xs_diffs st) touched summary (bx_block_number ctx) parent_hash (bx_timestamp ctx) of
          Inl reason \<Rightarrow> Some (Inl (InvariantViolation reason), s)
        | Inr root \<Rightarrow>
            let s1 = fold (commit (revm e)) (xs_diffs st) s;
                block = \<lparr>blk_number = bx_block_number ctx, blk_parent_hash = parent_hash,
                  blk_block_hash = block_hash x parent_hash (bx_block_number ctx) (bx_timestamp ctx) list_hash root,
                  blk_timestamp = bx_timestamp ctx, blk_base_fee_per_gas = bx_base_fee ctx,
                  blk_block_gas_limit = bx_block_gas_limit ctx, blk_gas_used = xs_gas_used st,
                  blk_beneficiary = FEE_RECIPIENT, blk_tx_ids = ids, blk_tx_list_hash = list_hash, blk_state_root = root\<rparr>
            in map_option (\<lambda>s2. (Inr \<lparr>po_block = block, po_gas_used = xs_gas_used st, po_dropped = fst (xs_drop_counts st)\<rparr>, s2))
                 (persist_block x h block st s1))"

definition drops_of :: "prepared_item list \<Rightarrow> queued_drop list" where
  "drops_of items = concat (map (\<lambda>i. case i of PreparedDrop d \<Rightarrow> [d] | PreparedTx _ \<Rightarrow> []) items)"

definition txs_of :: "prepared_item list \<Rightarrow> prepared_tx list" where
  "txs_of items = concat (map (\<lambda>i. case i of PreparedDrop _ \<Rightarrow> [] | PreparedTx p \<Rightarrow> [p]) items)"

definition execute_and_seal ::
  "ext \<Rightarrow> engine \<Rightarrow> host \<Rightarrow> block_exec_context \<Rightarrow> u64 \<Rightarrow> u64 \<Rightarrow> bytes \<Rightarrow> prepared_item list \<Rightarrow> nat \<Rightarrow> stable_state
    \<Rightarrow> ((chain_error + produce_block_outcome) \<times> stable_state) option" where
  "execute_and_seal x e h ctx soft_limit start parent_hash items k s =
    (let st0 = exec_start (drops_of items) k s;
         give_up = (\<lambda>st. map_option (\<lambda>s1. (Inl NoExecutableTx, s1))
           (apply_drops_only x (xs_drops st) (snd (xs_drop_counts st)) (xs_stable st)))
     in if txs_of items = [] then give_up st0
        else case execute_loop x e h ctx soft_limit start (txs_of items) st0 of
          None \<Rightarrow> None
        | Some (Inl err, st) \<Rightarrow> Some (Inl err, xs_stable st)
        | Some (Inr _, st) \<Rightarrow>
            if xs_included st = [] then give_up st else seal_block x e h ctx parent_hash st)"

definition produce_block ::
  "ext \<Rightarrow> engine \<Rightarrow> host \<Rightarrow> nat \<Rightarrow> node \<Rightarrow> ((chain_error + produce_block_outcome) \<times> node) option" where
  "produce_block x e h max_txs n =
    (if \<not> valid_block_limit max_txs then Some (Inl InvalidLimit, n)
     else
       let s = stable n;
           cs = chain_state_cell s;
           timestamp = next_block_timestamp (head_timestamp (head_cell s)) (now_sec h);
           ctx = \<lparr>bx_block_number = next_block_number (head_number (head_cell s)), bx_timestamp = timestamp,
                  bx_base_fee = base_fee cs, bx_block_gas_limit = block_gas_limit cs\<rparr>;
           candidates = select_ready_candidates x (base_fee cs) max_txs s
       in if candidates = [] then Some (Inl QueueEmpty, n)
          else case prepare_loop x h ctx cs (ticks h 0) candidates 1 0 oempty n of
            (Inl err, n1) \<Rightarrow> Some (Inl err, n1)
          | (Inr (items, k), n1) \<Rightarrow>
              map_option (\<lambda>(r, s1). (r, n1\<lparr>stable := s1\<rparr>))
                (execute_and_seal x e h ctx (update_instruction_soft_limit cs) (ticks h 0) (head_block_hash (head_cell s))
                   items k (stable n1)))"

end
