(* ===== verification/Prune.thy ===== *)
theory Prune
  imports Block_Production
begin

text \<open>
  Pruning (\<open>prune_tick\<close>, \<open>prune_blocks\<close> and their helpers in \<open>evm-core/src/chain.rs\<close>): old blocks are removed
  one after the other, each after its blob pointers are written to a journal, so that an interrupted
  removal is completed by the next call.

  The sizes of the memories the estimate adds up are an argument. None stands for a trap of the canister.
\<close>

section \<open>Status and policy\<close>

abbreviation WASM_PAGE_SIZE_BYTES :: u64 where "WASM_PAGE_SIZE_BYTES \<equiv> 65536"

record prune_result =
  pr_did_work :: bool
  pr_remaining :: u64
  pr_pruned_before_block :: "u64 option"

record prune_status =
  ps_pruning_enabled :: bool
  ps_prune_running :: bool
  ps_estimated_kept_bytes :: u64
  ps_high_water_bytes :: u64
  ps_low_water_bytes :: u64
  ps_hard_emergency_bytes :: u64
  ps_last_prune_at :: u64
  ps_pruned_before_block :: "u64 option"
  ps_oldest_kept_block :: "u64 option"
  ps_oldest_kept_timestamp :: "u64 option"
  ps_need_prune :: bool

definition set_prune_policy :: "prune_policy \<Rightarrow> stable_state \<Rightarrow> stable_state" where
  "set_prune_policy policy s = s\<lparr>prune_config_cell := set_policy policy (prune_config_cell s)\<rparr>"

definition set_pruning_enabled :: "bool \<Rightarrow> stable_state \<Rightarrow> stable_state" where
  "set_pruning_enabled enabled s = s\<lparr>prune_config_cell := (prune_config_cell s)\<lparr>pruning_enabled := enabled\<rparr>\<rparr>"

definition recompute_estimated_kept_bytes_value :: "u64 list \<Rightarrow> stable_state \<Rightarrow> u64" where
  "recompute_estimated_kept_bytes_value memory_pages s =
    (let non_blob_pages = fold (\<lambda>p acc. sat_add acc p) memory_pages 0;
         non_blob_bytes = sat_mul non_blob_pages WASM_PAGE_SIZE_BYTES
     in sat_add non_blob_bytes (used_class_bytes (usage_stats (blob_store_cell s))))"

definition recompute_estimated_kept_bytes :: "u64 list \<Rightarrow> stable_state \<Rightarrow> u64 \<times> stable_state" where
  "recompute_estimated_kept_bytes memory_pages s =
    (let estimated = recompute_estimated_kept_bytes_value memory_pages s
     in (estimated, s\<lparr>prune_config_cell := (prune_config_cell s)\<lparr>estimated_kept_bytes := estimated\<rparr>\<rparr>))"

definition need_prune_internal :: "stable_state \<Rightarrow> u64 \<Rightarrow> bool" where
  "need_prune_internal s estimated =
    (let c = prune_config_cell s
     in need_prune (retain_days c) (oldest_timestamp c) (head_timestamp (head_cell s)) (target_bytes c) estimated (high_water_bytes c))"

definition get_prune_status :: "u64 list \<Rightarrow> stable_state \<Rightarrow> prune_status" where
  "get_prune_status memory_pages s =
    (let c = prune_config_cell s;
         estimated = recompute_estimated_kept_bytes_value memory_pages s
     in \<lparr>ps_pruning_enabled = pruning_enabled c, ps_prune_running = prune_running c, ps_estimated_kept_bytes = estimated,
         ps_high_water_bytes = high_water_bytes c, ps_low_water_bytes = low_water_bytes c,
         ps_hard_emergency_bytes = hard_emergency_bytes c, ps_last_prune_at = last_prune_at c,
         ps_pruned_before_block = pruned_before (prune_state_cell s), ps_oldest_kept_block = oldest_block c,
         ps_oldest_kept_timestamp = oldest_timestamp c, ps_need_prune = need_prune_internal s estimated\<rparr>)"

section \<open>Finding blocks\<close>

definition find_next_existing_block :: "stable_state \<Rightarrow> u64 \<Rightarrow> (u64 \<times> u64) option" where
  "find_next_existing_block s start =
    (case filter (\<lambda>n. load_block s n \<noteq> None) (map fst (orange_from start (blocks s))) of
       [] \<Rightarrow> None
     | n # _ \<Rightarrow> (case load_block s n of Some b \<Rightarrow> Some (n, blk_timestamp b) | None \<Rightarrow> None))"

definition oldest_candidate :: "stable_state \<Rightarrow> (u64 \<times> u64) option" where
  "oldest_candidate s =
    find_next_existing_block s (case pruned_before (prune_state_cell s) of Some v \<Rightarrow> sat_add v 1 | None \<Rightarrow> 0)"

definition refresh_oldest :: "stable_state \<Rightarrow> stable_state" where
  "refresh_oldest s =
    (case oldest_candidate s of
       Some (number, timestamp) \<Rightarrow> s\<lparr>prune_config_cell := set_oldest number timestamp (prune_config_cell s)\<rparr>
     | None \<Rightarrow> s)"

definition ensure_oldest :: "stable_state \<Rightarrow> prune_config \<Rightarrow> prune_config" where
  "ensure_oldest s c =
    (if oldest_block c \<noteq> None then c
     else case oldest_candidate s of
       Some (number, timestamp) \<Rightarrow> set_oldest number timestamp c
     | None \<Rightarrow> c)"

text \<open>The binary search of \<open>find_block_at_timestamp\<close>. At the last representable block number the code would
  search for ever, so this is a partial function.\<close>

partial_function (option) find_block_loop ::
  "stable_state \<Rightarrow> u64 \<Rightarrow> u64 \<Rightarrow> u64 \<Rightarrow> (u64 \<times> u64) option \<Rightarrow> (u64 \<times> u64) option option" where
  "find_block_loop s cutoff low high best =
    (if high < low then Some best
     else
       let mid = low + (high - low) div 2
       in case load_block s mid of
            None \<Rightarrow> Some best
          | Some b \<Rightarrow>
              if blk_timestamp b \<le> cutoff then find_block_loop s cutoff (sat_add mid 1) high (Some (mid, blk_timestamp b))
              else if mid = 0 then Some best
              else find_block_loop s cutoff low (sat_sub mid 1) best)"

definition find_block_at_timestamp :: "stable_state \<Rightarrow> u64 \<Rightarrow> (u64 \<times> u64) option option" where
  "find_block_at_timestamp s cutoff =
    find_block_loop s cutoff (case oldest_block (prune_config_cell s) of Some n \<Rightarrow> n | None \<Rightarrow> 0)
      (head_number (head_cell s)) None"

definition compute_retain_count :: "prune_policy \<Rightarrow> u64 \<Rightarrow> stable_state \<Rightarrow> u64 option" where
  "compute_retain_count policy estimated s = do {
     cutoff \<leftarrow> (if po_retain_days policy > 0
        then map_option (map_option fst)
               (find_block_at_timestamp s (sat_sub (head_timestamp (head_cell s)) (sat_mul (po_retain_days policy) 86400)))
        else Some None);
     Some (retain_count
       \<lparr>ri_head_block = head_number (head_cell s), ri_target_bytes = po_target_bytes policy, ri_estimated_kept_bytes = estimated,
        ri_high_water_bytes = high_water_bytes (prune_config_cell s),
        ri_hard_emergency_bytes = hard_emergency_bytes (prune_config_cell s),
        ri_retain_blocks = po_retain_blocks policy, ri_retain_days = po_retain_days policy, ri_cutoff_block = cutoff\<rparr>)
   }"

section \<open>Removing a block\<close>

definition prune_ops_needed_for_tx :: "ext \<Rightarrow> tx_id \<Rightarrow> stable_state \<Rightarrow> u64 option" where
  "prune_ops_needed_for_tx x t s =
    (let envelope = oget (tx_store s) t;
         presence = \<lparr>pp_pending_fee_index = oget (pending_fee_key_by_tx_id s) t \<noteq> None, pp_principal_pending_count = False,
           pp_eth_tx_hash_index = False, pp_tx_store = envelope \<noteq> None, pp_receipt = oget (receipts s) t \<noteq> None,
           pp_tx_index = oget (tx_index s) t \<noteq> None, pp_internal_traces = oget (internal_traces s) t \<noteq> None,
           pp_tx_loc = tx_locs_get s t \<noteq> None, pp_seen_tx = oget (seen_tx s) t \<noteq> None\<rparr>
     in case Option.bind envelope (\<lambda>e. case try_from x e of Inl _ \<Rightarrow> None | Inr stored \<Rightarrow> Some stored) of
          None \<Rightarrow> Some (prune_ops_needed presence)
        | Some stored \<Rightarrow> do {
            key \<leftarrow> caller_key_from_principal (st_caller_principal stored);
            Some (prune_ops_needed (presence
              \<lparr>pp_principal_pending_count := oget (principal_pending_count s) key \<noteq> None,
               pp_eth_tx_hash_index := st_kind stored = EthSigned \<and> oget (eth_tx_hash_index s) (keccak x (st_raw stored)) \<noteq> None\<rparr>))
          })"

fun prune_ops_needed_for_txs :: "ext \<Rightarrow> tx_id list \<Rightarrow> stable_state \<Rightarrow> u64 \<Rightarrow> u64 option" where
  "prune_ops_needed_for_txs x [] s acc = Some acc"
| "prune_ops_needed_for_txs x (t # ts) s acc = do {
     needed \<leftarrow> prune_ops_needed_for_tx x t s;
     prune_ops_needed_for_txs x ts s (sat_add acc needed)
   }"

definition prune_ops_needed_for_block :: "ext \<Rightarrow> u64 \<Rightarrow> block_data \<Rightarrow> stable_state \<Rightarrow> u64 option" where
  "prune_ops_needed_for_block x number b s =
    prune_ops_needed_for_txs x (blk_tx_ids b) s (if oget (blocks s) number \<noteq> None then sat_add 0 1 else 0)"

definition tx_ptrs :: "stable_state \<Rightarrow> tx_id \<Rightarrow> blob_ptr list" where
  "tx_ptrs s t = concat (map (\<lambda>p. case p of Some ptr \<Rightarrow> [ptr] | None \<Rightarrow> [])
    [oget (receipts s) t, oget (tx_index s) t, oget (internal_traces s) t])"

definition collect_ptrs_for_block :: "stable_state \<Rightarrow> u64 \<Rightarrow> block_data \<Rightarrow> blob_ptr list" where
  "collect_ptrs_for_block s number b =
    (case oget (blocks s) number of Some ptr \<Rightarrow> [ptr] | None \<Rightarrow> []) @ concat (map (tx_ptrs s) (blk_tx_ids b))"

definition remove_block_tx :: "ext \<Rightarrow> tx_id \<Rightarrow> stable_state \<Rightarrow> stable_state option" where
  "remove_block_tx x t s = do {
     let s1 = remove_pending_fee_index_by_tx_id t s;
     s2 \<leftarrow> decrement_principal_pending_count_for_tx x t s1;
     let s3 = s2\<lparr>receipts := oremove t (receipts s2), tx_index := oremove t (tx_index s2),
                 internal_traces := oremove t (internal_traces s2)\<rparr>;
     let s4 = remove_eth_tx_hash_index_for_tx_id x t (tx_locs_remove t s3);
     Some (s4\<lparr>tx_store := oremove t (tx_store s4), seen_tx := oremove t (seen_tx s4)\<rparr>)
   }"

fun remove_block_txs :: "ext \<Rightarrow> tx_id list \<Rightarrow> stable_state \<Rightarrow> stable_state option" where
  "remove_block_txs x [] s = Some s"
| "remove_block_txs x (t # ts) s = do {
     s1 \<leftarrow> remove_block_tx x t s;
     remove_block_txs x ts s1
   }"

text \<open>Reclaiming stops at the first error.\<close>

fun reclaim_all :: "blob_ptr list \<Rightarrow> blob_store \<Rightarrow> ((chain_error + unit) \<times> blob_store) option" where
  "reclaim_all [] b = Some (Inr (), b)"
| "reclaim_all (p # ps) b =
    (case reclaim_for_prune p b of
       (BOk _, b1) \<Rightarrow> reclaim_all ps b1
     | (BErr _, b1) \<Rightarrow> Some (Inl (ExecFailed None), b1)
     | (BTrap, _) \<Rightarrow> None)"

section \<open>Recovery\<close>

definition normalized_next :: "prune_state \<Rightarrow> u64" where
  "normalized_next ps =
    normalize_next_prune_block \<lparr>pc_next_prune_block = next_prune_block ps, pc_pruned_before_block = pruned_before ps\<rparr>"

text \<open>Completing the block of a journal entry; the second component is the cursor the code works with.\<close>

definition replay_journal :: "ext \<Rightarrow> u64 \<Rightarrow> prune_state \<Rightarrow> stable_state \<Rightarrow> ((chain_error + prune_state) \<times> stable_state) option" where
  "replay_journal x number ps s =
    (case oget (prune_journal s) number of
       None \<Rightarrow> Some (Inr ps, s)
     | Some ptrs \<Rightarrow> do {
         (ps1, s1) \<leftarrow> (case load_block s number of
            None \<Rightarrow> Some (ps, s)
          | Some b \<Rightarrow> do {
              s1 \<leftarrow> remove_block_txs x (blk_tx_ids b) (s\<lparr>blocks := oremove number (blocks s)\<rparr>);
              Some (case recover_pruned_before (pruned_before ps) number of
                      Some pruned \<Rightarrow> set_pruned_before pruned ps
                    | None \<Rightarrow> ps, s1)
            });
         (r, b) \<leftarrow> reclaim_all ptrs (blob_store_cell s1);
         let s2 = s1\<lparr>blob_store_cell := b\<rparr>;
         Some (case r of
                 Inl err \<Rightarrow> (Inl err, s2)
               | Inr _ \<Rightarrow> (Inr ps1, s2\<lparr>prune_journal := oremove number (prune_journal s2)\<rparr>))
       })"

definition recover_prune_journal :: "ext \<Rightarrow> stable_state \<Rightarrow> ((chain_error + unit) \<times> stable_state) option" where
  "recover_prune_journal x s =
    (let ps = prune_state_cell s;
         finish = (\<lambda>number ps s. do {
           (r, s1) \<leftarrow> replay_journal x number ps s;
           Some (case r of
                   Inl err \<Rightarrow> (Inl err, s1)
                 | Inr ps1 \<Rightarrow>
                     let ps2 = clear_journal ps1
                     in (Inr (), refresh_oldest (s1\<lparr>prune_state_cell := ps2\<lparr>next_prune_block := normalized_next ps2\<rparr>\<rparr>)))
         })
     in case journal_block ps of
          Some number \<Rightarrow> finish number ps s
        | None \<Rightarrow>
            (case ofirst (prune_journal s) of
               Some (number, _) \<Rightarrow>
                 let ps1 = set_journal_block number ps in finish number ps1 (s\<lparr>prune_state_cell := ps1\<rparr>)
             | None \<Rightarrow> Some (Inr (), s\<lparr>prune_state_cell := ps\<lparr>next_prune_block := normalized_next ps\<rparr>\<rparr>)))"

section \<open>Pruning\<close>

text \<open>Removing the block at the cursor: journal, deletes, reclaimed blobs.\<close>

definition prune_one ::
  "ext \<Rightarrow> u64 \<Rightarrow> block_data \<Rightarrow> prune_state \<Rightarrow> stable_state \<Rightarrow> ((chain_error + u64 \<times> prune_state) \<times> stable_state) option" where
  "prune_one x number block ps s = do {
     let ptrs = collect_ptrs_for_block s number block;
     let ps1 = set_journal_block number ps;
     let s1 = s\<lparr>prune_journal := oinsert number ptrs (prune_journal s), prune_state_cell := ps1\<rparr>;
     s2 \<leftarrow> remove_block_txs x (blk_tx_ids block) (s1\<lparr>blocks := oremove number (blocks s1)\<rparr>);
     let cursor = advance_after_pruned_block number;
     let ps2 = set_pruned_before (case pc_pruned_before_block cursor of Some v \<Rightarrow> v | None \<Rightarrow> number) ps1;
     let next = pc_next_prune_block cursor;
     (r, b) \<leftarrow> reclaim_all ptrs (blob_store_cell s2);
     let s3 = s2\<lparr>blob_store_cell := b\<rparr>;
     Some (case r of
             Inl err \<Rightarrow> (Inl err, s3)
           | Inr _ \<Rightarrow>
               let ps3 = clear_journal ps2
               in (Inr (next, ps3), s3\<lparr>prune_journal := oremove (sat_sub next 1) (prune_journal s3), prune_state_cell := ps3\<rparr>))
   }"

text \<open>The loop of \<open>prune_blocks\<close>; it returns the cursor, the working copy of the prune state and whether it
  did something.\<close>

partial_function (option) prune_loop ::
  "ext \<Rightarrow> u64 \<Rightarrow> u64 \<Rightarrow> u64 \<Rightarrow> u64 \<Rightarrow> bool \<Rightarrow> prune_state \<Rightarrow> stable_state
    \<Rightarrow> ((chain_error + u64 \<times> bool \<times> prune_state) \<times> stable_state) option" where
  "prune_loop x prune_before max_ops next ops_used did_work ps s =
    (if prune_before < next then Some (Inr (next, did_work, ps), s)
     else case load_block s next of
       None \<Rightarrow>
         let cursor = advance_after_pruned_block next
         in prune_loop x prune_before max_ops (pc_next_prune_block cursor) ops_used True
              (set_pruned_before (case pc_pruned_before_block cursor of Some v \<Rightarrow> v | None \<Rightarrow> next) ps) s
     | Some block \<Rightarrow> do {
         needed \<leftarrow> prune_ops_needed_for_block x next block s;
         if max_ops < sat_add ops_used needed then Some (Inr (next, did_work, ps), s)
         else do {
           (r, s1) \<leftarrow> prune_one x next block ps s;
           case r of
             Inl err \<Rightarrow> Some (Inl err, s1)
           | Inr (next1, ps1) \<Rightarrow> prune_loop x prune_before max_ops next1 (sat_add ops_used needed) True ps1 s1
         }
       })"

definition prune_blocks :: "ext \<Rightarrow> u64 \<Rightarrow> u32 \<Rightarrow> stable_state \<Rightarrow> ((chain_error + prune_result) \<times> stable_state) option" where
  "prune_blocks x retain max_ops s0 =
    (if retain = 0 \<or> max_ops = 0 then Some (Inl InvalidLimit, s0)
     else do {
       (recovered, s) \<leftarrow> recover_prune_journal x s0;
       case recovered of
         Inl err \<Rightarrow> Some (Inl err, s)
       | Inr _ \<Rightarrow>
           let idle = \<lparr>pr_did_work = False, pr_remaining = 0, pr_pruned_before_block = pruned_before (prune_state_cell s)\<rparr>
           in if head_number (head_cell s) \<le> retain then Some (Inr idle, s)
              else case prune_before_block (head_number (head_cell s)) retain of
                None \<Rightarrow> Some (Inr idle, s)
              | Some before \<Rightarrow> do {
                  (r, s1) \<leftarrow> prune_loop x before (ucast max_ops) (normalized_next (prune_state_cell s)) 0 False (prune_state_cell s) s;
                  Some (case r of
                          Inl err \<Rightarrow> (Inl err, s1)
                        | Inr (next, did_work, ps) \<Rightarrow>
                            (Inr \<lparr>pr_did_work = did_work, pr_remaining = remaining_blocks next before,
                                  pr_pruned_before_block = pruned_before ps\<rparr>,
                             refresh_oldest (s1\<lparr>prune_state_cell := ps\<lparr>next_prune_block := next\<rparr>\<rparr>)))
                }
     })"

definition prune_tick :: "ext \<Rightarrow> u64 list \<Rightarrow> stable_state \<Rightarrow> ((chain_error + prune_result) \<times> stable_state) option" where
  "prune_tick x memory_pages s0 =
    (let (estimated, s1) = recompute_estimated_kept_bytes memory_pages s0;
         config = ensure_oldest s1 (prune_config_cell s1);
         s2 = s1\<lparr>prune_config_cell := config\<rparr>;
         idle = Some (Inr \<lparr>pr_did_work = False, pr_remaining = 0, pr_pruned_before_block = pruned_before (prune_state_cell s2)\<rparr>, s2)
     in if \<not> pruning_enabled config \<or> prune_running config \<or> \<not> need_prune_internal s2 estimated then idle
        else do {
          let s3 = s2\<lparr>prune_config_cell := config\<lparr>prune_running := True\<rparr>\<rparr>;
          let policy = prune_config_policy (prune_config_cell s3);
          retain \<leftarrow> compute_retain_count policy (estimated_kept_bytes (prune_config_cell s3)) s3;
          (r, s4) \<leftarrow> prune_blocks x retain (po_max_ops_per_tick policy) s3;
          Some (r, s4\<lparr>prune_config_cell := (prune_config_cell s4)\<lparr>prune_running := False, last_prune_at := head_timestamp (head_cell s3)\<rparr>\<rparr>)
        })"

end
