(* ===== verification/Blob_Refs.thy ===== *)
theory Blob_Refs
  imports Block_Production
begin

text \<open>
  Which tables of the chain point into the blob store, and what they promise: every pointer they hold is
  live, and no slot is shared by two of them. Storing a blob and then recording its pointer keeps this,
  and leaves what every other entry reads unchanged.
\<close>

datatype blob_ref = BlockRef u64 | ReceiptRef tx_id | IndexRef tx_id | TraceRef tx_id

fun ref_get :: "stable_state \<Rightarrow> blob_ref \<Rightarrow> blob_ptr option" where
  "ref_get s (BlockRef n) = oget (blocks s) n"
| "ref_get s (ReceiptRef t) = oget (receipts s) t"
| "ref_get s (IndexRef t) = oget (tx_index s) t"
| "ref_get s (TraceRef t) = oget (internal_traces s) t"

text \<open>\<open>held ps s\<close>: the references are in order, and so are the pointers \<open>ps\<close> stored but not recorded yet.\<close>

definition held :: "blob_ptr list \<Rightarrow> stable_state \<Rightarrow> bool" where
  "held ps s \<longleftrightarrow> blob_inv (blob_store_cell s)
    \<and> (\<forall>r p. ref_get s r = Some p \<longrightarrow> live p (blob_store_cell s) \<and> ptr_key p \<notin> ptr_key ` set ps)
    \<and> (\<forall>r p r' p'. ref_get s r = Some p \<longrightarrow> ref_get s r' = Some p' \<longrightarrow> ptr_key p = ptr_key p' \<longrightarrow> r = r')
    \<and> distinct (map ptr_key ps) \<and> (\<forall>p\<in>set ps. live p (blob_store_cell s))"

abbreviation refs_ok :: "stable_state \<Rightarrow> bool" where
  "refs_ok \<equiv> held []"

definition read_ptr :: "stable_state \<Rightarrow> blob_ptr \<Rightarrow> bytes option" where
  "read_ptr s p = (case blob_read p (blob_store_cell s) of BOk bs \<Rightarrow> Some bs | _ \<Rightarrow> None)"

definition ref_read :: "stable_state \<Rightarrow> blob_ref \<Rightarrow> bytes option" where
  "ref_read s r = Option.bind (ref_get s r) (read_ptr s)"

lemma heldD:
  assumes "held ps s"
  shows "blob_inv (blob_store_cell s)" and "ref_get s r = Some p \<Longrightarrow> live p (blob_store_cell s)"
    and "ref_get s r = Some p \<Longrightarrow> q \<in> set ps \<Longrightarrow> ptr_key p \<noteq> ptr_key q"
    and "ref_get s r = Some p \<Longrightarrow> ref_get s r' = Some p' \<Longrightarrow> ptr_key p = ptr_key p' \<Longrightarrow> r = r'"
    and "distinct (map ptr_key ps)" and "q \<in> set ps \<Longrightarrow> live q (blob_store_cell s)"
  using assms unfolding held_def by blast+

lemma held_cong:
  "blob_store_cell s' = blob_store_cell s \<Longrightarrow> ref_get s' = ref_get s \<Longrightarrow> held ps s' \<longleftrightarrow> held ps s"
  by (simp add: held_def)

lemma ref_read_cong:
  "blob_store_cell s' = blob_store_cell s \<Longrightarrow> ref_get s' r = ref_get s r \<Longrightarrow> ref_read s' r = ref_read s r"
  by (cases "ref_get s r") (simp_all add: ref_read_def read_ptr_def)

lemma ref_get_cong:
  "blocks s' = blocks s \<Longrightarrow> receipts s' = receipts s \<Longrightarrow> tx_index s' = tx_index s \<Longrightarrow>
    internal_traces s' = internal_traces s \<Longrightarrow> ref_get s' = ref_get s"
proof
  fix r
  assume "blocks s' = blocks s" "receipts s' = receipts s" "tx_index s' = tx_index s" "internal_traces s' = internal_traces s"
  then show "ref_get s' r = ref_get s r"
    by (cases r) simp_all
qed

text \<open>Storing.\<close>

lemma store_blob_held:
  assumes "held ps s" and "store_blob g bs s = Some (p, s')"
  shows "held (p # ps) s'" and "s' = s\<lparr>blob_store_cell := blob_store_cell s'\<rparr>" and "read_ptr s' p = Some bs"
    and "ref_get s' = ref_get s" and "ref_read s' r = ref_read s r" and "q \<in> set ps \<Longrightarrow> read_ptr s' q = read_ptr s q"
proof -
  obtain b where b: "store_bytes g bs (blob_store_cell s) = (BOk p, b)" "s' = s\<lparr>blob_store_cell := b\<rparr>"
    using assms(2) by (auto simp: store_blob_def split: prod.splits blob_result.splits)
  note h = heldD [OF assms(1)]
  have eff: "blob_inv b" "live p b" "blob_read p b = BOk bs"
    "\<And>q. live q (blob_store_cell s) \<Longrightarrow> live q b \<and> blob_read q b = blob_read q (blob_store_cell s) \<and> ptr_key p \<noteq> ptr_key q"
    using store_bytes_effect [OF h(1) b(1)] store_bytes_fresh_key [OF h(1) b(1)] by auto
  show "s' = s\<lparr>blob_store_cell := blob_store_cell s'\<rparr>" and rd: "read_ptr s' p = Some bs"
    using b(2) eff(3) by (simp_all add: read_ptr_def)
  show rg: "ref_get s' = ref_get s"
    using b(2) by (intro ref_get_cong) simp_all
  show "held (p # ps) s'"
    unfolding held_def rg using b(2) h eff by (auto simp: eq_commute)
  show "q \<in> set ps \<Longrightarrow> read_ptr s' q = read_ptr s q" for q
    using b(2) h(6) eff(4) by (simp add: read_ptr_def)
  show "ref_read s' r = ref_read s r"
  proof (cases "ref_get s r")
    case (Some q)
    then show ?thesis
      using b(2) eff(4) [OF h(2) [OF Some]] rg by (simp add: ref_read_def read_ptr_def fun_cong [OF rg])
  qed (simp add: ref_read_def rg)
qed

text \<open>Recording.\<close>

lemma record_ref:
  assumes "held (p # ps) s" and "blob_store_cell s' = blob_store_cell s" and "ref_get s' = (ref_get s)(r := Some p)"
  shows "held ps s'" and "ref_read s' q = (if q = r then read_ptr s p else ref_read s q)"
    and "a \<in> set ps \<Longrightarrow> read_ptr s' a = read_ptr s a"
proof -
  note h = heldD [OF assms(1)]
  have p: "live p (blob_store_cell s)" "ptr_key p \<notin> ptr_key ` set ps" "distinct (map ptr_key ps)"
    using h(5,6) by auto
  show "held ps s'"
    unfolding held_def assms(2,3)
  proof (intro conjI allI impI)
    fix r1 p1
    assume "((ref_get s)(r := Some p)) r1 = Some p1"
    then show "live p1 (blob_store_cell s)" "ptr_key p1 \<notin> ptr_key ` set ps"
      using h(2,3) p by (auto split: if_splits)
  next
    fix r1 p1 r2 p2
    assume "((ref_get s)(r := Some p)) r1 = Some p1" "((ref_get s)(r := Some p)) r2 = Some p2" "ptr_key p1 = ptr_key p2"
    then show "r1 = r2"
      using h(3) [of _ _ p] h(4) by (auto split: if_splits)
  qed (use h p in auto)
  show "ref_read s' q = (if q = r then read_ptr s p else ref_read s q)"
    by (cases "ref_get s q") (simp_all add: ref_read_def read_ptr_def assms(2,3))
  show "a \<in> set ps \<Longrightarrow> read_ptr s' a = read_ptr s a"
    by (simp add: read_ptr_def assms(2))
qed

lemma ref_get_updates:
  "ref_get (s\<lparr>blocks := oinsert n p (blocks s)\<rparr>) = (ref_get s)(BlockRef n := Some p)"
  "ref_get (s\<lparr>receipts := oinsert t p (receipts s)\<rparr>) = (ref_get s)(ReceiptRef t := Some p)"
  "ref_get (s\<lparr>tx_index := oinsert t p (tx_index s)\<rparr>) = (ref_get s)(IndexRef t := Some p)"
  "ref_get (s\<lparr>internal_traces := oinsert t p (internal_traces s)\<rparr>) = (ref_get s)(TraceRef t := Some p)"
proof -
  have "f = g" if "\<And>n t. f (BlockRef n) = g (BlockRef n) \<and> f (ReceiptRef t) = g (ReceiptRef t) \<and> f (IndexRef t) = g (IndexRef t)
    \<and> f (TraceRef t) = g (TraceRef t)" for f g :: "blob_ref \<Rightarrow> blob_ptr option"
    by (rule ext) (metis blob_ref.exhaust that)
  then show "ref_get (s\<lparr>blocks := oinsert n p (blocks s)\<rparr>) = (ref_get s)(BlockRef n := Some p)"
    "ref_get (s\<lparr>receipts := oinsert t p (receipts s)\<rparr>) = (ref_get s)(ReceiptRef t := Some p)"
    "ref_get (s\<lparr>tx_index := oinsert t p (tx_index s)\<rparr>) = (ref_get s)(IndexRef t := Some p)"
    "ref_get (s\<lparr>internal_traces := oinsert t p (internal_traces s)\<rparr>) = (ref_get s)(TraceRef t := Some p)"
    by simp_all
qed

end
