(* ===== verification/Mempool_Inv.thy ===== *)
theory Mempool_Inv
  imports Mempool
begin

text \<open>
  The mempool invariant and its preservation. \<open>mempool_inv\<close> relates the eleven maps of the mempool: the
  pending table and its inverse, one pending transaction per sender with the expected nonce, the fee and
  ready indexes keyed by what the stored transactions say, the number of pending transactions per
  principal, and the global cap.
\<close>

section \<open>The invariant\<close>

definition stored_of :: "ext \<Rightarrow> stable_state \<Rightarrow> tx_id \<Rightarrow> stored_tx option" where
  "stored_of x s t =
    (case oget (tx_store s) t of
       None \<Rightarrow> None
     | Some v \<Rightarrow> (case try_from x v of Inl _ \<Rightarrow> None | Inr st \<Rightarrow> Some st))"

definition principal_key :: "ext \<Rightarrow> stable_state \<Rightarrow> tx_id \<Rightarrow> caller_key option" where
  "principal_key x s t =
    (case stored_of x s t of None \<Rightarrow> None | Some st \<Rightarrow> caller_key_from_principal (st_caller_principal st))"

definition fee_key_of :: "u64 \<Rightarrow> tx_id \<Rightarrow> stored_tx \<Rightarrow> pending_fee_key" where
  "fee_key_of base t st =
    pending_fee_key_new (case stored_effective_price st base of Some p \<Rightarrow> p | None \<Rightarrow> 0) t"

definition ready_key_of :: "tx_id \<Rightarrow> stored_tx \<Rightarrow> tx_loc \<Rightarrow> ready_key" where
  "ready_key_of t st l =
    ready_key_new (st_max_fee_per_gas st) (if st_is_dynamic_fee st then st_max_priority_fee_per_gas st else 0) (loc_seq l) t"

definition pool_ok :: "stable_state \<Rightarrow> bool" where
  "pool_ok s \<longleftrightarrow> paired (oget (pending_by_sender_nonce s)) (oget (pending_meta_by_tx_id s))
    \<and> (\<forall>t k. oget (pending_meta_by_tx_id s) t = Some k \<longrightarrow>
          oget (pending_current_by_sender s) (snk_sender k) = Some t
          \<and> oget (pending_min_nonce s) (snk_sender k) = Some (snk_nonce k)
          \<and> oget (sender_expected_nonce s) (snk_sender k) = Some (snk_nonce k))
    \<and> (\<forall>sk t. oget (pending_current_by_sender s) sk = Some t \<longrightarrow> (\<exists>n. oget (pending_meta_by_tx_id s) t = Some (SenderNonceKey sk n)))
    \<and> (\<forall>sk n. oget (pending_min_nonce s) sk = Some n \<longrightarrow> (\<exists>t. oget (pending_meta_by_tx_id s) t = Some (SenderNonceKey sk n)))"

definition entry_ok :: "ext \<Rightarrow> stable_state \<Rightarrow> bool" where
  "entry_ok x s \<longleftrightarrow> (\<forall>t. oget (pending_meta_by_tx_id s) t \<noteq> None \<longrightarrow>
    oget (seen_tx s) t = Some 1
    \<and> (\<exists>st l. stored_of x s t = Some st \<and> length (st_caller_principal st) \<le> 29
          \<and> oget (active_locs s) t = Some l \<and> loc_kind l = Queued))"

definition fee_entry :: "ext \<Rightarrow> stable_state \<Rightarrow> tx_id \<Rightarrow> pending_fee_key option" where
  "fee_entry x s t =
    (if oget (pending_meta_by_tx_id s) t = None then None
     else map_option (fee_key_of (base_fee (chain_state_cell s)) t) (stored_of x s t))"

definition fee_ok :: "ext \<Rightarrow> stable_state \<Rightarrow> bool" where
  "fee_ok x s \<longleftrightarrow> oget (pending_fee_key_by_tx_id s) = fee_entry x s \<and> paired (oget (pending_fee_index s)) (fee_entry x s)"

definition ready_entry :: "ext \<Rightarrow> stable_state \<Rightarrow> tx_id \<Rightarrow> ready_key option" where
  "ready_entry x s t =
    (if oget (pending_meta_by_tx_id s) t = None then None
     else (case (stored_of x s t, oget (active_locs s) t) of
             (Some st, Some l) \<Rightarrow> Some (ready_key_of t st l)
           | _ \<Rightarrow> None))"

definition seq_key :: "tx_id \<Rightarrow> ready_key \<Rightarrow> ready_seq_key" where
  "seq_key t rk = ready_seq_key_new (ready_key_seq rk) t"

definition seq_entry :: "(tx_id \<Rightarrow> ready_key option) \<Rightarrow> tx_id \<Rightarrow> ready_seq_key option" where
  "seq_entry f t = map_option (seq_key t) (f t)"

definition ready_ok :: "ext \<Rightarrow> stable_state \<Rightarrow> bool" where
  "ready_ok x s \<longleftrightarrow> oget (ready_key_by_tx_id s) = ready_entry x s
    \<and> paired (oget (ready_queue s)) (ready_entry x s)
    \<and> paired (oget (ready_by_seq s)) (seq_entry (ready_entry x s))"

definition count_at :: "(caller_key, u32) omap \<Rightarrow> caller_key \<Rightarrow> nat" where
  "count_at m k = (case oget m k of None \<Rightarrow> 0 | Some c \<Rightarrow> unat c)"

text \<open>The count of a principal is the number of its pending transactions, or at least no more than that:
  \<open>exact\<close> tells which of the two is claimed.\<close>

definition counted :: "bool \<Rightarrow> nat \<Rightarrow> nat \<Rightarrow> bool" where
  "counted exact c n \<longleftrightarrow> (if exact then c = n else c \<le> n)"

lemma counted_step:
  "counted exact c n \<Longrightarrow> counted exact (c + k) (n + k)" "counted exact c n \<Longrightarrow> counted exact (c - k) (n - k)"
  "counted exact c n \<Longrightarrow> c \<le> n"
  by (auto simp: counted_def split: if_splits)

definition pending_of :: "ext \<Rightarrow> stable_state \<Rightarrow> caller_key \<Rightarrow> tx_id set" where
  "pending_of x s k = {t. oget (pending_meta_by_tx_id s) t \<noteq> None \<and> principal_key x s t = Some k}"

lemma finite_pending_of [simp]: "finite (pending_of x s k)"
  by (rule finite_subset [OF _ finite_dom_oget [of "pending_meta_by_tx_id s"]]) (auto simp: pending_of_def)

definition count_ok :: "bool \<Rightarrow> ext \<Rightarrow> stable_state \<Rightarrow> bool" where
  "count_ok exact x s \<longleftrightarrow> (\<forall>k. counted exact (count_at (principal_pending_count s) k)
      (card (pending_of x s k))
    \<and> oget (principal_pending_count s) k \<noteq> Some 0)"

definition cap_ok :: "stable_state \<Rightarrow> bool" where
  "cap_ok s \<longleftrightarrow> olen (pending_meta_by_tx_id s) = olen (pending_by_sender_nonce s)
    \<and> olen (pending_by_sender_nonce s) \<le> MAX_PENDING_GLOBAL"

definition mempool_inv :: "bool \<Rightarrow> ext \<Rightarrow> stable_state \<Rightarrow> bool" where
  "mempool_inv exact x s \<longleftrightarrow> pool_ok s \<and> entry_ok x s \<and> fee_ok x s \<and> ready_ok x s \<and> count_ok exact x s \<and> cap_ok s"

lemma mempool_invD:
  assumes "mempool_inv exact x s"
  shows "pool_ok s" "entry_ok x s" "fee_ok x s" "ready_ok x s" "count_ok exact x s" "cap_ok s"
  using assms by (simp_all add: mempool_inv_def)

lemma pool_okD:
  assumes "pool_ok s"
  shows "paired (oget (pending_by_sender_nonce s)) (oget (pending_meta_by_tx_id s))"
    and "oget (pending_meta_by_tx_id s) t = Some k \<Longrightarrow>
          oget (pending_current_by_sender s) (snk_sender k) = Some t
          \<and> oget (pending_min_nonce s) (snk_sender k) = Some (snk_nonce k)
          \<and> oget (sender_expected_nonce s) (snk_sender k) = Some (snk_nonce k)"
    and "oget (pending_current_by_sender s) sk = Some t \<Longrightarrow> \<exists>n. oget (pending_meta_by_tx_id s) t = Some (SenderNonceKey sk n)"
    and "oget (pending_min_nonce s) sk = Some n \<Longrightarrow> \<exists>t. oget (pending_meta_by_tx_id s) t = Some (SenderNonceKey sk n)"
  using assms unfolding pool_ok_def by blast+

section \<open>Frame\<close>

text \<open>The invariant looks at a few maps only, and at payloads and locations of pending transactions.\<close>

definition same_indexes :: "stable_state \<Rightarrow> stable_state \<Rightarrow> bool" where
  "same_indexes s s' \<longleftrightarrow>
    pending_by_sender_nonce s' = pending_by_sender_nonce s \<and> pending_meta_by_tx_id s' = pending_meta_by_tx_id s
    \<and> pending_current_by_sender s' = pending_current_by_sender s \<and> pending_min_nonce s' = pending_min_nonce s
    \<and> pending_fee_index s' = pending_fee_index s \<and> pending_fee_key_by_tx_id s' = pending_fee_key_by_tx_id s
    \<and> ready_queue s' = ready_queue s \<and> ready_key_by_tx_id s' = ready_key_by_tx_id s
    \<and> ready_by_seq s' = ready_by_seq s \<and> principal_pending_count s' = principal_pending_count s
    \<and> base_fee (chain_state_cell s') = base_fee (chain_state_cell s)"

lemma mempool_inv_frame:
  assumes inv: "mempool_inv exact x s" and idx: "same_indexes s s'"
    and ex: "\<And>t k. oget (pending_meta_by_tx_id s) t = Some k \<Longrightarrow>
        oget (sender_expected_nonce s') (snk_sender k) = oget (sender_expected_nonce s) (snk_sender k)"
    and pl: "\<And>t k. oget (pending_meta_by_tx_id s) t = Some k \<Longrightarrow>
        stored_of x s' t = stored_of x s t \<and> oget (active_locs s') t = oget (active_locs s) t
        \<and> oget (seen_tx s') t = oget (seen_tx s) t"
  shows "mempool_inv exact x s'"
proof -
  note i = idx [unfolded same_indexes_def]
  have pk: "principal_key x s' t = principal_key x s t" if "oget (pending_meta_by_tx_id s) t \<noteq> None" for t
    using pl that by (auto simp: principal_key_def)
  have "pool_ok s'"
    using inv ex i unfolding mempool_inv_def pool_ok_def by simp
  moreover have "entry_ok x s'"
    using inv pl i unfolding mempool_inv_def entry_ok_def by (metis not_None_eq)
  moreover have "fee_entry x s' = fee_entry x s"
    using pl i by (auto simp: fee_entry_def fun_eq_iff)
  then have "fee_ok x s'"
    using inv i unfolding mempool_inv_def fee_ok_def by simp
  moreover have "ready_entry x s' = ready_entry x s"
    using pl i by (fastforce simp: ready_entry_def fun_eq_iff)
  then have "ready_ok x s'"
    using inv i unfolding mempool_inv_def ready_ok_def by simp
  moreover have "pending_of x s' k = pending_of x s k" for k
    using pk i by (auto simp: pending_of_def)
  then have "count_ok exact x s'"
    using inv i unfolding mempool_inv_def count_ok_def by simp
  moreover have "cap_ok s'"
    using inv i unfolding mempool_inv_def cap_ok_def by simp
  ultimately show ?thesis
    by (simp add: mempool_inv_def)
qed


section \<open>Removal\<close>

definition index_without :: "('k::linorder, 't) omap \<Rightarrow> 'k option \<Rightarrow> ('k, 't) omap" where
  "index_without m k = (case k of None \<Rightarrow> m | Some key \<Rightarrow> oremove key m)"

lemma oget_index_without [simp]: "oget (index_without m k) q = (if k = Some q then None else oget m q)"
  by (cases k) (auto simp: index_without_def)

lemma remove_ready_eq:
  "remove_ready_by_tx_id t s =
    s\<lparr>ready_key_by_tx_id := oremove t (ready_key_by_tx_id s),
      ready_queue := index_without (ready_queue s) (oget (ready_key_by_tx_id s) t),
      ready_by_seq := index_without (ready_by_seq s) (map_option (seq_key t) (oget (ready_key_by_tx_id s) t))\<rparr>"
  by (cases "oget (ready_key_by_tx_id s) t")
    (simp_all add: remove_ready_by_tx_id_def index_without_def oremove_absent seq_key_def)

lemma remove_fee_eq:
  "remove_pending_fee_index_by_tx_id t s =
    s\<lparr>pending_fee_key_by_tx_id := oremove t (pending_fee_key_by_tx_id s),
      pending_fee_index := index_without (pending_fee_index s) (oget (pending_fee_key_by_tx_id s) t)\<rparr>"
  by (cases "oget (pending_fee_key_by_tx_id s) t")
    (simp_all add: remove_pending_fee_index_by_tx_id_def index_without_def oremove_absent)

definition count_dec :: "caller_key \<Rightarrow> (caller_key, u32) omap \<Rightarrow> (caller_key, u32) omap" where
  "count_dec key m =
    (case decrement_count (case oget m key of Some c \<Rightarrow> c | None \<Rightarrow> 0) of
       CountRemove \<Rightarrow> oremove key m
     | CountSet nxt \<Rightarrow> oinsert key nxt m)"

lemma decrement_eq:
  assumes "principal_key x s t = Some key"
  shows "decrement_principal_pending_count_for_tx x t s
    = Some (s\<lparr>principal_pending_count := count_dec key (principal_pending_count s)\<rparr>)"
proof -
  obtain v st where "oget (tx_store s) t = Some v" "try_from x v = Inr st"
    "caller_key_from_principal (st_caller_principal st) = Some key"
    using assms by (auto simp: principal_key_def stored_of_def split: option.splits sum.splits)
  then show ?thesis
    by (simp add: decrement_principal_pending_count_for_tx_def count_dec_def Let_def
        split: count_after_decrement.split)
qed

lemma count_at_dec: "count_at (count_dec key m) k = count_at m k - (if k = key then 1 else 0)"
proof (cases "oget m key")
  case (Some c)
  have "unat (c - 1) = unat c - 1" if "\<not> c \<le> 1"
    using that by (simp add: unat_sub word_le_nat_alt)
  then show ?thesis
    using Some by (auto simp: count_dec_def count_at_def decrement_count_def word_le_nat_alt)
qed (auto simp: count_dec_def count_at_def decrement_count_def)

lemma count_dec_positive: "oget m k \<noteq> Some 0 \<Longrightarrow> oget (count_dec key m) k \<noteq> Some 0"
  by (auto simp: count_dec_def decrement_count_def split: option.splits)

lemma paired_without: "paired (oget m) g \<Longrightarrow> paired (oget (index_without m (g t))) (g(t := None))"
  unfolding paired_def by (auto split: if_splits) (metis option.inject)

lemma seq_entry_upd [simp]: "seq_entry (f(t := None)) = (seq_entry f)(t := None)"
  by (auto simp: seq_entry_def)

lemma oget_oremove_fun: "oget (oremove k m) = (oget m)(k := None)"
  by auto

text \<open>The state without a pending transaction: what every removal amounts to.\<close>

definition unindex :: "bool \<Rightarrow> tx_id \<Rightarrow> sender_nonce_key \<Rightarrow> caller_key \<Rightarrow> stable_state \<Rightarrow> stable_state" where
  "unindex bump t k pk s =
    s\<lparr>ready_key_by_tx_id := oremove t (ready_key_by_tx_id s),
      ready_queue := index_without (ready_queue s) (oget (ready_key_by_tx_id s) t),
      ready_by_seq := index_without (ready_by_seq s) (map_option (seq_key t) (oget (ready_key_by_tx_id s) t)),
      pending_meta_by_tx_id := oremove t (pending_meta_by_tx_id s),
      pending_by_sender_nonce := oremove k (pending_by_sender_nonce s),
      pending_fee_key_by_tx_id := oremove t (pending_fee_key_by_tx_id s),
      pending_fee_index := index_without (pending_fee_index s) (oget (pending_fee_key_by_tx_id s) t),
      principal_pending_count := count_dec pk (principal_pending_count s),
      pending_current_by_sender := oremove (snk_sender k) (pending_current_by_sender s),
      pending_min_nonce := oremove (snk_sender k) (pending_min_nonce s),
      sender_expected_nonce :=
        (if bump then oinsert (snk_sender k) (next_expected_nonce (snk_nonce k)) (sender_expected_nonce s)
         else sender_expected_nonce s)\<rparr>"

lemma unindex_payload [simp]:
  "tx_store (unindex b t k pk s) = tx_store s" "active_locs (unindex b t k pk s) = active_locs s"
  "seen_tx (unindex b t k pk s) = seen_tx s" "chain_state_cell (unindex b t k pk s) = chain_state_cell s"
  "stored_of x (unindex b t k pk s) = stored_of x s" "principal_key x (unindex b t k pk s) = principal_key x s"
  by (auto simp: unindex_def active_locs_def stored_of_def principal_key_def fun_eq_iff)

lemma unindex_inv:
  assumes inv: "mempool_inv exact x s" and k: "oget (pending_meta_by_tx_id s) t = Some k"
    and pk: "principal_key x s t = Some pk"
  shows "mempool_inv exact x (unindex b t k pk s)"
proof -
  let ?s = "unindex b t k pk s"
  note inv' = mempool_invD [OF inv]
  have meta: "oget (pending_meta_by_tx_id ?s) u = (if u = t then None else oget (pending_meta_by_tx_id s) u)" for u
    by (simp add: unindex_def)
  have other: "snk_sender k' \<noteq> snk_sender k" if "oget (pending_meta_by_tx_id s) u = Some k'" "u \<noteq> t" for u k'
    using pool_okD(2) [OF inv'(1) that(1)] pool_okD(2) [OF inv'(1) k] that(2) by auto
  have "paired (oget (pending_by_sender_nonce ?s)) (oget (pending_meta_by_tx_id ?s))"
    using omap_pair.paired_del [OF pool_okD(1) [OF inv'(1)] k] by (simp add: unindex_def)
  moreover have "oget (pending_current_by_sender ?s) (snk_sender k') = Some u
      \<and> oget (pending_min_nonce ?s) (snk_sender k') = Some (snk_nonce k')
      \<and> oget (sender_expected_nonce ?s) (snk_sender k') = Some (snk_nonce k')"
    if "oget (pending_meta_by_tx_id ?s) u = Some k'" for u k'
    using that other [of u k'] pool_okD(2) [OF inv'(1), of u k'] by (auto simp: meta unindex_def split: if_splits)
  moreover have "\<exists>n. oget (pending_meta_by_tx_id ?s) u = Some (SenderNonceKey sk n)"
    if "oget (pending_current_by_sender ?s) sk = Some u" for sk u
    using that pool_okD(3) [OF inv'(1), of sk u] k by (auto simp: meta unindex_def split: if_splits)
  moreover have "\<exists>u. oget (pending_meta_by_tx_id ?s) u = Some (SenderNonceKey sk n)"
    if "oget (pending_min_nonce ?s) sk = Some n" for sk n
    using that pool_okD(4) [OF inv'(1), of sk n] k by (auto simp: meta unindex_def split: if_splits) (metis option.inject sender_nonce_key.sel(1))
  ultimately have pool: "pool_ok ?s"
    unfolding pool_ok_def by blast
  have entry: "entry_ok x ?s"
    using inv'(2) by (simp add: entry_ok_def meta)
  have "fee_entry x ?s = (fee_entry x s)(t := None)"
    by (auto simp: fee_entry_def meta)
  moreover have "oget (pending_fee_key_by_tx_id ?s) = (fee_entry x s)(t := None)"
    using inv'(3) by (simp add: fee_ok_def unindex_def oget_oremove_fun del: oget_oremove)
  moreover have "paired (oget (pending_fee_index ?s)) ((fee_entry x s)(t := None))"
    using inv'(3) paired_without [of "pending_fee_index s" "fee_entry x s" t] by (simp add: fee_ok_def unindex_def)
  ultimately have fee: "fee_ok x ?s"
    by (simp add: fee_ok_def)
  have "ready_entry x ?s = (ready_entry x s)(t := None)"
    by (auto simp: ready_entry_def meta)
  moreover have "oget (ready_key_by_tx_id ?s) = (ready_entry x s)(t := None)"
    using inv'(4) by (simp add: ready_ok_def unindex_def oget_oremove_fun del: oget_oremove)
  moreover have "paired (oget (ready_queue ?s)) ((ready_entry x s)(t := None))"
    using inv'(4) paired_without [of "ready_queue s" "ready_entry x s" t] by (simp add: ready_ok_def unindex_def)
  moreover have "paired (oget (ready_by_seq ?s)) ((seq_entry (ready_entry x s))(t := None))"
    using inv'(4) paired_without [of "ready_by_seq s" "seq_entry (ready_entry x s)" t]
    by (simp add: ready_ok_def unindex_def seq_entry_def)
  ultimately have ready: "ready_ok x ?s"
    by (simp add: ready_ok_def)
  have "pending_of x ?s q = pending_of x s q - {t}" for q
    by (auto simp: meta pending_of_def)
  moreover have "t \<in> pending_of x s q \<longleftrightarrow> q = pk" for q
    using k pk by (auto simp: pending_of_def)
  ultimately have card: "card (pending_of x ?s q) = card (pending_of x s q) - (if q = pk then 1 else 0)" for q
    by (simp add: card_Diff_singleton_if)
  have "principal_pending_count ?s = count_dec pk (principal_pending_count s)"
    by (simp add: unindex_def)
  then have count: "count_ok exact x ?s"
    using inv'(5) by (simp add: count_ok_def card count_at_dec count_dec_positive counted_step)
  have "oget (pending_by_sender_nonce s) k = Some t"
    using pool_okD(1) [OF inv'(1)] k unfolding paired_def by blast
  then have cap: "cap_ok ?s"
    using inv'(6) k by (auto simp: cap_ok_def unindex_def olen_oremove)
  show ?thesis
    using pool entry fee ready count cap by (simp add: mempool_inv_def)
qed


lemma next_pending_None:
  assumes "\<And>k u. oget (pending_by_sender_nonce s) k = Some u \<Longrightarrow> snk_sender k \<noteq> sk"
  shows "next_pending_for_sender sk n s = None"
proof -
  have "snk_sender k \<noteq> sk"
    if "(k, u) \<in> set (orange_from (SenderNonceKey sk (next_pending_start_nonce n)) (pending_by_sender_nonce s))" for k u
    using that assms [of k u] set_orange_from [of k u] by simp
  then show ?thesis
    by (fastforce simp: next_pending_for_sender_def split: list.split)
qed

lemma sender_alone:
  assumes "pool_ok s" and "oget (pending_meta_by_tx_id s) t = Some k"
    and "oget (pending_by_sender_nonce s) k' = Some u" and "snk_sender k' = snk_sender k"
  shows "k' = k"
proof -
  have u: "oget (pending_meta_by_tx_id s) u = Some k'"
    using pool_okD(1) [OF assms(1)] assms(3) unfolding paired_def by blast
  show ?thesis
    using pool_okD(2) [OF assms(1) u] pool_okD(2) [OF assms(1,2)] assms(4) by (intro sender_nonce_key.expand) auto
qed

lemma advance_pending:
  assumes p: "pool_ok s" and k: "oget (pending_meta_by_tx_id s) t = Some k"
    and pk: "principal_key x s t = Some pk"
  shows "advance_sender_after_tx x (Suc (Suc f)) t so no b s = Some (unindex b t k pk s)"
proof -
  define s4 where "s4 = remove_pending_fee_index_by_tx_id t
    ((remove_ready_by_tx_id t s)\<lparr>pending_meta_by_tx_id := oremove t (pending_meta_by_tx_id s),
       pending_by_sender_nonce := oremove k (pending_by_sender_nonce s)\<rparr>)"
  define s5 where "s5 = s4\<lparr>principal_pending_count := count_dec pk (principal_pending_count s)\<rparr>"
  define s6 where "s6 = finalize_pending_for_sender (snk_sender k) t b s5"
  note d = pool_okD(2) [OF p k]
  have "principal_key x s4 t = Some pk"
    using pk by (simp add: s4_def remove_fee_eq remove_ready_eq principal_key_def stored_of_def)
  then have dec: "decrement_principal_pending_count_for_tx x t s4 = Some s5"
    by (simp add: decrement_eq s5_def) (simp add: s4_def remove_fee_eq remove_ready_eq)
  have s6: "s6 = s5\<lparr>pending_current_by_sender := oremove (snk_sender k) (pending_current_by_sender s),
      sender_expected_nonce :=
        (if b then oinsert (snk_sender k) (next_expected_nonce (snk_nonce k)) (sender_expected_nonce s)
         else sender_expected_nonce s)\<rparr>"
    using d by (simp add: s6_def finalize_pending_for_sender_def finalize_pending_for_sender_without_nonce_bump_def
        bump_expected_nonce_def should_clear_current_def Let_def s5_def s4_def remove_fee_eq remove_ready_eq)
  have "snk_sender k' \<noteq> snk_sender k" if "oget (pending_by_sender_nonce s6) k' = Some u" for k' u
    using that sender_alone [OF p k, of k' u] by (auto simp: s6 s5_def s4_def remove_fee_eq remove_ready_eq split: if_splits)
  then have nxt: "next_pending_for_sender (snk_sender k) n s6 = None" for n
    by (rule next_pending_None)
  have min6: "oget (pending_min_nonce s6) (snk_sender k) = Some (snk_nonce k)"
    using d by (simp add: s6 s5_def s4_def remove_fee_eq remove_ready_eq)
  have "advance_sender_after_tx x (Suc (Suc f)) t so no b s
      = Some (s6\<lparr>pending_min_nonce := oremove (snk_sender k) (pending_min_nonce s6)\<rparr>)"
    using dec k by (simp add: Let_def remove_ready_eq s4_def [unfolded remove_ready_eq, symmetric, simplified] s6_def [symmetric]
        min6 nxt should_refresh_pending_min_def pending_min_set_def pending_min_after_advance_def)
  also have "\<dots> = Some (unindex b t k pk s)"
    by (simp add: s6 s5_def s4_def remove_fee_eq remove_ready_eq unindex_def)
  finally show ?thesis .
qed


section \<open>Dropping\<close>

lemma locs_other [simp]:
  "oget (active_locs (tx_locs_insert t l s)) u = (if u = t then Some l else oget (active_locs s) u)"
  "oget (active_locs (tx_locs_remove t s)) u = (if u = t then None else oget (active_locs s) u)"
  by (auto simp: active_locs_def tx_locs_insert_def tx_locs_remove_def)

lemma tx_locs_insert_eq: "\<exists>a b. tx_locs_insert t l s = s\<lparr>tx_locs := a, tx_locs_v3 := b\<rparr>"
proof (cases "tx_locs_v3_active s")
  case True
  then show ?thesis
    by (intro exI [of _ "tx_locs s"] exI [of _ "oinsert t l (tx_locs_v3 s)"]) (simp add: tx_locs_insert_def)
next
  case False
  then show ?thesis
    by (intro exI [of _ "oinsert t l (tx_locs s)"] exI [of _ "tx_locs_v3 s"]) (simp add: tx_locs_insert_def)
qed

text \<open>The parts of the state dropping may touch: the ring, the locations and the hash index.\<close>

definition drop_frame :: "stable_state \<Rightarrow> stable_state \<Rightarrow> bool" where
  "drop_frame s s' \<longleftrightarrow> (\<exists>ring rs a b idx. s' = s\<lparr>dropped_ring := ring, dropped_ring_state_cell := rs,
    tx_locs := a, tx_locs_v3 := b, eth_tx_hash_index := idx\<rparr>)"

lemma drop_frameI:
  "s' = s\<lparr>dropped_ring := dropped_ring s', dropped_ring_state_cell := dropped_ring_state_cell s',
    tx_locs := tx_locs s', tx_locs_v3 := tx_locs_v3 s', eth_tx_hash_index := eth_tx_hash_index s'\<rparr> \<Longrightarrow> drop_frame s s'"
  unfolding drop_frame_def by metis

lemma drop_frame_trans: "drop_frame s s' \<Longrightarrow> drop_frame s' s'' \<Longrightarrow> drop_frame s s''"
  unfolding drop_frame_def by (elim exE) (simp, blast)

lemma drop_frame_locs: "drop_frame s (tx_locs_insert t l s)" "drop_frame s (tx_locs_remove t s)"
  by (rule drop_frameI, simp add: tx_locs_insert_def tx_locs_remove_def)+

lemma drop_frame_hash_index: "drop_frame s (remove_eth_tx_hash_index_for_tx_id x t s)"
  by (rule drop_frameI) (simp add: remove_eth_tx_hash_index_for_tx_id_def split: option.split sum.split)

lemma drop_frame_ring: "drop_frame s (push_dropped_ring t s)"
  by (rule drop_frameI) (simp add: push_dropped_ring_def Let_def tx_locs_remove_def split: option.split)

lemma push_ring_keeps_loc:
  assumes "oget (active_locs s) u = Some l" and "loc_kind l \<noteq> Dropped"
  shows "oget (active_locs (push_dropped_ring t s)) u = Some l"
proof -
  have a: "active_locs (s'\<lparr>dropped_ring_state_cell := r\<rparr>) = active_locs s'"
    "active_locs (s'\<lparr>dropped_ring := d\<rparr>) = active_locs s'" for s' r d
    by (simp_all add: active_locs_def)
  show ?thesis
    using assms by (auto simp: push_dropped_ring_def Let_def a tx_locs_get_def split: option.split if_splits)
qed

lemma mark_dropped_frame:
  assumes "oget (pending_fee_key_by_tx_id s) t = None"
  shows "drop_frame (s\<lparr>tx_store := oremove t (tx_store s)\<rparr>) (mark_dropped_and_purge_payload x t code s)"
proof -
  define s2 where "s2 = remove_eth_tx_hash_index_for_tx_id x t s"
  define s3 where "s3 = s2\<lparr>tx_store := oremove t (tx_store s2)\<rparr>"
  obtain ring rs a b idx where s2: "s2 = s\<lparr>dropped_ring := ring, dropped_ring_state_cell := rs,
      tx_locs := a, tx_locs_v3 := b, eth_tx_hash_index := idx\<rparr>"
    using drop_frame_hash_index [of s x t] by (auto simp: s2_def drop_frame_def)
  have "drop_frame (s\<lparr>tx_store := oremove t (tx_store s)\<rparr>) s3"
    by (rule drop_frameI) (simp add: s3_def s2)
  moreover have "mark_dropped_and_purge_payload x t code s = push_dropped_ring t (tx_locs_insert t (tx_loc_dropped code) s3)"
    using assms by (simp add: mark_dropped_and_purge_payload_def remove_pending_fee_index_by_tx_id_def Let_def s2_def s3_def)
  ultimately show ?thesis
    using drop_frame_ring drop_frame_locs(1) drop_frame_trans by metis
qed


lemma mark_dropped_keeps_loc:
  assumes "u \<noteq> t" and "oget (active_locs s) u = Some l" and "loc_kind l \<noteq> Dropped"
  shows "oget (active_locs (mark_dropped_and_purge_payload x t code s)) u = Some l"
proof -
  have a: "active_locs (s'\<lparr>tx_store := r\<rparr>) = active_locs s'" for s' r
    by (simp add: active_locs_def)
  have "active_locs (remove_eth_tx_hash_index_for_tx_id x t (remove_pending_fee_index_by_tx_id t s)) = active_locs s"
    by (auto simp: active_locs_def remove_eth_tx_hash_index_for_tx_id_def remove_fee_eq split: option.split sum.split)
  then show ?thesis
    using assms by (auto simp: mark_dropped_and_purge_payload_def Let_def a intro!: push_ring_keeps_loc)
qed

lemma drop_frame_fields:
  assumes "drop_frame s s'"
  shows "same_indexes s s'" "sender_expected_nonce s' = sender_expected_nonce s" "tx_store s' = tx_store s"
    "seen_tx s' = seen_tx s" "chain_state_cell s' = chain_state_cell s" "accounts s' = accounts s"
    "metrics_state_cell s' = metrics_state_cell s" "queue_meta_cell s' = queue_meta_cell s"
  using assms by (auto simp: drop_frame_def same_indexes_def)

lemma mark_dropped_inv:
  assumes inv: "mempool_inv exact x s" and t: "oget (pending_meta_by_tx_id s) t = None"
  shows "mempool_inv exact x (record_drop_metric c (mark_dropped_and_purge_payload x t code s))"
proof -
  let ?s1 = "s\<lparr>tx_store := oremove t (tx_store s)\<rparr>"
  let ?s = "mark_dropped_and_purge_payload x t code s"
  note i = mempool_invD [OF inv]
  have "oget (pending_fee_key_by_tx_id s) t = None"
    using i(3) t by (simp add: fee_ok_def fee_entry_def)
  note fr = drop_frame_fields [OF mark_dropped_frame [OF this, of x code]]
  have rec: "same_indexes s (record_drop_metric c ?s)"
    using fr(1) by (simp add: same_indexes_def record_drop_metric_def)
  show ?thesis
  proof (rule mempool_inv_frame [OF inv rec])
    show "oget (sender_expected_nonce (record_drop_metric c ?s)) (snk_sender k) = oget (sender_expected_nonce s) (snk_sender k)" for k
      using fr by (simp add: record_drop_metric_def)
    fix u k
    assume u: "oget (pending_meta_by_tx_id s) u = Some k"
    then have ne: "u \<noteq> t"
      using t by auto
    obtain l where l: "oget (active_locs s) u = Some l" "loc_kind l = Queued"
      using i(2) u by (auto simp: entry_ok_def)
    have "active_locs (record_drop_metric c ?s) = active_locs ?s"
      by (simp add: active_locs_def record_drop_metric_def)
    then show "stored_of x (record_drop_metric c ?s) u = stored_of x s u
        \<and> oget (active_locs (record_drop_metric c ?s)) u = oget (active_locs s) u
        \<and> oget (seen_tx (record_drop_metric c ?s)) u = oget (seen_tx s) u"
      using fr ne l mark_dropped_keeps_loc [OF ne l(1)] by (simp add: stored_of_def record_drop_metric_def)
  qed
qed


lemma pending_principal:
  assumes "mempool_inv exact x s" and "oget (pending_meta_by_tx_id s) t = Some k"
  obtains pk where "principal_key x s t = Some pk"
proof -
  obtain st where "stored_of x s t = Some st" "length (st_caller_principal st) \<le> 29"
    using mempool_invD(2) [OF assms(1)] assms(2) by (auto simp: entry_ok_def)
  then show ?thesis
    using that by (simp add: principal_key_def caller_key_from_principal_def)
qed

definition dropped_state :: "ext \<Rightarrow> tx_id \<Rightarrow> sender_nonce_key \<Rightarrow> caller_key \<Rightarrow> u16 \<Rightarrow> stable_state \<Rightarrow> stable_state" where
  "dropped_state x t k pk code s =
    record_drop_metric code (mark_dropped_and_purge_payload x t code (unindex False t k pk s))"

lemma dropped_state_inv:
  assumes "mempool_inv exact x s" and "oget (pending_meta_by_tx_id s) t = Some k" and "principal_key x s t = Some pk"
  shows "mempool_inv exact x (dropped_state x t k pk code s)"
  unfolding dropped_state_def
  by (rule mark_dropped_inv [OF unindex_inv [OF assms]]) (simp add: unindex_def)

lemma dropped_state_fields:
  fixes x t k pk code s
  defines "s' \<equiv> dropped_state x t k pk code s"
  shows "pending_by_sender_nonce s' = oremove k (pending_by_sender_nonce s)"
    "pending_meta_by_tx_id s' = oremove t (pending_meta_by_tx_id s)"
    "pending_current_by_sender s' = oremove (snk_sender k) (pending_current_by_sender s)"
    "pending_min_nonce s' = oremove (snk_sender k) (pending_min_nonce s)"
    "sender_expected_nonce s' = sender_expected_nonce s" "tx_store s' = oremove t (tx_store s)"
    "seen_tx s' = seen_tx s" "chain_state_cell s' = chain_state_cell s" "accounts s' = accounts s"
    "queue_meta_cell s' = queue_meta_cell s"
    "metrics_state_cell s' = record_drop code 1 (metrics_state_cell s)"
proof -
  have "oget (pending_fee_key_by_tx_id (unindex False t k pk s)) t = None"
    by (simp add: unindex_def)
  note fr = drop_frame_fields [OF mark_dropped_frame [OF this, of x code]]
  show "pending_by_sender_nonce s' = oremove k (pending_by_sender_nonce s)"
    "pending_meta_by_tx_id s' = oremove t (pending_meta_by_tx_id s)"
    "pending_current_by_sender s' = oremove (snk_sender k) (pending_current_by_sender s)"
    "pending_min_nonce s' = oremove (snk_sender k) (pending_min_nonce s)"
    "sender_expected_nonce s' = sender_expected_nonce s" "tx_store s' = oremove t (tx_store s)"
    "seen_tx s' = seen_tx s" "chain_state_cell s' = chain_state_cell s" "accounts s' = accounts s"
    "queue_meta_cell s' = queue_meta_cell s"
    "metrics_state_cell s' = record_drop code 1 (metrics_state_cell s)"
    using fr by (simp_all add: s'_def dropped_state_def record_drop_metric_def same_indexes_def unindex_def)
qed

lemma drop_pending_eq:
  assumes "mempool_inv exact x s" and "oget (pending_meta_by_tx_id s) t = Some k" and "principal_key x s t = Some pk"
  shows "drop_pending_with x (\<lambda>t. advance_sender_after_tx x advance_fuel t None None False) code t s
    = Some (dropped_state x t k pk code s)"
  using advance_pending [OF mempool_invD(1) [OF assms(1)] assms(2,3), of 0 None None False]
  by (simp add: drop_pending_with_def dropped_state_def numeral_2_eq_2)

lemma replace_pending_eq:
  assumes inv: "mempool_inv exact x s" and k: "oget (pending_meta_by_tx_id s) old = Some k" and pk: "principal_key x s old = Some pk"
  shows "replace_pending_for_sender x (snk_sender k) old s = Some (dropped_state x old k pk DROP_CODE_REPLACED s)"
proof -
  define s2 where "s2 = remove_pending_fee_index_by_tx_id old (remove_ready_by_tx_id old s)"
  have "principal_key x s2 old = Some pk"
    using pk by (simp add: s2_def remove_fee_eq remove_ready_eq principal_key_def stored_of_def)
  then have dec: "decrement_principal_pending_count_for_tx x old s2
      = Some (s2\<lparr>principal_pending_count := count_dec pk (principal_pending_count s)\<rparr>)"
    by (simp add: decrement_eq) (simp add: s2_def remove_fee_eq remove_ready_eq)
  have m: "pending_meta_by_tx_id s2 = pending_meta_by_tx_id s"
    by (simp add: s2_def remove_fee_eq remove_ready_eq)
  have "replace_pending_for_sender x (snk_sender k) old s
      = Some (record_drop_metric DROP_CODE_REPLACED (mark_dropped_and_purge_payload x old DROP_CODE_REPLACED
          (s2\<lparr>principal_pending_count := count_dec pk (principal_pending_count s),
              pending_meta_by_tx_id := oremove old (pending_meta_by_tx_id s2),
              pending_by_sender_nonce := oremove k (pending_by_sender_nonce s2),
              pending_min_nonce := oremove (snk_sender k) (pending_min_nonce s2),
              pending_current_by_sender := oremove (snk_sender k) (pending_current_by_sender s2)\<rparr>)))"
    using k dec by (simp add: replace_pending_for_sender_def Let_def s2_def [symmetric] m)
  also have "s2\<lparr>principal_pending_count := count_dec pk (principal_pending_count s),
              pending_meta_by_tx_id := oremove old (pending_meta_by_tx_id s2),
              pending_by_sender_nonce := oremove k (pending_by_sender_nonce s2),
              pending_min_nonce := oremove (snk_sender k) (pending_min_nonce s2),
              pending_current_by_sender := oremove (snk_sender k) (pending_current_by_sender s2)\<rparr> = unindex False old k pk s"
    by (simp add: s2_def remove_fee_eq remove_ready_eq unindex_def)
  finally show ?thesis
    by (simp add: dropped_state_def)
qed

lemma evict_lowest_outcome:
  assumes inv: "mempool_inv exact x s" and e: "evict_lowest_fee_pending x price s = Some (r, s')"
  shows "(r = Inl QueueFull \<and> s' = s)
    \<or> (\<exists>t k pk key. r = Inr () \<and> ofirst (pending_fee_index s) = Some (key, t) \<and> oget (pending_meta_by_tx_id s) t = Some k
         \<and> principal_key x s t = Some pk \<and> fee_of_key key < price \<and> s' = dropped_state x t k pk DROP_CODE_REPLACED s)"
proof (cases "ofirst (pending_fee_index s)")
  case None
  then show ?thesis
    using e by (simp add: evict_lowest_fee_pending_def)
next
  case (Some p)
  obtain key t where p: "ofirst (pending_fee_index s) = Some (key, t)"
    using Some by (cases p) auto
  then have "oget (pending_fee_index s) key = Some t"
    by (simp add: ofirst_Some)
  then have "fee_entry x s t = Some key"
    using mempool_invD(3) [OF inv] by (simp add: fee_ok_def paired_def)
  then obtain k where k: "oget (pending_meta_by_tx_id s) t = Some k"
    by (auto simp: fee_entry_def split: if_splits)
  obtain pk where pk: "principal_key x s t = Some pk"
    using pending_principal [OF inv k] .
  show ?thesis
    using e p k pk advance_pending [OF mempool_invD(1) [OF inv] k pk, of 0 None None False]
    by (auto simp: evict_lowest_fee_pending_def Let_def dropped_state_def numeral_2_eq_2 not_le split: if_splits)
qed

lemma evict_lowest_total: "mempool_inv exact x s \<Longrightarrow> \<exists>r. evict_lowest_fee_pending x price s = Some r"
proof -
  assume inv: "mempool_inv exact x s"
  show ?thesis
  proof (cases "ofirst (pending_fee_index s)")
    case (Some p)
    obtain key t where p: "ofirst (pending_fee_index s) = Some (key, t)"
      using Some by (cases p) auto
    then have "fee_entry x s t = Some key"
      using mempool_invD(3) [OF inv] ofirst_Some [OF p] by (simp add: fee_ok_def paired_def)
    then obtain k where k: "oget (pending_meta_by_tx_id s) t = Some k"
      by (auto simp: fee_entry_def split: if_splits)
    obtain pk where pk: "principal_key x s t = Some pk"
      using pending_principal [OF inv k] .
    show ?thesis
      using p advance_pending [OF mempool_invD(1) [OF inv] k pk, of 0 None None False]
      by (simp add: evict_lowest_fee_pending_def numeral_2_eq_2)
  qed (simp add: evict_lowest_fee_pending_def)
qed


section \<open>Admission\<close>

lemma paired_add:
  "paired (oget m) g \<Longrightarrow> g t = None \<Longrightarrow> oget m key = None \<Longrightarrow> paired (oget (oinsert key t m)) (g(t := Some key))"
  unfolding paired_def by (auto split: if_splits) (metis option.distinct(1))

lemma paired_key_None:
  "paired (oget m) g \<Longrightarrow> (\<And>u. g u = Some key \<Longrightarrow> u = t) \<Longrightarrow> g t = None \<Longrightarrow> oget m key = None"
  unfolding paired_def by (metis not_Some_eq)

lemma seq_entry_upd_Some [simp]: "seq_entry (f(t := Some rk)) = (seq_entry f)(t := Some (seq_key t rk))"
  by (auto simp: seq_entry_def)

text \<open>The index keys end in the transaction id, so a key names one transaction.\<close>

lemma fee_key_new_inj: "pending_fee_key_new p t = pending_fee_key_new q u \<Longrightarrow> t = u"
  by (simp add: pending_fee_key_new_def)

lemma ready_key_new_inj: "ready_key_new a b c t = ready_key_new a' b' c' u \<Longrightarrow> t = u"
  by (simp add: ready_key_new_def)

lemma seq_key_inj: "seq_key t a = seq_key u b \<Longrightarrow> t = u"
  by (simp add: seq_key_def ready_seq_key_new_def)

lemma fee_entry_tx: "fee_entry x s u = Some (pending_fee_key_new p t) \<Longrightarrow> u = t"
  by (auto simp: fee_entry_def fee_key_of_def split: if_splits dest: fee_key_new_inj)

lemma ready_entry_tx: "ready_entry x s u = Some (ready_key_new a b c t) \<Longrightarrow> u = t"
  by (auto simp: ready_entry_def ready_key_of_def split: if_splits option.splits dest: ready_key_new_inj)

lemma seq_entry_tx: "seq_entry f u = Some (seq_key t rk) \<Longrightarrow> u = t"
  by (auto simp: seq_entry_def dest: seq_key_inj)

definition count_inc :: "caller_key \<Rightarrow> (caller_key, u32) omap \<Rightarrow> (caller_key, u32) omap" where
  "count_inc key m = oinsert key (sat_add (case oget m key of Some c \<Rightarrow> c | None \<Rightarrow> 0) 1) m"

lemma count_at_inc:
  "count_at m key < 2 ^ 32 - 1 \<Longrightarrow> count_at (count_inc key m) k = count_at m k + (if k = key then 1 else 0)"
  by (cases "oget m key") (auto simp: count_at_def count_inc_def unat_sat_add)

lemma sat_add_1_neq_0 [simp]: "sat_add c 1 \<noteq> (0 :: u32)"
proof
  assume "sat_add c 1 = 0"
  then have "unat (sat_add c 1) = 0"
    by simp
  then show False
    by (simp add: unat_sat_add)
qed

lemma count_inc_positive: "oget m k \<noteq> Some 0 \<Longrightarrow> oget (count_inc key m) k \<noteq> Some 0"
  by (simp add: count_inc_def)

text \<open>The state with a new pending transaction.\<close>

definition index_pending ::
  "tx_id \<Rightarrow> sender_nonce_key \<Rightarrow> caller_key \<Rightarrow> pending_fee_key \<Rightarrow> ready_key \<Rightarrow> stable_state \<Rightarrow> stable_state" where
  "index_pending t k pk fk rk s =
    s\<lparr>pending_current_by_sender := oinsert (snk_sender k) t (pending_current_by_sender s),
      pending_by_sender_nonce := oinsert k t (pending_by_sender_nonce s),
      pending_meta_by_tx_id := oinsert t k (pending_meta_by_tx_id s),
      principal_pending_count := count_inc pk (principal_pending_count s),
      pending_fee_index := oinsert fk t (pending_fee_index s),
      pending_fee_key_by_tx_id := oinsert t fk (pending_fee_key_by_tx_id s),
      pending_min_nonce := oinsert (snk_sender k) (snk_nonce k) (pending_min_nonce s),
      ready_queue := oinsert rk t (ready_queue s),
      ready_by_seq := oinsert (seq_key t rk) t (ready_by_seq s),
      ready_key_by_tx_id := oinsert t rk (ready_key_by_tx_id s)\<rparr>"

lemma index_payload [simp]:
  "tx_store (index_pending t k pk fk rk s) = tx_store s" "active_locs (index_pending t k pk fk rk s) = active_locs s"
  "seen_tx (index_pending t k pk fk rk s) = seen_tx s" "chain_state_cell (index_pending t k pk fk rk s) = chain_state_cell s"
  "stored_of x (index_pending t k pk fk rk s) = stored_of x s"
  "principal_key x (index_pending t k pk fk rk s) = principal_key x s"
  by (auto simp: index_pending_def active_locs_def stored_of_def principal_key_def fun_eq_iff)

lemma index_meta [simp]:
  "oget (pending_meta_by_tx_id (index_pending t k pk fk rk s)) u = (if u = t then Some k else oget (pending_meta_by_tx_id s) u)"
  by (simp add: index_pending_def)

lemma principal_card_bound:
  assumes "cap_ok s"
  shows "card {t. oget (pending_meta_by_tx_id s) t \<noteq> None \<and> P t} \<le> MAX_PENDING_GLOBAL"
proof -
  have "card {t. oget (pending_meta_by_tx_id s) t \<noteq> None \<and> P t} \<le> card (dom (oget (pending_meta_by_tx_id s)))"
    by (intro card_mono) auto
  then show ?thesis
    using assms by (auto simp: cap_ok_def olen_card)
qed

lemma index_pending_pool:
  assumes pool: "pool_ok s" and fresh: "oget (pending_meta_by_tx_id s) t = None"
    and free: "oget (pending_current_by_sender s) (snk_sender k) = None"
    and exp: "oget (sender_expected_nonce s) (snk_sender k) = Some (snk_nonce k)"
  shows "oget (pending_by_sender_nonce s) k = None" and "pool_ok (index_pending t k pk fk rk s)"
proof -
  let ?s = "index_pending t k pk fk rk s"
  have other: "snk_sender k' \<noteq> snk_sender k" if "oget (pending_meta_by_tx_id s) u = Some k'" for u k'
    using pool_okD(2) [OF pool that] free by auto
  show nokey: "oget (pending_by_sender_nonce s) k = None"
    using pool_okD(1) [OF pool] other unfolding paired_def by (metis not_Some_eq)
  have "paired (oget (pending_by_sender_nonce ?s)) (oget (pending_meta_by_tx_id ?s))"
    using omap_pair.paired_ins [OF pool_okD(1) [OF pool] nokey fresh] by (simp add: index_pending_def)
  moreover have "oget (pending_current_by_sender ?s) (snk_sender k') = Some u
      \<and> oget (pending_min_nonce ?s) (snk_sender k') = Some (snk_nonce k')
      \<and> oget (sender_expected_nonce ?s) (snk_sender k') = Some (snk_nonce k')"
    if "oget (pending_meta_by_tx_id ?s) u = Some k'" for u k'
    using that other [of u k'] pool_okD(2) [OF pool, of u k'] exp by (auto simp: index_pending_def split: if_splits)
  moreover have "\<exists>n. oget (pending_meta_by_tx_id ?s) u = Some (SenderNonceKey sk n)"
    if "oget (pending_current_by_sender ?s) sk = Some u" for sk u
    using that pool_okD(3) [OF pool, of sk u] fresh
    by (cases "sk = snk_sender k") (auto simp: index_pending_def intro: exI [of _ "snk_nonce k"])
  moreover have "\<exists>u. oget (pending_meta_by_tx_id ?s) u = Some (SenderNonceKey sk n)"
    if n: "oget (pending_min_nonce ?s) sk = Some n" for sk n
  proof (cases "sk = snk_sender k")
    case True
    then show ?thesis
      using n by (intro exI [of _ t]) (auto simp: index_pending_def)
  next
    case False
    then obtain u where "oget (pending_meta_by_tx_id s) u = Some (SenderNonceKey sk n)"
      using n pool_okD(4) [OF pool, of sk n] by (auto simp: index_pending_def)
    then show ?thesis
      using fresh by (intro exI [of _ u]) auto
  qed
  ultimately show "pool_ok ?s"
    unfolding pool_ok_def by blast
qed

lemma index_pending_fee:
  assumes "fee_ok x s" and "oget (pending_meta_by_tx_id s) t = None" and "stored_of x s t = Some st"
    and fk: "fk = fee_key_of (base_fee (chain_state_cell s)) t st"
  shows "fee_ok x (index_pending t k pk fk rk s)"
proof -
  let ?s = "index_pending t k pk fk rk s"
  have f0: "fee_entry x s t = None"
    using assms(2) by (simp add: fee_entry_def)
  have "fee_entry x ?s = (fee_entry x s)(t := Some fk)"
    using assms(3) by (simp add: fee_entry_def fk fun_eq_iff)
  moreover have "oget (pending_fee_key_by_tx_id ?s) = (fee_entry x s)(t := Some fk)"
    using assms(1) by (auto simp: fee_ok_def index_pending_def)
  moreover have "oget (pending_fee_index s) fk = None"
    using assms(1) f0 by (intro paired_key_None [of _ "fee_entry x s" _ t])
      (auto simp: fee_ok_def fk fee_key_of_def dest: fee_entry_tx)
  then have "paired (oget (pending_fee_index ?s)) ((fee_entry x s)(t := Some fk))"
    using assms(1) paired_add [of "pending_fee_index s" "fee_entry x s" t fk] f0
    by (simp add: fee_ok_def index_pending_def del: oget_oinsert)
  ultimately show ?thesis
    by (simp add: fee_ok_def)
qed

lemma index_pending_ready:
  assumes "ready_ok x s" and "oget (pending_meta_by_tx_id s) t = None" and "stored_of x s t = Some st"
    and "oget (active_locs s) t = Some l" and rk: "rk = ready_key_of t st l"
  shows "ready_ok x (index_pending t k pk fk rk s)"
proof -
  let ?s = "index_pending t k pk fk rk s"
  have r0: "ready_entry x s t = None"
    using assms(2) by (simp add: ready_entry_def)
  have "ready_entry x ?s = (ready_entry x s)(t := Some rk)"
    using assms(3,4) by (simp add: ready_entry_def rk fun_eq_iff)
  moreover have "oget (ready_key_by_tx_id ?s) = (ready_entry x s)(t := Some rk)"
    using assms(1) by (auto simp: ready_ok_def index_pending_def)
  moreover have "oget (ready_queue s) rk = None"
    using assms(1) r0 by (intro paired_key_None [of _ "ready_entry x s" _ t])
      (auto simp: ready_ok_def rk ready_key_of_def dest: ready_entry_tx)
  then have "paired (oget (ready_queue ?s)) ((ready_entry x s)(t := Some rk))"
    using assms(1) paired_add [of "ready_queue s" "ready_entry x s" t rk] r0
    by (simp add: ready_ok_def index_pending_def del: oget_oinsert)
  moreover have "oget (ready_by_seq s) (seq_key t rk) = None"
    using assms(1) r0 by (intro paired_key_None [of _ "seq_entry (ready_entry x s)" _ t])
      (auto simp: ready_ok_def seq_entry_def dest: seq_key_inj)
  then have "paired (oget (ready_by_seq ?s)) ((seq_entry (ready_entry x s))(t := Some (seq_key t rk)))"
    using assms(1) paired_add [of "ready_by_seq s" "seq_entry (ready_entry x s)" t "seq_key t rk"] r0
    by (simp add: ready_ok_def index_pending_def seq_entry_def del: oget_oinsert)
  ultimately show ?thesis
    by (simp add: ready_ok_def)
qed

lemma index_pending_count:
  assumes "count_ok exact x s" and "cap_ok s" and fresh: "oget (pending_meta_by_tx_id s) t = None"
    and pk: "principal_key x s t = Some pk"
  shows "count_ok exact x (index_pending t k pk fk rk s)"
proof -
  let ?s = "index_pending t k pk fk rk s"
  have c: "counted exact (count_at (principal_pending_count s) q) (card (pending_of x s q))"
    "oget (principal_pending_count s) q \<noteq> Some 0" for q
    using assms(1) by (simp_all add: count_ok_def)
  have "pending_of x ?s q = (if q = pk then insert t (pending_of x s q) else pending_of x s q)" for q
    using pk by (auto simp: pending_of_def)
  moreover have "t \<notin> pending_of x s q" for q
    using fresh by (simp add: pending_of_def)
  ultimately have card: "card (pending_of x ?s q) = card (pending_of x s q) + (if q = pk then 1 else 0)" for q
    by simp
  have "card (pending_of x s pk) \<le> MAX_PENDING_GLOBAL"
    unfolding pending_of_def by (rule principal_card_bound [OF assms(2)])
  then have "count_at (principal_pending_count s) pk < 2 ^ 32 - 1"
    using counted_step(3) [OF c(1) [of pk]] by simp
  moreover have "principal_pending_count ?s = count_inc pk (principal_pending_count s)"
    by (simp add: index_pending_def)
  ultimately show ?thesis
    using c by (simp add: count_ok_def card count_at_inc count_inc_positive counted_step)
qed

lemma index_pending_inv:
  assumes inv: "mempool_inv exact x s" and fresh: "oget (pending_meta_by_tx_id s) t = None"
    and free: "oget (pending_current_by_sender s) (snk_sender k) = None"
    and exp: "oget (sender_expected_nonce s) (snk_sender k) = Some (snk_nonce k)"
    and room: "olen (pending_by_sender_nonce s) < MAX_PENDING_GLOBAL"
    and seen: "oget (seen_tx s) t = Some 1"
    and st: "stored_of x s t = Some st" "length (st_caller_principal st) \<le> 29"
    and pk: "principal_key x s t = Some pk"
    and loc: "oget (active_locs s) t = Some l" "loc_kind l = Queued"
    and fk: "fk = fee_key_of (base_fee (chain_state_cell s)) t st" and rk: "rk = ready_key_of t st l"
  shows "mempool_inv exact x (index_pending t k pk fk rk s)"
proof -
  let ?s = "index_pending t k pk fk rk s"
  note inv' = mempool_invD [OF inv]
  have entry: "entry_ok x ?s"
    using inv'(2) seen st loc by (simp add: entry_ok_def)
  have cap: "cap_ok ?s"
    using inv'(6) room fresh index_pending_pool(1) [OF inv'(1) fresh free exp]
    by (simp add: cap_ok_def index_pending_def olen_oinsert)
  show ?thesis
    using index_pending_pool(2) [OF inv'(1) fresh free exp] entry index_pending_fee [OF inv'(3) fresh st(1) fk]
      index_pending_ready [OF inv'(4) fresh st(1) loc(1) rk] index_pending_count [OF inv'(5,6) fresh pk] cap
    by (simp add: mempool_inv_def)
qed


definition noted :: "sender_key \<Rightarrow> stable_state \<Rightarrow> stable_state" where
  "noted sender s = snd (expected_nonce_for_sender sender s)"

lemma noted_fields [simp]:
  "same_indexes s (noted sender s)" "tx_store (noted sender s) = tx_store s" "seen_tx (noted sender s) = seen_tx s"
  "active_locs (noted sender s) = active_locs s" "chain_state_cell (noted sender s) = chain_state_cell s"
  "stored_of x (noted sender s) = stored_of x s" "accounts (noted sender s) = accounts s"
  by (auto simp: noted_def expected_nonce_for_sender_def same_indexes_def active_locs_def stored_of_def Let_def fun_eq_iff
      split: option.split)

lemma noted_eq: "\<exists>e. noted sender s = s\<lparr>sender_expected_nonce := e\<rparr>"
  by (cases "oget (sender_expected_nonce s) sender")
    (auto simp: noted_def expected_nonce_for_sender_def Let_def intro: exI [of _ "sender_expected_nonce s"])

lemma noted_expected:
  "oget (sender_expected_nonce (noted sender s)) sk =
    (if sk = sender then Some (fst (expected_nonce_for_sender sender s)) else oget (sender_expected_nonce s) sk)"
  by (auto simp: noted_def expected_nonce_for_sender_def Let_def split: option.split)

lemma noted_inv:
  assumes "mempool_inv exact x s"
  shows "mempool_inv exact x (noted sender s)"
proof (rule mempool_inv_frame [OF assms])
  fix t k
  assume "oget (pending_meta_by_tx_id s) t = Some k"
  from pool_okD(2) [OF mempool_invD(1) [OF assms] this]
  show "oget (sender_expected_nonce (noted sender s)) (snk_sender k) = oget (sender_expected_nonce s) (snk_sender k)"
    by (auto simp: noted_expected expected_nonce_for_sender_def)
qed simp_all

lemma nonce_rule_outcome:
  assumes "nonce_rule x sender nonce price base s = (r, s1)"
  shows "s1 = noted sender s"
    and "r = Inr None \<Longrightarrow> fst (expected_nonce_for_sender sender s) = nonce \<and> oget (pending_current_by_sender s) sender = None"
    and "r = Inr (Some old) \<Longrightarrow> fst (expected_nonce_for_sender sender s) = nonce
      \<and> oget (pending_current_by_sender s) sender = Some old
      \<and> (\<exists>p. effective_gas_price_for_tx x old base s = Inr p \<and> p < price)"
proof -
  obtain e where n: "expected_nonce_for_sender sender s = (e, noted sender s)"
    by (metis noted_def prod.collapse)
  have cur: "pending_current_by_sender (noted sender s) = pending_current_by_sender s"
    using noted_fields(1) [of s sender] by (simp add: same_indexes_def)
  have eff: "effective_gas_price_for_tx x old base (noted sender s) = effective_gas_price_for_tx x old base s" for old
    by (simp add: effective_gas_price_for_tx_def)
  note d = assms [unfolded nonce_rule_def n cur eff Let_def prod.case classify_nonce_def]
  show "s1 = noted sender s"
    using d by (auto split: if_splits option.splits sum.splits)
  show "fst (expected_nonce_for_sender sender s) = nonce \<and> oget (pending_current_by_sender s) sender = None" if "r = Inr None"
    using d that by (auto simp: n split: if_splits option.splits sum.splits)
  show "fst (expected_nonce_for_sender sender s) = nonce \<and> oget (pending_current_by_sender s) sender = Some old
      \<and> (\<exists>p. effective_gas_price_for_tx x old base s = Inr p \<and> p < price)" if "r = Inr (Some old)"
    using d that by (auto simp: n split: if_splits option.splits sum.splits)
qed

definition queued_state :: "tx_id \<Rightarrow> stable_state \<Rightarrow> stable_state" where
  "queued_state t s =
    (let (sq, meta) = queue_meta_push (queue_meta_cell s);
         s1 = tx_locs_insert t (tx_loc_queued sq)
                (s\<lparr>metrics_state_cell := record_submission 1 (metrics_state_cell s), queue_meta_cell := meta\<rparr>)
     in s1\<lparr>chain_state_cell := (chain_state_cell s1)\<lparr>next_queue_seq := tail meta\<rparr>\<rparr>)"

abbreviation next_seq_of :: "stable_state \<Rightarrow> u64" where
  "next_seq_of s \<equiv> tail (queue_meta_cell s)"

lemma enqueue_eq:
  assumes "oget (pending_min_nonce s) sender = None" and "caller_key_from_principal caller = Some pk"
  shows "enqueue_pending t sender nonce caller price mf mp dyn s =
    Some (index_pending t (SenderNonceKey sender nonce) pk (pending_fee_key_new price t)
      (ready_key_new mf (if dyn then mp else 0) (next_seq_of s) t) (queued_state t s))"
  using assms
  by (cases "tx_locs_v3_active s")
    (simp_all add: enqueue_pending_def queue_meta_push_def queue_push_def Let_def tx_locs_insert_def
      track_pending_indexes_on_insert_def promote_if_next_nonce_def classify_promote_def insert_ready_def
      index_pending_def queued_state_def count_inc_def seq_key_def)

lemma queued_state_fields [simp]:
  "same_indexes s (queued_state t s)" "sender_expected_nonce (queued_state t s) = sender_expected_nonce s"
  "tx_store (queued_state t s) = tx_store s" "seen_tx (queued_state t s) = seen_tx s"
  "stored_of x (queued_state t s) = stored_of x s" "principal_key x (queued_state t s) = principal_key x s"
  "base_fee (chain_state_cell (queued_state t s)) = base_fee (chain_state_cell s)"
  "oget (active_locs (queued_state t s)) u = (if u = t then Some (tx_loc_queued (next_seq_of s)) else oget (active_locs s) u)"
  by (auto simp: queued_state_def queue_meta_push_def queue_push_def Let_def tx_locs_insert_def same_indexes_def
      stored_of_def principal_key_def active_locs_def fun_eq_iff)


definition with_payload :: "ext \<Rightarrow> bool \<Rightarrow> stored_tx_bytes \<Rightarrow> stable_state \<Rightarrow> stable_state" where
  "with_payload x hash_index env s =
    (let t = stb_tx_id env;
         s1 = s\<lparr>seen_tx := oinsert t 1 (seen_tx s), tx_store := oinsert t env (tx_store s)\<rparr>
     in if hash_index then insert_eth_tx_hash_index_for_envelope x t env s1 else s1)"

lemma with_payload_eq:
  "\<exists>idx. with_payload x h env s = s\<lparr>seen_tx := oinsert (stb_tx_id env) 1 (seen_tx s),
    tx_store := oinsert (stb_tx_id env) env (tx_store s), eth_tx_hash_index := idx\<rparr>"
proof -
  have "with_payload x h env s = s\<lparr>seen_tx := oinsert (stb_tx_id env) 1 (seen_tx s),
    tx_store := oinsert (stb_tx_id env) env (tx_store s), eth_tx_hash_index := eth_tx_hash_index (with_payload x h env s)\<rparr>"
    by (simp add: with_payload_def Let_def insert_eth_tx_hash_index_for_envelope_def split: sum.split)
  then show ?thesis
    by blast
qed

lemma with_payload_fields [simp]:
  "same_indexes s (with_payload x h env s)" "sender_expected_nonce (with_payload x h env s) = sender_expected_nonce s"
  "queue_meta_cell (with_payload x h env s) = queue_meta_cell s"
  "active_locs (with_payload x h env s) = active_locs s"
  "seen_tx (with_payload x h env s) = oinsert (stb_tx_id env) 1 (seen_tx s)"
  "tx_store (with_payload x h env s) = oinsert (stb_tx_id env) env (tx_store s)"
proof -
  obtain idx where "with_payload x h env s = s\<lparr>seen_tx := oinsert (stb_tx_id env) 1 (seen_tx s),
    tx_store := oinsert (stb_tx_id env) env (tx_store s), eth_tx_hash_index := idx\<rparr>"
    using with_payload_eq by blast
  then show "same_indexes s (with_payload x h env s)" "sender_expected_nonce (with_payload x h env s) = sender_expected_nonce s"
    "queue_meta_cell (with_payload x h env s) = queue_meta_cell s"
    "active_locs (with_payload x h env s) = active_locs s"
    "seen_tx (with_payload x h env s) = oinsert (stb_tx_id env) 1 (seen_tx s)"
    "tx_store (with_payload x h env s) = oinsert (stb_tx_id env) env (tx_store s)"
    by (simp_all add: same_indexes_def active_locs_def)
qed

lemma queued_inv:
  assumes inv: "mempool_inv exact x s" and t: "oget (pending_meta_by_tx_id s) (stb_tx_id env) = None"
  shows "mempool_inv exact x (queued_state (stb_tx_id env) (with_payload x h env s))"
proof (rule mempool_inv_frame [OF inv])
  show "same_indexes s (queued_state (stb_tx_id env) (with_payload x h env s))"
    using queued_state_fields(1) [of "with_payload x h env s"] with_payload_fields(1) [of s x h env]
    unfolding same_indexes_def by simp
qed (use t in \<open>auto simp: stored_of_def\<close>)

text \<open>What is required of the transaction that is admitted, and what admitting it does.\<close>

definition admissible ::
  "ext \<Rightarrow> stored_tx_bytes \<Rightarrow> bytes \<Rightarrow> u128 \<Rightarrow> u128 \<Rightarrow> bool \<Rightarrow> u64 \<Rightarrow> stable_state \<Rightarrow> bool" where
  "admissible x env caller mf mp dyn price s \<longleftrightarrow>
    length caller \<le> 29 \<and> oget (seen_tx s) (stb_tx_id env) = None
    \<and> (\<exists>st. try_from x env = Inr st \<and> st_caller_principal st = caller \<and> st_max_fee_per_gas st = mf
         \<and> st_max_priority_fee_per_gas st = mp \<and> st_is_dynamic_fee st = dyn
         \<and> stored_effective_price st (base_fee (chain_state_cell s)) = Some price)"

definition admitted :: "stored_tx_bytes \<Rightarrow> sender_nonce_key \<Rightarrow> tx_id option \<Rightarrow> stable_state \<Rightarrow> stable_state \<Rightarrow> bool" where
  "admitted env k gone s s' \<longleftrightarrow>
    oget (tx_store s') (stb_tx_id env) = Some env \<and> oget (seen_tx s') (stb_tx_id env) = Some 1
    \<and> oget (active_locs s') (stb_tx_id env) = Some (tx_loc_queued (next_seq_of s))
    \<and> (\<forall>u. oget (pending_meta_by_tx_id s') u =
          (if u = stb_tx_id env then Some k else if gone = Some u then None else oget (pending_meta_by_tx_id s) u))
    \<and> (\<forall>u. gone = Some u \<longrightarrow> oget (tx_store s') u = None)"

lemma admit_tail:
  assumes inv: "mempool_inv exact x s2" and adm: "admissible x env caller mf mp dyn price s2"
    and free: "oget (pending_current_by_sender s2) sender = None"
    and exp: "oget (sender_expected_nonce s2) sender = Some nonce"
    and room: "olen (pending_by_sender_nonce s2) < MAX_PENDING_GLOBAL"
  obtains s' where "enqueue_pending (stb_tx_id env) sender nonce caller price mf mp dyn (with_payload x h env s2) = Some s'"
    and "mempool_inv exact x s'" and "admitted env (SenderNonceKey sender nonce) None s2 s'"
    and "oget (pending_by_sender_nonce s2) (SenderNonceKey sender nonce) = None"
    and "oget (pending_meta_by_tx_id s2) (stb_tx_id env) = None" and "tx_store s' = oinsert (stb_tx_id env) env (tx_store s2)"
proof -
  let ?t = "stb_tx_id env" and ?k = "SenderNonceKey sender nonce" and ?w = "with_payload x h env s2"
  let ?q = "queued_state ?t ?w"
  note i = mempool_invD [OF inv]
  obtain st where st: "try_from x env = Inr st" "st_caller_principal st = caller" "st_max_fee_per_gas st = mf"
      "st_max_priority_fee_per_gas st = mp" "st_is_dynamic_fee st = dyn"
      "stored_effective_price st (base_fee (chain_state_cell s2)) = Some price"
    and len: "length caller \<le> 29" and unseen: "oget (seen_tx s2) ?t = None"
    using adm by (auto simp: admissible_def)
  have fresh: "oget (pending_meta_by_tx_id s2) ?t = None"
    using i(2) unseen by (auto simp: entry_ok_def)
  obtain pk where pk: "caller_key_from_principal caller = Some pk"
    using len by (simp add: caller_key_from_principal_def)
  have nomin: "oget (pending_min_nonce s2) sender = None"
  proof (rule ccontr)
    assume "oget (pending_min_nonce s2) sender \<noteq> None"
    then obtain u n where "oget (pending_meta_by_tx_id s2) u = Some (SenderNonceKey sender n)"
      using pool_okD(4) [OF i(1)] by blast
    then show False
      using pool_okD(2) [OF i(1)] free by fastforce
  qed
  have same: "same_indexes s2 ?q" "same_indexes s2 ?w"
    using queued_state_fields(1) [of ?w ?t] with_payload_fields(1) [of s2 x h env] unfolding same_indexes_def by simp_all
  have stq: "stored_of x ?q ?t = Some st"
    using st(1) by (simp add: stored_of_def)
  define s' where "s' = index_pending ?t ?k pk (pending_fee_key_new price ?t)
      (ready_key_new mf (if dyn then mp else 0) (next_seq_of s2) ?t) ?q"
  have eq: "enqueue_pending ?t sender nonce caller price mf mp dyn ?w = Some s'"
    using enqueue_eq [of ?w sender caller pk] nomin pk same(2) by (simp add: s'_def same_indexes_def)
  have inv': "mempool_inv exact x s'"
    unfolding s'_def
  proof (rule index_pending_inv [OF queued_inv [OF inv fresh], where st = st and l = "tx_loc_queued (next_seq_of s2)"])
    show "pending_fee_key_new price ?t = fee_key_of (base_fee (chain_state_cell ?q)) ?t st"
      using st(6) same(1) by (simp add: fee_key_of_def same_indexes_def)
    show "principal_key x ?q ?t = Some pk"
      unfolding principal_key_def using stq st pk by simp
  qed (use same(1) fresh free exp room st stq len in \<open>simp_all add: same_indexes_def tx_loc_queued_def ready_key_of_def\<close>)
  have adm': "admitted env ?k None s2 s'"
    using same(1) by (simp add: admitted_def s'_def same_indexes_def)
  show ?thesis
    using that [OF eq inv' adm'] index_pending_pool(1) [OF i(1) fresh, of ?k] free exp fresh by (simp add: s'_def)
qed


text \<open>Which pending transaction, if any, an admission displaces.\<close>

definition displaced :: "ext \<Rightarrow> sender_key \<Rightarrow> u64 \<Rightarrow> tx_id option \<Rightarrow> stable_state \<Rightarrow> bool" where
  "displaced x sender price gone s \<longleftrightarrow>
    (case oget (pending_current_by_sender s) sender of
       Some old \<Rightarrow> gone = Some old
         \<and> (\<exists>p. effective_gas_price_for_tx x old (base_fee (chain_state_cell s)) s = Inr p \<and> p < price)
     | None \<Rightarrow>
         if olen (pending_by_sender_nonce s) < MAX_PENDING_GLOBAL then gone = None
         else \<exists>key u. ofirst (pending_fee_index s) = Some (key, u) \<and> fee_of_key key < price \<and> gone = Some u)"

definition rejection :: "chain_error \<Rightarrow> bool" where
  "rejection e \<longleftrightarrow> e \<in> {NonceTooLow, NonceGap, NonceConflict, SenderQueueFull, PrincipalQueueFull, QueueFull}"

lemma caps_outcome:
  assumes inv: "mempool_inv exact x s" and len: "length caller \<le> 29"
  obtains r s' where "enforce_pending_caps x sender caller price s = Some (r, s')"
    and "(\<exists>e. r = Inl e \<and> rejection e \<and> s' = s)
      \<or> (r = Inr () \<and> s' = s \<and> olen (pending_by_sender_nonce s) < MAX_PENDING_GLOBAL)
      \<or> (\<exists>t k pk key. r = Inr () \<and> \<not> olen (pending_by_sender_nonce s) < MAX_PENDING_GLOBAL
           \<and> ofirst (pending_fee_index s) = Some (key, t) \<and> fee_of_key key < price
           \<and> oget (pending_meta_by_tx_id s) t = Some k \<and> principal_key x s t = Some pk
           \<and> s' = dropped_state x t k pk DROP_CODE_REPLACED s)"
proof -
  have "count_pending_for_principal caller s \<noteq> None"
    using len by (simp add: count_pending_for_principal_def caller_key_from_principal_def)
  then obtain pc where pc: "count_pending_for_principal caller s = Some pc"
    by blast
  obtain r s' where ev: "evict_lowest_fee_pending x price s = Some (r, s')"
    using evict_lowest_total [OF inv] by fastforce
  define i where "i = \<lparr>sender_count = count_pending_for_sender sender s, principal_count = pc,
      global_count = olen (pending_by_sender_nonce s), max_per_sender = MAX_PENDING_PER_SENDER,
      max_per_principal = MAX_PENDING_PER_PRINCIPAL, max_global = MAX_PENDING_GLOBAL,
      incoming_effective_gas_price = price,
      lowest_effective_gas_price = map_option (\<lambda>e. fee_of_key (fst e)) (ofirst (pending_fee_index s))\<rparr>"
  have enf: "enforce_pending_caps x sender caller price s = (case classify_pending_caps i of
       CapAccept \<Rightarrow> Some (Inr (), s) | SenderFull \<Rightarrow> Some (Inl SenderQueueFull, s)
     | PrincipalFull \<Rightarrow> Some (Inl PrincipalQueueFull, s) | GlobalFull \<Rightarrow> Some (Inl QueueFull, s)
     | EvictLowest \<Rightarrow> Some (r, s'))"
    using pc unfolding enforce_pending_caps_def ev i_def by (simp add: Let_def)
  have room: "classify_pending_caps i = CapAccept \<Longrightarrow> olen (pending_by_sender_nonce s) < MAX_PENDING_GLOBAL"
    and full: "classify_pending_caps i = EvictLowest \<Longrightarrow> \<not> olen (pending_by_sender_nonce s) < MAX_PENDING_GLOBAL"
    by (auto simp: classify_pending_caps_def i_def split: if_splits option.splits)
  have rej: "rejection SenderQueueFull" "rejection PrincipalQueueFull" "rejection QueueFull"
    by (simp_all add: rejection_def)
  show ?thesis
  proof (cases "classify_pending_caps i")
    case EvictLowest
    then show ?thesis
      using evict_lowest_outcome [OF inv ev] enf full rej that [of r s'] by auto
  qed (use enf room rej that in auto)
qed

lemma admissible_mono:
  "admissible x env caller mf mp dyn price s \<Longrightarrow> seen_tx s' = seen_tx s \<Longrightarrow> chain_state_cell s' = chain_state_cell s \<Longrightarrow>
    admissible x env caller mf mp dyn price s'"
  by (simp add: admissible_def)

lemma admitted_after_drop:
  assumes "admitted env k None (dropped_state x old k0 pk code s) s'" and "stb_tx_id env \<noteq> old"
    and "tx_store s' = oinsert (stb_tx_id env) env (tx_store (dropped_state x old k0 pk code s))"
  shows "admitted env k (Some old) s s'"
  using assms by (auto simp: admitted_def dropped_state_fields)

lemma admit_accept:
  assumes inv: "mempool_inv exact x s2" and adm: "admissible x env caller mf mp dyn price s2"
    and "oget (pending_current_by_sender s2) sender = None" "oget (sender_expected_nonce s2) sender = Some nonce"
    and "olen (pending_by_sender_nonce s2) < MAX_PENDING_GLOBAL"
    and n: "apply_nonce_and_replacement x sender nonce price (base_fee (chain_state_cell s)) s = Some (Inr rep, s1)"
    and c: "(if rep = None then enforce_pending_caps x sender caller price s1 else Some (Inr (), s1)) = Some (Inr (), s2)"
  obtains s' where "admit_pending x h env sender nonce caller price mf mp dyn s = Some (Inr (stb_tx_id env), s')"
    and "mempool_inv exact x s'" and "admitted env (SenderNonceKey sender nonce) None s2 s'"
    and "tx_store s' = oinsert (stb_tx_id env) env (tx_store s2)"
proof -
  obtain s' where s': "enqueue_pending (stb_tx_id env) sender nonce caller price mf mp dyn (with_payload x h env s2) = Some s'"
    "mempool_inv exact x s'" "admitted env (SenderNonceKey sender nonce) None s2 s'"
    "oget (pending_by_sender_nonce s2) (SenderNonceKey sender nonce) = None"
    "tx_store s' = oinsert (stb_tx_id env) env (tx_store s2)"
    using admit_tail [OF assms(1-5), where h = h] by metis
  have "admit_pending x h env sender nonce caller price mf mp dyn s = Some (Inr (stb_tx_id env), s')"
    using n c s'(1,4) by (simp add: admit_pending_def with_payload_def Let_def)
  then show ?thesis
    using that s' by blast
qed

lemma apply_nonce_cases:
  assumes inv: "mempool_inv exact x s"
  obtains (reject) e where "apply_nonce_and_replacement x sender nonce price base s = Some (Inl e, noted sender s)" "rejection e"
  | (accept) "apply_nonce_and_replacement x sender nonce price base s = Some (Inr None, noted sender s)"
      "oget (sender_expected_nonce (noted sender s)) sender = Some nonce" "oget (pending_current_by_sender s) sender = None"
  | (replace) old k pk p where "apply_nonce_and_replacement x sender nonce price base s
        = Some (Inr (Some old), dropped_state x old k pk DROP_CODE_REPLACED (noted sender s))"
      "oget (sender_expected_nonce (noted sender s)) sender = Some nonce" "oget (pending_current_by_sender s) sender = Some old"
      "oget (pending_meta_by_tx_id s) old = Some k" "snk_sender k = sender" "principal_key x s old = Some pk"
      "effective_gas_price_for_tx x old base s = Inr p" "p < price"
proof -
  obtain r s1 where n: "nonce_rule x sender nonce price base s = (r, s1)"
    by fastforce
  note o = nonce_rule_outcome [OF n]
  have ex: "fst (expected_nonce_for_sender sender s) = nonce \<Longrightarrow> oget (sender_expected_nonce (noted sender s)) sender = Some nonce"
    by (simp add: noted_expected)
  consider (err) e where "r = Inl e" | (none) "r = Inr None" | (some) old where "r = Inr (Some old)"
    by (cases r) auto
  then show thesis
  proof cases
    case (err e)
    have "rejection NonceTooLow" "rejection NonceGap" "rejection NonceConflict"
      by (simp_all add: rejection_def)
    then show thesis
      using reject n o(1) err by (cases e) (auto simp: apply_nonce_and_replacement_def)
  next
    case none
    then show thesis
      using accept n o(1,2) ex by (simp add: apply_nonce_and_replacement_def)
  next
    case (some old)
    have cur: "oget (pending_current_by_sender s) sender = Some old"
      and exp: "fst (expected_nonce_for_sender sender s) = nonce"
      and price: "\<exists>p. effective_gas_price_for_tx x old base s = Inr p \<and> p < price"
      using o(3) [OF some] by auto
    then obtain m where m: "oget (pending_meta_by_tx_id s) old = Some (SenderNonceKey sender m)"
      using pool_okD(3) [OF mempool_invD(1) [OF inv]] by blast
    then obtain pk where pk: "principal_key x s old = Some pk"
      using pending_principal [OF inv] by blast
    have m': "oget (pending_meta_by_tx_id (noted sender s)) old = Some (SenderNonceKey sender m)"
      using m noted_fields(1) [of s sender] by (simp add: same_indexes_def)
    have pk': "principal_key x (noted sender s) old = Some pk"
      using pk by (simp add: principal_key_def)
    have "apply_nonce_and_replacement x sender nonce price base s
        = Some (Inr (Some old), dropped_state x old (SenderNonceKey sender m) pk DROP_CODE_REPLACED (noted sender s))"
      using n o(1) some replace_pending_eq [OF noted_inv [OF inv] m' pk'] by (simp add: apply_nonce_and_replacement_def)
    then show thesis
      using replace ex exp cur m pk price by auto
  qed
qed


lemma drop_makes_room:
  assumes inv: "mempool_inv exact x n" and adm: "admissible x env caller mf mp dyn price n"
    and k: "oget (pending_meta_by_tx_id n) u = Some k" and pk: "principal_key x n u = Some pk"
  shows "mempool_inv exact x (dropped_state x u k pk code n)"
    and "admissible x env caller mf mp dyn price (dropped_state x u k pk code n)"
    and "olen (pending_by_sender_nonce (dropped_state x u k pk code n)) < MAX_PENDING_GLOBAL"
    and "stb_tx_id env \<noteq> u"
proof -
  have u: "oget (pending_by_sender_nonce n) k = Some u"
    using pool_okD(1) [OF mempool_invD(1) [OF inv]] k unfolding paired_def by blast
  then have "0 < olen (pending_by_sender_nonce n)"
    using finite_dom_oget [of "pending_by_sender_nonce n"] by (auto simp only: olen_card card_gt_0_iff)
  moreover have "olen (pending_by_sender_nonce n) \<le> MAX_PENDING_GLOBAL"
    using mempool_invD(6) [OF inv] by (simp add: cap_ok_def)
  ultimately show "olen (pending_by_sender_nonce (dropped_state x u k pk code n)) < MAX_PENDING_GLOBAL"
    using u by (simp add: dropped_state_fields olen_oremove)
  show "mempool_inv exact x (dropped_state x u k pk code n)"
    using dropped_state_inv [OF inv k pk] .
  show "admissible x env caller mf mp dyn price (dropped_state x u k pk code n)"
    using admissible_mono [OF adm] by (simp add: dropped_state_fields)
  show "stb_tx_id env \<noteq> u"
    using mempool_invD(2) [OF inv] adm k by (auto simp: entry_ok_def admissible_def)
qed

lemma admit_displacing:
  assumes inv: "mempool_inv exact x n" and adm: "admissible x env caller mf mp dyn price n"
    and k: "oget (pending_meta_by_tx_id n) u = Some k" and pk: "principal_key x n u = Some pk"
    and exp: "oget (sender_expected_nonce n) sender = Some nonce"
    and free: "oget (oremove (snk_sender k) (pending_current_by_sender n)) sender = None"
    and a: "apply_nonce_and_replacement x sender nonce price (base_fee (chain_state_cell s)) s = Some (Inr rep, s1)"
    and c: "(if rep = None then enforce_pending_caps x sender caller price s1 else Some (Inr (), s1))
      = Some (Inr (), dropped_state x u k pk code n)"
  shows "\<exists>s'. admit_pending x h env sender nonce caller price mf mp dyn s = Some (Inr (stb_tx_id env), s')
    \<and> mempool_inv exact x s' \<and> admitted env (SenderNonceKey sender nonce) (Some u) n s'"
proof -
  note d = drop_makes_room(1-3) [OF inv adm k pk, where code = code] drop_makes_room(4) [OF inv adm k pk]
  obtain s' where s': "admit_pending x h env sender nonce caller price mf mp dyn s = Some (Inr (stb_tx_id env), s')"
    "mempool_inv exact x s'" "admitted env (SenderNonceKey sender nonce) None (dropped_state x u k pk code n) s'"
    "tx_store s' = oinsert (stb_tx_id env) env (tx_store (dropped_state x u k pk code n))"
  proof (rule admit_accept [OF d(1,2) _ _ d(3) a c, where h = h])
    show "oget (pending_current_by_sender (dropped_state x u k pk code n)) sender = None"
      "oget (sender_expected_nonce (dropped_state x u k pk code n)) sender = Some nonce"
      using free exp by (simp_all only: dropped_state_fields)
  qed
  then show ?thesis
    using admitted_after_drop [OF s'(3) d(4) s'(4)] by blast
qed

lemma admit_outcome:
  assumes inv: "mempool_inv exact x s" and adm: "admissible x env caller mf mp dyn price s"
  shows "\<exists>r s'. admit_pending x h env sender nonce caller price mf mp dyn s = Some (r, s') \<and> mempool_inv exact x s'
    \<and> (case r of
         Inl e \<Rightarrow> rejection e \<and> s' = noted sender s
       | Inr i \<Rightarrow> i = stb_tx_id env \<and> nonce = fst (expected_nonce_for_sender sender s)
           \<and> (\<exists>gone. displaced x sender price gone s \<and> admitted env (SenderNonceKey sender nonce) gone s s'))"
proof -
  let ?run = "admit_pending x h env sender nonce caller price mf mp dyn s"
  let ?n = "noted sender s" and ?t = "stb_tx_id env" and ?k = "SenderNonceKey sender nonce"
  have inv': "mempool_inv exact x ?n" and adm': "admissible x env caller mf mp dyn price ?n"
    using noted_inv [OF inv] admissible_mono [OF adm] by simp_all
  have same: "same_indexes s ?n" "queue_meta_cell ?n = queue_meta_cell s"
    using noted_eq [of sender s] by auto
  note sm = same [unfolded same_indexes_def]
  have pkn: "principal_key x ?n = principal_key x s"
    by (simp add: principal_key_def fun_eq_iff)
  have adm_n: "admitted env ?k gone ?n s' \<Longrightarrow> admitted env ?k gone s s'" for gone s'
    using sm by (simp add: admitted_def)
  have exp: "oget (sender_expected_nonce ?n) sender = Some nonce \<Longrightarrow> nonce = fst (expected_nonce_for_sender sender s)"
    by (simp add: noted_expected)
  show ?thesis
  proof (cases rule: apply_nonce_cases [OF inv, of sender nonce price "base_fee (chain_state_cell s)", case_names reject accept replace])
    case (reject e)
    then show ?thesis
      using inv' by (intro exI [of _ "Inl e"] exI [of _ ?n]) (simp add: admit_pending_def)
  next
    case (replace old k pk p)
    have "\<exists>s'. ?run = Some (Inr ?t, s') \<and> mempool_inv exact x s' \<and> admitted env ?k (Some old) ?n s'"
      using replace sm pkn by (intro admit_displacing [OF inv' adm' _ _ _ _ replace(1)]) simp_all
    moreover have "displaced x sender price (Some old) s"
      using replace by (simp add: displaced_def)
    ultimately show ?thesis
      using exp [OF replace(2)] adm_n by fastforce
  next
    case accept
    have free: "oget (pending_current_by_sender ?n) sender = None"
      using accept sm by simp
    have len: "length caller \<le> 29"
      using adm by (simp add: admissible_def)
    from inv' len show ?thesis
    proof (rule caps_outcome [where sender = sender and price = price])
      fix r s2
      assume c: "enforce_pending_caps x sender caller price ?n = Some (r, s2)"
      assume "(\<exists>e. r = Inl e \<and> rejection e \<and> s2 = ?n)
        \<or> (r = Inr () \<and> s2 = ?n \<and> olen (pending_by_sender_nonce ?n) < MAX_PENDING_GLOBAL)
        \<or> (\<exists>t k pk key. r = Inr () \<and> \<not> olen (pending_by_sender_nonce ?n) < MAX_PENDING_GLOBAL
           \<and> ofirst (pending_fee_index ?n) = Some (key, t) \<and> fee_of_key key < price
           \<and> oget (pending_meta_by_tx_id ?n) t = Some k \<and> principal_key x ?n t = Some pk
           \<and> s2 = dropped_state x t k pk DROP_CODE_REPLACED ?n)"
      then consider (err) e where "r = Inl e" "rejection e" "s2 = ?n"
        | (room) "r = Inr ()" "s2 = ?n" "olen (pending_by_sender_nonce ?n) < MAX_PENDING_GLOBAL"
        | (evict) t k pk key where "r = Inr ()" "\<not> olen (pending_by_sender_nonce ?n) < MAX_PENDING_GLOBAL"
            "ofirst (pending_fee_index ?n) = Some (key, t)" "fee_of_key key < price"
            "oget (pending_meta_by_tx_id ?n) t = Some k" "principal_key x ?n t = Some pk"
            "s2 = dropped_state x t k pk DROP_CODE_REPLACED ?n"
        by blast
      then show ?thesis
      proof cases
        case err
        then show ?thesis
          using accept(1) c inv' by (intro exI [of _ "Inl e"] exI [of _ ?n]) (simp add: admit_pending_def)
      next
        case room
        obtain s' where "?run = Some (Inr ?t, s')" "mempool_inv exact x s'" "admitted env ?k None ?n s'"
          using admit_accept [OF inv' adm' free accept(2) room(3) accept(1), where h = h] c room by auto
        moreover have "displaced x sender price None s"
          using accept(3) room(3) sm by (simp add: displaced_def)
        ultimately show ?thesis
          using exp [OF accept(2)] adm_n by fastforce
      next
        case evict
        have "\<exists>s'. ?run = Some (Inr ?t, s') \<and> mempool_inv exact x s' \<and> admitted env ?k (Some t) ?n s'"
          using c evict free
          by (intro admit_displacing [OF inv' adm' evict(5,6) accept(2) _ accept(1), where code = DROP_CODE_REPLACED]) simp_all
        moreover have "displaced x sender price (Some t) s"
          using accept(3) evict sm by (simp add: displaced_def)
        ultimately show ?thesis
          using exp [OF accept(2)] adm_n by fastforce
      qed
    qed
  qed
qed


section \<open>Submissions\<close>

lemma eth_envelope_valid:
  fixes x :: ext
  assumes "raw \<noteq> []"
  defines "t \<equiv> stored_tx_id (keccak x) EthSigned raw None None None"
  shows "\<exists>st. try_from x (new_with_fees t EthSigned raw None [] caller mf mp dyn) = Inr st
    \<and> st_caller_principal st = caller \<and> st_max_fee_per_gas st = mf
    \<and> st_max_priority_fee_per_gas st = mp \<and> st_is_dynamic_fee st = dyn"
  using assms by (simp add: stored_tx_try_from_def new_with_fees_def Let_def)

lemma ic_envelope_valid:
  fixes x :: ext
  assumes "raw \<noteq> []" and "canister \<noteq> []" and "caller \<noteq> []" and "derive x caller = Some a"
  defines "t \<equiv> stored_tx_id (keccak x) IcSynthetic raw (Some a) (Some canister) (Some caller)"
  shows "\<exists>st. try_from x (new_with_fees t IcSynthetic raw (Some a) canister caller mf mp dyn) = Inr st
    \<and> st_caller_principal st = caller \<and> st_max_fee_per_gas st = mf
    \<and> st_max_priority_fee_per_gas st = mp \<and> st_is_dynamic_fee st = dyn"
  using assms by (simp add: stored_tx_try_from_def new_with_fees_def Let_def)

lemma stb_tx_id_new [simp]: "stb_tx_id (new_with_fees t kind raw c can p mf mp dyn) = t"
  by (simp add: new_with_fees_def)

text \<open>What a submission may do to the state: a rejection at most records the sender's expected nonce; an
  acceptance admits a transaction not seen before at exactly the expected nonce of its sender, displacing
  at most one pending transaction.\<close>

definition submission_effect :: "ext \<Rightarrow> stable_state \<Rightarrow> chain_error + tx_id \<Rightarrow> stable_state \<Rightarrow> bool" where
  "submission_effect x s r s' \<longleftrightarrow>
    (case r of
       Inl e \<Rightarrow> s' = s \<or> (\<exists>sender. s' = noted sender s)
     | Inr t \<Rightarrow> oget (seen_tx s) t = None
         \<and> (\<exists>env sender price gone. stb_tx_id env = t \<and> displaced x sender price gone s
              \<and> admitted env (SenderNonceKey sender (fst (expected_nonce_for_sender sender s))) gone s s'))"

definition submission_ok :: "bool \<Rightarrow> ext \<Rightarrow> stable_state \<Rightarrow> ((chain_error + tx_id) \<times> stable_state) option \<Rightarrow> bool" where
  "submission_ok exact x s out \<longleftrightarrow>
    (\<exists>r s'. out = Some (r, s') \<and> mempool_inv exact x s' \<and> submission_effect x s r s')"

lemma submission_ok_early: "mempool_inv exact x s \<Longrightarrow> submission_ok exact x s (Some (Inl e, s))"
  by (simp add: submission_ok_def submission_effect_def)

lemma submission_branches:
  "(c \<Longrightarrow> submission_ok exact x s a) \<Longrightarrow> (\<not> c \<Longrightarrow> submission_ok exact x s b) \<Longrightarrow> submission_ok exact x s (if c then a else b)"
  "(o' = None \<Longrightarrow> submission_ok exact x s a) \<Longrightarrow> (\<And>y. o' = Some y \<Longrightarrow> submission_ok exact x s (f y)) \<Longrightarrow>
    submission_ok exact x s (case o' of None \<Rightarrow> a | Some y \<Rightarrow> f y)"
  "(\<And>y. r = Inl y \<Longrightarrow> submission_ok exact x s (g y)) \<Longrightarrow> (\<And>y. r = Inr y \<Longrightarrow> submission_ok exact x s (h y)) \<Longrightarrow>
    submission_ok exact x s (case r of Inl y \<Rightarrow> g y | Inr y \<Rightarrow> h y)"
  by (simp_all split: option.split sum.split)

lemma admit_effect:
  assumes "mempool_inv exact x s" and "admissible x env caller mf mp dyn price s"
  shows "submission_ok exact x s (admit_pending x h env sender nonce caller price mf mp dyn s)"
proof -
  obtain r s' where a: "admit_pending x h env sender nonce caller price mf mp dyn s = Some (r, s')" "mempool_inv exact x s'"
    and o: "case r of
         Inl e \<Rightarrow> rejection e \<and> s' = noted sender s
       | Inr i \<Rightarrow> i = stb_tx_id env \<and> nonce = fst (expected_nonce_for_sender sender s)
           \<and> (\<exists>gone. displaced x sender price gone s \<and> admitted env (SenderNonceKey sender nonce) gone s s')"
    using admit_outcome [OF assms] by blast
  have "oget (seen_tx s) (stb_tx_id env) = None"
    using assms(2) by (simp add: admissible_def)
  then have "submission_effect x s r s'"
    using o unfolding submission_effect_def by (cases r) auto
  then show ?thesis
    using a by (simp add: submission_ok_def)
qed

lemma submit_eth_state:
  assumes inv: "mempool_inv exact x s" and len: "length caller \<le> 29"
  shows "submission_ok exact x s (submit_tx_state x EthSigned raw caller s)"
proof (cases "decode_tx (recover x) EthSigned (replicate 20 0) raw")
  case (Inl e)
  then show ?thesis
    using submission_ok_early [OF inv] by (simp add: submit_tx_state_def Let_def)
next
  case (Inr e)
  let ?t = "stored_tx_id (keccak x) EthSigned raw None None None"
  obtain mf mp dyn where ff: "fee_fields_from_tx_env e = (mf, mp, dyn)"
    by (cases "fee_fields_from_tx_env e")
  let ?env = "new_with_fees ?t EthSigned raw None [] caller mf mp dyn"
  have "raw \<noteq> []"
    using Inr by (auto simp: decode_eth_raw_tx_def decode_eth_raw_tx_to_recovered_def)
  then obtain st where v: "try_from x ?env = Inr st" "st_caller_principal st = caller" "st_max_fee_per_gas st = mf"
    "st_max_priority_fee_per_gas st = mp" "st_is_dynamic_fee st = dyn"
    using eth_envelope_valid [of raw x caller mf mp dyn] by blast
  have adm: "submission_ok exact x s (admit_pending x True ?env sender nonce caller price mf mp dyn s)"
    if "oget (seen_tx s) ?t = None"
      "effective_gas_price mf (if dyn then mp else 0) (base_fee (chain_state_cell s)) = Some price" for price sender nonce
    using v that len
    by (intro admit_effect [OF inv]) (cases dyn, simp_all add: admissible_def stored_effective_price_def)
  show ?thesis
    unfolding submit_tx_state_def Inr sum.case ff prod.case Let_def
    by (intro submission_branches submission_ok_early [OF inv] adm) simp_all
qed

lemma submit_ic_state_effect:
  assumes inv: "mempool_inv exact x s" and len: "length caller \<le> 29" and ne: "caller \<noteq> []" "canister \<noteq> []"
    and raw: "raw \<noteq> []" and a: "derive x caller = Some a"
  shows "submission_ok exact x s (submit_ic_state x caller canister raw tx a s)"
proof -
  let ?t = "stored_tx_id (keccak x) IcSynthetic raw (Some a) (Some canister) (Some caller)"
  let ?mf = "ic_max_fee_per_gas tx" and ?mp = "ic_max_priority_fee_per_gas tx"
  note v = ic_envelope_valid [OF raw ne(2,1) a, of ?mf ?mp True]
  have adm: "submission_ok exact x s (admit_pending x False (new_with_fees ?t IcSynthetic raw (Some a) canister caller ?mf ?mp True)
      a (ic_nonce tx) caller price ?mf ?mp True s)"
    if "oget (seen_tx s) ?t = None" "effective_gas_price ?mf ?mp (base_fee (chain_state_cell s)) = Some price" for price
    using v that len by (intro admit_effect [OF inv]) (auto simp: admissible_def stored_effective_price_def)
  show ?thesis
    unfolding submit_ic_state_def Let_def by (intro submission_branches submission_ok_early [OF inv] adm) simp_all
qed

text \<open>The address cache only holds what the derivation would return, so it is invisible.\<close>

definition node_inv :: "bool \<Rightarrow> ext \<Rightarrow> node \<Rightarrow> bool" where
  "node_inv exact x n \<longleftrightarrow> mempool_inv exact x (stable n)
    \<and> (\<forall>p a. oget (caller_evm_by_principal n) p = Some a \<longrightarrow> derive x p = Some a)"

lemma suppressed_node [simp]:
  "stable (snd (is_principal_decode_suppressed p now n)) = stable n"
  "caller_evm_by_principal (snd (is_principal_decode_suppressed p now n)) = caller_evm_by_principal n"
  by (simp_all add: is_principal_decode_suppressed_def Let_def)

lemma derive_cached:
  assumes "node_inv exact x n"
  shows "fst (derive_caller_evm_cached x p n) = (case derive x p of None \<Rightarrow> Inl AddressDerivationFailed | Some a \<Rightarrow> Inr a)"
    and "node_inv exact x (snd (derive_caller_evm_cached x p n))" and "stable (snd (derive_caller_evm_cached x p n)) = stable n"
  using assms by (auto simp: derive_caller_evm_cached_def node_inv_def Let_def split: option.split if_splits)

text \<open>Requests as the Internet Computer delivers them: principals have at most 29 bytes, and a canister
  call names its caller and the canister.\<close>

fun request_ok :: "tx_in \<Rightarrow> bool" where
  "request_ok (TxInEthSigned raw caller) = (length caller \<le> 29)"
| "request_ok (TxInIcSynthetic caller canister tx) = (length caller \<le> 29 \<and> caller \<noteq> [] \<and> canister \<noteq> [])"

lemma submit_tx_in_ok:
  assumes inv: "node_inv exact x n" and ok: "request_ok req"
  shows "\<exists>r n'. submit_tx_in x now req n = Some (r, n') \<and> node_inv exact x n' \<and> submission_effect x (stable n) r (stable n')"
proof (cases req)
  case (TxInEthSigned raw caller)
  obtain sup n1 where n1: "is_principal_decode_suppressed caller now n = (sup, n1)"
    by fastforce
  have same: "stable n1 = stable n" "caller_evm_by_principal n1 = caller_evm_by_principal n"
    using suppressed_node [of caller now n] n1 by simp_all
  have "submission_ok exact x (stable n) (submit_tx_state x EthSigned raw caller (stable n))"
    using submit_eth_state inv ok TxInEthSigned by (simp add: node_inv_def)
  moreover have "submission_effect x (stable n) (Inl err) (stable n)" for err
    by (simp add: submission_effect_def)
  ultimately show ?thesis
    using inv same TxInEthSigned n1 by (cases sup) (auto simp: submit_tx_def submission_ok_def node_inv_def)
next
  case (TxInIcSynthetic caller canister tx)
  obtain sup n1 where n1: "is_principal_decode_suppressed caller now n = (sup, n1)"
    by fastforce
  have same: "stable n1 = stable n" "caller_evm_by_principal n1 = caller_evm_by_principal n"
    using suppressed_node [of caller now n] n1 by simp_all
  then have inv1: "node_inv exact x n1"
    using inv by (simp add: node_inv_def)
  obtain d n2 where n2: "derive_caller_evm_cached x caller n1 = (d, n2)"
    by fastforce
  note d = derive_cached [OF inv1, of caller, unfolded n2 fst_conv snd_conv]
  have "encode_ic_synthetic_input tx \<noteq> []"
    by (simp add: encode_ic_synthetic_input_def split: option.split)
  then have ok2: "submission_ok exact x (stable n) (submit_ic_state x caller canister (encode_ic_synthetic_input tx) tx a (stable n))"
    if "d = Inr a" for a
    using submit_ic_state_effect [of exact x "stable n"] inv ok d(1) that TxInIcSynthetic
    by (auto simp: node_inv_def split: option.splits)
  have e: "submission_effect x (stable n) (Inl err) (stable n)" for err
    by (simp add: submission_effect_def)
  show ?thesis
  proof (cases d)
    case (Inl err)
    then show ?thesis
      using inv1 d same n1 n2 e TxInIcSynthetic by (cases sup) (simp_all add: submit_ic_tx_input_def Let_def)
  next
    case (Inr a)
    then show ?thesis
      using ok2 [OF Inr] inv1 d same n1 n2 e TxInIcSynthetic
      by (cases sup) (auto simp: submit_ic_tx_input_def Let_def submission_ok_def node_inv_def)
  qed
qed

end
