(* ===== verification/Mempool_Rebuild.thy ===== *)
theory Mempool_Rebuild
  imports Mempool_Inv
begin

text \<open>
  Rebuilding the derived indexes of the mempool: the fee index when the base fee moves, and all the
  runtime indexes after an upgrade. A consistent mempool is determined by the pending tables and the
  stored transactions: rebuilding gives back exactly the indexes that were maintained incrementally.
\<close>

abbreviation pending_ids :: "stable_state \<Rightarrow> tx_id list" where
  "pending_ids s \<equiv> map snd (entries (pending_by_sender_nonce s))"

lemma pending_ids_pool:
  assumes "pool_ok s"
  shows "distinct (pending_ids s)" and "set (pending_ids s) = {t. oget (pending_meta_by_tx_id s) t \<noteq> None}"
proof -
  have pair: "(k, t) \<in> set (entries (pending_by_sender_nonce s)) \<longleftrightarrow> oget (pending_meta_by_tx_id s) t = Some k" for k t
    using pool_okD(1) [OF assms] by (simp add: oget_entries [symmetric] paired_def)
  have "distinct (entries (pending_by_sender_nonce s))"
    using distinct_okeys [of "pending_by_sender_nonce s"] unfolding okeys_def distinct_map by blast
  moreover have "inj_on snd (set (entries (pending_by_sender_nonce s)))"
    by (auto simp: inj_on_def pair)
  ultimately show "distinct (pending_ids s)"
    by (simp add: distinct_map)
  show "set (pending_ids s) = {t. oget (pending_meta_by_tx_id s) t \<noteq> None}"
    using pair by (force simp: image_iff)
qed

lemma paired_unique: "paired (oget m) g \<Longrightarrow> paired (oget m') g \<Longrightarrow> m = m'"
  unfolding paired_def by (rule omap_ext) (metis option.exhaust)

section \<open>The fee index\<close>

lemma stored_ofD: "stored_of x s t = Some st \<Longrightarrow> \<exists>v. oget (tx_store s) t = Some v \<and> try_from x v = Inr st"
  unfolding stored_of_def by (simp split: option.splits sum.splits)

lemma rebuild_fee_entry_eq:
  "stored_of x s t = Some st \<Longrightarrow> rebuild_fee_entry x base t s =
    s\<lparr>pending_fee_index := oinsert (fee_key_of base t st) t (pending_fee_index s),
      pending_fee_key_by_tx_id := oinsert t (fee_key_of base t st) (pending_fee_key_by_tx_id s)\<rparr>"
  using stored_ofD [of x s t st] by (auto simp: rebuild_fee_entry_def fee_key_of_def Let_def)

lemma fold_fee_entries:
  assumes "distinct ids" and "\<And>t. t \<in> set ids \<Longrightarrow> stored_of x s t \<noteq> None \<and> oget (pending_fee_key_by_tx_id s) t = None"
    and "paired (oget (pending_fee_index s)) (oget (pending_fee_key_by_tx_id s))"
    and "\<And>t key. oget (pending_fee_key_by_tx_id s) t = Some key \<Longrightarrow> \<exists>p. key = pending_fee_key_new p t"
  shows "\<exists>fi fk. fold (rebuild_fee_entry x base) ids s = s\<lparr>pending_fee_index := fi, pending_fee_key_by_tx_id := fk\<rparr>
    \<and> paired (oget fi) (oget fk)
    \<and> (\<forall>t. oget fk t = (if t \<in> set ids then map_option (fee_key_of base t) (stored_of x s t)
                         else oget (pending_fee_key_by_tx_id s) t))"
  using assms
proof (induction ids arbitrary: s)
  case Nil
  show ?case
    by (intro exI [of _ "pending_fee_index s"] exI [of _ "pending_fee_key_by_tx_id s"]) (simp add: Nil.prems(3))
next
  case (Cons t ids)
  obtain st where st: "stored_of x s t = Some st"
    using Cons.prems(2) [of t] by auto
  define s' where "s' = rebuild_fee_entry x base t s"
  note eq = rebuild_fee_entry_eq [OF st, of base, folded s'_def]
  have stored: "stored_of x s' = stored_of x s"
    by (simp add: eq stored_of_def fun_eq_iff)
  have "oget (pending_fee_index s) (fee_key_of base t st) = None"
    by (rule paired_key_None [OF Cons.prems(3)])
      (use Cons.prems(2) [of t] Cons.prems(4) in \<open>auto simp: fee_key_of_def dest: fee_key_new_inj\<close>)
  then have "paired (oget (pending_fee_index s')) (oget (pending_fee_key_by_tx_id s'))"
    using omap_pair.paired_ins [OF Cons.prems(3)] Cons.prems(2) [of t] by (simp add: eq)
  moreover have "\<exists>p. key = pending_fee_key_new p u" if "oget (pending_fee_key_by_tx_id s') u = Some key" for u key
    using that Cons.prems(4) by (auto simp: eq fee_key_of_def split: if_splits)
  moreover have "stored_of x s' u \<noteq> None \<and> oget (pending_fee_key_by_tx_id s') u = None" if "u \<in> set ids" for u
    using that Cons.prems(1) Cons.prems(2) [of u] unfolding stored by (auto simp: eq)
  ultimately obtain fi fk where f: "fold (rebuild_fee_entry x base) ids s' = s'\<lparr>pending_fee_index := fi, pending_fee_key_by_tx_id := fk\<rparr>"
    "paired (oget fi) (oget fk)"
    "\<And>u. oget fk u = (if u \<in> set ids then map_option (fee_key_of base u) (stored_of x s u)
                       else oget (pending_fee_key_by_tx_id s') u)"
    using Cons.IH [of s'] Cons.prems(1) unfolding stored distinct.simps by blast
  have fold: "fold (rebuild_fee_entry x base) (t # ids) s = s\<lparr>pending_fee_index := fi, pending_fee_key_by_tx_id := fk\<rparr>"
    unfolding fold_Cons comp_def s'_def [symmetric] f(1) by (simp add: eq)
  have "oget fk u = (if u \<in> set (t # ids) then map_option (fee_key_of base u) (stored_of x s u)
      else oget (pending_fee_key_by_tx_id s) u)" for u
    unfolding f(3) using Cons.prems(1) st by (simp add: eq)
  then show ?case
    using fold f(2) by blast
qed

text \<open>A rebuilt fee index has the entries the stored transactions call for at the given base fee.\<close>

lemma rebuild_fee_index:
  assumes p: "pool_ok s" and e: "entry_ok x s"
  obtains fi fk where
    "rebuild_pending_fee_index_for_base_fee x base s = s\<lparr>pending_fee_index := fi, pending_fee_key_by_tx_id := fk\<rparr>"
    and "paired (oget fi) (oget fk)"
    and "oget fk = (\<lambda>t. if oget (pending_meta_by_tx_id s) t = None then None
                        else map_option (fee_key_of base t) (stored_of x s t))"
proof -
  let ?s = "s\<lparr>pending_fee_index := oempty, pending_fee_key_by_tx_id := oempty\<rparr>"
  have st: "stored_of x ?s = stored_of x s"
    by (simp add: stored_of_def fun_eq_iff)
  have "stored_of x s t \<noteq> None" if "t \<in> set (pending_ids s)" for t
    using that e unfolding pending_ids_pool(2) [OF p] entry_ok_def by auto
  then obtain fi fk where "fold (rebuild_fee_entry x base) (pending_ids s) ?s
      = ?s\<lparr>pending_fee_index := fi, pending_fee_key_by_tx_id := fk\<rparr>"
    "paired (oget fi) (oget fk)"
    "\<forall>t. oget fk t = (if t \<in> set (pending_ids s) then map_option (fee_key_of base t) (stored_of x s t) else None)"
    using fold_fee_entries [OF pending_ids_pool(1) [OF p], of x ?s base] unfolding st by (auto simp: paired_def)
  then show ?thesis
    using pending_ids_pool(2) [OF p]
    by (intro that [of fk fi]) (auto simp: rebuild_pending_fee_index_for_base_fee_def fun_eq_iff)
qed

text \<open>Only the fee index depends on the base fee, so the mempool survives a new base fee.\<close>

lemma rebuild_fee_index_inv:
  assumes "mempool_inv exact x s"
  shows "mempool_inv exact x (rebuild_pending_fee_index_for_base_fee x (base_fee cs) (s\<lparr>chain_state_cell := cs\<rparr>))"
proof -
  let ?s = "s\<lparr>chain_state_cell := cs\<rparr>"
  note i = mempool_invD [OF assms]
  have a: "active_locs (s'\<lparr>chain_state_cell := c\<rparr>) = active_locs s'" "stored_of x (s'\<lparr>chain_state_cell := c\<rparr>) = stored_of x s'"
    "active_locs (s'\<lparr>pending_fee_index := fi, pending_fee_key_by_tx_id := fk\<rparr>) = active_locs s'"
    "stored_of x (s'\<lparr>pending_fee_index := fi, pending_fee_key_by_tx_id := fk\<rparr>) = stored_of x s'" for s' c fi fk
    by (simp_all add: active_locs_def stored_of_def fun_eq_iff)
  have pe: "pool_ok ?s" "entry_ok x ?s"
    using i(1,2) by (simp_all add: pool_ok_def entry_ok_def a)
  obtain fi fk where r:
    "rebuild_pending_fee_index_for_base_fee x (base_fee cs) ?s = ?s\<lparr>pending_fee_index := fi, pending_fee_key_by_tx_id := fk\<rparr>"
    and f: "paired (oget fi) (oget fk)"
    "oget fk = (\<lambda>t. if oget (pending_meta_by_tx_id ?s) t = None then None
                    else map_option (fee_key_of (base_fee cs) t) (stored_of x ?s t))"
    by (rule rebuild_fee_index [OF pe, of "base_fee cs"]) blast
  let ?r = "?s\<lparr>pending_fee_index := fi, pending_fee_key_by_tx_id := fk\<rparr>"
  have "pool_ok ?r" "entry_ok x ?r"
    using i(1,2) by (simp_all add: pool_ok_def entry_ok_def a)
  moreover have fe: "fee_entry x ?r = oget fk"
    unfolding f(2) by (simp add: fee_entry_def a fun_eq_iff)
  have "fee_ok x ?r"
    unfolding fee_ok_def fe using f(1) by simp
  moreover have re: "ready_entry x ?r = ready_entry x s"
    by (simp add: ready_entry_def a fun_eq_iff)
  have "ready_ok x ?r"
    using i(4) unfolding ready_ok_def re by simp
  moreover have "principal_key x ?r = principal_key x s"
    by (simp add: principal_key_def a fun_eq_iff)
  then have "count_ok exact x ?r"
    using i(5) by (simp add: count_ok_def pending_of_def)
  moreover have "cap_ok ?r"
    using i(6) by (simp add: cap_ok_def)
  ultimately show ?thesis
    unfolding r by (simp add: mempool_inv_def)
qed

section \<open>The runtime indexes\<close>

lemma rebuild_principal_counts_eq:
  assumes "distinct ids" and "\<And>t. t \<in> set ids \<Longrightarrow> oget (pending_meta_by_tx_id s) t \<noteq> None \<and> principal_key x s t \<noteq> None"
    and "\<And>k. count_at (principal_pending_count s) k + length ids < 2 ^ 32 - 1"
    and "\<And>k. oget (principal_pending_count s) k \<noteq> Some 0"
  shows "\<exists>c. rebuild_principal_counts x ids s = Some (s\<lparr>principal_pending_count := c\<rparr>)
    \<and> (\<forall>k. count_at c k = count_at (principal_pending_count s) k + card {t \<in> set ids. principal_key x s t = Some k}
         \<and> oget c k \<noteq> Some 0)"
  using assms
proof (induction ids arbitrary: s)
  case Nil
  then show ?case
    by (intro exI [of _ "principal_pending_count s"]) simp
next
  case (Cons t ids)
  obtain pk where pk: "principal_key x s t = Some pk"
    using Cons.prems(2) [of t] by auto
  let ?c = "count_inc pk (principal_pending_count s)"
  let ?s = "s\<lparr>principal_pending_count := ?c\<rparr>"
  have step: "rebuild_principal_entry x t s = Some ?s"
  proof -
    obtain v st where "oget (tx_store s) t = Some v" "try_from x v = Inr st"
      "caller_key_from_principal (st_caller_principal st) = Some pk"
      using pk stored_ofD [of x s t] unfolding principal_key_def by (auto split: option.splits)
    then show ?thesis
      using Cons.prems(2) [of t]
      by (simp add: rebuild_principal_entry_def rebuild_pending_decision_of_def count_inc_def increment_count_def)
  qed
  have pk': "principal_key x ?s = principal_key x s"
    by (simp add: principal_key_def stored_of_def fun_eq_iff)
  have at: "count_at ?c k = count_at (principal_pending_count s) k + (if k = pk then 1 else 0)" for k
    using Cons.prems(3) [of pk] by (intro count_at_inc) simp
  have "count_at ?c k + length ids < 2 ^ 32 - 1" for k
    using Cons.prems(3) [of k] by (cases "k = pk") (simp_all add: at)
  then obtain c where c: "rebuild_principal_counts x ids ?s = Some (?s\<lparr>principal_pending_count := c\<rparr>)"
    "\<And>k. count_at c k = count_at ?c k + card {t \<in> set ids. principal_key x s t = Some k} \<and> oget c k \<noteq> Some 0"
    using Cons.IH [of ?s] Cons.prems by (auto simp: pk' count_inc_positive)
  have "card {u \<in> set (t # ids). principal_key x s u = Some k}
      = (if k = pk then 1 else 0) + card {u \<in> set ids. principal_key x s u = Some k}" for k
  proof -
    have "{u \<in> set (t # ids). principal_key x s u = Some k}
        = (if k = pk then {t} else {}) \<union> {u \<in> set ids. principal_key x s u = Some k}"
      using pk by auto
    then show ?thesis
      using Cons.prems(1) by (cases "k = pk") simp_all
  qed
  then show ?case
    using c step at by (intro exI [of _ c]) simp
qed

lemma count_at_ext:
  assumes "\<And>k. count_at m k = count_at m' k \<and> oget m k \<noteq> Some 0 \<and> oget m' k \<noteq> Some 0"
  shows "m = m'"
proof (rule omap_ext)
  fix k
  show "oget m k = oget m' k"
    using assms [of k] by (cases "oget m k"; cases "oget m' k") (auto simp: count_at_def unat_eq_0 simp flip: word_unat_eq_iff)
qed

abbreviation insert_seq_entry :: "tx_id \<times> ready_key \<Rightarrow> stable_state \<Rightarrow> stable_state" where
  "insert_seq_entry \<equiv> (\<lambda>(t, key) s. s\<lparr>ready_by_seq := oinsert (ready_seq_key_new (ready_key_seq key) t) t (ready_by_seq s)\<rparr>)"

lemma fold_seq_entries:
  "\<exists>b. fold insert_seq_entry es s = s\<lparr>ready_by_seq := b\<rparr>
    \<and> (\<forall>q t. oget b q = Some t \<longleftrightarrow>
          (\<exists>key. (t, key) \<in> set es \<and> seq_key t key = q)
          \<or> oget (ready_by_seq s) q = Some t \<and> (\<forall>u key. (u, key) \<in> set es \<longrightarrow> seq_key u key \<noteq> q))"
proof (induction es arbitrary: s)
  case Nil
  then show ?case
    by (intro exI [of _ "ready_by_seq s"]) simp
next
  case (Cons e es)
  obtain u key where e: "e = (u, key)"
    by fastforce
  let ?s = "s\<lparr>ready_by_seq := oinsert (seq_key u key) u (ready_by_seq s)\<rparr>"
  obtain b where b: "fold insert_seq_entry es ?s = ?s\<lparr>ready_by_seq := b\<rparr>"
    "\<And>q t. oget b q = Some t \<longleftrightarrow> (\<exists>key. (t, key) \<in> set es \<and> seq_key t key = q)
          \<or> oget (ready_by_seq ?s) q = Some t \<and> (\<forall>u key. (u, key) \<in> set es \<longrightarrow> seq_key u key \<noteq> q)"
    using Cons.IH [of ?s] by auto
  have "oget b q = Some t \<longleftrightarrow> (\<exists>key. (t, key) \<in> set (e # es) \<and> seq_key t key = q)
      \<or> oget (ready_by_seq s) q = Some t \<and> (\<forall>u key. (u, key) \<in> set (e # es) \<longrightarrow> seq_key u key \<noteq> q)" for q t
    unfolding b(2) e by (auto dest: seq_key_inj)
  then show ?case
    using b(1) by (intro exI [of _ b]) (simp add: e seq_key_def)
qed

lemma rebuild_ready_by_seq:
  assumes "ready_ok x s"
  shows "fold insert_seq_entry (entries (ready_key_by_tx_id s)) (s\<lparr>ready_by_seq := oempty\<rparr>) = s"
proof -
  obtain b where b: "fold insert_seq_entry (entries (ready_key_by_tx_id s)) (s\<lparr>ready_by_seq := oempty\<rparr>)
      = s\<lparr>ready_by_seq := oempty\<rparr>\<lparr>ready_by_seq := b\<rparr>"
    "\<And>q t. oget b q = Some t \<longleftrightarrow> (\<exists>key. (t, key) \<in> set (entries (ready_key_by_tx_id s)) \<and> seq_key t key = q)"
    using fold_seq_entries [of "entries (ready_key_by_tx_id s)" "s\<lparr>ready_by_seq := oempty\<rparr>"] by auto
  have "paired (oget b) (seq_entry (ready_entry x s))"
    using assms by (auto simp: paired_def b(2) oget_entries [symmetric] ready_ok_def seq_entry_def)
  then have "b = ready_by_seq s"
    using assms by (auto simp: ready_ok_def intro: paired_unique)
  then show ?thesis
    by (simp add: b(1))
qed


section \<open>Clearing\<close>

lemma empty_mempool_inv:
  assumes "pending_by_sender_nonce s = oempty" "pending_meta_by_tx_id s = oempty" "pending_current_by_sender s = oempty"
    "pending_min_nonce s = oempty" "pending_fee_index s = oempty" "pending_fee_key_by_tx_id s = oempty"
    "ready_queue s = oempty" "ready_key_by_tx_id s = oempty" "ready_by_seq s = oempty" "principal_pending_count s = oempty"
  shows "mempool_inv exact x s"
  using assms
  by (simp add: mempool_inv_def pool_ok_def entry_ok_def fee_ok_def ready_ok_def count_ok_def cap_ok_def paired_def
      fee_entry_def ready_entry_def seq_entry_def count_at_def olen_def counted_def pending_of_def fun_eq_iff)

lemma init_mempool_inv: "mempool_inv exact x (init_stable_state b)"
  by (rule empty_mempool_inv) (simp_all add: init_stable_state_def)

lemma clear_mempool_inv: "mempool_inv exact x (clear_mempool_on_upgrade s)"
  by (rule empty_mempool_inv) (simp_all add: clear_mempool_on_upgrade_def)


end
