(* ===== verification/Production_Inv.thy ===== *)
theory Production_Inv
  imports Blob_Refs Mempool_Rebuild Ready_Selection
begin

text \<open>
  What producing a block keeps and what it achieves, phase by phase: preparation only selects pending
  transactions, execution only accumulates, and persisting removes exactly the included and dropped
  transactions from the mempool while recording block, receipts and positions.
\<close>

section \<open>Frames\<close>

text \<open>The mempool does not look at these changes.\<close>

definition same_pool :: "stable_state \<Rightarrow> stable_state \<Rightarrow> bool" where
  "same_pool s s' \<longleftrightarrow> same_indexes s s' \<and> sender_expected_nonce s' = sender_expected_nonce s \<and> tx_store s' = tx_store s
    \<and> tx_locs s' = tx_locs s \<and> tx_locs_v3 s' = tx_locs_v3 s \<and> tx_locs_v3_active s' = tx_locs_v3_active s
    \<and> seen_tx s' = seen_tx s"

lemma same_pool_inv:
  assumes "mempool_inv exact x s" and "same_pool s s'"
  shows "mempool_inv exact x s'"
  using assms(2) by (intro mempool_inv_frame [OF assms(1)]) (simp_all add: same_pool_def stored_of_def active_locs_def)

lemma same_pool_trans: "same_pool s s' \<Longrightarrow> same_pool s' s'' \<Longrightarrow> same_pool s s''"
  by (simp add: same_pool_def same_indexes_def)

text \<open>The parts of the state mempool operations leave alone.\<close>

definition same_chain :: "stable_state \<Rightarrow> stable_state \<Rightarrow> bool" where
  "same_chain s s' \<longleftrightarrow> accounts s' = accounts s \<and> storage s' = storage s \<and> codes s' = codes s \<and> blocks s' = blocks s
    \<and> receipts s' = receipts s \<and> tx_index s' = tx_index s \<and> internal_traces s' = internal_traces s
    \<and> blob_store_cell s' = blob_store_cell s \<and> head_cell s' = head_cell s \<and> chain_state_cell s' = chain_state_cell s
    \<and> prune_state_cell s' = prune_state_cell s \<and> prune_config_cell s' = prune_config_cell s
    \<and> prune_journal s' = prune_journal s \<and> native_credit_records s' = native_credit_records s \<and> seen_tx s' = seen_tx s
    \<and> queue_meta_cell s' = queue_meta_cell s"

lemma same_chain_refl [simp]: "same_chain s s"
  by (simp add: same_chain_def)

lemma same_chain_trans: "same_chain s s' \<Longrightarrow> same_chain s' s'' \<Longrightarrow> same_chain s s''"
  by (simp add: same_chain_def)

lemma same_chain_held: "same_chain s s' \<Longrightarrow> held ps s' \<longleftrightarrow> held ps s"
  by (intro held_cong ref_get_cong) (simp_all add: same_chain_def)

lemma same_chain_ref_read: "same_chain s s' \<Longrightarrow> ref_read s' r = ref_read s r"
  by (intro ref_read_cong fun_cong [OF ref_get_cong]) (simp_all add: same_chain_def)

lemma unindex_same_chain: "same_chain s (unindex b t k pk s)"
  by (simp add: same_chain_def unindex_def)

section \<open>Dropping\<close>

definition removed :: "tx_id set \<Rightarrow> stable_state \<Rightarrow> stable_state \<Rightarrow> bool" where
  "removed ts s s' \<longleftrightarrow> (\<forall>u. oget (pending_meta_by_tx_id s') u = (if u \<in> ts then None else oget (pending_meta_by_tx_id s) u))"

lemma removed_trans: "removed ts s s' \<Longrightarrow> removed us s' s'' \<Longrightarrow> removed (ts \<union> us) s s''"
  by (auto simp: removed_def)

lemma removed_empty [simp]: "removed {} s s"
  by (simp add: removed_def)

lemma apply_drop_outcome:
  assumes inv: "mempool_inv exact x s" and t: "oget (pending_meta_by_tx_id s) (qd_tx_id d) \<noteq> None"
  obtains s' where "apply_drop x d s = Some s'" and "mempool_inv exact x s'" and "removed {qd_tx_id d} s s'"
    and "same_chain s s'" and "sender_expected_nonce s' = sender_expected_nonce s"
    and "oget (tx_store s') (qd_tx_id d) = None" and "\<And>u. u \<noteq> qd_tx_id d \<Longrightarrow> oget (tx_store s') u = oget (tx_store s) u"
proof -
  let ?t = "qd_tx_id d"
  obtain k where k: "oget (pending_meta_by_tx_id s) ?t = Some k"
    using t by auto
  obtain pk where pk: "principal_key x s ?t = Some pk"
    using pending_principal [OF inv k] .
  define u where "u = unindex False ?t k pk s"
  define m where "m = mark_dropped_and_purge_payload x ?t (qd_drop_code d) u"
  have eq: "apply_drop x d s = Some m"
    using advance_pending [OF mempool_invD(1) [OF inv] k pk, of 0]
    by (simp add: apply_drop_def u_def m_def numeral_2_eq_2)
  have u: "mempool_inv exact x u"
    unfolding u_def by (rule unindex_inv [OF inv k pk])
  have no: "oget (pending_meta_by_tx_id u) ?t = None" "oget (pending_fee_key_by_tx_id u) ?t = None"
    by (simp_all add: u_def unindex_def)
  from mark_dropped_inv [OF u no(1)] have "mempool_inv exact x (record_drop_metric 0 m)"
    by (simp add: m_def)
  moreover have "same_pool (record_drop_metric 0 m) m"
    by (simp add: same_pool_def same_indexes_def record_drop_metric_def)
  ultimately have inv': "mempool_inv exact x m"
    by (rule same_pool_inv)
  have fr: "drop_frame (u\<lparr>tx_store := oremove ?t (tx_store u)\<rparr>) m"
    unfolding m_def by (rule mark_dropped_frame [OF no(2)])
  show thesis
  proof (rule that [OF eq inv'])
    show "removed {?t} s m"
      using drop_frame_fields(1) [OF fr] by (simp add: removed_def same_indexes_def u_def unindex_def)
    show "same_chain s m"
      using fr by (auto simp: drop_frame_def same_chain_def u_def unindex_def)
    show "sender_expected_nonce m = sender_expected_nonce s"
      using drop_frame_fields(2) [OF fr] by (simp add: u_def unindex_def)
    show "oget (tx_store m) ?t = None" "\<And>w. w \<noteq> ?t \<Longrightarrow> oget (tx_store m) w = oget (tx_store s) w"
      using drop_frame_fields(3) [OF fr] by (simp_all add: u_def unindex_def)
  qed
qed

lemma apply_drops_outcome:
  assumes "mempool_inv exact x s" and "distinct (map qd_tx_id ds)"
    and "\<And>d. d \<in> set ds \<Longrightarrow> oget (pending_meta_by_tx_id s) (qd_tx_id d) \<noteq> None"
  shows "\<exists>s'. apply_drops x ds s = Some s' \<and> mempool_inv exact x s' \<and> removed (qd_tx_id ` set ds) s s' \<and> same_chain s s'
    \<and> sender_expected_nonce s' = sender_expected_nonce s"
  using assms
proof (induction ds arbitrary: s)
  case (Cons d ds)
  have "oget (pending_meta_by_tx_id s) (qd_tx_id d) \<noteq> None"
    using Cons.prems(3) by simp
  from apply_drop_outcome [OF Cons.prems(1) this] obtain s1 where s1: "apply_drop x d s = Some s1" "mempool_inv exact x s1"
    "removed {qd_tx_id d} s s1" "same_chain s s1" "sender_expected_nonce s1 = sender_expected_nonce s" .
  have "oget (pending_meta_by_tx_id s1) (qd_tx_id e) \<noteq> None" if "e \<in> set ds" for e
  proof -
    have "qd_tx_id e \<noteq> qd_tx_id d"
      using that Cons.prems(2) by (metis distinct.simps(2) image_eqI list.simps(9) set_map)
    then show ?thesis
      using that Cons.prems(3) [of e] s1(3) by (simp add: removed_def)
  qed
  from Cons.IH [OF s1(2) _ this] Cons.prems(2) obtain s2 where "apply_drops x ds s1 = Some s2" "mempool_inv exact x s2"
    "removed (qd_tx_id ` set ds) s1 s2" "same_chain s1 s2" "sender_expected_nonce s2 = sender_expected_nonce s1"
    by auto
  then show ?case
    using s1 removed_trans [OF s1(3)] same_chain_trans [OF s1(4)] by auto
qed simp

section \<open>Storing the included transactions\<close>

lemma held_perm: "mset ps = mset qs \<Longrightarrow> held ps s \<longleftrightarrow> held qs s"
proof -
  assume m: "mset ps = mset qs"
  have "mset (map ptr_key ps) = mset (map ptr_key qs)"
    unfolding mset_map m ..
  then have d: "distinct (map ptr_key ps) \<longleftrightarrow> distinct (map ptr_key qs)"
    by (rule mset_eq_imp_distinct_iff)
  show ?thesis
    unfolding held_def d mset_eq_setD [OF m] ..
qed

definition ptrs_of :: "staged_persist \<Rightarrow> blob_ptr list" where
  "ptrs_of sp = sp_tx_index_ptr sp # sp_receipt_ptr sp
    # (case sp_internal_traces_ptr sp of Some p \<Rightarrow> [p] | None \<Rightarrow> [])"

definition index_bytes :: "u64 \<Rightarrow> staged_included_tx \<Rightarrow> bytes" where
  "index_bytes number inc =
    fst (tx_index_entry_to_bytes \<lparr>tie_block_number = number, tie_tx_index = eo_tx_index (si_outcome inc)\<rparr>)"

definition receipt_bytes :: "staged_included_tx \<Rightarrow> bytes" where
  "receipt_bytes inc = fst (receipt_to_bytes (eo_receipt (si_outcome inc)))"

definition staged_for :: "u64 \<Rightarrow> stable_state \<Rightarrow> staged_included_tx \<Rightarrow> staged_persist \<Rightarrow> bool" where
  "staged_for number s inc sp \<longleftrightarrow> sp_tx_id sp = si_tx_id inc \<and> sp_tx_index sp = eo_tx_index (si_outcome inc)
    \<and> sp_sender_bytes sp = si_sender_bytes inc \<and> sp_sender_nonce sp = si_sender_nonce inc
    \<and> read_ptr s (sp_tx_index_ptr sp) = Some (index_bytes number inc)
    \<and> read_ptr s (sp_receipt_ptr sp) = Some (receipt_bytes inc)"

text \<open>Only the blob store grows.\<close>

definition stored :: "blob_ptr list \<Rightarrow> blob_ptr list \<Rightarrow> stable_state \<Rightarrow> stable_state \<Rightarrow> bool" where
  "stored ps new s s' \<longleftrightarrow> held (new @ ps) s' \<and> (\<exists>b. s' = s\<lparr>blob_store_cell := b\<rparr>)
    \<and> (\<forall>q\<in>set ps. read_ptr s' q = read_ptr s q) \<and> (\<forall>r. ref_read s' r = ref_read s r)"

lemma stored_refl: "held ps s \<Longrightarrow> stored ps [] s s"
  by (simp add: stored_def exI [of _ "blob_store_cell s"])

lemma stored_blob: "held ps s \<Longrightarrow> store_blob g bs s = Some (p, s') \<Longrightarrow> stored ps [p] s s' \<and> read_ptr s' p = Some bs"
  using store_blob_held [of ps s g bs p s'] unfolding stored_def by (metis append_Cons append_Nil)

lemma stored_trans:
  assumes "stored ps new s s'" and "stored (new @ ps) new' s' s''"
  shows "stored ps (new' @ new) s s''" and "q \<in> set new \<Longrightarrow> read_ptr s'' q = read_ptr s' q"
proof -
  have "\<exists>b. s'' = s\<lparr>blob_store_cell := b\<rparr>"
    using assms unfolding stored_def by (elim conjE exE) (simp, blast)
  then show "stored ps (new' @ new) s s''"
    using assms unfolding stored_def by auto
  show "q \<in> set new \<Longrightarrow> read_ptr s'' q = read_ptr s' q"
    using assms(2) by (simp add: stored_def)
qed

lemma stored_perm: "stored ps new s s' \<Longrightarrow> mset new = mset new' \<Longrightarrow> stored ps new' s s'"
  unfolding stored_def using held_perm [of "new @ ps" "new' @ ps" s'] by simp

lemma stored_traces:
  assumes "held ps s" and "store_internal_traces g traces s = Some (p, s')"
  shows "stored ps (case p of Some q \<Rightarrow> [q] | None \<Rightarrow> []) s s'"
proof (cases "its_total_count traces = 0")
  case True
  then show ?thesis
    using assms by (auto simp: store_internal_traces_def stored_refl)
next
  case False
  then obtain bs q where "store_blob g bs s = Some (q, s')" "p = Some q"
    using assms(2) by (auto simp: store_internal_traces_def split: option.splits)
  then show ?thesis
    using stored_blob [OF assms(1)] by simp
qed

lemma persist_one_stored:
  assumes "held ps s" and "persist_one g number inc s = Some (sp, s')"
  shows "stored ps (ptrs_of sp) s s'" and "staged_for number s' inc sp"
proof -
  obtain p1 s1 p2 s2 p3 where
    s1: "store_blob g (index_bytes number inc) s = Some (p1, s1)" and
    s2: "store_blob g (receipt_bytes inc) s1 = Some (p2, s2)" and
    s3: "store_internal_traces g (eo_internal_traces (si_outcome inc)) s2 = Some (p3, s')" and
    sp: "sp = \<lparr>sp_tx_id = si_tx_id inc, sp_tx_index = eo_tx_index (si_outcome inc), sp_tx_index_ptr = p1,
      sp_receipt_ptr = p2, sp_internal_traces_ptr = p3, sp_sender_bytes = si_sender_bytes inc,
      sp_sender_nonce = si_sender_nonce inc\<rparr>"
    using assms(2)
    by (auto simp: persist_one_def store_tx_index_entry_def store_receipt_def index_bytes_def receipt_bytes_def
        Option.bind_eq_Some_conv Let_def)
  let ?p3 = "case p3 of Some q \<Rightarrow> [q] | None \<Rightarrow> []"
  have a: "stored ps [p1] s s1" "read_ptr s1 p1 = Some (index_bytes number inc)"
    using stored_blob [OF assms(1) s1] by simp_all
  have "held ([p1] @ ps) s1"
    using a(1) by (simp add: stored_def)
  then have b: "stored ([p1] @ ps) [p2] s1 s2" "read_ptr s2 p2 = Some (receipt_bytes inc)"
    using stored_blob [OF _ s2] by simp_all
  have ab: "stored ps ([p2] @ [p1]) s s2" "read_ptr s2 p1 = Some (index_bytes number inc)"
    using stored_trans [OF a(1) b(1)] a(2) by simp_all
  have "held (([p2] @ [p1]) @ ps) s2"
    using ab(1) by (simp add: stored_def)
  then have c: "stored (([p2] @ [p1]) @ ps) ?p3 s2 s'"
    using stored_traces [OF _ s3] by simp
  show "stored ps (ptrs_of sp) s s'"
    by (rule stored_perm [OF stored_trans(1) [OF ab(1) c]]) (simp add: ptrs_of_def sp)
  show "staged_for number s' inc sp"
    using stored_trans(2) [OF ab(1) c] ab(2) b(2) by (simp add: staged_for_def sp)
qed

lemma staged_for_stable:
  assumes "staged_for number s inc sp" and "\<And>q. q \<in> set (ptrs_of sp) \<Longrightarrow> read_ptr s' q = read_ptr s q"
  shows "staged_for number s' inc sp"
  using assms by (simp add: staged_for_def ptrs_of_def)

lemma persist_all_stored:
  assumes "held ps s" and "persist_all g number incs s = Some (sps, s')"
  shows "stored ps (concat (map ptrs_of sps)) s s' \<and> list_all2 (staged_for number s') incs sps"
  using assms
proof (induction incs arbitrary: ps s sps)
  case Nil
  then show ?case
    by (auto simp: stored_refl)
next
  case (Cons inc incs)
  obtain sp s1 sps' where s1: "persist_one g number inc s = Some (sp, s1)" and
    rest: "persist_all g number incs s1 = Some (sps', s')" and sps: "sps = sp # sps'"
    using Cons.prems(2) by (auto simp: Option.bind_eq_Some_conv)
  note a = persist_one_stored [OF Cons.prems(1) s1]
  have "held (ptrs_of sp @ ps) s1"
    using a(1) by (simp add: stored_def)
  from Cons.IH [OF this rest] have b: "stored (ptrs_of sp @ ps) (concat (map ptrs_of sps')) s1 s'"
    "list_all2 (staged_for number s') incs sps'"
    by simp_all
  have "staged_for number s' inc sp"
    using stored_trans(2) [OF a(1) b(1)] by (rule staged_for_stable [OF a(2)])
  then show ?case
    using stored_perm [OF stored_trans(1) [OF a(1) b(1)], of "concat (map ptrs_of sps)"] b(2) by (simp add: sps)
qed

lemma store_block_stored:
  assumes "held ps s" and "store_block g block s = Some (p, s')"
  shows "held (p # ps) s'" and "read_ptr s' p = Some (fst (block_to_bytes block))"
    and "ref_read s' r = ref_read s r" and "q \<in> set ps \<Longrightarrow> read_ptr s' q = read_ptr s q"
    and "\<exists>b c. s' = s\<lparr>blob_store_cell := b, prune_config_cell := c\<rparr>"
proof -
  obtain s1 where s1: "store_blob g (fst (block_to_bytes block)) s = Some (p, s1)" and
    "s' = s1\<lparr>prune_config_cell := (if oldest_block (prune_config_cell s1) = None
      then set_oldest (blk_number block) (blk_timestamp block) (prune_config_cell s1) else prune_config_cell s1)\<rparr>"
    using assms(2) by (auto simp: store_block_def Let_def split: option.splits if_splits)
  then obtain c where c: "s' = s1\<lparr>prune_config_cell := c\<rparr>"
    by blast
  have st: "stored ps [p] s s1" "read_ptr s1 p = Some (fst (block_to_bytes block))"
    using stored_blob [OF assms(1) s1] by simp_all
  have rg: "ref_get s' = ref_get s1"
    unfolding c by (rule ref_get_cong) simp_all
  show "held (p # ps) s'"
    using st(1) held_cong [OF _ rg] by (simp add: stored_def c)
  have rp: "read_ptr s' q = read_ptr s1 q" for q
    by (simp add: read_ptr_def c)
  show "read_ptr s' p = Some (fst (block_to_bytes block))" "q \<in> set ps \<Longrightarrow> read_ptr s' q = read_ptr s q"
    using st by (simp_all add: rp stored_def)
  show "ref_read s' r = ref_read s r"
    using ref_read_cong [OF _ fun_cong [OF rg]] st(1) by (simp add: stored_def c)
  show "\<exists>b c. s' = s\<lparr>blob_store_cell := b, prune_config_cell := c\<rparr>"
    using st(1) unfolding stored_def c by (elim conjE exE) auto
qed

section \<open>Recording the included transactions\<close>

text \<open>What recording an included transaction writes beside the mempool.\<close>

definition recorded :: "u64 \<Rightarrow> staged_persist \<Rightarrow> stable_state \<Rightarrow> stable_state" where
  "recorded number sp s =
    (let t = sp_tx_id sp;
         s1 = s\<lparr>tx_index := oinsert t (sp_tx_index_ptr sp) (tx_index s), receipts := oinsert t (sp_receipt_ptr sp) (receipts s)\<rparr>
     in tx_locs_insert t (included_tx_loc number (sp_tx_index sp))
          (case sp_internal_traces_ptr sp of
             Some ptr \<Rightarrow> s1\<lparr>internal_traces := oinsert t ptr (internal_traces s1)\<rparr>
           | None \<Rightarrow> s1))"

lemma recorded_fields:
  "same_indexes s (recorded number sp s)" "sender_expected_nonce (recorded number sp s) = sender_expected_nonce s"
  "tx_store (recorded number sp s) = tx_store s" "seen_tx (recorded number sp s) = seen_tx s"
  "stored_of x (recorded number sp s) = stored_of x s" "principal_key x (recorded number sp s) = principal_key x s"
  "oget (active_locs (recorded number sp s)) u =
    (if u = sp_tx_id sp then Some (included_tx_loc number (sp_tx_index sp)) else oget (active_locs s) u)"
  "blob_store_cell (recorded number sp s) = blob_store_cell s" "head_cell (recorded number sp s) = head_cell s"
  "chain_state_cell (recorded number sp s) = chain_state_cell s" "accounts (recorded number sp s) = accounts s"
  "storage (recorded number sp s) = storage s"
proof -
  have f: "same_indexes s (recorded number sp s) \<and> sender_expected_nonce (recorded number sp s) = sender_expected_nonce s
    \<and> tx_store (recorded number sp s) = tx_store s \<and> seen_tx (recorded number sp s) = seen_tx s
    \<and> blob_store_cell (recorded number sp s) = blob_store_cell s \<and> head_cell (recorded number sp s) = head_cell s
    \<and> chain_state_cell (recorded number sp s) = chain_state_cell s \<and> accounts (recorded number sp s) = accounts s
    \<and> storage (recorded number sp s) = storage s"
    by (cases "sp_internal_traces_ptr sp"; cases "tx_locs_v3_active s")
      (simp_all add: recorded_def Let_def tx_locs_insert_def same_indexes_def)
  then show "same_indexes s (recorded number sp s)" "sender_expected_nonce (recorded number sp s) = sender_expected_nonce s"
    "tx_store (recorded number sp s) = tx_store s" "seen_tx (recorded number sp s) = seen_tx s"
    "blob_store_cell (recorded number sp s) = blob_store_cell s" "head_cell (recorded number sp s) = head_cell s"
    "chain_state_cell (recorded number sp s) = chain_state_cell s" "accounts (recorded number sp s) = accounts s"
    "storage (recorded number sp s) = storage s"
    by blast+
  then show st: "stored_of x (recorded number sp s) = stored_of x s"
    by (simp add: stored_of_def fun_eq_iff)
  then show "principal_key x (recorded number sp s) = principal_key x s"
    by (simp add: principal_key_def fun_eq_iff)
  have "active_locs (s\<lparr>tx_index := a, receipts := b, internal_traces := c\<rparr>) = active_locs s"
    "active_locs (s\<lparr>tx_index := a, receipts := b\<rparr>) = active_locs s" for a b c
    by (simp_all add: active_locs_def)
  then show "oget (active_locs (recorded number sp s)) u =
    (if u = sp_tx_id sp then Some (included_tx_loc number (sp_tx_index sp)) else oget (active_locs s) u)"
    by (cases "sp_internal_traces_ptr sp") (simp_all add: recorded_def Let_def)
qed

lemma recorded_refs:
  assumes "held (ptrs_of sp @ ps) s"
  shows "held ps (recorded number sp s)"
    and "ref_read (recorded number sp s) r =
      (if r = IndexRef (sp_tx_id sp) then read_ptr s (sp_tx_index_ptr sp)
       else if r = ReceiptRef (sp_tx_id sp) then read_ptr s (sp_receipt_ptr sp)
       else if r = TraceRef (sp_tx_id sp) \<and> sp_internal_traces_ptr sp \<noteq> None then Option.bind (sp_internal_traces_ptr sp) (read_ptr s)
       else ref_read s r)"
    and "q \<in> set ps \<Longrightarrow> read_ptr (recorded number sp s) q = read_ptr s q"
proof -
  let ?t = "sp_tx_id sp"
  define s1 where "s1 = s\<lparr>tx_index := oinsert ?t (sp_tx_index_ptr sp) (tx_index s)\<rparr>"
  define s2 where "s2 = s1\<lparr>receipts := oinsert ?t (sp_receipt_ptr sp) (receipts s1)\<rparr>"
  define s3 where "s3 = (case sp_internal_traces_ptr sp of
    Some ptr \<Rightarrow> s2\<lparr>internal_traces := oinsert ?t ptr (internal_traces s2)\<rparr> | None \<Rightarrow> s2)"
  let ?tr = "case sp_internal_traces_ptr sp of Some p \<Rightarrow> [p] | None \<Rightarrow> []"
  have h: "held (sp_tx_index_ptr sp # (sp_receipt_ptr sp # ?tr @ ps)) s"
    using assms by (simp add: ptrs_of_def)
  have c1: "blob_store_cell s1 = blob_store_cell s" "ref_get s1 = (ref_get s)(IndexRef ?t := Some (sp_tx_index_ptr sp))"
    unfolding s1_def by (simp, rule ref_get_updates)
  note r1 = record_ref [OF h c1]
  have c2: "blob_store_cell s2 = blob_store_cell s1" "ref_get s2 = (ref_get s1)(ReceiptRef ?t := Some (sp_receipt_ptr sp))"
    unfolding s2_def by (simp, rule ref_get_updates)
  note r2 = record_ref [OF r1(1) c2]
  have rp: "read_ptr s' = read_ptr s" if "blob_store_cell s' = blob_store_cell s" for s'
    using that by (simp add: read_ptr_def fun_eq_iff)
  have r3: "held ps s3 \<and> ref_read s3 r = (if r = TraceRef ?t \<and> sp_internal_traces_ptr sp \<noteq> None
      then Option.bind (sp_internal_traces_ptr sp) (read_ptr s2) else ref_read s2 r) \<and> blob_store_cell s3 = blob_store_cell s" for r
  proof (cases "sp_internal_traces_ptr sp")
    case None
    then show ?thesis
      using r2(1) c1 c2 by (simp add: s3_def)
  next
    case (Some p)
    have c3: "blob_store_cell s3 = blob_store_cell s2" "ref_get s3 = (ref_get s2)(TraceRef ?t := Some p)"
      unfolding s3_def Some option.case by (simp, rule ref_get_updates)
    have "held (p # ps) s2"
      using r2(1) Some by simp
    from record_ref [OF this c3] show ?thesis
      using Some c1 c2 c3 by simp
  qed
  have rec: "recorded number sp s = tx_locs_insert ?t (included_tx_loc number (sp_tx_index sp)) s3"
    by (cases "sp_internal_traces_ptr sp") (simp_all add: recorded_def Let_def s1_def s2_def s3_def)
  have fr: "same_chain s3 (recorded number sp s)"
    unfolding rec by (simp add: same_chain_def tx_locs_insert_def)
  show "held ps (recorded number sp s)"
    using r3 same_chain_held [OF fr] by blast
  show "ref_read (recorded number sp s) r =
      (if r = IndexRef ?t then read_ptr s (sp_tx_index_ptr sp)
       else if r = ReceiptRef ?t then read_ptr s (sp_receipt_ptr sp)
       else if r = TraceRef ?t \<and> sp_internal_traces_ptr sp \<noteq> None then Option.bind (sp_internal_traces_ptr sp) (read_ptr s)
       else ref_read s r)"
    using same_chain_ref_read [OF fr, of r] r3 [of r] r2(2) [of r] r1(2) [of r] rp [of s1] rp [of s2] c1(1) c2(1)
    by (cases r) auto
  show "read_ptr (recorded number sp s) q = read_ptr s q"
    using rp [of "recorded number sp s"] recorded_fields(8) by metis
qed

lemma index_included_outcome:
  assumes inv: "mempool_inv exact x s" and k: "oget (pending_meta_by_tx_id s) (sp_tx_id sp) = Some k"
  obtains s' where "index_included x number sp s = Some s'" and "mempool_inv exact x s'" and "removed {sp_tx_id sp} s s'"
    and "same_chain (recorded number sp s) s'"
    and "\<And>w. oget (active_locs s') w =
      (if w = sp_tx_id sp then Some (included_tx_loc number (sp_tx_index sp)) else oget (active_locs s) w)"
    and "\<And>sk. oget (sender_expected_nonce s') sk =
      (if sk = snk_sender k then Some (next_expected_nonce (snk_nonce k)) else oget (sender_expected_nonce s) sk)"
proof -
  let ?t = "sp_tx_id sp" and ?r = "recorded number sp s"
  obtain pk where pk: "principal_key x s ?t = Some pk"
    using pending_principal [OF inv k] .
  note f = recorded_fields [where number = number and sp = sp and s = s]
  have i: "pool_ok ?r" "oget (pending_meta_by_tx_id ?r) ?t = Some k" "principal_key x ?r ?t = Some pk"
    using mempool_invD(1) [OF inv] k pk f(1,2,6) by (simp_all add: pool_ok_def same_indexes_def)
  define u where "u = unindex True ?t k pk ?r"
  have eq: "index_included x number sp s = Some u"
    using advance_pending [OF i, of 0]
    by (simp add: index_included_def recorded_def Let_def u_def numeral_2_eq_2)
  have "mempool_inv exact x (unindex True ?t k pk s)"
    by (rule unindex_inv [OF inv k pk])
  moreover have "same_indexes (unindex True ?t k pk s) u"
    using f(1) by (simp add: same_indexes_def u_def unindex_def)
  moreover have "sender_expected_nonce u = sender_expected_nonce (unindex True ?t k pk s)"
    by (simp add: u_def unindex_def f)
  moreover have "oget (pending_meta_by_tx_id (unindex True ?t k pk s)) w = Some q \<Longrightarrow> w \<noteq> ?t" for w q
    by (auto simp: unindex_def)
  ultimately have inv': "mempool_inv exact x u"
    by (intro mempool_inv_frame [of exact x "unindex True ?t k pk s" u]) (auto simp: u_def f)
  show thesis
  proof (rule that [OF eq inv'])
    show "removed {?t} s u"
      using f(1) by (simp add: removed_def same_indexes_def u_def unindex_def)
    show "same_chain ?r u"
      unfolding u_def by (rule unindex_same_chain)
    show "oget (active_locs u) w = (if w = ?t then Some (included_tx_loc number (sp_tx_index sp)) else oget (active_locs s) w)" for w
      by (simp add: u_def f)
    show "oget (sender_expected_nonce u) sk =
      (if sk = snk_sender k then Some (next_expected_nonce (snk_nonce k)) else oget (sender_expected_nonce s) sk)" for sk
      by (simp add: u_def unindex_def f)
  qed
qed

definition same_outer :: "stable_state \<Rightarrow> stable_state \<Rightarrow> bool" where
  "same_outer s s' \<longleftrightarrow> accounts s' = accounts s \<and> storage s' = storage s \<and> codes s' = codes s \<and> head_cell s' = head_cell s
    \<and> chain_state_cell s' = chain_state_cell s \<and> prune_config_cell s' = prune_config_cell s
    \<and> prune_state_cell s' = prune_state_cell s \<and> blocks s' = blocks s \<and> seen_tx s' = seen_tx s"

lemma same_outer_trans: "same_outer s s' \<Longrightarrow> same_outer s' s'' \<Longrightarrow> same_outer s s''"
  by (simp add: same_outer_def)

lemma same_chain_outer: "same_chain s s' \<Longrightarrow> same_outer s s'"
  by (simp add: same_outer_def same_chain_def)

lemma recorded_outer: "same_outer s (recorded number sp s)"
  by (cases "sp_internal_traces_ptr sp"; cases "tx_locs_v3_active s")
    (simp_all add: recorded_def Let_def tx_locs_insert_def same_outer_def)

lemma senders_differ:
  assumes "pool_ok s" and "oget (pending_meta_by_tx_id s) t = Some k" and "oget (pending_meta_by_tx_id s) u = Some j" and "t \<noteq> u"
  shows "snk_sender k \<noteq> snk_sender j"
  using pool_okD(2) [OF assms(1)] assms(2-4) by (metis option.inject)

definition included_refs :: "staged_persist list \<Rightarrow> blob_ref set" where
  "included_refs sps = (\<Union>t\<in>sp_tx_id ` set sps. {IndexRef t, ReceiptRef t, TraceRef t})"

text \<open>What the mempool and the tables say of an included transaction.\<close>

definition indexed :: "stable_state \<Rightarrow> u64 \<Rightarrow> staged_persist list \<Rightarrow> stable_state \<Rightarrow> bool" where
  "indexed s number sps s' \<longleftrightarrow>
    (\<forall>sp\<in>set sps. ref_read s' (IndexRef (sp_tx_id sp)) = read_ptr s (sp_tx_index_ptr sp)
       \<and> ref_read s' (ReceiptRef (sp_tx_id sp)) = read_ptr s (sp_receipt_ptr sp)
       \<and> oget (active_locs s') (sp_tx_id sp) = Some (included_tx_loc number (sp_tx_index sp))
       \<and> (\<forall>k. oget (pending_meta_by_tx_id s) (sp_tx_id sp) = Some k \<longrightarrow>
            oget (sender_expected_nonce s') (snk_sender k) = Some (next_expected_nonce (snk_nonce k))))
    \<and> (\<forall>r. r \<notin> included_refs sps \<longrightarrow> ref_read s' r = ref_read s r)
    \<and> (\<forall>u. u \<notin> sp_tx_id ` set sps \<longrightarrow> oget (active_locs s') u = oget (active_locs s) u)
    \<and> (\<forall>sk. (\<forall>sp\<in>set sps. \<forall>k. oget (pending_meta_by_tx_id s) (sp_tx_id sp) = Some k \<longrightarrow> snk_sender k \<noteq> sk) \<longrightarrow>
         oget (sender_expected_nonce s') sk = oget (sender_expected_nonce s) sk)"

text \<open>One transaction recorded, and then the others.\<close>

definition indexed_one :: "stable_state \<Rightarrow> u64 \<Rightarrow> staged_persist \<Rightarrow> sender_nonce_key \<Rightarrow> stable_state \<Rightarrow> bool" where
  "indexed_one s number sp k s1 \<longleftrightarrow> removed {sp_tx_id sp} s s1
    \<and> ref_read s1 (IndexRef (sp_tx_id sp)) = read_ptr s (sp_tx_index_ptr sp)
    \<and> ref_read s1 (ReceiptRef (sp_tx_id sp)) = read_ptr s (sp_receipt_ptr sp)
    \<and> (\<forall>r. r \<notin> included_refs [sp] \<longrightarrow> ref_read s1 r = ref_read s r)
    \<and> (\<forall>w. oget (active_locs s1) w =
         (if w = sp_tx_id sp then Some (included_tx_loc number (sp_tx_index sp)) else oget (active_locs s) w))
    \<and> (\<forall>sk. oget (sender_expected_nonce s1) sk =
         (if sk = snk_sender k then Some (next_expected_nonce (snk_nonce k)) else oget (sender_expected_nonce s) sk))"

lemma indexed_Cons:
  assumes one: "indexed_one s number sp k s1" and rest: "indexed s1 number sps s2"
    and p: "pool_ok s" and k: "oget (pending_meta_by_tx_id s) (sp_tx_id sp) = Some k"
    and new: "sp_tx_id sp \<notin> sp_tx_id ` set sps"
    and keep: "\<And>sq. sq \<in> set sps \<Longrightarrow> read_ptr s1 (sp_tx_index_ptr sq) = read_ptr s (sp_tx_index_ptr sq)
      \<and> read_ptr s1 (sp_receipt_ptr sq) = read_ptr s (sp_receipt_ptr sq)"
  shows "indexed s number (sp # sps) s2"
proof -
  note i1 = one [unfolded indexed_one_def] and i2 = rest [unfolded indexed_def]
  have meta: "oget (pending_meta_by_tx_id s1) (sp_tx_id sq) = oget (pending_meta_by_tx_id s) (sp_tx_id sq)" if "sq \<in> set sps" for sq
  proof -
    have "sp_tx_id sq \<noteq> sp_tx_id sp"
      using that new by (metis image_eqI)
    then show ?thesis
      using i1 by (simp add: removed_def)
  qed
  have sender: "snk_sender j \<noteq> snk_sender k" if "sq \<in> set sps" "oget (pending_meta_by_tx_id s) (sp_tx_id sq) = Some j" for sq j
    using senders_differ [OF p that(2) k] that(1) new by (metis image_eqI)
  have first: "IndexRef (sp_tx_id sp) \<notin> included_refs sps" "ReceiptRef (sp_tx_id sp) \<notin> included_refs sps"
    using new by (auto simp: included_refs_def)
  have refs: "included_refs (sp # sps) = included_refs [sp] \<union> included_refs sps"
    by (auto simp: included_refs_def)
  have "oget (sender_expected_nonce s2) (snk_sender k) = Some (next_expected_nonce (snk_nonce k))"
    using i1 i2 sender meta by simp
  then show ?thesis
    unfolding indexed_def refs using i1 i2 first new keep meta k by auto
qed

lemma index_all_outcome:
  assumes "mempool_inv exact x s" and "held (concat (map ptrs_of sps) @ ps) s" and "distinct (map sp_tx_id sps)"
    and "\<And>sp. sp \<in> set sps \<Longrightarrow> oget (pending_meta_by_tx_id s) (sp_tx_id sp) \<noteq> None"
  shows "\<exists>s'. index_all x number sps s = Some s' \<and> mempool_inv exact x s' \<and> removed (sp_tx_id ` set sps) s s' \<and> held ps s'
    \<and> indexed s number sps s' \<and> (\<forall>q\<in>set ps. read_ptr s' q = read_ptr s q) \<and> same_outer s s'"
  using assms
proof (induction sps arbitrary: s)
  case Nil
  then show ?case
    by (simp add: indexed_def included_refs_def same_outer_def)
next
  case (Cons sp sps)
  let ?t = "sp_tx_id sp" and ?r = "recorded number sp s" and ?rest = "concat (map ptrs_of sps) @ ps"
  obtain k where k: "oget (pending_meta_by_tx_id s) ?t = Some k"
    using Cons.prems(4) by fastforce
  obtain s1 where s1: "index_included x number sp s = Some s1" "mempool_inv exact x s1" "removed {?t} s s1" "same_chain ?r s1"
    and loc1: "\<And>w. oget (active_locs s1) w = (if w = ?t then Some (included_tx_loc number (sp_tx_index sp)) else oget (active_locs s) w)"
    and nonce1: "\<And>sk. oget (sender_expected_nonce s1) sk =
      (if sk = snk_sender k then Some (next_expected_nonce (snk_nonce k)) else oget (sender_expected_nonce s) sk)"
    using index_included_outcome [OF Cons.prems(1) k, of number] by metis
  have h: "held (ptrs_of sp @ ?rest) s"
    using Cons.prems(2) by simp
  note rec = recorded_refs [OF h, where number = number]
  have rd1: "ref_read s1 r = ref_read ?r r" "read_ptr s1 q = read_ptr ?r q" for r q
    using same_chain_ref_read [OF s1(4)] s1(4) by (simp_all add: same_chain_def read_ptr_def)
  have keep: "read_ptr s1 q = read_ptr s q" if "q \<in> set ?rest" for q
    using rec(3) [OF that] rd1(2) by simp
  have one: "indexed_one s number sp k s1"
    using s1(3) loc1 nonce1 by (auto simp: indexed_one_def rd1(1) rec(2) included_refs_def)
  have new: "?t \<notin> sp_tx_id ` set sps"
    using Cons.prems(3) by simp
  have "oget (pending_meta_by_tx_id s1) (sp_tx_id sq) \<noteq> None" if "sq \<in> set sps" for sq
  proof -
    have "sp_tx_id sq \<noteq> ?t"
      using that new by (metis image_eqI)
    then show ?thesis
      using that s1(3) Cons.prems(4) [of sq] by (simp add: removed_def)
  qed
  moreover have "held ?rest s1"
    using rec(1) same_chain_held [OF s1(4)] by simp
  ultimately obtain s2 where s2: "index_all x number sps s1 = Some s2"
    "mempool_inv exact x s2" "removed (sp_tx_id ` set sps) s1 s2" "held ps s2" "indexed s1 number sps s2"
    "\<forall>q\<in>set ps. read_ptr s2 q = read_ptr s1 q" "same_outer s1 s2"
    using Cons.IH [OF s1(2)] Cons.prems(3) by auto
  have "indexed s number (sp # sps) s2"
    using keep by (intro indexed_Cons [OF one s2(5) mempool_invD(1) [OF Cons.prems(1)] k new]) (auto simp: ptrs_of_def)
  moreover have "removed (sp_tx_id ` set (sp # sps)) s s2"
    using removed_trans [OF s1(3) s2(3)] by simp
  moreover have "same_outer s s2"
    using same_outer_trans [OF same_outer_trans [OF recorded_outer same_chain_outer [OF s1(4)]] s2(7)] .
  moreover have "\<forall>q\<in>set ps. read_ptr s2 q = read_ptr s q"
    using s2(6) keep by simp
  ultimately show ?case
    using s1(1) s2(1,2,4) by auto
qed

end
