(* ===== verification/Production_Persist.thy ===== *)
theory Production_Persist
  imports Production_Inv
begin

text \<open>
  What persisting a sealed block does as a whole: it stores a known list of blobs, traps exactly when the
  blob store refuses that list, and otherwise leaves a consistent state in which the block, its receipts
  and the positions of its transactions can be read and everything older reads as before.
\<close>

section \<open>The blobs of a block\<close>

fun store_blobs :: "grow_fn \<Rightarrow> bytes list \<Rightarrow> blob_store \<Rightarrow> blob_store option" where
  "store_blobs g [] b = Some b"
| "store_blobs g (bs # rest) b = (case store_bytes g bs b of (BOk _, b1) \<Rightarrow> store_blobs g rest b1 | _ \<Rightarrow> None)"

lemma store_blobs_append:
  "store_blobs g (xs @ ys) b = Option.bind (store_blobs g xs b) (store_blobs g ys)"
  by (induction xs arbitrary: b) (auto split: prod.splits blob_result.splits)

definition trace_blobs :: "staged_included_tx \<Rightarrow> bytes list" where
  "trace_blobs inc =
    (let traces = eo_internal_traces (si_outcome inc)
     in if its_total_count traces = 0 then []
        else case internal_trace_bytes traces of Some bs \<Rightarrow> [bs] | None \<Rightarrow> [])"

definition blobs_of :: "u64 \<Rightarrow> staged_included_tx \<Rightarrow> bytes list" where
  "blobs_of number inc = index_bytes number inc # receipt_bytes inc # trace_blobs inc"

definition block_blobs :: "block_data \<Rightarrow> staged_included_tx list \<Rightarrow> bytes list" where
  "block_blobs block incs = concat (map (blobs_of (blk_number block)) incs) @ [fst (block_to_bytes block)]"

definition traced :: "staged_included_tx \<Rightarrow> bool" where
  "traced inc \<longleftrightarrow> (\<exists>bs. internal_trace_bytes (eo_internal_traces (si_outcome inc)) = Some bs)"

lemma store_blob_blobs:
  "map_option (\<lambda>r. blob_store_cell (snd r)) (store_blob g bs s) = store_blobs g [bs] (blob_store_cell s)"
  by (simp add: store_blob_def split: prod.splits blob_result.splits)

lemma store_traces_blobs:
  assumes "traced inc"
  shows "map_option (\<lambda>r. blob_store_cell (snd r)) (store_internal_traces g (eo_internal_traces (si_outcome inc)) s)
    = store_blobs g (trace_blobs inc) (blob_store_cell s)"
proof (cases "its_total_count (eo_internal_traces (si_outcome inc)) = 0")
  case True
  then show ?thesis
    by (simp add: store_internal_traces_def trace_blobs_def)
next
  case False
  obtain bs where bs: "internal_trace_bytes (eo_internal_traces (si_outcome inc)) = Some bs"
    using assms by (auto simp: traced_def)
  show ?thesis
    using False bs store_blob_blobs [of g bs s]
    by (cases "store_blob g bs s") (auto simp: store_internal_traces_def trace_blobs_def Let_def)
qed

text \<open>Each step stores one blob after the other.\<close>

lemma blobs_step:
  assumes "map_option (\<lambda>r. blob_store_cell (snd r)) (f s) = store_blobs g xs (blob_store_cell s)"
    and "\<And>a s'. f s = Some (a, s') \<Longrightarrow> map_option (\<lambda>r. blob_store_cell (snd r)) (k a s') = store_blobs g ys (blob_store_cell s')"
  shows "map_option (\<lambda>r. blob_store_cell (snd r)) (Option.bind (f s) (\<lambda>(a, s'). k a s'))
    = store_blobs g (xs @ ys) (blob_store_cell s)"
proof (cases "f s")
  case None
  then show ?thesis
    using assms(1) by (simp add: store_blobs_append)
next
  case (Some r)
  obtain a s' where "r = (a, s')"
    by fastforce
  then show ?thesis
    using Some assms(1) assms(2) [of a s'] by (simp add: store_blobs_append flip: assms(1))
qed

lemma persist_one_blobs:
  assumes "traced inc"
  shows "map_option (\<lambda>r. blob_store_cell (snd r)) (persist_one g number inc s) = store_blobs g (blobs_of number inc) (blob_store_cell s)"
proof -
  have b: "blobs_of number inc = [index_bytes number inc] @ [receipt_bytes inc] @ trace_blobs inc @ []"
    by (simp add: blobs_of_def)
  show ?thesis
    unfolding persist_one_def Let_def store_tx_index_entry_def store_receipt_def b index_bytes_def [symmetric] receipt_bytes_def [symmetric]
    by (intro blobs_step store_blob_blobs store_traces_blobs assms) simp
qed

lemma persist_all_blobs:
  assumes "list_all traced incs"
  shows "map_option (\<lambda>r. blob_store_cell (snd r)) (persist_all g number incs s)
    = store_blobs g (concat (map (blobs_of number) incs)) (blob_store_cell s)"
  using assms
proof (induction incs arbitrary: s)
  case (Cons inc incs)
  have "map_option (\<lambda>r. blob_store_cell (snd r)) (Option.bind (persist_one g number inc s)
      (\<lambda>(sp, s1). Option.bind (persist_all g number incs s1) (\<lambda>(sps, s2). Some (sp # sps, s2))))
    = store_blobs g (blobs_of number inc @ (concat (map (blobs_of number) incs) @ [])) (blob_store_cell s)"
    using Cons by (intro blobs_step persist_one_blobs) auto
  then show ?case
    by simp
qed simp

section \<open>The new head\<close>

lemma advance_head_outcome:
  assumes inv: "mempool_inv exact x s" and held: "held [p] s"
    and s'_def: "s' = advance_head x block p counts s"
  shows "mempool_inv exact x s'" and "refs_ok s'"
    and "ref_read s' r = (if r = BlockRef (blk_number block) then read_ptr s p else ref_read s r)"
    and "pending_meta_by_tx_id s' = pending_meta_by_tx_id s" and "sender_expected_nonce s' = sender_expected_nonce s"
    and "active_locs s' = active_locs s" and "accounts s' = accounts s" and "storage s' = storage s"
    and "blocks s' = oinsert (blk_number block) p (blocks s)" and "seen_tx s' = seen_tx s"
    and "head_cell s' = \<lparr>head_number = blk_number block, head_block_hash = blk_block_hash block, head_timestamp = blk_timestamp block\<rparr>"
    and "chain_state_cell s' = (chain_state_cell s)\<lparr>last_block_number := blk_number block, last_block_time := blk_timestamp block,
      base_fee := compute_next_base_fee (base_fee (chain_state_cell s)) (blk_gas_used block) (block_gas_limit (chain_state_cell s))\<rparr>"
proof -
  define hd where "hd = \<lparr>head_number = blk_number block, head_block_hash = blk_block_hash block, head_timestamp = blk_timestamp block\<rparr>"
  define s1 where "s1 = s\<lparr>blocks := oinsert (blk_number block) p (blocks s), head_cell := hd\<rparr>"
  define cs where "cs = (chain_state_cell s)\<lparr>last_block_number := blk_number block, last_block_time := blk_timestamp block,
      base_fee := compute_next_base_fee (base_fee (chain_state_cell s)) (blk_gas_used block) (block_gas_limit (chain_state_cell s))\<rparr>"
  define s2 where "s2 = rebuild_pending_fee_index_for_base_fee x (base_fee cs) (s1\<lparr>chain_state_cell := cs\<rparr>)"
  have inv1: "mempool_inv exact x s1"
    by (rule same_pool_inv [OF inv]) (simp add: same_pool_def same_indexes_def s1_def)
  then have inv2: "mempool_inv exact x s2"
    unfolding s2_def by (rule rebuild_fee_index_inv)
  have a: "active_locs (s1\<lparr>chain_state_cell := cs\<rparr>) = active_locs s1" "stored_of x (s1\<lparr>chain_state_cell := cs\<rparr>) = stored_of x s1"
    by (simp_all add: active_locs_def stored_of_def fun_eq_iff)
  have pe: "pool_ok (s1\<lparr>chain_state_cell := cs\<rparr>)" "entry_ok x (s1\<lparr>chain_state_cell := cs\<rparr>)"
    using mempool_invD(1,2) [OF inv1] by (simp_all add: pool_ok_def entry_ok_def a)
  obtain fi fk where s2: "s2 = s1\<lparr>chain_state_cell := cs, pending_fee_index := fi, pending_fee_key_by_tx_id := fk\<rparr>"
    using rebuild_fee_index [OF pe, of "base_fee cs" thesis] unfolding s2_def by auto
  obtain m where s': "s' = s2\<lparr>metrics_state_cell := m\<rparr>"
    unfolding s'_def advance_head_def Let_def s2_def cs_def s1_def hd_def by simp
  show "mempool_inv exact x s'"
    by (rule same_pool_inv [OF inv2]) (simp add: same_pool_def same_indexes_def s')
  have bs: "blob_store_cell s' = blob_store_cell s"
    by (simp add: s' s2 s1_def)
  have "ref_get s' = ref_get (s\<lparr>blocks := oinsert (blk_number block) p (blocks s)\<rparr>)"
    by (rule ref_get_cong) (simp_all add: s' s2 s1_def)
  then have rg: "ref_get s' = (ref_get s)(BlockRef (blk_number block) := Some p)"
    by (simp only: ref_get_updates)
  show "refs_ok s'" "ref_read s' r = (if r = BlockRef (blk_number block) then read_ptr s p else ref_read s r)"
    using record_ref [OF held bs rg] by simp_all
  show "active_locs s' = active_locs s" "pending_meta_by_tx_id s' = pending_meta_by_tx_id s"
    "sender_expected_nonce s' = sender_expected_nonce s" "accounts s' = accounts s" "storage s' = storage s"
    "blocks s' = oinsert (blk_number block) p (blocks s)" "seen_tx s' = seen_tx s"
    by (simp_all add: active_locs_def s' s2 s1_def)
  show "head_cell s' = \<lparr>head_number = blk_number block, head_block_hash = blk_block_hash block, head_timestamp = blk_timestamp block\<rparr>"
    by (simp add: s' s2 s1_def hd_def)
  show "chain_state_cell s' = (chain_state_cell s)\<lparr>last_block_number := blk_number block, last_block_time := blk_timestamp block,
      base_fee := compute_next_base_fee (base_fee (chain_state_cell s)) (blk_gas_used block) (block_gas_limit (chain_state_cell s))\<rparr>"
    by (simp add: s' s2 s1_def cs_def)
qed

section \<open>Persisting a sealed block\<close>

definition included_at :: "stable_state \<Rightarrow> u64 \<Rightarrow> stable_state \<Rightarrow> staged_included_tx \<Rightarrow> bool" where
  "included_at s number s' inc \<longleftrightarrow> ref_read s' (IndexRef (si_tx_id inc)) = Some (index_bytes number inc)
    \<and> ref_read s' (ReceiptRef (si_tx_id inc)) = Some (receipt_bytes inc)
    \<and> oget (active_locs s') (si_tx_id inc) = Some (included_tx_loc number (eo_tx_index (si_outcome inc)))
    \<and> (\<forall>k. oget (pending_meta_by_tx_id s) (si_tx_id inc) = Some k \<longrightarrow>
         oget (sender_expected_nonce s') (snk_sender k) = Some (next_expected_nonce (snk_nonce k)))"

definition staged_refs :: "staged_included_tx list \<Rightarrow> blob_ref set" where
  "staged_refs incs = (\<Union>t\<in>si_tx_id ` set incs. {IndexRef t, ReceiptRef t, TraceRef t})"

text \<open>What the chain says after the block, and what it keeps.\<close>

definition persisted ::
  "bool \<Rightarrow> ext \<Rightarrow> block_data \<Rightarrow> tx_id set \<Rightarrow> staged_included_tx list \<Rightarrow> stable_state \<Rightarrow> stable_state \<Rightarrow> bool" where
  "persisted exact x block dropped incs s s' \<longleftrightarrow> mempool_inv exact x s' \<and> refs_ok s'
    \<and> removed (dropped \<union> si_tx_id ` set incs) s s' \<and> accounts s' = accounts s \<and> storage s' = storage s
    \<and> seen_tx s' = seen_tx s \<and> (\<forall>n. oget (blocks s') n \<noteq> None \<longleftrightarrow> n = blk_number block \<or> oget (blocks s) n \<noteq> None)
    \<and> head_cell s' = \<lparr>head_number = blk_number block, head_block_hash = blk_block_hash block, head_timestamp = blk_timestamp block\<rparr>
    \<and> chain_state_cell s' = (chain_state_cell s)\<lparr>last_block_number := blk_number block, last_block_time := blk_timestamp block,
        base_fee := compute_next_base_fee (base_fee (chain_state_cell s)) (blk_gas_used block) (block_gas_limit (chain_state_cell s))\<rparr>
    \<and> ref_read s' (BlockRef (blk_number block)) = Some (fst (block_to_bytes block))
    \<and> list_all (included_at s (blk_number block) s') incs
    \<and> (\<forall>r. r \<noteq> BlockRef (blk_number block) \<longrightarrow> r \<notin> staged_refs incs \<longrightarrow> ref_read s' r = ref_read s r)"

lemma staged_ids:
  assumes "list_all2 (staged_for number s) incs sps"
  shows "map sp_tx_id sps = map si_tx_id incs" and "included_refs sps = staged_refs incs"
proof -
  show m: "map sp_tx_id sps = map si_tx_id incs"
    using assms by (induction rule: list_all2_induct) (simp_all add: staged_for_def)
  have "sp_tx_id ` set sps = si_tx_id ` set incs"
    using arg_cong [OF m, of set] by simp
  then show "included_refs sps = staged_refs incs"
    by (simp add: included_refs_def staged_refs_def)
qed

lemma staged_indexed:
  assumes "list_all2 (staged_for number s2) incs sps" and "indexed s3 number sps s4"
    and "\<And>q. q \<in> set (concat (map ptrs_of sps)) \<Longrightarrow> read_ptr s3 q = read_ptr s2 q"
    and "\<And>inc. inc \<in> set incs \<Longrightarrow> oget (pending_meta_by_tx_id s3) (si_tx_id inc) = oget (pending_meta_by_tx_id s) (si_tx_id inc)"
  shows "list_all (included_at s number s4) incs"
  unfolding list_all_iff
proof
  fix inc
  assume inc: "inc \<in> set incs"
  then obtain sp where sp: "sp \<in> set sps" "staged_for number s2 inc sp"
    using assms(1) by (metis in_set_conv_nth list_all2_conv_all_nth)
  then have "read_ptr s3 (sp_tx_index_ptr sp) = Some (index_bytes number inc)" "read_ptr s3 (sp_receipt_ptr sp) = Some (receipt_bytes inc)"
    using assms(3) [of "sp_tx_index_ptr sp"] assms(3) [of "sp_receipt_ptr sp"] by (auto simp: staged_for_def ptrs_of_def)
  moreover have "sp_tx_id sp = si_tx_id inc" "sp_tx_index sp = eo_tx_index (si_outcome inc)"
    using sp(2) by (simp_all add: staged_for_def)
  ultimately show "included_at s number s4 inc"
    using assms(2,4) sp(1) inc unfolding indexed_def included_at_def by metis
qed

text \<open>Indexing and the new head, once everything is stored.\<close>

lemma finish_block:
  assumes inv: "mempool_inv exact x s1" and refs: "refs_ok s1"
    and st2: "stored [] (concat (map ptrs_of sps)) s1 s2" "list_all2 (staged_for (blk_number block) s2) incs sps"
    and s3: "store_block g block s2 = Some (p, s3)" and ids: "distinct (map si_tx_id incs)"
    and pend: "\<And>inc. inc \<in> set incs \<Longrightarrow> oget (pending_meta_by_tx_id s1) (si_tx_id inc) \<noteq> None"
  shows "\<exists>s4. index_all x (blk_number block) sps s3 = Some s4 \<and> persisted exact x block {} incs s1 (advance_head x block p counts s4)"
proof -
  let ?number = "blk_number block"
  have h2: "held (concat (map ptrs_of sps)) s2"
    using st2(1) by (simp add: stored_def)
  note st3 = store_block_stored [OF h2 s3]
  obtain b c where f3: "s3 = s2\<lparr>blob_store_cell := b, prune_config_cell := c\<rparr>"
    using st3(5) by blast
  obtain b' where f2: "s2 = s1\<lparr>blob_store_cell := b'\<rparr>"
    using st2(1) by (auto simp: stored_def)
  have same: "same_pool s1 s3" "pending_meta_by_tx_id s3 = pending_meta_by_tx_id s1" "chain_state_cell s3 = chain_state_cell s1"
    "accounts s3 = accounts s1" "storage s3 = storage s1" "blocks s3 = blocks s1" "seen_tx s3 = seen_tx s1"
    by (simp_all add: f2 f3 same_pool_def same_indexes_def)
  note sids = staged_ids [OF st2(2)]
  have idset: "sp_tx_id ` set sps = si_tx_id ` set incs"
    using arg_cong [OF sids(1), of set] by simp
  have pendsp: "oget (pending_meta_by_tx_id s3) (sp_tx_id sp) \<noteq> None" if "sp \<in> set sps" for sp
    using imageI [OF that, of sp_tx_id] pend unfolding idset same(2) by auto
  have "held (concat (map ptrs_of sps) @ [p]) s3"
    using st3(1) held_perm [of "p # concat (map ptrs_of sps)" "concat (map ptrs_of sps) @ [p]" s3] by simp
  moreover have "distinct (map sp_tx_id sps)"
    using ids unfolding sids(1) .
  ultimately obtain s4 where s4: "index_all x ?number sps s3 = Some s4" "mempool_inv exact x s4"
    "removed (sp_tx_id ` set sps) s3 s4" "held [p] s4" "indexed s3 ?number sps s4" "read_ptr s4 p = read_ptr s3 p" "same_outer s3 s4"
    using index_all_outcome [OF same_pool_inv [OF inv same(1)] _ _ pendsp, where ps = "[p]" and number = ?number] by auto
  define s5 where "s5 = advance_head x block p counts s4"
  note a = advance_head_outcome [OF s4(2,4) s5_def]
  have "list_all (included_at s1 ?number s4) incs"
    using st3(4) by (intro staged_indexed [OF st2(2) s4(5)]) (simp_all add: same(2))
  moreover have "included_at s1 ?number s5 inc" if "included_at s1 ?number s4 inc" for inc
    using that a(3,5,6) by (simp add: included_at_def)
  ultimately have inc5: "list_all (included_at s1 ?number s5) incs"
    by (simp add: list_all_iff)
  have keep: "ref_read s5 r = ref_read s1 r" if "r \<noteq> BlockRef ?number" "r \<notin> staged_refs incs" for r
    using that a(3) [of r] s4(5) sids(2) st3(3) [of r] st2(1) by (simp add: indexed_def stored_def)
  have "removed ({} \<union> si_tx_id ` set incs) s1 s5"
    using s4(3) by (simp add: removed_def same(2) a(4) idset)
  then have "persisted exact x block {} incs s1 s5"
    using a inc5 keep s4(6,7) st3(2) same by (simp add: persisted_def same_outer_def)
  then show ?thesis
    using s4(1) by (simp add: s5_def)
qed

text \<open>The drops come first and concern other transactions.\<close>

lemma persisted_after_drops:
  assumes "persisted exact x block {} incs s1 s5" and "removed ds s s1" and "same_chain s s1" and "si_tx_id ` set incs \<inter> ds = {}"
  shows "persisted exact x block ds incs s s5"
proof -
  have "removed (ds \<union> ({} \<union> si_tx_id ` set incs)) s s5"
    using assms(1) by (intro removed_trans [OF assms(2)]) (simp add: persisted_def)
  moreover have "oget (pending_meta_by_tx_id s1) (si_tx_id inc) = oget (pending_meta_by_tx_id s) (si_tx_id inc)" if "inc \<in> set incs" for inc
    using that assms(2,4) by (auto simp: removed_def)
  then have "list_all (included_at s (blk_number block) s5) incs"
    using assms(1) by (auto simp: persisted_def included_at_def list_all_iff)
  ultimately show ?thesis
    using assms(1,3) same_chain_ref_read [OF assms(3)] by (simp add: persisted_def same_chain_def)
qed

lemma persist_block_outcome:
  assumes inv: "mempool_inv exact x s" and refs: "refs_ok s" and tr: "list_all traced (xs_included st)" and ne: "xs_included st \<noteq> []"
    and ids: "distinct (map qd_tx_id (xs_drops st) @ map si_tx_id (xs_included st))"
    and pend: "\<And>t. t \<in> set (map qd_tx_id (xs_drops st) @ map si_tx_id (xs_included st)) \<Longrightarrow> oget (pending_meta_by_tx_id s) t \<noteq> None"
  shows "case persist_block x h block st s of
      None \<Rightarrow> store_blobs (grow h) (block_blobs block (xs_included st)) (blob_store_cell s) = None
    | Some s' \<Rightarrow> persisted exact x block (qd_tx_id ` set (xs_drops st)) (xs_included st) s s'"
proof -
  let ?number = "blk_number block" and ?incs = "xs_included st" and ?ds = "xs_drops st"
  have disj: "si_tx_id ` set ?incs \<inter> qd_tx_id ` set ?ds = {}"
    using ids by auto
  have "distinct (map qd_tx_id ?ds)" "\<And>d. d \<in> set ?ds \<Longrightarrow> oget (pending_meta_by_tx_id s) (qd_tx_id d) \<noteq> None"
    using ids pend by auto
  then obtain s1 where s1: "apply_drops x ?ds s = Some s1" "mempool_inv exact x s1" "removed (qd_tx_id ` set ?ds) s s1" "same_chain s s1"
    using apply_drops_outcome [OF inv] by blast
  have h1: "refs_ok s1" and b1: "blob_store_cell s1 = blob_store_cell s"
    using same_chain_held [OF s1(4)] refs s1(4) by (simp_all add: same_chain_def)
  have pend1: "oget (pending_meta_by_tx_id s1) (si_tx_id inc) \<noteq> None" if "inc \<in> set ?incs" for inc
    using that pend [of "si_tx_id inc"] s1(3) disj by (auto simp: removed_def)
  note blobs = persist_all_blobs [OF tr, of "grow h" ?number s1, unfolded b1]
  show ?thesis
  proof (cases "persist_all (grow h) ?number ?incs s1")
    case None
    then have "store_blobs (grow h) (concat (map (blobs_of ?number) ?incs)) (blob_store_cell s) = None"
      using blobs by simp
    then show ?thesis
      using None s1(1) by (simp add: persist_block_def block_blobs_def store_blobs_append)
  next
    case (Some r)
    then obtain sps s2 where s2: "persist_all (grow h) ?number ?incs s1 = Some (sps, s2)"
      by (metis surj_pair)
    note st2 = persist_all_stored [OF h1 s2]
    have eq: "persist_block x h block st s = Option.bind (store_block (grow h) block s2) (\<lambda>(block_ptr, s3).
        Option.bind (index_all x ?number sps s3) (\<lambda>s4. Some (advance_head x block block_ptr (xs_drop_counts st) s4)))"
      using s1(1) s2 ne list_all2_lengthD [OF conjunct2 [OF st2]] by (auto simp: persist_block_def classify_persist_batch_def)
    show ?thesis
    proof (cases "store_block (grow h) block s2")
      case None
      then have "store_blob (grow h) (fst (block_to_bytes block)) s2 = None"
        by (auto simp: store_block_def Let_def split: option.splits if_splits)
      then have "store_blobs (grow h) [fst (block_to_bytes block)] (blob_store_cell s2) = None"
        using store_blob_blobs [of "grow h" "fst (block_to_bytes block)" s2] by simp
      moreover have "store_blobs (grow h) (concat (map (blobs_of ?number) ?incs)) (blob_store_cell s) = Some (blob_store_cell s2)"
        using blobs s2 by simp
      ultimately show ?thesis
        using eq None by (simp add: block_blobs_def store_blobs_append)
    next
      case (Some r)
      then obtain p s3 where s3: "store_block (grow h) block s2 = Some (p, s3)"
        by (metis surj_pair)
      have "distinct (map si_tx_id ?incs)"
        using ids by simp
      then obtain s4 where "index_all x ?number sps s3 = Some s4"
        "persisted exact x block {} ?incs s1 (advance_head x block p (xs_drop_counts st) s4)"
        using finish_block [OF s1(2) h1 conjunct1 [OF st2] conjunct2 [OF st2] s3 _ pend1] by blast
      then show ?thesis
        using eq s3 persisted_after_drops [OF _ s1(3,4) disj] by simp
    qed
  qed
qed

end
