(* ===== verification/Production_Exec.thy ===== *)
theory Production_Exec
  imports Production_Persist
begin

text \<open>
  The phases before persisting: the candidates are distinct pending transactions, preparation sorts a
  prefix of them into drops and transactions without touching the stable state, and execution turns every
  transaction into a drop or a staged inclusion within the gas limit of the block.
\<close>

section \<open>Candidates\<close>

lemma distinct_part:
  assumes "mset ys = mset zs + mset rest" and "distinct (map f ys)"
  shows "distinct (map f zs)" and "set zs \<subseteq> set ys"
proof -
  have "mset (map f ys) = mset (map f zs @ map f rest)"
    using assms(1) by (simp add: mset_map [symmetric] del: mset_map) (simp add: mset_map)
  then show "distinct (map f zs)"
    using assms(2) mset_eq_imp_distinct_iff distinct_append by blast
  show "set zs \<subseteq> set ys"
    using arg_cong [OF assms(1), of set_mset] by auto
qed

lemma ready_entries:
  assumes "mempool_inv exact x s"
  shows "distinct (map snd (entries (ready_queue s)))"
    and "e \<in> set (entries (ready_queue s)) \<Longrightarrow> oget (pending_meta_by_tx_id s) (snd e) \<noteq> None"
proof -
  have p: "(k, t) \<in> set (entries (ready_queue s)) \<longleftrightarrow> ready_entry x s t = Some k" for k t
    using mempool_invD(4) [OF assms] by (simp add: ready_ok_def paired_def flip: oget_entries)
  have "inj_on snd (set (entries (ready_queue s)))"
    using p by (auto intro!: inj_onI)
  moreover have "distinct (entries (ready_queue s))"
    using distinct_okeys [of "ready_queue s"] by (simp add: okeys_def distinct_map)
  ultimately show "distinct (map snd (entries (ready_queue s)))"
    by (simp add: distinct_map)
  show "e \<in> set (entries (ready_queue s)) \<Longrightarrow> oget (pending_meta_by_tx_id s) (snd e) \<noteq> None"
    using p [of "fst e" "snd e"] by (auto simp: ready_entry_def split: if_splits)
qed

lemma rc_tx_id_of [simp]: "rc_tx_id (ready_candidate_of x base s e) = snd e"
  by (simp add: ready_candidate_of_def split: sum.splits option.splits)

lemma candidates_pending:
  assumes "mempool_inv exact x s"
  shows "distinct (select_ready_candidates x base k s)" and "length (select_ready_candidates x base k s) \<le> min k READY_CANDIDATE_LIMIT"
    and "t \<in> set (select_ready_candidates x base k s) \<Longrightarrow> oget (pending_meta_by_tx_id s) t \<noteq> None"
proof -
  let ?es = "take READY_CANDIDATE_LIMIT (entries (ready_queue s))"
  let ?cs = "map (ready_candidate_of x base s) ?es"
  have sel: "select_ready_candidates x base k s = select_top_k_ready_candidates ?cs k"
    by (simp add: select_ready_candidates_def select_top_k_ready_candidates_def)
  obtain best rest where b: "select_ready_candidates x base k s = map rc_tx_id best" "mset ?cs = mset best + mset rest"
    "length best = min k (length ?cs)"
    using select_top_k_spec [of ?cs k] unfolding sel by blast
  have ids: "map rc_tx_id ?cs = take READY_CANDIDATE_LIMIT (map snd (entries (ready_queue s)))"
    by (simp add: take_map)
  then have "distinct (map rc_tx_id ?cs)"
    using ready_entries(1) [OF assms] by simp
  note part = distinct_part [OF b(2) this]
  show "distinct (select_ready_candidates x base k s)" "length (select_ready_candidates x base k s) \<le> min k READY_CANDIDATE_LIMIT"
    using part(1) b by auto
  show "oget (pending_meta_by_tx_id s) t \<noteq> None" if "t \<in> set (select_ready_candidates x base k s)"
  proof -
    have "t \<in> set (map rc_tx_id ?cs)"
      using that image_mono [OF part(2), of rc_tx_id] unfolding b(1) set_map by blast
    then have "t \<in> set (map snd (entries (ready_queue s)))"
      unfolding ids by (rule in_set_takeD)
    then obtain e where "e \<in> set (entries (ready_queue s))" "t = snd e"
      by auto
    then show ?thesis
      using ready_entries(2) [OF assms] by simp
  qed
qed

section \<open>Preparation\<close>

fun item_id :: "prepared_item \<Rightarrow> tx_id" where
  "item_id (PreparedDrop d) = qd_tx_id d"
| "item_id (PreparedTx p) = pt_tx_id p"

lemma suppressed_stable: "is_principal_decode_suppressed who now n = (b, n') \<Longrightarrow> stable n' = stable n"
  by (auto simp: is_principal_decode_suppressed_def Let_def split: if_splits)

lemma noted_stable: "note_decode_drop_for_principal who now n per = (n', per') \<Longrightarrow> stable n' = stable n"
  by (auto simp: note_decode_drop_for_principal_def Let_def split: if_splits)

lemma check_fees_id: "check_fees ctx cs t env = Inr item \<Longrightarrow> item_id item = t"
  by (auto simp: check_fees_def Let_def split: sum.splits if_splits)

lemma prepare_tx_outcome:
  assumes "prepare_tx x ctx cs t n strikes = (r, n', strikes')"
  shows "stable n' = stable n" and "r = Inr (item, failed) \<Longrightarrow> item_id item = t"
  using assms suppressed_stable noted_stable check_fees_id
  by (fastforce simp: prepare_tx_def simple_drop_def Let_def split: option.splits sum.splits prod.splits if_splits)+

lemma prepare_loop_outcome:
  assumes "prepare_loop x h ctx cs start ts k drops strikes n = (r, n')"
  shows "stable n' = stable n \<and> (\<forall>items k'. r = Inr (items, k') \<longrightarrow> (\<exists>rest. ts = map item_id items @ rest))"
  using assms
proof (induction ts arbitrary: k drops strikes n r n')
  case (Cons t ts)
  obtain r1 n1 strikes1 where p: "prepare_tx x ctx cs t n strikes = (r1, n1, strikes1)"
    by (metis surj_pair)
  note o1 = prepare_tx_outcome [OF p]
  show ?case
  proof (cases r1)
    case (Inl err)
    then show ?thesis
      using Cons.prems p o1(1) by (auto split: if_splits)
  next
    case (Inr a)
    obtain item failed where a: "a = (item, failed)"
      by fastforce
    have id: "item_id item = t"
      using o1(2) Inr a by simp
    consider k1 where "r = Inr ([], k1)" "n' = n" | k1 where "r = Inr ([item], k1)" "n' = n1"
      | k1 d1 rr where "prepare_loop x h ctx cs start ts k1 d1 strikes1 n1 = (rr, n')"
          "r = (case rr of Inl err \<Rightarrow> Inl err | Inr (items, k2) \<Rightarrow> Inr (item # items, k2))"
      using Cons.prems p Inr a by (auto simp: Let_def split: if_splits sum.splits prod.splits)
    then show ?thesis
    proof cases
      case 3
      then show ?thesis
        using Cons.IH [OF 3(1)] o1(1) id by (auto split: sum.splits)
    qed (use o1(1) id in simp_all)
  qed
qed simp

lemma items_split:
  "mset (map item_id items) = mset (map qd_tx_id (drops_of items)) + mset (map pt_tx_id (txs_of items))"
  by (induction items) (auto simp: drops_of_def txs_of_def split: prepared_item.splits)

section \<open>Execution\<close>

text \<open>A staged inclusion at its position in the block.\<close>

definition staged_ok :: "block_exec_context \<Rightarrow> nat \<Rightarrow> staged_included_tx \<Rightarrow> bool" where
  "staged_ok ctx i inc \<longleftrightarrow>
    (let out = si_outcome inc; r = eo_receipt out
     in receipt_ok r \<and> traced inc \<and> unat (eo_tx_index out) = i \<and> rcpt_tx_id r = si_tx_id inc \<and> rcpt_tx_index r = eo_tx_index out
        \<and> rcpt_block_number r = bx_block_number ctx \<and> bx_base_fee ctx \<le> rcpt_effective_gas_price r)"

definition included_gas :: "staged_included_tx list \<Rightarrow> nat" where
  "included_gas incs = (\<Sum>inc\<leftarrow>incs. unat (rcpt_gas_used (eo_receipt (si_outcome inc))))"

definition exec_inv :: "block_exec_context \<Rightarrow> stable_state \<Rightarrow> tx_id list \<Rightarrow> exec_state \<Rightarrow> bool" where
  "exec_inv ctx s todo st \<longleftrightarrow>
    distinct (map qd_tx_id (xs_drops st) @ map si_tx_id (xs_included st) @ todo)
    \<and> (\<forall>t\<in>set (map qd_tx_id (xs_drops st) @ map si_tx_id (xs_included st) @ todo). oget (pending_meta_by_tx_id s) t \<noteq> None)
    \<and> (bx_block_gas_limit ctx \<noteq> 0 \<longrightarrow> xs_gas_used st \<le> bx_block_gas_limit ctx \<and> unat (xs_gas_used st) = included_gas (xs_included st))
    \<and> (\<exists>m. xs_stable st = s\<lparr>ops_metrics_cell := m\<rparr>) \<and> list_all diff_ok (xs_diffs st)
    \<and> (\<forall>i<length (xs_included st). staged_ok ctx i (xs_included st ! i))"

lemma exec_inv_tick [simp]: "exec_inv ctx s todo (st\<lparr>xs_tick := k\<rparr>) = exec_inv ctx s todo st"
  by (simp add: exec_inv_def)

lemma exec_inv_done: "exec_inv ctx s todo st \<Longrightarrow> exec_inv ctx s [] st"
  by (auto simp: exec_inv_def)

lemma halt_unknown_metrics: "\<exists>m. record_exec_halt_unknown now s = s\<lparr>ops_metrics_cell := m\<rparr>"
  by (auto simp: record_exec_halt_unknown_def Let_def)

lemma observe_metrics:
  assumes "\<exists>m. s1 = s\<lparr>ops_metrics_cell := m\<rparr>"
  shows "\<exists>m. observe_exec_error err now s1 = s\<lparr>ops_metrics_cell := m\<rparr>"
    and "\<exists>m. observe_exec_outcome now out s1 = s\<lparr>ops_metrics_cell := m\<rparr>"
  using assms halt_unknown_metrics [of now s1]
  by (auto simp: observe_exec_error_def observe_exec_outcome_def)

lemma stage_drop_inv:
  assumes "exec_inv ctx s (pt_tx_id p # todo) st" and "\<exists>m. s1 = s\<lparr>ops_metrics_cell := m\<rparr>"
  shows "exec_inv ctx s todo (stage_drop p code (st\<lparr>xs_tick := k, xs_db := db, xs_stable := s1\<rparr>))"
  using assms by (auto simp: exec_inv_def stage_drop_def)

lemma stage_included_inv:
  assumes inv: "exec_inv ctx s (pt_tx_id p # todo) st" and m: "\<exists>m. s1 = s\<lparr>ops_metrics_cell := m\<rparr>" and diff: "diff_ok diff"
    and ok: "staged_ok ctx (length (xs_included st)) \<lparr>si_tx_id = pt_tx_id p, si_outcome = out, si_sender_bytes = a, si_sender_nonce = b\<rparr>"
    and gas: "tx_fits_block_gas (xs_gas_used st) (bx_block_gas_limit ctx) lim" "rcpt_gas_used (eo_receipt out) \<le> lim"
    and p: "pt_sender_bytes p = a" "pt_sender_nonce p = b"
  shows "exec_inv ctx s todo (stage_included x now p out diff (st\<lparr>xs_tick := k, xs_db := db, xs_stable := s1\<rparr>))"
proof -
  define inc where "inc = \<lparr>si_tx_id = pt_tx_id p, si_outcome = out, si_sender_bytes = a, si_sender_nonce = b\<rparr>"
  define st' where "st' = stage_included x now p out diff (st\<lparr>xs_tick := k, xs_db := db, xs_stable := s1\<rparr>)"
  have f: "xs_drops st' = xs_drops st" "xs_included st' = xs_included st @ [inc]" "xs_diffs st' = xs_diffs st @ [diff]"
    "xs_gas_used st' = add_block_gas_used (xs_gas_used st) (rcpt_gas_used (eo_receipt out))" "xs_stable st' = observe_exec_outcome now out s1"
    by (simp_all add: st'_def stage_included_def inc_def p split: prod.splits)
  have "add_block_gas_used (xs_gas_used st) (rcpt_gas_used (eo_receipt out)) \<le> bx_block_gas_limit ctx
      \<and> unat (add_block_gas_used (xs_gas_used st) (rcpt_gas_used (eo_receipt out))) = included_gas (xs_included st @ [inc])"
    if nz: "bx_block_gas_limit ctx \<noteq> 0"
  proof -
    have u: "xs_gas_used st \<le> bx_block_gas_limit ctx" "unat (xs_gas_used st) = included_gas (xs_included st)"
      using inv nz by (simp_all add: exec_inv_def)
    have "unat (xs_gas_used st) + unat (rcpt_gas_used (eo_receipt out)) \<le> unat (bx_block_gas_limit ctx)"
      using gas u(1) nz by (simp add: tx_fits_block_gas_def word_le_nat_alt unat_sat_sub)
    then show ?thesis
      using u(2) unat_bound [of "bx_block_gas_limit ctx"] add_block_gas_fits [OF gas nz u(1)]
      by (simp add: add_block_gas_used_def unat_sat_add included_gas_def inc_def)
  qed
  moreover have "staged_ok ctx i ((xs_included st @ [inc]) ! i)" if "i < Suc (length (xs_included st))" for i
    using that inv ok by (cases "i = length (xs_included st)") (auto simp: exec_inv_def nth_append inc_def)
  ultimately show ?thesis
    using inv diff observe_metrics(2) [OF m, of now out]
    unfolding st'_def [symmetric] by (auto simp: exec_inv_def f inc_def)
qed

text \<open>One iteration and the loop. Nothing traps.\<close>

lemma execute_one_inv:
  assumes eng: "engine_ok e" and hash: "\<And>bs. length (keccak x bs) = 32" and acc: "accounts_ok s" and t: "length (pt_tx_id p) = 32"
    and inv: "exec_inv ctx s (pt_tx_id p # todo) st"
  shows "\<exists>r st'. execute_one x e h ctx soft_limit start p st = Some (r, st') \<and> exec_inv ctx s (if r = Inr True then todo else []) st'"
proof -
  let ?now = "ticks h (xs_tick st)" and ?st1 = "st\<lparr>xs_tick := Suc (xs_tick st)\<rparr>"
  let ?remaining = "remaining_instruction_budget soft_limit start ?now"
  obtain m where m: "xs_stable st = s\<lparr>ops_metrics_cell := m\<rparr>"
    using inv by (auto simp: exec_inv_def)
  then have ex: "\<exists>m. xs_stable st = s\<lparr>ops_metrics_cell := m\<rparr>" and acc': "accounts_ok (xs_stable st)"
    using acc by (auto simp: accounts_ok_def)
  have fin: "exec_inv ctx s [] ?st1"
    using exec_inv_done [OF inv] by simp
  consider (stop) "should_stop_execution (xs_gas_used st) (bx_block_gas_limit ctx) soft_limit start ?now \<or> ?remaining = Some 0"
    | (full) "\<not> should_stop_execution (xs_gas_used st) (bx_block_gas_limit ctx) soft_limit start ?now" "?remaining \<noteq> Some 0"
        "\<not> tx_fits_block_gas (xs_gas_used st) (bx_block_gas_limit ctx) (te_gas_limit (pt_tx_env p))"
    | (go) "\<not> should_stop_execution (xs_gas_used st) (bx_block_gas_limit ctx) soft_limit start ?now" "?remaining \<noteq> Some 0"
        "tx_fits_block_gas (xs_gas_used st) (bx_block_gas_limit ctx) (te_gas_limit (pt_tx_env p))"
    by blast
  then show ?thesis
  proof cases
    case stop
    then show ?thesis
      using fin by (auto simp: execute_one_def Let_def)
  next
    case full
    have "exec_inv ctx s todo (stage_drop p DROP_CODE_BLOCK_GAS_EXCEEDED ?st1)"
      using stage_drop_inv [OF inv ex, where code = DROP_CODE_BLOCK_GAS_EXCEEDED and k = "Suc (xs_tick st)" and db = "xs_db st"] by simp
    then show ?thesis
      using full by (auto simp: execute_one_def Let_def)
  next
    case go
    show ?thesis
    proof (cases "next_included_index (length (xs_included st))")
      case None
      then show ?thesis
        using go fin by (auto simp: execute_one_def Let_def)
    next
      case (Some index)
      note unf = execute_one_def Let_def go Some
      show ?thesis
      proof (cases rule: execute_tx_cases [OF eng hash t acc', where grow = "grow h" and index = index and env = "pt_tx_env p" and ctx = ctx
            and limit = ?remaining and db = "xs_db st"])
        case (1 err)
        then show ?thesis
          using stage_drop_inv [OF inv observe_metrics(1) [OF ex, of err "bx_timestamp ctx"], where code = "exec_drop_code err"
              and k = "Suc (xs_tick st)" and db = "xs_db st"]
          by (simp add: unf)
      next
        case (2 diff)
        then show ?thesis
          using stage_drop_inv [OF inv observe_metrics(1) [OF ex, of ResultTooLarge "bx_timestamp ctx"]] by (simp add: unf)
      next
        case (3 out diff state)
        have gas: "rcpt_gas_used (eo_receipt out) \<le> te_gas_limit (pt_tx_env p)" "bx_base_fee ctx \<le> rcpt_effective_gas_price (eo_receipt out)"
          using 3(9) by (simp_all add: fee_paid_def Let_def word_le_nat_alt)
        have "unat index = length (xs_included st)"
          using Some by (simp add: next_included_index_def unat_try_of_nat)
        then have "staged_ok ctx (length (xs_included st)) \<lparr>si_tx_id = pt_tx_id p, si_outcome = out,
            si_sender_bytes = pt_sender_bytes p, si_sender_nonce = pt_sender_nonce p\<rparr>"
          using 3 gas(2) by (simp add: staged_ok_def traced_def)
        note st2 = stage_included_inv [OF inv ex 3(2) this go(3) gas(1) refl refl, where x = x and now = "bx_timestamp ctx"
            and k = "Suc (xs_tick st)" and db = "xs_db st @ [diff]"]
        show ?thesis
          using 3(1) st2 exec_inv_done [OF st2] by (auto simp: unf)
      qed
    qed
  qed
qed

lemma execute_loop_inv:
  assumes eng: "engine_ok e" and hash: "\<And>bs. length (keccak x bs) = 32" and acc: "accounts_ok s"
    and t: "list_all (\<lambda>p. length (pt_tx_id p) = 32) ps" and inv: "exec_inv ctx s (map pt_tx_id ps) st"
  shows "\<exists>r st'. execute_loop x e h ctx soft_limit start ps st = Some (r, st') \<and> exec_inv ctx s [] st'"
  using t inv
proof (induction ps arbitrary: st)
  case (Cons p ps)
  obtain r st' where r: "execute_one x e h ctx soft_limit start p st = Some (r, st')"
    "exec_inv ctx s (if r = Inr True then map pt_tx_id ps else []) st'"
    using execute_one_inv [OF eng hash acc _ Cons.prems(2) [simplified]] Cons.prems(1) by fastforce
  show ?case
  proof (cases "r = Inr True")
    case True
    then show ?thesis
      using r Cons.IH [of st'] Cons.prems(1) by simp
  next
    case False
    then show ?thesis
      using r by (auto split: sum.splits)
  qed
qed simp

end
