(* ===== verification/Submission.thy ===== *)
theory Submission
  imports Mempool_Rebuild
begin

text \<open>
  What a submission promises its clients, over the invariant of the mempool, and concrete instances of
  the code outside the repository on which the properties are exercised.
\<close>

section \<open>A concrete environment\<close>

definition example_node :: node where
  "example_node =
    \<lparr>decode_suppress_until = oempty, caller_evm_by_principal = oempty, stable = init_stable_state True\<rparr>"

definition example_request :: tx_in where
  "example_request = TxInIcSynthetic [7] [8]
    \<lparr>ic_to = None, ic_value = replicate 32 0, ic_gas_limit = 21000, ic_nonce = 0,
     ic_max_fee_per_gas = 2000000000000, ic_max_priority_fee_per_gas = 1000000000000, ic_data = []\<rparr>"

lemma example_node_inv: "node_inv True example_ext example_node"
  using init_mempool_inv by (simp add: node_inv_def example_node_def)

section \<open>Submission\<close>



end
