(* ===== verification/Production.thy ===== *)
theory Production
  imports Production_Exec Submission
begin

text \<open>
  Block production as a whole (\<open>produce_block\<close> of \<open>evm-core/src/chain.rs\<close>): the invariant of the chain, its
  preservation, and what a produced block means for everything that can be read from the chain.
\<close>

section \<open>The invariant of the chain\<close>

definition ids_ok :: "stable_state \<Rightarrow> bool" where
  "ids_ok s \<longleftrightarrow> (\<forall>t. oget (pending_meta_by_tx_id s) t \<noteq> None \<longrightarrow> length t = 32)"

definition head_ok :: "stable_state \<Rightarrow> bool" where
  "head_ok s \<longleftrightarrow> length (head_block_hash (head_cell s)) = 32
    \<and> (\<forall>n. oget (blocks s) n \<noteq> None \<longrightarrow> n \<le> head_number (head_cell s))"

definition chain_inv :: "bool \<Rightarrow> ext \<Rightarrow> stable_state \<Rightarrow> bool" where
  "chain_inv exact x s \<longleftrightarrow> mempool_inv exact x s \<and> refs_ok s \<and> accounts_ok s \<and> storage_ok s \<and> ids_ok s \<and> head_ok s"

lemma chain_invD:
  assumes "chain_inv exact x s"
  shows "mempool_inv exact x s" "refs_ok s" "accounts_ok s" "storage_ok s" "ids_ok s" "head_ok s"
  using assms by (simp_all add: chain_inv_def)

lemma removed_ids: "removed ts s s' \<Longrightarrow> ids_ok s \<Longrightarrow> ids_ok s'"
  by (auto simp: ids_ok_def removed_def split: if_splits)

lemma same_chain_inv:
  assumes "chain_inv exact x s" and "same_chain s s'" and "mempool_inv exact x s'" and "removed ts s s'"
  shows "chain_inv exact x s'"
  using assms same_chain_held [OF assms(2), of "[]"] removed_ids [OF assms(4)]
  by (simp add: chain_inv_def accounts_ok_def storage_ok_def head_ok_def same_chain_def)

text \<open>Counters that nothing looks at.\<close>

lemma chain_inv_metrics:
  assumes "chain_inv exact x s"
  shows "chain_inv exact x (s\<lparr>ops_metrics_cell := m\<rparr>)" "chain_inv exact x (s\<lparr>metrics_state_cell := m'\<rparr>)"
proof -
  note i = chain_invD(1) [OF assms]
  have "mempool_inv exact x (s\<lparr>ops_metrics_cell := m\<rparr>)" "mempool_inv exact x (s\<lparr>metrics_state_cell := m'\<rparr>)"
    by (rule same_pool_inv [OF i], simp add: same_pool_def same_indexes_def)+
  then show "chain_inv exact x (s\<lparr>ops_metrics_cell := m\<rparr>)" "chain_inv exact x (s\<lparr>metrics_state_cell := m'\<rparr>)"
    using same_chain_inv [OF assms, where ts = "{}"] by (simp_all add: same_chain_def removed_def)
qed

section \<open>Committing the differences of a block\<close>

lemma commit_step:
  assumes "diff_ok d" and "storage_ok s" and "accounts_ok s"
  shows "evm_frame s (commit e d s) \<and> storage_ok (commit e d s) \<and> accounts_ok (commit e d s)"
  using commit_accounts_frame [OF assms(1,2), of e] commit_accounts_accounts_ok [OF assms(1,3), of e]
    commit_accounts_of_commit [of e d s] evm_frame_trans
  unfolding storage_ok_def accounts_ok_def by metis

lemma commit_all:
  assumes "list_all diff_ok ds" and "storage_ok s" and "accounts_ok s"
  shows "evm_frame s (fold (commit e) ds s) \<and> storage_ok (fold (commit e) ds s) \<and> accounts_ok (fold (commit e) ds s)"
  using assms
proof (induction ds arbitrary: s)
  case Nil
  then show ?case
    by (simp add: evm_frameI)
next
  case (Cons d ds)
  then show ?case
    using commit_step [of d s e] Cons.IH [of "commit e d s"] evm_frame_trans by fastforce
qed

lemma evm_frame_reads:
  assumes "evm_frame s s'"
  shows "same_pool s s'" and "held ps s' = held ps s" and "ref_read s' r = ref_read s r" and "head_cell s' = head_cell s"
    and "blocks s' = blocks s" and "chain_state_cell s' = chain_state_cell s" and "blob_store_cell s' = blob_store_cell s"
    and "pending_meta_by_tx_id s' = pending_meta_by_tx_id s" and "seen_tx s' = seen_tx s"
proof -
  obtain a st c ep where s': "s' = s\<lparr>accounts := a, storage := st, codes := c, evm_state_epoch := ep\<rparr>"
    using assms by (auto simp: evm_frame_def)
  show "same_pool s s'" "head_cell s' = head_cell s" "blocks s' = blocks s" "chain_state_cell s' = chain_state_cell s"
    "blob_store_cell s' = blob_store_cell s" "pending_meta_by_tx_id s' = pending_meta_by_tx_id s" "seen_tx s' = seen_tx s"
    by (simp_all add: s' same_pool_def same_indexes_def)
  have rg: "ref_get s' = ref_get s"
    by (rule ref_get_cong) (simp_all add: s')
  show "held ps s' = held ps s" "ref_read s' r = ref_read s r"
    using held_cong [OF _ rg] ref_read_cong [OF _ fun_cong [OF rg]] by (simp_all add: s')
qed

lemma commit_chain_inv:
  assumes "chain_inv exact x s" and "list_all diff_ok ds"
  shows "chain_inv exact x (fold (commit e) ds s)" and "evm_frame s (fold (commit e) ds s)"
proof -
  note c = commit_all [OF assms(2) chain_invD(4,3) [OF assms(1)], of e]
  show "evm_frame s (fold (commit e) ds s)"
    using c by blast
  note f = evm_frame_reads [OF this]
  show "chain_inv exact x (fold (commit e) ds s)"
    using assms(1) c f(2) same_pool_inv [OF _ f(1)] by (simp add: chain_inv_def ids_ok_def head_ok_def f)
qed

section \<open>Reading the chain\<close>

lemma load_block_ref:
  "load_block s n = (case ref_read s (BlockRef n) of
     None \<Rightarrow> None
   | Some bs \<Rightarrow> let block = fst (block_from_bytes bs) in if is_corrupt_block block then None else Some block)"
  by (auto simp: load_block_def ref_read_def read_ptr_def split: option.splits blob_result.splits)

lemma load_receipt_ref:
  "load_receipt s t = (case ref_read s (ReceiptRef t) of
     None \<Rightarrow> None
   | Some bs \<Rightarrow> let receipt = fst (receipt_from_bytes bs) in if is_corrupt_receipt receipt t then None else Some receipt)"
  by (auto simp: load_receipt_def ref_read_def read_ptr_def split: option.splits blob_result.splits)

lemma load_metrics:
  "load_block (s\<lparr>ops_metrics_cell := m\<rparr>) n = load_block s n" "load_receipt (s\<lparr>ops_metrics_cell := m\<rparr>) t = load_receipt s t"
  by (cases "oget (blocks s) n"; cases "oget (receipts s) t"; simp add: load_block_def load_receipt_def)+

text \<open>What can be read about the transaction at position \<open>i\<close> of a block.\<close>

definition receipt_recorded :: "stable_state \<Rightarrow> block_data \<Rightarrow> nat \<Rightarrow> receipt_like \<Rightarrow> bool" where
  "receipt_recorded s b i r \<longleftrightarrow>
    (let t = blk_tx_ids b ! i
     in rcpt_tx_id r = t \<and> rcpt_block_number r = blk_number b \<and> rcpt_tx_index r = word_of_nat i
        \<and> blk_base_fee_per_gas b \<le> rcpt_effective_gas_price r
        \<and> oget (active_locs s) t = Some (included_tx_loc (blk_number b) (word_of_nat i))
        \<and> (\<exists>bs. ref_read s (IndexRef t) = Some bs
             \<and> tx_index_entry_from_bytes bs = (\<lparr>tie_block_number = blk_number b, tie_tx_index = word_of_nat i\<rparr>, []))
        \<and> (receipt_len r \<le> RECEIPT_MAX_SIZE \<longrightarrow> t \<noteq> replicate 32 0 \<longrightarrow> load_receipt s t = Some r))"

lemma included_recorded:
  assumes "included_at s (blk_number b) s' inc" and "staged_ok ctx i inc" and "blk_tx_ids b ! i = si_tx_id inc"
    and "bx_block_number ctx = blk_number b" and "bx_base_fee ctx = blk_base_fee_per_gas b"
  shows "receipt_recorded s' b i (eo_receipt (si_outcome inc))"
proof -
  let ?r = "eo_receipt (si_outcome inc)" and ?t = "si_tx_id inc"
  note i = assms(1) [unfolded included_at_def] and k = assms(2) [unfolded staged_ok_def Let_def]
  have idx: "eo_tx_index (si_outcome inc) = word_of_nat i"
    using k by (metis of_nat_unat ucast_id)
  have "tx_index_entry_from_bytes (index_bytes (blk_number b) inc) = (\<lparr>tie_block_number = blk_number b, tie_tx_index = word_of_nat i\<rparr>, [])"
    unfolding index_bytes_def idx using tx_index_entry_codec.dec_enc by blast
  moreover have "load_receipt s' ?t = Some ?r" if "receipt_len ?r \<le> RECEIPT_MAX_SIZE" "?t \<noteq> replicate 32 0"
    using that i k receipt_codec.dec_enc [of ?r]
    by (simp add: load_receipt_ref receipt_bytes_def is_corrupt_receipt_def Let_def)
  ultimately show ?thesis
    using i k assms(3-5) idx by (simp add: receipt_recorded_def Let_def)
qed

section \<open>Sealing\<close>

text \<open>A produced block on top of the chain \<open>s\<close>.\<close>

definition block_appended :: "bool \<Rightarrow> ext \<Rightarrow> nat \<Rightarrow> u64 \<Rightarrow> stable_state \<Rightarrow> produce_block_outcome \<Rightarrow> stable_state \<Rightarrow> bool" where
  "block_appended exact x max_txs now s out s' \<longleftrightarrow>
    (let b = po_block out; hd = head_cell s; cs = chain_state_cell s
     in blk_number b = next_block_number (head_number hd) \<and> blk_parent_hash b = head_block_hash hd
        \<and> blk_timestamp b = next_block_timestamp (head_timestamp hd) now \<and> blk_base_fee_per_gas b = base_fee cs
        \<and> head_cell s' = \<lparr>head_number = blk_number b, head_block_hash = blk_block_hash b, head_timestamp = blk_timestamp b\<rparr>
        \<and> base_fee (chain_state_cell s') = compute_next_base_fee (base_fee cs) (blk_gas_used b) (block_gas_limit cs)
        \<and> blk_tx_ids b \<noteq> [] \<and> distinct (blk_tx_ids b) \<and> length (blk_tx_ids b) \<le> max_txs
        \<and> load_block s' (blk_number b) = Some b
        \<and> (\<exists>rs. length rs = length (blk_tx_ids b) \<and> (\<forall>i<length rs. receipt_recorded s' b i (rs ! i))
             \<and> (block_gas_limit cs \<noteq> 0 \<longrightarrow> blk_gas_used b \<le> block_gas_limit cs
                  \<and> unat (blk_gas_used b) = (\<Sum>r\<leftarrow>rs. unat (rcpt_gas_used r))))
        \<and> (\<forall>t\<in>set (blk_tx_ids b). \<exists>k. oget (pending_meta_by_tx_id s) t = Some k \<and> oget (pending_meta_by_tx_id s') t = None
             \<and> oget (sender_expected_nonce s') (snk_sender k) = Some (next_expected_nonce (snk_nonce k)))
        \<and> seen_tx s' = seen_tx s \<and> (\<forall>t k. oget (pending_meta_by_tx_id s') t = Some k \<longrightarrow> oget (pending_meta_by_tx_id s) t = Some k)
        \<and> (\<forall>n. n \<noteq> blk_number b \<longrightarrow> load_block s' n = load_block s n)
        \<and> (\<forall>t. t \<notin> set (blk_tx_ids b) \<longrightarrow> load_receipt s' t = load_receipt s t))"

lemma block_read_back:
  assumes "ref_read s (BlockRef n) = Some (fst (block_to_bytes b))" and "block_valid b" and "blk_tx_ids b \<noteq> []"
  shows "load_block s n = Some b"
  using assms block_codec.dec_enc [OF assms(2)] by (simp add: load_block_ref is_corrupt_block_def Let_def)

lemma persisted_chain_inv:
  assumes "persisted exact x b ds incs s s'" and "chain_inv exact x s" and "length (blk_block_hash b) = 32"
    and "head_number (head_cell s) \<le> blk_number b"
  shows "chain_inv exact x s'"
proof -
  note p = assms(1) [unfolded persisted_def]
  have "ids_ok s'"
    using p chain_invD(5) [OF assms(2)] removed_ids by blast
  moreover have "n \<le> blk_number b" if "oget (blocks s') n \<noteq> None" for n
    using that p assms(2,4) order_trans by (auto simp: chain_inv_def head_ok_def)
  ultimately show ?thesis
    using p assms(2,3) by (simp add: chain_inv_def head_ok_def accounts_ok_def storage_ok_def)
qed

lemma persisted_appended:
  assumes p: "persisted exact x b ds incs s1 s'" and fr: "evm_frame s s1" and inv: "exec_inv ctx s [] st" and incs: "incs = xs_included st"
    and valid: "block_valid b" "incs \<noteq> []" "length incs \<le> k" "blk_tx_ids b = map si_tx_id incs" "blk_gas_used b = xs_gas_used st"
    and ctx: "bx_block_number ctx = blk_number b" "bx_base_fee ctx = blk_base_fee_per_gas b" "bx_block_gas_limit ctx = block_gas_limit (chain_state_cell s)"
    and head: "blk_number b = next_block_number (head_number (head_cell s))" "blk_parent_hash b = head_block_hash (head_cell s)"
      "blk_timestamp b = next_block_timestamp (head_timestamp (head_cell s)) now" "blk_base_fee_per_gas b = base_fee (chain_state_cell s)"
  shows "block_appended exact x k now s \<lparr>po_block = b, po_gas_used = g, po_dropped = d\<rparr> s'"
proof -
  note q = p [unfolded persisted_def] and f = evm_frame_reads [OF fr] and e = inv [unfolded exec_inv_def]
  let ?rs = "map (\<lambda>inc. eo_receipt (si_outcome inc)) incs"
  have rec: "receipt_recorded s' b i (?rs ! i)" if "i < length ?rs" for i
    using that q e valid(4) ctx(1,2) by (auto simp: list_all_length incs intro!: included_recorded [where s = s1 and ctx = ctx])
  have gas: "unat (xs_gas_used st) = (\<Sum>r\<leftarrow>?rs. unat (rcpt_gas_used r))" "xs_gas_used st \<le> block_gas_limit (chain_state_cell s)"
    if "block_gas_limit (chain_state_cell s) \<noteq> 0"
    using that e ctx(3) by (simp_all add: included_gas_def incs comp_def)
  have pend: "\<exists>k. oget (pending_meta_by_tx_id s) t = Some k \<and> oget (pending_meta_by_tx_id s') t = None
      \<and> oget (sender_expected_nonce s') (snk_sender k) = Some (next_expected_nonce (snk_nonce k))" if t: "t \<in> set (blk_tx_ids b)" for t
  proof -
    obtain inc where inc: "inc \<in> set incs" "t = si_tx_id inc"
      using t valid(4) by auto
    then obtain k where "oget (pending_meta_by_tx_id s) t = Some k"
      using conjunct1 [OF conjunct2 [OF e]] by (fastforce simp: incs)
    then show ?thesis
      using q inc f(8) by (auto simp: removed_def included_at_def list_all_iff)
  qed
  have old: "oget (pending_meta_by_tx_id s) t = Some k" if "oget (pending_meta_by_tx_id s') t = Some k" for t k
    using that q f(8) by (auto simp: removed_def split: if_splits)
  have keep: "ref_read s' r = ref_read s r" if "r \<noteq> BlockRef (blk_number b)" "r \<notin> staged_refs incs" for r
    using that q f(3) by simp
  have "load_block s' n = load_block s n" if "n \<noteq> blk_number b" for n
    using that keep [of "BlockRef n"] by (simp add: load_block_ref staged_refs_def)
  moreover have "load_receipt s' t = load_receipt s t" if "t \<notin> set (blk_tx_ids b)" for t
  proof -
    have "ReceiptRef t \<notin> staged_refs incs"
      using that valid(4) by (auto simp: staged_refs_def)
    then show ?thesis
      using keep [of "ReceiptRef t"] by (simp add: load_receipt_ref)
  qed
  moreover have "load_block s' (blk_number b) = Some b"
    using q valid by (intro block_read_back) auto
  moreover have "\<exists>rs. length rs = length (blk_tx_ids b) \<and> (\<forall>i<length rs. receipt_recorded s' b i (rs ! i))
       \<and> (block_gas_limit (chain_state_cell s) \<noteq> 0 \<longrightarrow> blk_gas_used b \<le> block_gas_limit (chain_state_cell s)
            \<and> unat (blk_gas_used b) = (\<Sum>r\<leftarrow>rs. unat (rcpt_gas_used r)))"
    using rec gas valid(4,5) by (intro exI [of _ ?rs]) simp
  moreover have "distinct (blk_tx_ids b)"
    using e valid(4) by (simp add: incs)
  ultimately show ?thesis
    using q head valid pend old f(6,9) by (simp add: block_appended_def Let_def)
qed

text \<open>What is asked of the world around the chain.\<close>

definition world_ok :: "ext \<Rightarrow> engine \<Rightarrow> host \<Rightarrow> bool" where
  "world_ok x e h \<longleftrightarrow> engine_ok e \<and> (\<forall>bs. length (keccak x bs) = 32)
    \<and> (\<forall>s ds touched summary n parent now root. prepare_root h s ds touched summary n parent now = Inr root \<longrightarrow> length root = 32)"

text \<open>The call never reaches its instruction limit.\<close>

definition in_budget :: "host \<Rightarrow> stable_state \<Rightarrow> bool" where
  "in_budget h s \<longleftrightarrow> (\<forall>i. \<not> instruction_limit_exhausted (update_instruction_soft_limit (chain_state_cell s)) (ticks h 0) (ticks h i))"

definition dropped_some :: "host \<Rightarrow> stable_state \<Rightarrow> stable_state \<Rightarrow> bool" where
  "dropped_some h s s' \<longleftrightarrow> (\<exists>ts. removed ts s s' \<and> (\<forall>t\<in>ts. oget (pending_meta_by_tx_id s) t \<noteq> None)
    \<and> (in_budget h s \<longrightarrow> ts \<noteq> {}))"

text \<open>The outcomes of a call: a trap, which happens only when the blob store refuses a blob of the block; an
  error, after which nothing but the mempool and the counters changed; a block.\<close>

definition production_ok :: "bool \<Rightarrow> ext \<Rightarrow> host \<Rightarrow> nat \<Rightarrow> stable_state \<Rightarrow> ((chain_error + produce_block_outcome) \<times> stable_state) option \<Rightarrow> bool" where
  "production_ok exact x h max_txs s result \<longleftrightarrow>
    (case result of
       None \<Rightarrow> \<exists>b incs. length incs \<le> max_txs \<and> blk_tx_ids b = map si_tx_id incs
         \<and> store_blobs (grow h) (block_blobs b incs) (blob_store_cell s) = None
     | Some (Inl err, s') \<Rightarrow> chain_inv exact x s' \<and> same_chain s s'
         \<and> (if err = NoExecutableTx then dropped_some h s s' else same_pool s s')
     | Some (Inr out, s') \<Rightarrow> chain_inv exact x s' \<and> block_appended exact x max_txs (now_sec h) s out s')"

lemma next_number_ge: "n \<le> next_block_number n"
  by (simp add: next_block_number_def sat_add_ge)

lemma seal_block_ok:
  assumes w: "world_ok x e h" and inv: "chain_inv exact x s" and ex: "exec_inv ctx s [] st" and ne: "xs_included st \<noteq> []"
    and len: "length (xs_included st) \<le> k" "length (xs_included st) \<le> MAX_TXS_PER_BLOCK"
    and ctx: "ctx = \<lparr>bx_block_number = next_block_number (head_number (head_cell s)),
      bx_timestamp = next_block_timestamp (head_timestamp (head_cell s)) (now_sec h),
      bx_base_fee = base_fee (chain_state_cell s), bx_block_gas_limit = block_gas_limit (chain_state_cell s)\<rparr>"
  shows "production_ok exact x h k s (seal_block x e h ctx (head_block_hash (head_cell s)) st)"
proof -
  let ?ids = "map si_tx_id (xs_included st)" and ?s0 = "xs_stable st"
  note e = ex [unfolded exec_inv_def]
  obtain m where m: "?s0 = s\<lparr>ops_metrics_cell := m\<rparr>"
    using e by blast
  have inv0: "chain_inv exact x ?s0"
    unfolding m by (rule chain_inv_metrics(1) [OF inv])
  have sm: "same_chain s ?s0" "same_pool s ?s0"
    by (simp_all add: m same_chain_def same_pool_def same_indexes_def)
  define list_hash where "list_hash = tx_list_hash x ?ids"
  define touched where "touched = okeys (xs_touched st)"
  define summary where "summary = \<lparr>ts_accounts_count = u32_of_len (length touched), ts_slots_count = xs_slots st,
    ts_delta_digest = keccak256_concat_chunks x (xs_digests st)\<rparr>"
  define root where "root = prepare_root h ?s0 (xs_diffs st) touched summary (bx_block_number ctx) (head_block_hash (head_cell s)) (bx_timestamp ctx)"
  note unf = seal_block_def Let_def list_hash_def [symmetric] touched_def [symmetric] summary_def [symmetric] root_def [symmetric]
  show ?thesis
  proof (cases root)
    case (Inl reason)
    then show ?thesis
      using inv0 sm by (simp add: production_ok_def unf)
  next
    case (Inr rt)
    define s1 where "s1 = fold (commit (revm e)) (xs_diffs st) ?s0"
    define b where "b = \<lparr>blk_number = bx_block_number ctx, blk_parent_hash = head_block_hash (head_cell s),
      blk_block_hash = block_hash x (head_block_hash (head_cell s)) (bx_block_number ctx) (bx_timestamp ctx) list_hash rt,
      blk_timestamp = bx_timestamp ctx, blk_base_fee_per_gas = bx_base_fee ctx,
      blk_block_gas_limit = bx_block_gas_limit ctx, blk_gas_used = xs_gas_used st,
      blk_beneficiary = FEE_RECIPIENT, blk_tx_ids = ?ids, blk_tx_list_hash = list_hash, blk_state_root = rt\<rparr>"
    have inv1: "chain_inv exact x s1" and fr: "evm_frame ?s0 s1"
      unfolding s1_def using commit_chain_inv [OF inv0] e by blast+
    note f = evm_frame_reads [OF fr]
    have hash: "\<And>bs. length (keccak x bs) = 32" and rt: "length rt = 32"
      using w Inr unfolding world_ok_def root_def by blast+
    have pend: "oget (pending_meta_by_tx_id s1) t \<noteq> None" if "t \<in> set (map qd_tx_id (xs_drops st) @ ?ids)" for t
      using that conjunct1 [OF conjunct2 [OF e]] by (simp add: f(8) m)
    have valid: "block_valid b"
      using chain_invD(5,6) [OF inv] conjunct1 [OF conjunct2 [OF e]] len(2) hash rt
      by (auto simp: block_valid_def b_def list_hash_def tx_list_hash_def block_hash_def ids_ok_def head_ok_def)
    have tr: "list_all traced (xs_included st)"
      using e by (auto simp: list_all_length staged_ok_def Let_def)
    have eq: "seal_block x e h ctx (head_block_hash (head_cell s)) st = map_option (\<lambda>s2. (Inr \<lparr>po_block = b, po_gas_used = xs_gas_used st,
        po_dropped = fst (xs_drop_counts st)\<rparr>, s2)) (persist_block x h b st s1)"
      using Inr by (simp add: unf s1_def b_def)
    have d: "distinct (map qd_tx_id (xs_drops st) @ ?ids)"
      using e by simp
    note per = persist_block_outcome [OF chain_invD(1,2) [OF inv1] tr ne d pend, of h b]
    have ex0: "exec_inv ctx ?s0 [] st"
      using e unfolding exec_inv_def m by auto
    show ?thesis
    proof (cases "persist_block x h b st s1")
      case None
      then have "store_blobs (grow h) (block_blobs b (xs_included st)) (blob_store_cell s) = None"
        using per f(7) m by simp
      then show ?thesis
        unfolding production_ok_def eq None by (auto simp: b_def intro!: exI [of _ b] exI [of _ "xs_included st"] len(1))
    next
      case (Some s')
      then have p: "persisted exact x b (qd_tx_id ` set (xs_drops st)) (xs_included st) s1 s'"
        using per by simp
      have "chain_inv exact x s'"
        using persisted_chain_inv [OF p inv1] hash next_number_ge f(4) by (simp add: b_def block_hash_def ctx m)
      moreover have "block_appended exact x k (now_sec h) ?s0 \<lparr>po_block = b, po_gas_used = xs_gas_used st,
          po_dropped = fst (xs_drop_counts st)\<rparr> s'"
        using valid ne len(1) by (intro persisted_appended [OF p fr ex0 refl]) (simp_all add: b_def ctx m)
      moreover have "block_appended exact x k now s out s' = block_appended exact x k now ?s0 out s'" for now out
        by (simp add: block_appended_def m load_metrics)
      ultimately show ?thesis
        using eq Some by (simp add: production_ok_def)
    qed
  qed
qed

section \<open>Producing a block\<close>

lemma give_up_ok:
  assumes inv: "chain_inv exact x s" and ex: "exec_inv ctx s [] st"
    and some: "in_budget h s \<Longrightarrow> xs_drops st \<noteq> []"
  shows "production_ok exact x h k s
    (map_option (\<lambda>s1. (Inl NoExecutableTx, s1)) (apply_drops_only x (xs_drops st) by_code (xs_stable st)))"
proof -
  note e = ex [unfolded exec_inv_def]
  obtain m where m: "xs_stable st = s\<lparr>ops_metrics_cell := m\<rparr>"
    using e by blast
  have inv0: "chain_inv exact x (xs_stable st)" and sc: "same_chain s (xs_stable st)"
    using chain_inv_metrics(1) [OF inv] by (simp_all add: m same_chain_def)
  have "distinct (map qd_tx_id (xs_drops st))"
    "\<And>d. d \<in> set (xs_drops st) \<Longrightarrow> oget (pending_meta_by_tx_id (xs_stable st)) (qd_tx_id d) \<noteq> None"
    using e conjunct1 [OF conjunct2 [OF e]] by (simp_all add: m)
  from apply_drops_outcome [OF chain_invD(1) [OF inv0] this] obtain s1 where
    s1: "apply_drops x (xs_drops st) (xs_stable st) = Some s1" "mempool_inv exact x s1"
      "removed (qd_tx_id ` set (xs_drops st)) (xs_stable st) s1" "same_chain (xs_stable st) s1"
    by blast
  have "dropped_some h s (s1\<lparr>metrics_state_cell := m'\<rparr>)" for m'
    unfolding dropped_some_def using s1(3) some conjunct1 [OF conjunct2 [OF e]]
    by (intro exI [of _ "qd_tx_id ` set (xs_drops st)"]) (auto simp: m removed_def)
  moreover have "chain_inv exact x s1"
    by (rule same_chain_inv [OF inv0 s1(4,2,3)])
  ultimately show ?thesis
    using s1(1) chain_inv_metrics(2) same_chain_trans [OF sc s1(4)]
    by (simp add: production_ok_def apply_drops_only_def same_chain_def)
qed

lemma exec_start_inv:
  assumes "mempool_inv exact x s" and "distinct ts" and "\<And>t. t \<in> set ts \<Longrightarrow> oget (pending_meta_by_tx_id s) t \<noteq> None"
    and "ts = map item_id items @ rest"
  shows "exec_inv ctx s (map pt_tx_id (txs_of items)) (exec_start (drops_of items) k s)"
proof -
  have m: "mset (map qd_tx_id (drops_of items) @ map pt_tx_id (txs_of items)) = mset (map item_id items)"
    using items_split [of items] by simp
  have "distinct (map qd_tx_id (drops_of items) @ map pt_tx_id (txs_of items))"
    using assms(2,4) mset_eq_imp_distinct_iff [OF m] by simp
  moreover have "set (map qd_tx_id (drops_of items) @ map pt_tx_id (txs_of items)) \<subseteq> set ts"
    unfolding mset_eq_setD [OF m] assms(4) by simp
  ultimately show ?thesis
    using assms(3) by (auto simp: exec_inv_def exec_start_def included_gas_def intro!: exI [of _ "ops_metrics_cell s"])
qed

text \<open>Errors on the way are violated invariants.\<close>

lemma prepare_tx_error: "prepare_tx x ctx cs t n strikes = (Inl err, n', strikes') \<Longrightarrow> \<exists>msg. err = InvariantViolation msg"
  by (auto simp: prepare_tx_def check_fees_def Let_def split: option.splits sum.splits prod.splits if_splits)

lemma prepare_loop_error:
  "prepare_loop x h ctx cs start ts k drops strikes n = (Inl err, n') \<Longrightarrow> \<exists>msg. err = InvariantViolation msg"
proof (induction ts arbitrary: k drops strikes n n')
  case (Cons t ts)
  from Cons.prems show ?case
    using Cons.IH prepare_tx_error [of x ctx cs t n strikes]
    by (fastforce simp: Let_def split: if_splits sum.splits prod.splits prepared_item.splits)
qed simp

lemma execute_loop_error:
  "execute_loop x e h ctx soft_limit start ps st = Some (Inl err, st') \<Longrightarrow> \<exists>msg. err = InvariantViolation msg"
proof (induction ps arbitrary: st)
  case (Cons p ps)
  have "\<exists>msg. err = InvariantViolation msg" if "execute_one x e h ctx soft_limit start p st = Some (Inl err, st'')" for st''
    using that by (auto simp: execute_one_def Let_def split: if_splits option.splits prod.splits sum.splits)
  with Cons show ?case
    by (fastforce split: option.splits prod.splits sum.splits if_splits)
qed simp

text \<open>Within the instruction limit the first transaction is always dealt with.\<close>

lemma never_stops:
  assumes "\<not> instruction_limit_exhausted soft start now"
  shows "\<not> should_stop_execution 0 lim soft start now" and "remaining_instruction_budget soft start now \<noteq> Some 0"
proof -
  show "\<not> should_stop_execution 0 lim soft start now"
    using assms by (auto simp: should_stop_execution_def)
  have "unat (sat_sub soft (instruction_consumed start now)) > 0" if "soft \<noteq> 0"
    using assms that by (simp add: unat_sat_sub instruction_limit_exhausted_def word_le_nat_alt word_neq_0_conv)
  then show "remaining_instruction_budget soft start now \<noteq> Some 0"
    by (auto simp: remaining_instruction_budget_def)
qed

lemma prepare_loop_some:
  assumes "prepare_loop x h ctx cs start (t # ts) k drops strikes n = (Inr (items, k'), n')"
    and "\<And>i. \<not> instruction_limit_exhausted (update_instruction_soft_limit cs) start (ticks h i)"
  shows "items \<noteq> []"
  using assms(1) never_stops [OF assms(2)] by (auto simp: Let_def split: if_splits sum.splits prod.splits)

lemma execute_one_mono:
  assumes "execute_one x e h ctx soft_limit start p st = Some (r, st')"
  shows "xs_drops st \<noteq> [] \<or> xs_included st \<noteq> [] \<Longrightarrow> xs_drops st' \<noteq> [] \<or> xs_included st' \<noteq> []"
    and "(\<And>i. \<not> instruction_limit_exhausted soft_limit start (ticks h i)) \<Longrightarrow> xs_gas_used st = 0 \<Longrightarrow> (\<nexists>err. r = Inl err) \<Longrightarrow>
      xs_drops st' \<noteq> [] \<or> xs_included st' \<noteq> []"
proof -
  show "xs_drops st \<noteq> [] \<or> xs_included st \<noteq> [] \<Longrightarrow> xs_drops st' \<noteq> [] \<or> xs_included st' \<noteq> []"
    using assms by (auto simp: execute_one_def Let_def stage_drop_def stage_included_def
        split: if_splits option.splits prod.splits sum.splits)
  assume "\<And>i. \<not> instruction_limit_exhausted soft_limit start (ticks h i)" "xs_gas_used st = 0" "\<nexists>err. r = Inl err"
  then show "xs_drops st' \<noteq> [] \<or> xs_included st' \<noteq> []"
    using assms never_stops [of soft_limit start "ticks h (xs_tick st)"]
    by (auto simp: execute_one_def Let_def stage_drop_def stage_included_def
        split: if_splits option.splits prod.splits sum.splits)
qed

lemma execute_loop_mono:
  assumes "execute_loop x e h ctx soft_limit start ps st = Some (r, st')"
  shows "xs_drops st \<noteq> [] \<or> xs_included st \<noteq> [] \<Longrightarrow> xs_drops st' \<noteq> [] \<or> xs_included st' \<noteq> []"
  using assms
proof (induction ps arbitrary: st)
  case (Cons p ps)
  then show ?case
    using execute_one_mono(1) [of x e h ctx soft_limit start p st]
    by (fastforce split: option.splits prod.splits sum.splits if_splits)
qed simp

lemma execute_loop_some:
  assumes "execute_loop x e h ctx soft start ps st = Some (Inr u, st')" and "ps \<noteq> []" and "xs_gas_used st = 0"
    and "\<And>i. \<not> instruction_limit_exhausted soft start (ticks h i)"
  shows "xs_drops st' \<noteq> [] \<or> xs_included st' \<noteq> []"
proof (cases ps)
  case (Cons p qs)
  obtain r st1 where r: "execute_one x e h ctx soft start p st = Some (r, st1)" "\<nexists>err. r = Inl err"
    using assms(1) Cons by (auto split: option.splits prod.splits sum.splits)
  note some = execute_one_mono(2) [OF r(1) assms(4,3) r(2)]
  then show ?thesis
    using assms(1) r execute_loop_mono [of x e h ctx soft start qs st1 _ st'] Cons
    by (fastforce split: sum.splits if_splits)
qed (use assms in simp)

text \<open>No more is included than there are candidates.\<close>

lemma execute_one_length:
  "execute_one x e h ctx soft_limit start p st = Some (r, st') \<Longrightarrow> length (xs_included st') \<le> Suc (length (xs_included st))"
  by (auto simp: execute_one_def Let_def stage_drop_def stage_included_def split: if_splits option.splits prod.splits sum.splits)

lemma execute_loop_length:
  "execute_loop x e h ctx soft_limit start ps st = Some (r, st') \<Longrightarrow> length (xs_included st') \<le> length (xs_included st) + length ps"
proof (induction ps arbitrary: st)
  case (Cons p ps)
  then show ?case
    using execute_one_length [of x e h ctx soft_limit start p st]
    by (fastforce split: option.splits prod.splits sum.splits if_splits)
qed simp

lemma execute_and_seal_ok:
  assumes w: "world_ok x e h" and inv: "chain_inv exact x s" and ts: "distinct ts" "\<And>t. t \<in> set ts \<Longrightarrow> oget (pending_meta_by_tx_id s) t \<noteq> None"
    and items: "ts = map item_id items @ rest" and len: "length ts \<le> k" "length ts \<le> MAX_TXS_PER_BLOCK"
    and ctx: "ctx = \<lparr>bx_block_number = next_block_number (head_number (head_cell s)),
      bx_timestamp = next_block_timestamp (head_timestamp (head_cell s)) (now_sec h),
      bx_base_fee = base_fee (chain_state_cell s), bx_block_gas_limit = block_gas_limit (chain_state_cell s)\<rparr>"
    and limit: "soft_limit = update_instruction_soft_limit (chain_state_cell s)" "start = ticks h 0" "in_budget h s \<Longrightarrow> items \<noteq> []"
  shows "production_ok exact x h k s (execute_and_seal x e h ctx soft_limit start (head_block_hash (head_cell s)) items tick s)"
proof -
  let ?st0 = "exec_start (drops_of items) tick s"
  have st0: "exec_inv ctx s (map pt_tx_id (txs_of items)) ?st0"
    by (rule exec_start_inv [OF chain_invD(1) [OF inv] ts items])
  have "set (map pt_tx_id (txs_of items)) \<subseteq> set ts"
    using arg_cong [OF items_split [of items], of set_mset] items by auto
  then have l32: "list_all (\<lambda>p. length (pt_tx_id p) = 32) (txs_of items)"
    using ts(2) chain_invD(5) [OF inv] by (auto simp: ids_ok_def list_all_iff)
  have n: "length (txs_of items) \<le> length ts"
    using arg_cong [OF items_split [of items], of size] items by simp
  obtain r st where r: "execute_loop x e h ctx soft_limit start (txs_of items) ?st0 = Some (r, st)" "exec_inv ctx s [] st"
    using execute_loop_inv [OF _ _ chain_invD(3) [OF inv] l32 st0] w unfolding world_ok_def by metis
  have "length (xs_included st) \<le> length ts"
    using execute_loop_length [OF r(1)] n by (simp add: exec_start_def)
  then have seal: "production_ok exact x h k s (seal_block x e h ctx (head_block_hash (head_cell s)) st)" if "xs_included st \<noteq> []"
    using seal_block_ok [OF w inv r(2) that _ _ ctx] len by simp
  have "production_ok exact x h k s (Some (Inl err, xs_stable st))" if "r = Inl err" for err
  proof -
    have "err \<noteq> NoExecutableTx"
      using execute_loop_error r(1) that by fastforce
    obtain m where "xs_stable st = s\<lparr>ops_metrics_cell := m\<rparr>"
      using r(2) by (auto simp: exec_inv_def)
    with \<open>err \<noteq> NoExecutableTx\<close> show ?thesis
      using chain_inv_metrics(1) [OF inv] by (simp add: production_ok_def same_chain_def same_pool_def same_indexes_def)
  qed
  moreover have "xs_drops st \<noteq> []" if "r = Inr u" "txs_of items \<noteq> []" "xs_included st = []" "in_budget h s" for u
    using execute_loop_some [of x e h ctx soft_limit start "txs_of items" ?st0 u st] r(1) that limit(1,2)
    by (simp add: exec_start_def in_budget_def)
  moreover have "xs_drops ?st0 \<noteq> []" if "txs_of items = []" "in_budget h s"
    using limit(3) that by (cases items) (auto simp: exec_start_def drops_of_def txs_of_def split: prepared_item.splits)
  ultimately show ?thesis
    using r(1) seal give_up_ok [OF inv r(2)] give_up_ok [OF inv exec_inv_done [OF st0]] limit(1)
    by (cases r) (simp_all add: execute_and_seal_def Let_def)
qed

lemma stable_of_result:
  "map_option (\<lambda>(r, n'). (r, stable n')) (map_option (\<lambda>(r, s1). (r, n1\<lparr>stable := s1\<rparr>)) result) = result"
  by (cases result) auto

lemma produce_block_ok:
  assumes w: "world_ok x e h" and inv: "chain_inv exact x (stable n)"
  shows "production_ok exact x h max_txs (stable n) (map_option (\<lambda>(r, n'). (r, stable n')) (produce_block x e h max_txs n))"
proof -
  let ?s = "stable n" and ?cs = "chain_state_cell (stable n)"
  define ctx where "ctx = \<lparr>bx_block_number = next_block_number (head_number (head_cell ?s)),
      bx_timestamp = next_block_timestamp (head_timestamp (head_cell ?s)) (now_sec h),
      bx_base_fee = base_fee ?cs, bx_block_gas_limit = block_gas_limit ?cs\<rparr>"
  define ts where "ts = select_ready_candidates x (base_fee ?cs) max_txs ?s"
  note cand = candidates_pending [OF chain_invD(1) [OF inv], where base = "base_fee ?cs" and k = max_txs, folded ts_def]
  have err: "production_ok exact x h max_txs ?s (Some (Inl e', ?s))" if "e' \<noteq> NoExecutableTx" for e'
    using inv that by (simp add: production_ok_def same_pool_def same_indexes_def)
  obtain r n1 where p: "prepare_loop x h ctx ?cs (ticks h 0) ts 1 0 oempty n = (r, n1)"
    by fastforce
  note pl = prepare_loop_outcome [OF p]
  have unf: "produce_block x e h max_txs n =
    (if \<not> valid_block_limit max_txs then Some (Inl InvalidLimit, n)
     else if ts = [] then Some (Inl QueueEmpty, n)
     else case r of
       Inl err \<Rightarrow> Some (Inl err, n1)
     | Inr (items, k) \<Rightarrow> map_option (\<lambda>(r, s1). (r, n1\<lparr>stable := s1\<rparr>))
         (execute_and_seal x e h ctx (update_instruction_soft_limit ?cs) (ticks h 0) (head_block_hash (head_cell ?s)) items k ?s))"
    using p pl by (simp add: produce_block_def Let_def ctx_def [symmetric] ts_def [symmetric] split: sum.splits)
  show ?thesis
  proof (cases r)
    case (Inl e')
    then have "e' \<noteq> NoExecutableTx"
      using prepare_loop_error p by fastforce
    then show ?thesis
      using err Inl pl by (simp add: unf)
  next
    case (Inr a)
    obtain items k where a: "a = (items, k)"
      by fastforce
    then obtain rest where "ts = map item_id items @ rest"
      using pl Inr by blast
    moreover have "items \<noteq> []" if "ts \<noteq> []" "in_budget h ?s"
      using prepare_loop_some [of x h ctx ?cs "ticks h 0"] p Inr a that by (cases ts) (auto simp: in_budget_def simp del: prepare_loop.simps)
    ultimately have "production_ok exact x h max_txs ?s (execute_and_seal x e h ctx (update_instruction_soft_limit ?cs) (ticks h 0)
        (head_block_hash (head_cell ?s)) items k ?s)" if "ts \<noteq> []"
      using execute_and_seal_ok [OF w inv cand(1,3) _ _ _ ctx_def refl refl] cand(2) that by simp
    then show ?thesis
      using err by (simp add: unf Inr a stable_of_result del: option.map_comp)
  qed
qed

end
