(* ===== verification/Ledger.thy ===== *)
theory Ledger
  imports Production
begin

text \<open>
  What the operations of the mempool leave alone, whatever the state of the mempool: a frame property of
  every operation, proved once for any relation that tolerates changes of the indexes and the removal and
  admission of payloads, and used for the ledger (the part of the state executed blocks determine) and
  for the set of transactions seen so far.
\<close>

record ledger =
  lg_evm :: "(account_key, account_val) omap \<times> (bytes, bytes) omap \<times> (bytes, bytes) omap"
  lg_refs :: "(u64, blob_ptr) omap \<times> (tx_id, blob_ptr) omap \<times> (tx_id, blob_ptr) omap \<times> (tx_id, blob_ptr) omap"
  lg_blobs :: blob_store
  lg_head :: head_rec
  lg_prune :: "prune_state \<times> prune_config \<times> (u64, prune_journal) omap"
  lg_credits :: "(bytes, native_credit_record) omap"

definition ledger_of :: "stable_state \<Rightarrow> ledger" where
  "ledger_of s =
    \<lparr>lg_evm = (accounts s, storage s, codes s), lg_refs = (blocks s, receipts s, tx_index s, internal_traces s),
     lg_blobs = blob_store_cell s, lg_head = head_cell s,
     lg_prune = (prune_state_cell s, prune_config_cell s, prune_journal s), lg_credits = native_credit_records s\<rparr>"

text \<open>Everything but the indexes.\<close>

definition core_of :: "stable_state \<Rightarrow> ledger \<times> (tx_id, stored_tx_bytes) omap \<times> (tx_id, u8) omap" where
  "core_of s = (ledger_of s, tx_store s, seen_tx s)"

named_theorems frame_defs \<open>definitions of the operations that only touch indexes\<close>

lemmas [frame_defs] = tx_locs_insert_def tx_locs_remove_def insert_eth_tx_hash_index_for_envelope_def
  remove_eth_tx_hash_index_for_tx_id_def expected_nonce_for_sender_def finalize_pending_for_sender_without_nonce_bump_def
  bump_expected_nonce_def insert_ready_def remove_ready_by_tx_id_def remove_pending_fee_index_by_tx_id_def
  record_drop_metric_def pending_min_set_def

section \<open>Operations\<close>

lemma core_ops [simp]:
  "core_of (tx_locs_insert t loc s) = core_of s" "core_of (tx_locs_remove t s) = core_of s"
  "core_of (insert_eth_tx_hash_index_for_envelope x t env s) = core_of s"
  "core_of (remove_eth_tx_hash_index_for_tx_id x t s) = core_of s"
  "core_of (snd (expected_nonce_for_sender sender s)) = core_of s"
  "core_of (finalize_pending_for_sender_without_nonce_bump sender t s) = core_of s"
  "core_of (bump_expected_nonce sender s) = core_of s"
  "core_of (insert_ready t a b c d s) = core_of s" "core_of (remove_ready_by_tx_id t s) = core_of s"
  "core_of (remove_pending_fee_index_by_tx_id t s) = core_of s" "core_of (record_drop_metric code s) = core_of s"
  "core_of (pending_min_set sender n s) = core_of s"
  by (simp_all add: frame_defs core_of_def ledger_of_def Let_def split: option.splits sum.splits pending_min_after.splits)

lemma core_updates [simp]:
  "core_of (s\<lparr>pending_meta_by_tx_id := a\<rparr>) = core_of s" "core_of (s\<lparr>pending_by_sender_nonce := b\<rparr>) = core_of s"
  "core_of (s\<lparr>pending_min_nonce := c\<rparr>) = core_of s" "core_of (s\<lparr>pending_current_by_sender := d\<rparr>) = core_of s"
  "core_of (s\<lparr>dropped_ring := e\<rparr>) = core_of s" "core_of (s\<lparr>dropped_ring_state_cell := f\<rparr>) = core_of s"
  "core_of (s\<lparr>metrics_state_cell := i\<rparr>) = core_of s" "core_of (s\<lparr>queue_meta_cell := j\<rparr>) = core_of s"
  "core_of (s\<lparr>chain_state_cell := k\<rparr>) = core_of s" "core_of (s\<lparr>principal_pending_count := l\<rparr>) = core_of s"
  "core_of (s\<lparr>pending_fee_index := m\<rparr>) = core_of s" "core_of (s\<lparr>pending_fee_key_by_tx_id := n\<rparr>) = core_of s"
  "core_of (s\<lparr>ops_metrics_cell := p\<rparr>) = core_of s"
  by (simp_all add: core_of_def ledger_of_def)

lemma core_ring [simp]: "core_of (push_dropped_ring t s) = core_of s"
  by (simp add: push_dropped_ring_def Let_def split: option.splits)

lemma core_purge: "core_of (mark_dropped_and_purge_payload x t code s) = core_of (s\<lparr>tx_store := oremove t (tx_store s)\<rparr>)"
proof -
  define u where "u = remove_eth_tx_hash_index_for_tx_id x t (remove_pending_fee_index_by_tx_id t s)"
  have "core_of u = core_of s"
    by (simp add: u_def)
  then have "core_of (u\<lparr>tx_store := oremove t (tx_store u)\<rparr>) = core_of (s\<lparr>tx_store := oremove t (tx_store s)\<rparr>)"
    by (simp add: core_of_def ledger_of_def)
  then show ?thesis
    by (simp add: mark_dropped_and_purge_payload_def Let_def u_def [symmetric])
qed

lemma core_finalize [simp]: "core_of (finalize_pending_for_sender sender t bump s) = core_of s"
  by (simp add: finalize_pending_for_sender_def Let_def)

lemma core_decrement:
  assumes "decrement_principal_pending_count_for_tx x t s = Some s'"
  shows "core_of s' = core_of s"
proof -
  have c: "core_of (case d of CountRemove \<Rightarrow> s\<lparr>principal_pending_count := a\<rparr> | CountSet n \<Rightarrow> s\<lparr>principal_pending_count := f n\<rparr>)
    = core_of s" for d a f
    by (cases d) simp_all
  show ?thesis
  proof (cases "oget (tx_store s) t")
    case (Some env)
    then show ?thesis
      using assms by (cases "try_from x env") (auto simp: decrement_principal_pending_count_for_tx_def Let_def Option.bind_eq_Some_conv c)
  qed (use assms in \<open>simp add: decrement_principal_pending_count_for_tx_def\<close>)
qed


section \<open>The frame\<close>

fun request_caller :: "tx_in \<Rightarrow> bytes" where
  "request_caller (TxInEthSigned raw caller) = caller"
| "request_caller (TxInIcSynthetic caller canister tx) = caller"

text \<open>A relation that tolerates any change of the indexes, the removal of a payload and the admission of an
  acceptable one.\<close>

locale mempool_frame =
  fixes R :: "stable_state \<Rightarrow> stable_state \<Rightarrow> bool" and acceptable :: "stored_tx_bytes \<Rightarrow> bool"
  assumes core: "core_of s' = core_of s \<Longrightarrow> R s s'"
    and trans: "R s s' \<Longrightarrow> R s' s'' \<Longrightarrow> R s s''"
    and drop_payload: "R s (s\<lparr>tx_store := oremove t (tx_store s)\<rparr>)"
    and add_payload: "acceptable env \<Longrightarrow>
      R s (s\<lparr>seen_tx := oinsert (stb_tx_id env) 1 (seen_tx s), tx_store := oinsert (stb_tx_id env) env (tx_store s)\<rparr>)"
begin

lemma same: "R s s"
  by (rule core) simp

lemma purge: "R s (mark_dropped_and_purge_payload x t code s)"
  by (rule trans [OF drop_payload [of s t] core]) (rule core_purge)

lemma metric: "R s s' \<Longrightarrow> R s (record_drop_metric code s')"
  by (rule trans [OF _ core]) simp_all

lemma frame_drop:
  assumes "drop_pending_with x adv code t s = Some s'" and "\<And>s'. adv t s = Some s' \<Longrightarrow> R s s'"
  shows "R s s'"
  using assms by (auto simp: drop_pending_with_def intro!: metric intro: trans [OF _ purge])

text \<open>One removal and one round of promotion, given that the recursive calls behave.\<close>

lemma frame_advance_step:
  assumes loop: "\<And>sender cursor s s'. advance_loop x fuel sender cursor s = Some s' \<Longrightarrow> R s s'"
    and adv: "advance_sender_after_tx x (Suc fuel) t so no bump s = Some s'"
  shows "R s s'"
proof -
  define s1 where "s1 = remove_ready_by_tx_id t s"
  define key where "key = (case oget (pending_meta_by_tx_id s1) t of
      Some key \<Rightarrow> Some key | None \<Rightarrow> (case (so, no) of (Some sender, Some nonce) \<Rightarrow> Some (SenderNonceKey sender nonce) | _ \<Rightarrow> None))"
  have s1: "core_of s1 = core_of s"
    by (simp add: s1_def)
  note unf = adv [unfolded advance_sender_after_tx.simps Let_def, folded s1_def, folded key_def]
  show ?thesis
  proof (cases key)
    case None
    then show ?thesis
      using unf core [OF s1] by simp
  next
    case (Some k)
    define s4 where "s4 = remove_pending_fee_index_by_tx_id t
      (s1\<lparr>pending_meta_by_tx_id := oremove t (pending_meta_by_tx_id s1),
          pending_by_sender_nonce := oremove k (pending_by_sender_nonce s1)\<rparr>)"
    obtain s5 where s5: "decrement_principal_pending_count_for_tx x t s4 = Some s5"
      using unf Some by (auto simp: s4_def split: option.splits)
    define s6 where "s6 = finalize_pending_for_sender (snk_sender k) t bump s5"
    have s6: "R s s6"
      using core_decrement [OF s5] s1 by (intro core) (simp add: s6_def s4_def)
    have "s' = s6 \<or> advance_loop x fuel (snk_sender k) (snk_nonce k) s6 = Some s'"
      using unf Some s5 by (auto simp: s4_def s6_def split: if_splits)
    then show ?thesis
      using s6 loop trans by metis
  qed
qed

lemma frame_loop_step:
  assumes loop: "\<And>sender cursor s s'. advance_loop x fuel sender cursor s = Some s' \<Longrightarrow> R s s'"
    and adv: "\<And>t s s'. advance_sender_after_tx x fuel t None None False s = Some s' \<Longrightarrow> R s s'"
    and step: "advance_loop x (Suc fuel) sender cursor s = Some s'"
  shows "R s s'"
proof (cases "next_pending_for_sender sender cursor s")
  case None
  then show ?thesis
    using step by (auto intro: core)
next
  case (Some nt)
  obtain nonce t where nt: "nt = (nonce, t)"
    by fastforce
  define s1 where "s1 = pending_min_set sender (Some nonce) s"
  have s1: "core_of s1 = core_of s"
    by (simp add: s1_def)
  have dropped: "R s s'"
    if d: "(case drop_pending_with x (\<lambda>t. advance_sender_after_tx x fuel t None None False) code t s1 of
        None \<Rightarrow> None | Some s2 \<Rightarrow> advance_loop x fuel sender nonce s2) = Some s'" for code
  proof -
    obtain s2 where s2: "drop_pending_with x (\<lambda>t. advance_sender_after_tx x fuel t None None False) code t s1 = Some s2"
      "advance_loop x fuel sender nonce s2 = Some s'"
      using d by (auto split: option.splits)
    show ?thesis
      using trans [OF trans [OF core [OF s1] frame_drop [OF s2(1) adv]] loop [OF s2(2)]] .
  qed
  note unf = step [unfolded advance_loop.simps Some option.case nt prod.case Let_def, folded s1_def]
  show ?thesis
  proof (cases "load_fee_fields_and_seq x t s1")
    case (Inl u)
    then show ?thesis
      using unf by (intro dropped [of DROP_CODE_DECODE]) (simp split: unit.splits)
  next
    case (Inr fields)
    show ?thesis
    proof (cases fields)
      case None
      then show ?thesis
        using unf Inr by (intro dropped [of DROP_CODE_INVALID_FEE]) simp
    next
      case (Some f)
      then show ?thesis
        using unf Inr s1 by (cases f) (auto intro: core)
    qed
  qed
qed

lemma frame_advance_both:
  "(\<forall>t so no bump s s'. advance_sender_after_tx x fuel t so no bump s = Some s' \<longrightarrow> R s s')
    \<and> (\<forall>sender cursor s s'. advance_loop x fuel sender cursor s = Some s' \<longrightarrow> R s s')"
proof (induction fuel)
  case (Suc fuel)
  have loop: "\<And>sender cursor s s'. advance_loop x fuel sender cursor s = Some s' \<Longrightarrow> R s s'"
    and adv: "\<And>t s s'. advance_sender_after_tx x fuel t None None False s = Some s' \<Longrightarrow> R s s'"
    using Suc.IH by blast+
  show ?case
    by (intro conjI allI impI) (rule frame_advance_step [OF loop] frame_loop_step [OF loop adv]; assumption)+
qed simp

lemma frame_advance: "advance_sender_after_tx x fuel t so no bump s = Some s' \<Longrightarrow> R s s'"
  using frame_advance_both by blast

text \<open>Submission.\<close>

lemma frame_nonce_rule:
  assumes "nonce_rule x sender nonce price base s = (r, s')"
  shows "R s s'"
proof -
  obtain v s1 where e: "expected_nonce_for_sender sender s = (v, s1)"
    by fastforce
  have "s' = s1"
    using assms e by (auto simp: nonce_rule_def Let_def split: if_splits option.splits sum.splits nonce_decision.splits)
  then show ?thesis
    using core_ops(5) [of sender s] e by (intro core) simp
qed

lemma frame_replace:
  assumes "replace_pending_for_sender x sender old s = Some s'"
  shows "R s s'"
proof -
  obtain s3 where s3: "decrement_principal_pending_count_for_tx x old
      (remove_pending_fee_index_by_tx_id old (remove_ready_by_tx_id old s)) = Some s3"
    using assms by (auto simp: replace_pending_for_sender_def Let_def Option.bind_eq_Some_conv)
  show ?thesis
    using assms s3 core_decrement [OF s3]
    by (cases "oget (pending_meta_by_tx_id s3) old")
      (auto simp: replace_pending_for_sender_def Let_def intro!: metric trans [OF core purge])
qed

lemma frame_apply_nonce:
  assumes "apply_nonce_and_replacement x sender nonce price base s = Some (r, s')"
  shows "R s s'"
proof -
  obtain q s1 where q: "nonce_rule x sender nonce price base s = (q, s1)"
    by fastforce
  have "s' = s1 \<or> (\<exists>old. replace_pending_for_sender x sender old s1 = Some s')"
    using assms q by (auto simp: apply_nonce_and_replacement_def split: sum.splits option.splits nonce_rule_error.splits)
  then show ?thesis
    using frame_nonce_rule [OF q] frame_replace trans by metis
qed

lemma frame_caps:
  assumes "enforce_pending_caps x sender caller price s = Some (r, s')"
  shows "R s s'"
proof -
  obtain d where "(case d of CapAccept \<Rightarrow> Some (Inr (), s) | SenderFull \<Rightarrow> Some (Inl SenderQueueFull, s)
      | PrincipalFull \<Rightarrow> Some (Inl PrincipalQueueFull, s) | GlobalFull \<Rightarrow> Some (Inl QueueFull, s)
      | EvictLowest \<Rightarrow> evict_lowest_fee_pending x price s) = Some (r, s')"
    using assms unfolding enforce_pending_caps_def Let_def Option.bind_eq_Some_conv by blast
  then have "s' = s \<or> evict_lowest_fee_pending x price s = Some (r, s')"
    by (cases d) auto
  moreover have "R s s'" if "evict_lowest_fee_pending x price s = Some (r, s')"
    using that
    by (auto simp: evict_lowest_fee_pending_def Option.bind_eq_Some_conv same split: option.splits prod.splits if_splits
        intro!: metric dest!: frame_advance intro: trans [OF _ purge])
  ultimately show ?thesis
    using same by auto
qed

lemma frame_promote [simp]: "core_of (promote_if_next_nonce sender t nonce a b c d s) = core_of s"
  by (simp add: promote_if_next_nonce_def Let_def split: promote_decision.splits option.splits)

lemma frame_enqueue:
  assumes "enqueue_pending t sender nonce caller price a b c s = Some s'"
  shows "R s s'"
  using assms
  by (auto simp: enqueue_pending_def track_pending_indexes_on_insert_def Let_def Option.bind_eq_Some_conv
      split: prod.splits intro!: core)

lemma frame_admit:
  assumes "admit_pending x hi env sender nonce caller price a b c s = Some (r, s')" and ok: "acceptable env"
  shows "R s s'"
proof -
  obtain q s1 where q: "apply_nonce_and_replacement x sender nonce price (base_fee (chain_state_cell s)) s = Some (q, s1)"
    using assms by (auto simp: admit_pending_def Option.bind_eq_Some_conv)
  note l1 = frame_apply_nonce [OF q]
  show ?thesis
  proof (cases q)
    case (Inl e)
    then show ?thesis
      using assms q l1 by (simp add: admit_pending_def)
  next
    case (Inr replaced)
    obtain d s2 where d: "(if replaced = None then enforce_pending_caps x sender caller price s1 else Some (Inr (), s1)) = Some (d, s2)"
      using assms q Inr by (auto simp: admit_pending_def Option.bind_eq_Some_conv)
    have l2: "R s s2"
      using d l1 frame_caps trans by (metis option.inject prod.inject)
    define s3 where "s3 = s2\<lparr>seen_tx := oinsert (stb_tx_id env) 1 (seen_tx s2), tx_store := oinsert (stb_tx_id env) env (tx_store s2)\<rparr>"
    define s4 where "s4 = (if hi then insert_eth_tx_hash_index_for_envelope x (stb_tx_id env) env s3 else s3)"
    have l4: "R s s4"
      using trans [OF trans [OF l2 add_payload [OF ok]] core] unfolding s3_def [symmetric] by (simp add: s4_def)
    have "s' = s2 \<or> enqueue_pending (stb_tx_id env) sender nonce caller price a b c s4 = Some s'"
      using assms(1) q Inr d
      by (cases d) (auto simp: admit_pending_def Let_def Option.bind_eq_Some_conv s4_def s3_def split: if_splits)
    then show ?thesis
      using l2 l4 frame_enqueue trans by metis
  qed
qed

lemma frame_submit:
  assumes "submit_tx_in x now req n = Some (r, n')"
    and ok: "\<And>t kind raw ce can mf mp dyn. acceptable (new_with_fees t kind raw ce can (request_caller req) mf mp dyn)"
  shows "R (stable n) (stable n')"
proof -
  have eth: "R s s'" if "submit_tx_state x kind raw (request_caller req) s = Some (r, s')" for kind raw s s'
    using that
    by (auto simp: submit_tx_state_def Let_def same split: if_splits sum.splits option.splits prod.splits dest!: frame_admit intro: ok)
  have ic: "R s s'" if "submit_ic_state x (request_caller req) canister raw tx a s = Some (r, s')" for canister raw tx a s s'
    using that by (auto simp: submit_ic_state_def Let_def same split: if_splits option.splits dest!: frame_admit intro: ok)
  show ?thesis
  proof (cases req)
    case (TxInEthSigned raw caller)
    obtain sup n1 where n1: "is_principal_decode_suppressed caller now n = (sup, n1)"
      by fastforce
    then show ?thesis
      using assms(1) eth suppressed_stable [OF n1] TxInEthSigned same by (auto simp: submit_tx_def split: if_splits)
  next
    case (TxInIcSynthetic caller canister tx)
    obtain sup n1 where n1: "is_principal_decode_suppressed caller now n = (sup, n1)"
      by fastforce
    obtain d n2 where n2: "derive_caller_evm_cached x caller n1 = (d, n2)"
      by fastforce
    then have "stable n2 = stable n"
      using suppressed_stable [OF n1] by (auto simp: derive_caller_evm_cached_def Let_def split: option.splits)
    then show ?thesis
      using assms(1) ic suppressed_stable [OF n1] n1 n2 TxInIcSynthetic same
      by (cases d) (auto simp: submit_ic_tx_input_def Let_def split: if_splits)
  qed
qed

end

section \<open>What is left alone\<close>

text \<open>The ledger, and the memory of transactions seen.\<close>

interpretation ledger_frame: mempool_frame "\<lambda>s s'. ledger_of s' = ledger_of s" "\<lambda>_. True"
  by unfold_locales (auto simp: core_of_def ledger_of_def)

definition remembers :: "stable_state \<Rightarrow> stable_state \<Rightarrow> bool" where
  "remembers s s' \<longleftrightarrow> (\<forall>t. oget (seen_tx s) t \<noteq> None \<longrightarrow> oget (seen_tx s') t \<noteq> None)"

interpretation seen_frame: mempool_frame remembers "\<lambda>_. True"
  by unfold_locales (auto simp: core_of_def remembers_def)

lemma submit_keeps:
  assumes "submit_tx_in x now req n = Some (r, n')"
  shows "ledger_of (stable n') = ledger_of (stable n)" and "remembers (stable n) (stable n')"
  using ledger_frame.frame_submit [OF assms] seen_frame.frame_submit [OF assms] by simp_all

end
