(* ===== verification/Prune_Inv.thy ===== *)
theory Prune_Inv
  imports Prune Ledger
begin

text \<open>
  What pruning keeps and achieves: blocks above the boundary and everything they refer to read as before,
  the references of the removed block are gone and their blobs reclaimed, and the mempool stays
  consistent. The counts of pending transactions per principal may only shrink below the true numbers.
\<close>

section \<open>Removing the transactions of a block\<close>

lemma not_pending_fee:
  assumes "mempool_inv exact x s" and "oget (pending_meta_by_tx_id s) t = None"
  shows "remove_pending_fee_index_by_tx_id t s = s"
  using mempool_invD(3) [OF assms(1)] assms(2)
  by (simp add: remove_pending_fee_index_by_tx_id_def fee_ok_def fee_entry_def)

text \<open>A count that is too low stays a lower bound.\<close>

lemma decrement_cases:
  assumes d: "decrement_principal_pending_count_for_tx x t s = Some s'"
  shows "s' = s \<or> (\<exists>key. s' = s\<lparr>principal_pending_count := count_dec key (principal_pending_count s)\<rparr>)"
proof (cases "stored_of x s t")
  case None
  then have "decrement_principal_pending_count_for_tx x t s = Some s"
    by (auto simp: stored_of_def decrement_principal_pending_count_for_tx_def split: option.splits sum.splits)
  then show ?thesis
    using d by simp
next
  case (Some st)
  then obtain v where v: "oget (tx_store s) t = Some v" "try_from x v = Inr st"
    by (auto simp: stored_of_def split: option.splits sum.splits)
  then obtain key where "caller_key_from_principal (st_caller_principal st) = Some key"
    using d by (cases "caller_key_from_principal (st_caller_principal st)")
      (simp_all add: decrement_principal_pending_count_for_tx_def)
  then have "principal_key x s t = Some key"
    using Some by (simp add: principal_key_def)
  then show ?thesis
    using decrement_eq d by auto
qed

lemma decrement_weak:
  assumes inv: "mempool_inv False x s" and d: "decrement_principal_pending_count_for_tx x t s = Some s'"
  shows "mempool_inv False x s'" and "\<exists>c. s' = s\<lparr>principal_pending_count := c\<rparr>"
proof -
  have "s' = s \<or> (\<exists>key. s' = s\<lparr>principal_pending_count := count_dec key (principal_pending_count s)\<rparr>)"
    by (rule decrement_cases [OF d])
  then obtain c where c: "s' = s\<lparr>principal_pending_count := c\<rparr>" "\<And>k. count_at c k \<le> count_at (principal_pending_count s) k"
    "\<And>k. oget (principal_pending_count s) k \<noteq> Some 0 \<Longrightarrow> oget c k \<noteq> Some 0"
  proof (elim disjE exE)
    assume "s' = s"
    then show thesis
      by (intro that [of "principal_pending_count s"]) simp_all
  next
    fix key
    assume "s' = s\<lparr>principal_pending_count := count_dec key (principal_pending_count s)\<rparr>"
    then show thesis
      using count_at_dec [of key "principal_pending_count s"] count_dec_positive
      by (intro that [of "count_dec key (principal_pending_count s)"]) auto
  qed
  show "\<exists>c. s' = s\<lparr>principal_pending_count := c\<rparr>"
    using c(1) by blast
  have f: "active_locs s' = active_locs s" "stored_of x s' = stored_of x s"
    by (simp_all add: c(1) active_locs_def stored_of_def fun_eq_iff)
  then have e: "fee_entry x s' = fee_entry x s" "ready_entry x s' = ready_entry x s" "principal_key x s' = principal_key x s"
    by (simp_all add: c(1) fee_entry_def ready_entry_def principal_key_def fun_eq_iff cong: option.case_cong)
  then have "pending_of x s' = pending_of x s"
    by (simp add: pending_of_def c(1) fun_eq_iff)
  moreover have "count_at (principal_pending_count s') k \<le> card (pending_of x s k)
      \<and> oget (principal_pending_count s') k \<noteq> Some 0" for k
    using mempool_invD(5) [OF inv] c(2) [of k] c(3) [of k] by (auto simp: count_ok_def counted_def c(1) intro: order_trans)
  ultimately have "count_ok False x s'"
    by (simp add: count_ok_def counted_def)
  then show "mempool_inv False x s'"
    using inv f e by (simp add: mempool_inv_def pool_ok_def entry_ok_def fee_ok_def ready_ok_def cap_ok_def c(1))
qed

definition tx_refs :: "tx_id \<Rightarrow> blob_ref list" where
  "tx_refs t = [ReceiptRef t, IndexRef t, TraceRef t]"

definition txs_removed :: "tx_id set \<Rightarrow> stable_state \<Rightarrow> stable_state \<Rightarrow> bool" where
  "txs_removed ts s s' \<longleftrightarrow> pending_meta_by_tx_id s' = pending_meta_by_tx_id s \<and> lg_evm (ledger_of s') = lg_evm (ledger_of s)
    \<and> blocks s' = blocks s \<and> blob_store_cell s' = blob_store_cell s \<and> head_cell s' = head_cell s
    \<and> lg_prune (ledger_of s') = lg_prune (ledger_of s) \<and> chain_state_cell s' = chain_state_cell s
    \<and> (\<forall>r. ref_get s' r = (if \<exists>t\<in>ts. r \<in> set (tx_refs t) then None else ref_get s r))
    \<and> (\<forall>t. oget (seen_tx s') t = (if t \<in> ts then None else oget (seen_tx s) t))
    \<and> (\<forall>t. oget (tx_store s') t = (if t \<in> ts then None else oget (tx_store s) t))"

lemma txs_removed_empty: "txs_removed {} s s"
  by (simp add: txs_removed_def)

lemma txs_removed_trans: "txs_removed ts s s' \<Longrightarrow> txs_removed us s' s'' \<Longrightarrow> txs_removed (ts \<union> us) s s''"
  unfolding txs_removed_def by auto

lemma remove_block_tx_effect:
  assumes inv: "mempool_inv False x s" and t: "oget (pending_meta_by_tx_id s) t = None" and r: "remove_block_tx x t s = Some s'"
  shows "mempool_inv False x s'" and "txs_removed {t} s s'"
proof -
  obtain s2 where s2: "decrement_principal_pending_count_for_tx x t s = Some s2"
    using r not_pending_fee [OF inv t] by (auto simp: remove_block_tx_def Let_def Option.bind_eq_Some_conv)
  note d = decrement_weak [OF inv s2]
  obtain c where c: "s2 = s\<lparr>principal_pending_count := c\<rparr>"
    using d(2) by blast
  define s3 where "s3 = s2\<lparr>receipts := oremove t (receipts s2), tx_index := oremove t (tx_index s2),
    internal_traces := oremove t (internal_traces s2)\<rparr>"
  obtain lo lv where l: "tx_locs_remove t s3 = s3\<lparr>tx_locs := lo, tx_locs_v3 := lv\<rparr>"
    and al: "\<And>u. oget (active_locs (s3\<lparr>tx_locs := lo, tx_locs_v3 := lv\<rparr>)) u = (if u = t then None else oget (active_locs s3) u)"
  proof (cases "tx_locs_v3_active s3")
    case True
    then show thesis
      by (intro that [where lo = "tx_locs s3" and lv = "oremove t (tx_locs_v3 s3)"]) (simp_all add: tx_locs_remove_def active_locs_def)
  next
    case False
    then show thesis
      by (intro that [where lo = "oremove t (tx_locs s3)" and lv = "tx_locs_v3 s3"]) (simp_all add: tx_locs_remove_def active_locs_def)
  qed
  obtain h where h: "remove_eth_tx_hash_index_for_tx_id x t u = u\<lparr>eth_tx_hash_index := h u\<rparr>" for u
  proof -
    have "\<exists>h. remove_eth_tx_hash_index_for_tx_id x t u = u\<lparr>eth_tx_hash_index := h\<rparr>" for u
      by (auto simp: remove_eth_tx_hash_index_for_tx_id_def split: option.splits sum.splits
          intro: exI [of _ "eth_tx_hash_index u"])
    then show thesis
      using that by metis
  qed
  define s4 where "s4 = s3\<lparr>tx_locs := lo, tx_locs_v3 := lv, eth_tx_hash_index := h (s3\<lparr>tx_locs := lo, tx_locs_v3 := lv\<rparr>)\<rparr>"
  have s3: "tx_store s3 = tx_store s" "seen_tx s3 = seen_tx s"
    by (simp_all add: s3_def c)
  have s': "s' = s4\<lparr>tx_store := oremove t (tx_store s), seen_tx := oremove t (seen_tx s)\<rparr>"
    using r [unfolded remove_block_tx_def Let_def not_pending_fee [OF inv t] s2 bind.bind_lunit] s3
    by (simp add: s2 s3_def [symmetric] l h s4_def)
  show "mempool_inv False x s'"
  proof (rule mempool_inv_frame [OF d(1)])
    show "same_indexes s2 s'"
      by (simp add: same_indexes_def s' s4_def s3_def)
    fix u k
    assume "oget (pending_meta_by_tx_id s2) u = Some k"
    then have "u \<noteq> t"
      using t by (auto simp: c)
    moreover have "oget (active_locs s') u = oget (active_locs s2) u" if "u \<noteq> t"
      using al [of u] that by (cases "tx_locs_v3_active s2") (simp_all add: active_locs_def s' s4_def s3_def)
    ultimately show "stored_of x s' u = stored_of x s2 u \<and> oget (active_locs s') u = oget (active_locs s2) u
        \<and> oget (seen_tx s') u = oget (seen_tx s2) u"
      by (simp add: stored_of_def s' s4_def s3_def c)
  qed (simp add: s' s4_def s3_def)
  have "ref_get s' r = (if r \<in> set (tx_refs t) then None else ref_get s r)" for r
    by (cases r) (auto simp: s' s4_def s3_def c tx_refs_def)
  then show "txs_removed {t} s s'"
    by (simp add: txs_removed_def ledger_of_def s' s4_def s3_def c)
qed

lemma remove_block_txs_effect:
  assumes "mempool_inv False x s" and "\<And>t. t \<in> set ts \<Longrightarrow> oget (pending_meta_by_tx_id s) t = None" and "remove_block_txs x ts s = Some s'"
  shows "mempool_inv False x s' \<and> txs_removed (set ts) s s'"
  using assms
proof (induction ts arbitrary: s)
  case (Cons t ts)
  obtain s1 where s1: "remove_block_tx x t s = Some s1" "remove_block_txs x ts s1 = Some s'"
    using Cons.prems(3) by (auto simp: Option.bind_eq_Some_conv)
  have t: "oget (pending_meta_by_tx_id s) t = None"
    using Cons.prems(2) by simp
  note e = remove_block_tx_effect [OF Cons.prems(1) t s1(1)]
  have "oget (pending_meta_by_tx_id s1) u = None" if "u \<in> set ts" for u
    using Cons.prems(2) [of u] that e(2) by (simp add: txs_removed_def)
  from Cons.IH [OF e(1) this s1(2)] show ?case
    using txs_removed_trans [OF e(2)] by simp
qed (simp add: txs_removed_empty)

section \<open>Reclaiming\<close>

lemma reclaim_all_held:
  assumes "held ps s"
  shows "\<exists>b. reclaim_all ps (blob_store_cell s) = Some (Inr (), b) \<and> refs_ok (s\<lparr>blob_store_cell := b\<rparr>)
    \<and> (\<forall>r. ref_read (s\<lparr>blob_store_cell := b\<rparr>) r = ref_read s r) \<and> (\<forall>p. p \<in> set ps \<or> stale p (blob_store_cell s) \<longrightarrow> stale p b)"
  using assms
proof (induction ps arbitrary: s)
  case Nil
  then show ?case
    by (intro exI [of _ "blob_store_cell s"]) simp
next
  case (Cons p ps)
  let ?b = "blob_store_cell s"
  note h = heldD [OF Cons.prems]
  obtain b1 where b1: "reclaim_for_prune p ?b = (BOk (), b1)"
    using reclaim_stale(1) [OF h(1,6)] by (metis list.set_intros(1) prod.collapse)
  have p: "stale p b1"
    using reclaim_stale(2) [OF h(1,6), of p] b1 by simp
  have inv: "blob_inv b1"
    using blob_step_inv [OF h(1) step_reclaim [OF b1]] .
  have keep: "live q b1 \<and> blob_read q b1 = blob_read q ?b" if "live q ?b" "ptr_key q \<noteq> ptr_key p" for q
    by (rule reclaim_frame [OF h(1) b1 that])
  have st: "stale q b1" if "stale q ?b" for q
    by (rule stale_step [OF h(1) that step_reclaim [OF b1]])
  let ?s = "s\<lparr>blob_store_cell := b1\<rparr>"
  have rg: "ref_get ?s = ref_get s"
    by (rule ref_get_cong) simp_all
  have ref: "live q b1 \<and> blob_read q b1 = blob_read q ?b" if "ref_get s r = Some q" for r q
    using keep [OF h(2) [OF that]] h(3) [OF that, of p] by simp
  have other: "ptr_key q \<noteq> ptr_key p" if "q \<in> set ps" for q
  proof
    assume "ptr_key q = ptr_key p"
    then have "ptr_key p \<in> ptr_key ` set ps"
      by (intro image_eqI [OF _ that]) (rule sym)
    then show False
      using h(5) by simp
  qed
  have "held ps ?s"
    unfolding held_def rg
  proof (intro conjI allI impI ballI)
    show "blob_inv (blob_store_cell ?s)" "distinct (map ptr_key ps)"
      using inv h(5) by simp_all
    show "live q (blob_store_cell ?s)" if "q \<in> set ps" for q
      using keep [OF h(6) other [OF that]] that by simp
    fix r q
    assume r: "ref_get s r = Some q"
    show "live q (blob_store_cell ?s)"
      using ref [OF r] by simp
    show "ptr_key q \<notin> ptr_key ` set ps"
    proof
      assume "ptr_key q \<in> ptr_key ` set ps"
      then obtain a where "ptr_key q = ptr_key a" "a \<in> set ps"
        by (rule imageE)
      then show False
        using h(3) [OF r, of a] by simp
    qed
    show "r = r'" if "ref_get s r' = Some q'" "ptr_key q = ptr_key q'" for r' q'
      by (rule h(4) [OF r that])
  qed
  from Cons.IH [OF this] obtain b where b: "reclaim_all ps b1 = Some (Inr (), b)" "refs_ok (s\<lparr>blob_store_cell := b\<rparr>)"
    "\<And>r. ref_read (s\<lparr>blob_store_cell := b\<rparr>) r = ref_read ?s r" "\<And>q. q \<in> set ps \<or> stale q b1 \<Longrightarrow> stale q b"
    by (simp, blast)
  have "ref_read ?s r = ref_read s r" for r
    using ref [of r] by (cases "ref_get s r") (simp_all add: ref_read_def read_ptr_def rg)
  moreover have "stale q b" if "q \<in> set (p # ps) \<or> stale q ?b" for q
    using that p st [of q] b(4) [of q] by auto
  moreover have "reclaim_all (p # ps) ?b = Some (Inr (), b)"
    using b(1) b1 by simp
  ultimately show ?case
    using b(2,3) by (intro exI [of _ b]) simp
qed

lemma mem_map_filter: "q \<in> set (List.map_filter f rs) \<longleftrightarrow> (\<exists>r\<in>set rs. f r = Some q)"
  by (induction rs) (auto simp: List.map_filter_simps split: option.splits)

text \<open>Pointers that are taken out of the tables are still held.\<close>

lemma unrecorded_held:
  assumes "refs_ok s" and "distinct rs" and "blob_store_cell s' = blob_store_cell s"
    and get: "\<And>r. ref_get s' r = (if r \<in> set rs then None else ref_get s r)"
  shows "held (List.map_filter (ref_get s) rs) s'"
proof -
  note h = heldD [OF assms(1)]
  note mem = mem_map_filter [of _ "ref_get s"]
  have "distinct (map ptr_key (List.map_filter (ref_get s) rs))"
    using assms(2)
  proof (induction rs)
    case (Cons r rs)
    then show ?case
      using h(4) mem [of _ rs] by (auto simp: List.map_filter_simps split: option.splits) blast
  qed (simp add: List.map_filter_simps)
  then show ?thesis
    unfolding held_def assms(3) using h(1,2,4) mem get by (auto split: if_splits) blast
qed

definition block_refs :: "u64 \<Rightarrow> tx_id list \<Rightarrow> blob_ref list" where
  "block_refs n ts = BlockRef n # concat (map tx_refs ts)"

lemma collect_refs: "collect_ptrs_for_block s n b = List.map_filter (ref_get s) (block_refs n (blk_tx_ids b))"
proof -
  have "concat (map (tx_ptrs s) ts) = List.map_filter (ref_get s) (concat (map tx_refs ts))" for ts
    by (induction ts) (auto simp: tx_ptrs_def tx_refs_def List.map_filter_simps split: option.split)
  then show ?thesis
    by (simp add: collect_ptrs_for_block_def block_refs_def List.map_filter_simps split: option.split)
qed

lemma block_refs_distinct: "distinct ts \<Longrightarrow> distinct (block_refs n ts)"
  unfolding block_refs_def by (induction ts) (auto simp: tx_refs_def)

section \<open>What a pruned chain looks like\<close>

text \<open>The transactions of the blocks that can be read are known, no longer pending, and in one block only.\<close>

definition history_ok :: "stable_state \<Rightarrow> bool" where
  "history_ok s \<longleftrightarrow> (\<forall>n b. load_block s n = Some b \<longrightarrow> distinct (blk_tx_ids b)
    \<and> (\<forall>t\<in>set (blk_tx_ids b). oget (seen_tx s) t \<noteq> None \<and> oget (pending_meta_by_tx_id s) t = None)
    \<and> (\<forall>m c. load_block s m = Some c \<longrightarrow> m \<noteq> n \<longrightarrow> set (blk_tx_ids b) \<inter> set (blk_tx_ids c) = {}))"

text \<open>Principals are at most 29 bytes long; a longer one in the transaction store makes the canister trap.\<close>

definition principals_ok :: "ext \<Rightarrow> stable_state \<Rightarrow> bool" where
  "principals_ok x s \<longleftrightarrow> (\<forall>t st. stored_of x s t = Some st \<longrightarrow> length (st_caller_principal st) \<le> 29)"

definition prune_inv :: "ext \<Rightarrow> stable_state \<Rightarrow> bool" where
  "prune_inv x s \<longleftrightarrow> chain_inv False x s \<and> history_ok s \<and> principals_ok x s"

definition gone_txs :: "stable_state \<Rightarrow> u64 set \<Rightarrow> tx_id set" where
  "gone_txs s ns = {t. \<exists>n\<in>ns. \<exists>b. load_block s n = Some b \<and> t \<in> set (blk_tx_ids b)}"

definition gone_refs :: "stable_state \<Rightarrow> u64 set \<Rightarrow> blob_ref set" where
  "gone_refs s ns = BlockRef ` ns \<union> (\<Union>t\<in>gone_txs s ns. set (tx_refs t))"

text \<open>The blocks \<open>ns\<close> and everything recorded about their transactions are removed, and nothing else.\<close>

definition pruned :: "u64 set \<Rightarrow> stable_state \<Rightarrow> stable_state \<Rightarrow> bool" where
  "pruned ns s s' \<longleftrightarrow> (\<forall>n\<in>ns. load_block s n \<noteq> None) \<and> pending_meta_by_tx_id s' = pending_meta_by_tx_id s
    \<and> lg_evm (ledger_of s') = lg_evm (ledger_of s) \<and> head_cell s' = head_cell s \<and> chain_state_cell s' = chain_state_cell s
    \<and> (\<forall>r. ref_get s' r = (if r \<in> gone_refs s ns then None else ref_get s r))
    \<and> (\<forall>r. ref_read s' r = (if r \<in> gone_refs s ns then None else ref_read s r))
    \<and> (\<forall>r p. r \<in> gone_refs s ns \<longrightarrow> ref_get s r = Some p \<longrightarrow> stale p (blob_store_cell s'))
    \<and> (\<forall>p. stale p (blob_store_cell s) \<longrightarrow> stale p (blob_store_cell s'))
    \<and> (\<forall>t. oget (seen_tx s') t = (if t \<in> gone_txs s ns then None else oget (seen_tx s) t))
    \<and> (\<forall>t. oget (tx_store s') t = (if t \<in> gone_txs s ns then None else oget (tx_store s) t))"

lemma pruned_empty:
  assumes "\<And>r. ref_read s' r = ref_read s r" and "blob_store_cell s' = blob_store_cell s" and "ref_get s' = ref_get s"
    and "pending_meta_by_tx_id s' = pending_meta_by_tx_id s" "lg_evm (ledger_of s') = lg_evm (ledger_of s)" "head_cell s' = head_cell s"
    "chain_state_cell s' = chain_state_cell s" "seen_tx s' = seen_tx s" "tx_store s' = tx_store s"
  shows "pruned {} s s'"
  using assms by (simp add: pruned_def gone_refs_def gone_txs_def)

lemma gone_block: "BlockRef n \<in> gone_refs s ns \<longleftrightarrow> n \<in> ns"
  by (auto simp: gone_refs_def tx_refs_def)

lemma gone_receipt: "ReceiptRef t \<in> gone_refs s ns \<longleftrightarrow> t \<in> gone_txs s ns"
  by (auto simp: gone_refs_def tx_refs_def)

lemma pruned_loads:
  assumes "pruned ns s s'"
  shows "load_block s' n = (if n \<in> ns then None else load_block s n)"
    and "load_receipt s' t = (if t \<in> gone_txs s ns then None else load_receipt s t)"
  using assms by (simp_all add: pruned_def load_block_ref load_receipt_ref gone_block gone_receipt)

lemma pruned_trans:
  assumes a: "pruned ns s s'" and b: "pruned ms s' s''"
  shows "pruned (ns \<union> ms) s s''"
proof -
  have r: "load_block s n \<noteq> None" if "n \<in> ns" for n
    using a that by (simp add: pruned_def)
  have r': "load_block s' n \<noteq> None" if "n \<in> ms" for n
    using b that by (simp add: pruned_def)
  have "n \<notin> ns" if "n \<in> ms" for n
    using r' [OF that] pruned_loads(1) [OF a, of n] by auto
  then have "gone_txs s (ns \<union> ms) = gone_txs s ns \<union> gone_txs s' ms"
    using pruned_loads(1) [OF a] by (auto simp: gone_txs_def split: if_splits)
  moreover from this have "gone_refs s (ns \<union> ms) = gone_refs s ns \<union> gone_refs s' ms"
    by (auto simp: gone_refs_def)
  moreover have "load_block s n \<noteq> None" if "n \<in> ns \<union> ms" for n
    using that r r' pruned_loads(1) [OF a, of n] by (metis Un_iff)
  moreover have "stale p (blob_store_cell s'')" if "r \<in> gone_refs s ns \<union> gone_refs s' ms" "ref_get s r = Some p" for r p
  proof (cases "r \<in> gone_refs s ns")
    case True
    then show ?thesis
      using a b that(2) by (simp add: pruned_def)
  next
    case False
    then have "ref_get s' r = Some p"
      using a that(2) by (simp add: pruned_def)
    then show ?thesis
      using b that(1) False by (simp add: pruned_def)
  qed
  ultimately show ?thesis
    using a b unfolding pruned_def by simp
qed

text \<open>The transactions of a block that remains are not removed.\<close>

lemma pruned_other:
  assumes p: "pruned ns s s'" and h: "history_ok s" and n: "load_block s' n = Some b" and t: "t \<in> set (blk_tx_ids b)"
  shows "load_block s n = Some b" and "t \<notin> gone_txs s ns"
proof -
  have l: "load_block s n = Some b \<and> n \<notin> ns"
    using n pruned_loads(1) [OF p, of n] by (auto split: if_splits)
  then show "load_block s n = Some b"
    by simp
  show "t \<notin> gone_txs s ns"
  proof
    assume "t \<in> gone_txs s ns"
    then obtain m c where m: "m \<in> ns" "load_block s m = Some c" "t \<in> set (blk_tx_ids c)"
      by (auto simp: gone_txs_def)
    with l have "m \<noteq> n"
      by blast
    then have "set (blk_tx_ids b) \<inter> set (blk_tx_ids c) = {}"
      using h l m(2) unfolding history_ok_def by blast
    with t m(3) show False
      by blast
  qed
qed

lemma pruned_history:
  assumes "pruned ns s s'" and "history_ok s"
  shows "history_ok s'"
proof -
  have l: "load_block s n = Some b \<and> n \<notin> ns" if "load_block s' n = Some b" for n b
    using that pruned_loads(1) [OF assms(1), of n] by (auto split: if_splits)
  have keep: "pending_meta_by_tx_id s' = pending_meta_by_tx_id s"
    "\<And>t. t \<notin> gone_txs s ns \<Longrightarrow> oget (seen_tx s') t = oget (seen_tx s) t"
    using assms(1) by (simp_all add: pruned_def)
  show ?thesis
    unfolding history_ok_def keep(1)
  proof (intro allI impI conjI ballI)
    fix n b
    assume n: "load_block s' n = Some b"
    note h = assms(2) [unfolded history_ok_def, rule_format, OF conjunct1 [OF l [OF n]]]
    show "distinct (blk_tx_ids b)"
      using h by blast
    show "oget (seen_tx s') t \<noteq> None" "oget (pending_meta_by_tx_id s) t = None" if "t \<in> set (blk_tx_ids b)" for t
      using h that keep(2) [OF pruned_other(2) [OF assms n that]] by simp_all
    show "set (blk_tx_ids b) \<inter> set (blk_tx_ids c) = {}" if "load_block s' m = Some c" "m \<noteq> n" for m c
      using h l [OF that(1)] that(2) by blast
  qed
qed

lemma pruned_principals: "pruned ns s s' \<Longrightarrow> principals_ok x s \<Longrightarrow> principals_ok x s'"
  by (fastforce simp: pruned_def principals_ok_def stored_of_def split: if_splits option.splits)

lemma pruned_inv:
  assumes p: "pruned ns s s'" and i: "prune_inv x s" and m: "mempool_inv False x s'" and r: "refs_ok s'"
  shows "prune_inv x s'"
proof -
  note c = i [unfolded prune_inv_def chain_inv_def]
  have "oget (blocks s) n \<noteq> None" if "oget (blocks s') n \<noteq> None" for n
    using that p ref_get.simps(1) [of s n] ref_get.simps(1) [of s' n] unfolding pruned_def by metis
  then have "head_ok s'"
    using c p by (auto simp: head_ok_def pruned_def)
  moreover have "accounts s' = accounts s" "storage s' = storage s"
    using p by (simp_all add: pruned_def ledger_of_def)
  ultimately show ?thesis
    using c p m r pruned_history [OF p] pruned_principals [OF p]
    by (simp add: prune_inv_def chain_inv_def accounts_ok_def storage_ok_def ids_ok_def pruned_def)
qed

section \<open>Pruning one block\<close>

lemma decrement_some:
  assumes "principals_ok x s"
  shows "\<exists>s'. decrement_principal_pending_count_for_tx x t s = Some s'"
proof (cases "stored_of x s t")
  case None
  then show ?thesis
    by (auto simp: stored_of_def decrement_principal_pending_count_for_tx_def split: option.splits sum.splits)
next
  case (Some st)
  then have "length (st_caller_principal st) \<le> 29"
    using assms by (auto simp: principals_ok_def)
  then have "principal_key x s t \<noteq> None"
    using Some by (simp add: principal_key_def caller_key_from_principal_def)
  then show ?thesis
    using decrement_eq by blast
qed

lemma principals_ok_cong: "tx_store s' = tx_store s \<Longrightarrow> principals_ok x s' = principals_ok x s"
  by (simp add: principals_ok_def stored_of_def)

lemma remove_block_txs_some:
  assumes "mempool_inv False x s" and "principals_ok x s" and "\<And>t. t \<in> set ts \<Longrightarrow> oget (pending_meta_by_tx_id s) t = None"
  shows "\<exists>s'. remove_block_txs x ts s = Some s'"
  using assms
proof (induction ts arbitrary: s)
  case (Cons t ts)
  have t: "oget (pending_meta_by_tx_id s) t = None"
    using Cons.prems(3) by simp
  obtain s1 where s1: "remove_block_tx x t s = Some s1"
    using decrement_some [OF Cons.prems(2), of t] not_pending_fee [OF Cons.prems(1) t]
    by (auto simp: remove_block_tx_def Let_def)
  note e = remove_block_tx_effect [OF Cons.prems(1) t s1]
  have "principals_ok x s1"
    using Cons.prems(2) e(2) by (fastforce simp: txs_removed_def principals_ok_def stored_of_def split: if_splits option.splits)
  moreover have "oget (pending_meta_by_tx_id s1) u = None" if "u \<in> set ts" for u
    using Cons.prems(3) [of u] that e(2) by (simp add: txs_removed_def)
  ultimately show ?case
    using Cons.IH [OF e(1)] s1 by simp
qed simp

lemma prune_ops_some:
  assumes "principals_ok x s"
  shows "\<exists>k. prune_ops_needed_for_block x n b s = Some k"
proof -
  have "\<exists>k. prune_ops_needed_for_tx x t s = Some k" for t
  proof (cases "stored_of x s t")
    case None
    then show ?thesis
      by (cases "oget (tx_store s) t") (auto simp: prune_ops_needed_for_tx_def stored_of_def Let_def split: sum.splits)
  next
    case (Some st)
    then have "length (st_caller_principal st) \<le> 29"
      using assms by (auto simp: principals_ok_def)
    then show ?thesis
      using Some by (cases "oget (tx_store s) t")
        (auto simp: prune_ops_needed_for_tx_def stored_of_def Let_def caller_key_from_principal_def split: sum.splits)
  qed
  then have "\<exists>k. prune_ops_needed_for_txs x ts s acc = Some k" for ts acc
    by (induction ts arbitrary: acc) (auto, metis bind.bind_lunit)
  then show ?thesis
    by (simp add: prune_ops_needed_for_block_def)
qed

lemma sat_succ:
  fixes n :: u64
  assumes "n < - 1"
  shows "sat_add n 1 = n + 1" and "sat_sub (n + 1) 1 = n"
proof -
  have u: "unat (sat_add n 1) = Suc (unat n)"
    using assms by (intro sat_add_1_gt) auto
  then show e: "sat_add n 1 = n + 1"
    by (auto simp: sat_add_def split: if_splits)
  show "sat_sub (n + 1) 1 = n"
    using u by (simp add: e word_unat_eq_iff unat_sat_sub)
qed

lemma unat_succ: "n < - 1 \<Longrightarrow> unat (n + 1) = Suc (unat n)" for n :: u64
  using sat_succ(1) [of n] sat_add_1_gt [of n] by auto

definition cursor_after :: "u64 \<Rightarrow> prune_state \<Rightarrow> prune_state" where
  "cursor_after n ps = clear_journal (set_pruned_before n (set_journal_block n ps))"

lemma prune_one_ok:
  assumes inv: "prune_inv x s" and b: "load_block s n = Some b" and n: "n < - 1"
  shows "\<exists>s'. prune_one x n b ps s = Some (Inr (n + 1, cursor_after n ps), s') \<and> prune_inv x s' \<and> pruned {n} s s'
    \<and> prune_state_cell s' = cursor_after n ps \<and> prune_config_cell s' = prune_config_cell s
    \<and> (\<forall>k. oget (prune_journal s') k = (if k = n then None else oget (prune_journal s) k))"
proof -
  note i = inv [unfolded prune_inv_def] and c = chain_invD [OF conjunct1 [OF inv [unfolded prune_inv_def]]]
  let ?ts = "blk_tx_ids b" and ?ptrs = "collect_ptrs_for_block s n b"
  have h: "distinct ?ts" "\<And>t. t \<in> set ?ts \<Longrightarrow> oget (pending_meta_by_tx_id s) t = None"
    using i b by (auto simp: history_ok_def)
  define s1 where "s1 = s\<lparr>prune_journal := oinsert n ?ptrs (prune_journal s), prune_state_cell := set_journal_block n ps,
    blocks := oremove n (blocks s)\<rparr>"
  have sp: "same_pool s s1"
    by (simp add: s1_def same_pool_def same_indexes_def)
  have pr: "principals_ok x s1"
    using i principals_ok_cong [of s1 s] by (simp add: s1_def)
  have pend: "oget (pending_meta_by_tx_id s1) t = None" if "t \<in> set ?ts" for t
    using h(2) [OF that] by (simp add: s1_def)
  note m1 = same_pool_inv [OF c(1) sp]
  obtain s2 where s2: "remove_block_txs x ?ts s1 = Some s2"
    using remove_block_txs_some [OF m1 pr pend] by blast
  have m2: "mempool_inv False x s2" and rem: "txs_removed (set ?ts) s1 s2"
    using remove_block_txs_effect [OF m1 pend s2] by blast+
  have get: "ref_get s2 r = (if r \<in> set (block_refs n ?ts) then None else ref_get s r)" for r
  proof -
    have "ref_get s1 r = (if r = BlockRef n then None else ref_get s r)"
      by (cases r) (simp_all add: s1_def)
    moreover have "ref_get s2 r = (if \<exists>t\<in>set ?ts. r \<in> set (tx_refs t) then None else ref_get s1 r)"
      using rem by (simp add: txs_removed_def)
    ultimately show ?thesis
      by (auto simp: block_refs_def)
  qed
  have bl: "blob_store_cell s2 = blob_store_cell s"
    using rem by (simp add: txs_removed_def s1_def)
  have "held ?ptrs s2"
    unfolding collect_refs by (rule unrecorded_held [OF c(2) block_refs_distinct [OF h(1)] bl get])
  from reclaim_all_held [OF this] obtain bb where bb: "reclaim_all ?ptrs (blob_store_cell s2) = Some (Inr (), bb)"
    "refs_ok (s2\<lparr>blob_store_cell := bb\<rparr>)" "\<And>r. ref_read (s2\<lparr>blob_store_cell := bb\<rparr>) r = ref_read s2 r"
    "\<And>p. p \<in> set ?ptrs \<or> stale p (blob_store_cell s2) \<Longrightarrow> stale p bb"
    by blast
  define s3 where "s3 = s2\<lparr>blob_store_cell := bb, prune_journal := oremove n (prune_journal s2), prune_state_cell := cursor_after n ps\<rparr>"
  have sat: "sat_add n 1 = n + 1" "sat_sub (n + 1) 1 = n"
    using n by (simp_all add: sat_succ)
  have one: "prune_one x n b ps s = Some (Inr (n + 1, cursor_after n ps), s3)"
    using s2 bb(1) by (simp add: prune_one_def Let_def s1_def s3_def cursor_after_def advance_after_pruned_block_def sat)
  have rg: "ref_get s3 = ref_get (s2\<lparr>blob_store_cell := bb\<rparr>)" "ref_get (s2\<lparr>blob_store_cell := bb\<rparr>) = ref_get s2"
    by (rule ref_get_cong; simp add: s3_def)+
  have gone: "gone_txs s {n} = set ?ts" "gone_refs s {n} = set (block_refs n ?ts)"
    using b by (auto simp: gone_txs_def gone_refs_def block_refs_def)
  have rd: "ref_read s3 r = (if r \<in> gone_refs s {n} then None else ref_read s r)" for r
  proof (cases "r \<in> gone_refs s {n}")
    case True
    then show ?thesis
      using get [of r] by (simp add: ref_read_def rg gone)
  next
    case False
    then have "ref_read s2 r = ref_read s r"
      using get [of r] by (intro ref_read_cong [OF bl]) (simp add: gone)
    then show ?thesis
      using False bb(3) [of r] ref_read_cong [of s3 "s2\<lparr>blob_store_cell := bb\<rparr>" r] rg(1) by (simp add: s3_def)
  qed
  have st: "stale p bb" if "r \<in> gone_refs s {n}" "ref_get s r = Some p" for r p
  proof (rule bb(4), rule disjI1)
    show "p \<in> set ?ptrs"
      using that unfolding collect_refs gone mem_map_filter by blast
  qed
  have "pruned {n} s s3"
    using rem rd st bb(4) b get
    by (simp add: pruned_def rg gone) (simp add: s3_def s1_def txs_removed_def ledger_of_def)
  moreover have "prune_inv x s3"
  proof (rule pruned_inv [OF calculation inv])
    show "mempool_inv False x s3"
      by (rule same_pool_inv [OF m2]) (simp add: s3_def same_pool_def same_indexes_def)
    show "refs_ok s3"
      using bb(2) held_cong [of s3 "s2\<lparr>blob_store_cell := bb\<rparr>"] rg(1) by (simp add: s3_def)
  qed
  ultimately show ?thesis
    using one rem by (intro exI [of _ s3]) (auto simp: s3_def s1_def txs_removed_def ledger_of_def)
qed

end
