(* ===== verification/Prune_Blocks.thy ===== *)
theory Prune_Blocks
  imports Prune_Inv
begin

text \<open>
  The loops of pruning: \<open>prune_blocks\<close> returns, removes exactly a range of old blocks, and stops either at the
  retention boundary or at a block that exceeds the budget of the call.
\<close>

section \<open>The invariant between calls\<close>

text \<open>No journal entry is left open.\<close>

definition quiet :: "stable_state \<Rightarrow> bool" where
  "quiet s \<longleftrightarrow> (\<forall>k. oget (prune_journal s) k = None) \<and> journal_block_number (prune_state_cell s) = - 1"

text \<open>Below the cursor there is nothing, and the cursor is not above the head.\<close>

definition cursor_ok :: "stable_state \<Rightarrow> bool" where
  "cursor_ok s \<longleftrightarrow> normalized_next (prune_state_cell s) \<le> head_number (head_cell s)
    \<and> (\<forall>n. n < normalized_next (prune_state_cell s) \<longrightarrow> load_block s n = None)"

definition prune_ready :: "ext \<Rightarrow> stable_state \<Rightarrow> bool" where
  "prune_ready x s \<longleftrightarrow> prune_inv x s \<and> quiet s \<and> cursor_ok s"

text \<open>Changes of the records of pruning itself.\<close>

lemma prune_cells:
  assumes "\<exists>ps c j. s' = s\<lparr>prune_state_cell := ps, prune_config_cell := c, prune_journal := j\<rparr>"
  shows "pruned {} s s'" and "prune_inv x s \<Longrightarrow> prune_inv x s'" and "load_block s' n = load_block s n"
proof -
  obtain ps c j where s': "s' = s\<lparr>prune_state_cell := ps, prune_config_cell := c, prune_journal := j\<rparr>"
    using assms by blast
  have rg: "ref_get s' = ref_get s"
    by (rule ref_get_cong) (simp_all add: s')
  show p: "pruned {} s s'"
    using rg by (intro pruned_empty ref_read_cong) (simp_all add: s' ledger_of_def)
  show "load_block s' n = load_block s n"
    using pruned_loads(1) [OF p] by simp
  assume i: "prune_inv x s"
  note c = chain_invD [OF conjunct1 [OF i [unfolded prune_inv_def]]]
  have "same_pool s s'"
    by (simp add: s' same_pool_def same_indexes_def)
  then show "prune_inv x s'"
    using same_pool_inv [OF c(1)] c(2) held_cong [of s' s, OF _ rg] by (intro pruned_inv [OF p i]) (simp_all add: s')
qed

lemma refresh_oldest_cells: "\<exists>c. refresh_oldest s = s\<lparr>prune_config_cell := c\<rparr>"
  by (auto simp: refresh_oldest_def split: option.splits intro: exI [of _ "prune_config_cell s"])

section \<open>The loop\<close>

definition readable :: "stable_state \<Rightarrow> u64 \<Rightarrow> u64 \<Rightarrow> u64 set" where
  "readable s low high = {n. low \<le> n \<and> n < high \<and> load_block s n \<noteq> None}"

text \<open>The budget is used up at the block \<open>n\<close>.\<close>

definition over_budget :: "ext \<Rightarrow> u64 \<Rightarrow> u64 \<Rightarrow> u64 \<Rightarrow> stable_state \<Rightarrow> bool" where
  "over_budget x max_ops used n s \<longleftrightarrow>
    (\<exists>b k. load_block s n = Some b \<and> prune_ops_needed_for_block x n b s = Some k \<and> max_ops < sat_add used k)"

definition loop_result ::
  "ext \<Rightarrow> u64 \<Rightarrow> u64 \<Rightarrow> u64 \<Rightarrow> u64 \<Rightarrow> bool \<Rightarrow> prune_state \<Rightarrow> stable_state \<Rightarrow> u64 \<Rightarrow> bool \<Rightarrow> prune_state \<Rightarrow> stable_state \<Rightarrow> bool" where
  "loop_result x before max_ops next used did ps s next' did' ps' s' \<longleftrightarrow>
    prune_inv x s' \<and> quiet s' \<and> pruned (readable s next next') s s' \<and> next \<le> next' \<and> (next \<le> before + 1 \<longrightarrow> next' \<le> before + 1) \<and> (before < next \<longrightarrow> next' = next)
    \<and> (next' \<le> before \<longrightarrow> (\<exists>u. over_budget x max_ops u next' s' \<and> (next' = next \<longrightarrow> u = used \<and> s' = s)))
    \<and> did' = (did \<or> next < next') \<and> journal_block_number ps' = - 1
    \<and> pruned_before_block ps' = (if next' = next then pruned_before_block ps else next' - 1)"

lemma readable_step:
  assumes "n < - 1" and "n + 1 \<le> m"
  shows "readable s n m = (if load_block s n = None then {} else {n}) \<union> readable s (n + 1) m"
proof -
  have range: "n \<le> a \<and> a < m \<longleftrightarrow> a = n \<or> n + 1 \<le> a \<and> a < m" for a
    unfolding word_le_nat_alt word_less_nat_alt word_unat_eq_iff unat_succ [OF assms(1)]
    using assms(2) [unfolded word_le_nat_alt unat_succ [OF assms(1)]] by linarith
  show ?thesis
    unfolding readable_def conj_assoc [symmetric] range by (cases "load_block s n") auto
qed

lemma readable_empty: "readable s n n = {}"
  by (auto simp: readable_def)

lemma prune_loop_step:
  assumes "next < - 1" and "load_block s next \<noteq> None \<longrightarrow> pruned {next} s s1" and "load_block s next = None \<longrightarrow> s1 = s"
    and r: "loop_result x before max_ops (next + 1) used1 True ps1 s1 next' did' ps' s'" and before: "next \<le> before" "before < - 1"
    and ps1: "pruned_before_block ps1 = next"
  shows "loop_result x before max_ops next used did ps s next' did' ps' s'"
proof -
  note r' = r [unfolded loop_result_def]
  have suc: "unat (next + 1) = Suc (unat next)" "unat (before + 1) = Suc (unat before)"
    by (rule unat_succ, fact)+
  have lt: "next < next'" "next + 1 \<le> next'"
    using r' suc by (auto simp: word_le_nat_alt word_less_nat_alt)
  have bound: "next' \<le> before + 1"
    using r' suc before(1) by (simp add: word_le_nat_alt)
  have eq: "readable s1 (next + 1) next' = readable s (next + 1) next'"
  proof (cases "load_block s next = None")
    case False
    then have "load_block s1 n = load_block s n" if "next + 1 \<le> n" for n
      using pruned_loads(1) [of "{next}" s s1 n] assms(2) that suc by (auto simp: word_le_nat_alt)
    then show ?thesis
      by (auto simp: readable_def)
  qed (use assms(3) in simp)
  have "pruned (readable s next next') s s'"
    using pruned_trans [of "{next}" s s1 "readable s1 (next + 1) next'" s'] assms(2,3) r' eq
    by (auto simp: readable_step [OF assms(1) lt(2)])
  then show ?thesis
    using r' lt bound ps1 before(1) by (auto simp: loop_result_def)
qed

lemma prune_loop_ok:
  assumes "prune_inv x s" and "quiet s" and "before < - 1" and "journal_block_number ps = - 1"
  shows "\<exists>next' did' ps' s'. prune_loop x before max_ops next used did ps s = Some (Inr (next', did', ps'), s')
    \<and> loop_result x before max_ops next used did ps s next' did' ps' s'"
  using assms
proof (induction "Suc (unat before) - unat next" arbitrary: "next" used did ps s rule: less_induct)
  case less
  have stop: "loop_result x before max_ops next used did ps s next did ps s"
    if "next \<le> before \<longrightarrow> over_budget x max_ops used next s"
    using that less.prems pruned_empty [of s s] by (auto simp: loop_result_def readable_empty)
  show ?case
  proof (cases "before < next")
    case True
    moreover have "loop_result x before max_ops next used did ps s next did ps s"
      by (rule stop) (use True in auto)
    ultimately show ?thesis
      by (simp add: prune_loop.simps [of x before max_ops "next"])
  next
    case False
    then have le: "next \<le> before" and lt: "next < - 1"
      using less.prems(3) by auto
    have m: "Suc (unat before) - unat (next + 1) < Suc (unat before) - unat next"
      using le unat_succ [OF lt] by (simp add: word_le_nat_alt)
    show ?thesis
    proof (cases "load_block s next")
      case None
      define ps1 where "ps1 = set_pruned_before next ps"
      have j: "journal_block_number ps1 = - 1" "pruned_before_block ps1 = next"
        using less.prems(4) by (simp_all add: ps1_def set_pruned_before_def)
      have "prune_loop x before max_ops next used did ps s = prune_loop x before max_ops (next + 1) used True ps1 s"
        using False None by (subst prune_loop.simps)
          (simp add: advance_after_pruned_block_def sat_succ [OF lt] ps1_def)
      then show ?thesis
        using less.hyps [OF m less.prems(1-3) j(1), of used True] prune_loop_step [OF lt _ _ _ le less.prems(3) j(2), where s = s and ?s1.0 = s] None
        by fastforce
    next
      case (Some b)
      obtain k where k: "prune_ops_needed_for_block x next b s = Some k"
        using less.prems(1) prune_ops_some [of x s "next" b] by (auto simp: prune_inv_def)
      show ?thesis
      proof (cases "max_ops < sat_add used k")
        case True
        then have "prune_loop x before max_ops next used did ps s = Some (Inr (next, did, ps), s)"
          using False Some k by (subst prune_loop.simps) simp
        moreover have "over_budget x max_ops used next s"
          using Some k True by (auto simp: over_budget_def)
        ultimately show ?thesis
          using stop by auto
      next
        case fits: False
        obtain s1 where s1: "prune_one x next b ps s = Some (Inr (next + 1, cursor_after next ps), s1)" "prune_inv x s1"
          "pruned {next} s s1" "prune_state_cell s1 = cursor_after next ps" "\<And>i. oget (prune_journal s1) i = None"
          using prune_one_ok [OF less.prems(1) Some lt, of ps] less.prems(2) by (auto simp: quiet_def)
        have j: "journal_block_number (cursor_after next ps) = - 1" "pruned_before_block (cursor_after next ps) = next"
          by (simp_all add: cursor_after_def clear_journal_def set_pruned_before_def set_journal_block_def)
        have q: "quiet s1"
          using s1(4,5) j by (simp add: quiet_def)
        have "prune_loop x before max_ops next used did ps s
            = prune_loop x before max_ops (next + 1) (sat_add used k) True (cursor_after next ps) s1"
          using False Some k fits s1(1) by (subst prune_loop.simps) simp
        then show ?thesis
          using less.hyps [OF m s1(2) q less.prems(3) j(1), of "sat_add used k" True] s1(3) Some
            prune_loop_step [OF lt _ _ _ le less.prems(3) j(2), where s = s and ?s1.0 = s1]
          by fastforce
      qed
    qed
  qed
qed

section \<open>Calls\<close>

lemma recover_quiet:
  assumes "quiet s"
  shows "recover_prune_journal x s = Some (Inr (), s\<lparr>prune_state_cell := (prune_state_cell s)\<lparr>next_prune_block := normalized_next (prune_state_cell s)\<rparr>\<rparr>)"
  using assms by (simp add: recover_prune_journal_def Let_def quiet_def journal_block_def ofirst_None [symmetric])

lemma normalized_again [simp]: "normalized_next (ps\<lparr>next_prune_block := normalized_next ps\<rparr>) = normalized_next ps"
proof -
  have "n \<noteq> - 1 \<Longrightarrow> \<not> sat_add n 1 \<le> n" for n :: u64
    using sat_add_1_gt [of n] by (simp add: word_le_nat_alt)
  then show ?thesis
    by (auto simp: normalized_next_def normalize_next_prune_block_def pruned_before_def split: if_splits)
qed

lemma normalized_cong:
  "pruned_before_block a = pruned_before_block b \<Longrightarrow> next_prune_block a = next_prune_block b \<Longrightarrow> normalized_next a = normalized_next b"
  by (simp add: normalized_next_def pruned_before_def)

text \<open>What a call of \<open>prune_blocks\<close> promises.\<close>

definition blocks_pruned :: "ext \<Rightarrow> u64 \<Rightarrow> u64 \<Rightarrow> stable_state \<Rightarrow> prune_result \<Rightarrow> stable_state \<Rightarrow> bool" where
  "blocks_pruned x retain max_ops s res s' \<longleftrightarrow>
    (let h = head_number (head_cell s)
     in prune_ready x s' \<and> (\<exists>ns. pruned ns s s' \<and> (\<forall>n\<in>ns. block_is_prunable h retain n))
        \<and> (if pr_remaining res = 0 then \<forall>n b. load_block s' n = Some b \<longrightarrow> block_is_retained h retain n
           else pr_did_work res \<or> over_budget x max_ops 0 (normalized_next (prune_state_cell s)) s))"

lemma remaining_zero: "remaining_blocks next' before = 0 \<longleftrightarrow> before < next'"
proof -
  have "1 \<le> sat_add d 1" for d :: u64
    by (rule sat_add_ge)
  then have "sat_add d 1 \<noteq> 0" for d :: u64
    by (metis word_le_0_iff zero_neq_one)
  then show ?thesis
    by (simp add: remaining_blocks_def)
qed

lemma blocks_prunedI:
  assumes i: "prune_inv x s" and "prune_ready x s'" and p: "pruned ns s s'"
    and "\<And>n. n \<in> ns \<Longrightarrow> block_is_prunable (head_number (head_cell s)) retain n"
    and all: "\<And>n. pr_remaining res = 0 \<Longrightarrow> load_block s n \<noteq> None \<Longrightarrow> block_is_prunable (head_number (head_cell s)) retain n \<Longrightarrow> n \<in> ns"
    and "pr_remaining res \<noteq> 0 \<Longrightarrow> pr_did_work res \<or> over_budget x max_ops 0 (normalized_next (prune_state_cell s)) s"
  shows "blocks_pruned x retain max_ops s res s'"
proof -
  let ?h = "head_number (head_cell s)"
  have "block_is_retained ?h retain n" if "load_block s' n = Some b" "pr_remaining res = 0" for n b
  proof -
    have n: "load_block s n \<noteq> None" "n \<notin> ns"
      using that(1) pruned_loads(1) [OF p, of n] by (auto split: if_splits)
    then have "n \<le> ?h"
      using chain_invD(6) [OF conjunct1 [OF i [unfolded prune_inv_def]]]
      by (auto simp: head_ok_def load_block_def split: option.splits)
    moreover have "\<not> block_is_prunable ?h retain n"
      using all n that(2) by blast
    ultimately show ?thesis
      by (auto simp: block_is_retained_def block_is_prunable_def split: if_splits)
  qed
  then show ?thesis
    using assms(2,4,6) p by (auto simp: blocks_pruned_def Let_def)
qed

text \<open>The state after recovery, and the state after the loop.\<close>

lemma recovered_ready:
  assumes "prune_ready x s" and s1: "s1 = s\<lparr>prune_state_cell := (prune_state_cell s)\<lparr>next_prune_block := normalized_next (prune_state_cell s)\<rparr>\<rparr>"
  shows "prune_ready x s1" and "pruned {} s s1" and "load_block s1 n = load_block s n"
    and "over_budget x max_ops 0 n s1 = over_budget x max_ops 0 n s"
proof -
  have e: "\<exists>ps c j. s1 = s\<lparr>prune_state_cell := ps, prune_config_cell := c, prune_journal := j\<rparr>"
    by (rule exI [of _ "prune_state_cell s1"], rule exI [of _ "prune_config_cell s"], rule exI [of _ "prune_journal s"]) (simp add: s1)
  note c = prune_cells [OF e]
  show "pruned {} s s1" "load_block s1 n = load_block s n"
    by (rule c)+
  show "prune_ready x s1"
    using assms(1) c by (simp add: prune_ready_def quiet_def cursor_ok_def s1)
  have f: "tx_store s1 = tx_store s" "pending_fee_key_by_tx_id s1 = pending_fee_key_by_tx_id s" "receipts s1 = receipts s"
    "tx_index s1 = tx_index s" "internal_traces s1 = internal_traces s" "seen_tx s1 = seen_tx s"
    "principal_pending_count s1 = principal_pending_count s" "eth_tx_hash_index s1 = eth_tx_hash_index s"
    "tx_locs_get s1 = tx_locs_get s" "blocks s1 = blocks s"
    by (simp_all add: s1 fun_eq_iff tx_locs_get_def active_locs_def)
  have "prune_ops_needed_for_tx x t s1 = prune_ops_needed_for_tx x t s" for t
    unfolding prune_ops_needed_for_tx_def f by (rule refl)
  then have "prune_ops_needed_for_txs x ts s1 acc = prune_ops_needed_for_txs x ts s acc" for ts acc
    by (induction ts arbitrary: acc) simp_all
  then show "over_budget x max_ops 0 n s1 = over_budget x max_ops 0 n s"
    by (simp add: over_budget_def prune_ops_needed_for_block_def c(3) f)
qed

lemma loop_ready:
  assumes r: "prune_ready x s" and l: "loop_result x before max_ops (normalized_next (prune_state_cell s)) 0 False (prune_state_cell s) s next' did' ps' s2"
    and b: "before < head_number (head_cell s)" and norm: "next_prune_block (prune_state_cell s) = normalized_next (prune_state_cell s)"
  shows "prune_ready x (refresh_oldest (s2\<lparr>prune_state_cell := ps'\<lparr>next_prune_block := next'\<rparr>\<rparr>))"
    and "pruned (readable s (normalized_next (prune_state_cell s)) next') s (refresh_oldest (s2\<lparr>prune_state_cell := ps'\<lparr>next_prune_block := next'\<rparr>\<rparr>))"
proof -
  let ?n = "normalized_next (prune_state_cell s)" and ?ps = "ps'\<lparr>next_prune_block := next'\<rparr>"
  let ?s' = "refresh_oldest (s2\<lparr>prune_state_cell := ?ps\<rparr>)" and ?ns = "readable s ?n next'"
  note i = r [unfolded prune_ready_def] and l' = l [unfolded loop_result_def]
  obtain c where c: "?s' = s2\<lparr>prune_state_cell := ?ps, prune_config_cell := c\<rparr>"
    using refresh_oldest_cells [of "s2\<lparr>prune_state_cell := ?ps\<rparr>"] by auto
  have e: "\<exists>ps c j. ?s' = s2\<lparr>prune_state_cell := ps, prune_config_cell := c, prune_journal := j\<rparr>"
    by (rule exI [of _ "?ps"], rule exI [of _ c], rule exI [of _ "prune_journal s2"]) (simp add: c)
  note cells = prune_cells [OF e]
  show p: "pruned ?ns s ?s'"
    using pruned_trans [OF _ cells(1), of ?ns s] l' by simp
  have "normalized_next ?ps = next'"
  proof (cases "next' = ?n")
    case True
    then have "normalized_next ?ps = normalized_next (prune_state_cell s)"
      using l' norm by (intro normalized_cong) simp_all
    then show ?thesis
      using True by simp
  next
    case False
    then have "next' \<noteq> 0" "pruned_before_block ps' = next' - 1"
      using l' by (auto simp: word_less_nat_alt word_le_nat_alt unat_eq_zero)
    moreover from this have "\<not> next' \<le> next' - 1"
      by (simp add: word_le_nat_alt unat_minus_one unat_gt_0 not_le)
    ultimately show ?thesis
      by (simp add: normalized_next_def normalize_next_prune_block_def pruned_before_def)
  qed
  moreover have "next' \<le> head_number (head_cell s)"
  proof (cases "before < ?n")
    case True
    then show ?thesis
      using l' i by (simp add: cursor_ok_def)
  next
    case False
    have "before < - 1"
      using b word_n1_ge by (rule order_less_le_trans)
    then have "unat (before + 1) = Suc (unat before)"
      by (rule unat_succ)
    then show ?thesis
      using l' False b by (simp add: word_less_nat_alt word_le_nat_alt)
  qed
  moreover have "load_block ?s' n = None" if "n < next'" for n
    using that i pruned_loads(1) [OF p, of n] by (cases "n < ?n") (auto simp: cursor_ok_def readable_def)
  ultimately show "prune_ready x ?s'"
    using l' cells(2) p by (simp add: prune_ready_def quiet_def cursor_ok_def c pruned_def)
qed

lemma prune_blocks_ok:
  assumes r: "prune_ready x s" and retain: "retain \<noteq> 0" and ops: "max_ops \<noteq> 0"
  shows "\<exists>res s'. prune_blocks x retain max_ops s = Some (Inr res, s') \<and> blocks_pruned x retain (ucast max_ops) s res s'"
proof -
  let ?h = "head_number (head_cell s)" and ?n = "normalized_next (prune_state_cell s)"
  define s1 where "s1 = s\<lparr>prune_state_cell := (prune_state_cell s)\<lparr>next_prune_block := ?n\<rparr>\<rparr>"
  note i = r [unfolded prune_ready_def] and r1 = recovered_ready [OF r s1_def]
  have f: "normalized_next (prune_state_cell s1) = ?n" "next_prune_block (prune_state_cell s1) = ?n" "head_cell s1 = head_cell s"
    by (simp_all add: s1_def)
  have rec: "recover_prune_journal x s = Some (Inr (), s1)"
    using recover_quiet i by (simp add: s1_def)
  show ?thesis
  proof (cases "?h \<le> retain")
    case True
    let ?res = "\<lparr>pr_did_work = False, pr_remaining = 0, pr_pruned_before_block = pruned_before (prune_state_cell s1)\<rparr>"
    have "prune_blocks x retain max_ops s = Some (Inr ?res, s1)"
      using retain ops rec True f(3) by (simp add: prune_blocks_def)
    moreover have "blocks_pruned x retain (ucast max_ops) s ?res s1"
      using i True by (intro blocks_prunedI [OF _ r1(1,2)]) (auto simp: block_is_prunable_def)
    ultimately show ?thesis
      by blast
  next
    case False
    define before where "before = ?h - retain"
    have b: "prune_before_block ?h retain = Some before" "unat before = unat ?h - unat retain"
      using False retain by (auto simp: prune_before_block_def sat_sub_def before_def unat_sub word_le_nat_alt)
    have pr: "block_is_prunable ?h retain n \<longleftrightarrow> n \<le> before" for n
      using False retain by (simp add: block_is_prunable_def before_def)
    have bh: "before < ?h"
      using b(2) False retain unat_gt_0 [of retain] by (simp add: word_less_nat_alt word_le_nat_alt)
    then have top: "before < - 1"
      using word_n1_ge by (rule order_less_le_trans)
    obtain next' did' ps' s2 where l: "prune_loop x before (ucast max_ops) ?n 0 False (prune_state_cell s1) s1 = Some (Inr (next', did', ps'), s2)"
      "loop_result x before (ucast max_ops) ?n 0 False (prune_state_cell s1) s1 next' did' ps' s2"
      using prune_loop_ok [OF _ _ top, of x s1 "prune_state_cell s1"] r1(1) unfolding prune_ready_def quiet_def by blast
    define s' where "s' = refresh_oldest (s2\<lparr>prune_state_cell := ps'\<lparr>next_prune_block := next'\<rparr>\<rparr>)"
    note rd = loop_ready [OF r1(1), unfolded f, OF l(2) bh refl, folded s'_def]
    let ?res = "\<lparr>pr_did_work = did', pr_remaining = remaining_blocks next' before, pr_pruned_before_block = pruned_before ps'\<rparr>"
    have "prune_blocks x retain max_ops s = Some (Inr ?res, s')"
      using retain ops rec False b(1) l(1) f by (simp add: prune_blocks_def s'_def)
    moreover have "blocks_pruned x retain (ucast max_ops) s ?res s'"
    proof (rule blocks_prunedI [OF _ rd(1) pruned_trans [OF r1(2) rd(2)]])
      note l' = l(2) [unfolded loop_result_def]
      have suc: "n < before + 1 \<longleftrightarrow> n \<le> before" for n
        using unat_succ [OF top] by (simp add: word_less_nat_alt word_le_nat_alt less_Suc_eq_le)
      show "prune_inv x s"
        using i by simp
      show "block_is_prunable ?h retain n" if "n \<in> {} \<union> readable s1 ?n next'" for n
      proof -
        have "n < next'" "?n \<le> n"
          using that by (simp_all add: readable_def)
        moreover from this have "\<not> before < ?n"
          using l' by auto
        then have "next' \<le> before + 1"
          using l' suc [of ?n] by auto
        ultimately have "n \<le> before"
          using suc [of n] by auto
        then show ?thesis
          by (simp add: pr)
      qed
      show "n \<in> {} \<union> readable s1 ?n next'" if "pr_remaining ?res = 0" "load_block s n \<noteq> None" "block_is_prunable ?h retain n" for n
      proof -
        have "\<not> n < ?n"
          using that(2) i by (auto simp: cursor_ok_def)
        moreover have "n < next'"
          using that(1,3) by (simp add: remaining_zero pr)
        ultimately show ?thesis
          using that(2) r1(3) by (simp add: readable_def not_less)
      qed
      show "pr_did_work ?res \<or> over_budget x (ucast max_ops) 0 ?n s" if "pr_remaining ?res \<noteq> 0"
      proof -
        have "next' \<le> before"
          using that by (simp add: remaining_zero not_less)
        then obtain u where u: "over_budget x (ucast max_ops) u next' s2" "next' = ?n \<longrightarrow> u = 0 \<and> s2 = s1"
          using l' by blast
        moreover have "?n \<le> next'" "did' \<longleftrightarrow> ?n < next'"
          using l' by blast+
        ultimately show ?thesis
          using r1(4) by (cases "next' = ?n") auto
      qed
    qed
    ultimately show ?thesis
      by blast
  qed
qed

end
