(* ===== verification/Chain_Archive.thy ===== *)
theory Chain_Archive
  imports Prune_Blocks
begin

text \<open>
  What block production does to the archive: payloads of transactions are only ever removed, the records of
  pruning stay as they are, and the addresses cached for principals are not touched.
\<close>

definition archived :: "stable_state \<Rightarrow> stable_state \<Rightarrow> bool" where
  "archived s s' \<longleftrightarrow> (\<forall>t env. oget (tx_store s') t = Some env \<longrightarrow> oget (tx_store s) t = Some env)
    \<and> prune_state_cell s' = prune_state_cell s \<and> prune_journal s' = prune_journal s"

lemma archived_trans: "archived s s' \<Longrightarrow> archived s' s'' \<Longrightarrow> archived s s''"
  by (simp add: archived_def)

lemma archivedI:
  "tx_store s' = tx_store s \<Longrightarrow> prune_state_cell s' = prune_state_cell s \<Longrightarrow> prune_journal s' = prune_journal s \<Longrightarrow> archived s s'"
  by (simp add: archived_def)

text \<open>No payload is added by any of these operations, so nothing is acceptable.\<close>

interpretation archive_frame: mempool_frame archived "\<lambda>_. False"
  by unfold_locales (auto simp: core_of_def ledger_of_def archived_def split: if_splits)

section \<open>Execution\<close>

lemma execute_tx_on_stable:
  "execute_tx_on x e g t i env ctx path False limit db s = Some (r, db', s') \<Longrightarrow> s' = s"
  by (auto simp: execute_tx_on_def Let_def split: if_splits option.splits sum.splits prod.splits)

lemma observe_archived: "archived s (observe_exec_error err now s)" "archived s (observe_exec_outcome now out s)"
  by (simp_all add: observe_exec_error_def observe_exec_outcome_def record_exec_halt_unknown_def Let_def archived_def)

lemma execute_one_archived:
  assumes "execute_one x e h ctx soft_limit start p st = Some (r, st')"
  shows "archived (xs_stable st) (xs_stable st')"
  using assms archive_frame.same observe_archived
  by (auto simp: execute_one_def Let_def stage_drop_def stage_included_def dest!: execute_tx_on_stable
      split: if_splits option.splits prod.splits sum.splits)

lemma execute_loop_archived:
  "execute_loop x e h ctx soft_limit start ps st = Some (r, st') \<Longrightarrow> archived (xs_stable st) (xs_stable st')"
proof (induction ps arbitrary: st)
  case (Cons p ps)
  then obtain r1 st1 where st1: "execute_one x e h ctx soft_limit start p st = Some (r1, st1)"
    by (auto split: option.splits)
  then have "st' = st1 \<or> execute_loop x e h ctx soft_limit start ps st1 = Some (r, st')"
    using Cons.prems by (auto split: sum.splits if_splits)
  then show ?case
    using execute_one_archived [OF st1] Cons.IH [of st1] archived_trans by blast
qed (simp add: archive_frame.same)

lemma evm_frame_archived: "evm_frame s s' \<Longrightarrow> archived s s'"
  by (auto simp: evm_frame_def archived_def)

lemma commit_account_archived: "archived s (commit_account e (a, acc) s)"
proof -
  have "archived s (selfdestruct_address a s)"
    by (cases "oget (accounts s) (make_account_key a)") (simp_all add: selfdestruct_address_def Let_def archived_def)
  moreover have "archived s (commit_code i (fold (commit_slot a) slots (s\<lparr>accounts := k\<rparr>)))" for i slots k
    by (rule archived_trans [OF archived_trans [OF archivedI evm_frame_archived [OF commit_slots_frame(1)]]
          evm_frame_archived [OF commit_code_frame(1)]]) simp_all
  ultimately show ?thesis
    by (simp add: commit_account_def Let_def split: account_commit_decision.split)
qed

lemma commits_archived: "archived s (fold (commit e) ds s)"
proof -
  have accs: "archived s (fold (commit_account e) d s)" for d s
  proof (induction d arbitrary: s)
    case (Cons p d)
    then show ?case
      using commit_account_archived [of s e "fst p" "snd p"] archived_trans by (metis fold_simps(2) prod.collapse)
  qed (simp add: archive_frame.same)
  have "archived s (commit e d s)" for d s
    using accs evm_frame_archived [OF commit_accounts_of_commit(4)] archived_trans by blast
  then show ?thesis
    by (induction ds arbitrary: s) (auto simp: archive_frame.same intro: archived_trans)
qed

section \<open>Persisting\<close>

lemma apply_drops_archived: "apply_drops x ds s = Some s' \<Longrightarrow> archived s s'"
proof (induction ds arbitrary: s)
  case (Cons d ds)
  then obtain s1 where "apply_drop x d s = Some s1" "apply_drops x ds s1 = Some s'"
    by (auto split: option.splits)
  moreover from this have "archived s s1"
    by (auto simp: apply_drop_def split: option.splits intro: archive_frame.trans [OF archive_frame.frame_advance archive_frame.purge])
  ultimately show ?case
    using Cons.IH archived_trans by blast
qed (simp add: archive_frame.same)

lemma store_blob_archived: "store_blob g bs s = Some (p, s') \<Longrightarrow> archived s s'"
  by (auto simp: store_blob_def archived_def split: prod.splits blob_result.splits)

lemma persist_one_archived:
  assumes "persist_one g number inc s = Some (sp, s')"
  shows "archived s s'"
proof -
  obtain p1 s1 p2 s2 p3 where s1: "store_tx_index_entry g \<lparr>tie_block_number = number, tie_tx_index = eo_tx_index (si_outcome inc)\<rparr> s = Some (p1, s1)"
    and s2: "store_receipt g (eo_receipt (si_outcome inc)) s1 = Some (p2, s2)"
    and s3: "store_internal_traces g (eo_internal_traces (si_outcome inc)) s2 = Some (p3, s')"
    using assms by (auto simp: persist_one_def Let_def Option.bind_eq_Some_conv)
  have "archived s s1" "archived s1 s2"
    using s1 s2 store_blob_archived by (auto simp: store_tx_index_entry_def store_receipt_def)
  moreover have "archived s2 s'"
    using s3 store_blob_archived archive_frame.same by (auto simp: store_internal_traces_def split: if_splits option.splits)
  ultimately show ?thesis
    using archived_trans by blast
qed

lemma persist_all_archived: "persist_all g number incs s = Some (sps, s') \<Longrightarrow> archived s s'"
proof (induction incs arbitrary: s sps)
  case (Cons inc incs)
  then obtain sp s1 sps1 where "persist_one g number inc s = Some (sp, s1)" "persist_all g number incs s1 = Some (sps1, s')"
    by (auto simp: Option.bind_eq_Some_conv)
  then show ?case
    using Cons.IH persist_one_archived archived_trans by blast
qed (simp add: archive_frame.same)

lemma index_included_archived:
  assumes "index_included x number sp s = Some s'"
  shows "archived s s'"
proof -
  obtain s3 where "advance_sender_after_tx x advance_fuel (sp_tx_id sp) (Some (sp_sender_bytes sp)) (Some (sp_sender_nonce sp)) True s3 = Some s'"
    "archived s s3"
    using assms by (auto simp: index_included_def Let_def tx_locs_insert_def archived_def split: option.splits if_splits)
  then show ?thesis
    using archive_frame.frame_advance archived_trans by blast
qed

lemma index_all_archived: "index_all x number sps s = Some s' \<Longrightarrow> archived s s'"
  by (induction sps arbitrary: s) (auto simp: archive_frame.same split: option.splits dest!: index_included_archived intro: archived_trans)

lemma core_rebuild: "core_of (rebuild_pending_fee_index_for_base_fee x base s) = core_of s"
proof -
  have entry: "core_of (rebuild_fee_entry x base t s) = core_of s" for t s
    by (simp add: rebuild_fee_entry_def Let_def split: sum.split option.split)
  have "core_of (fold (rebuild_fee_entry x base) ts s) = core_of s" for ts s
    by (induction ts arbitrary: s) (simp_all add: entry)
  then show ?thesis
    by (simp add: rebuild_pending_fee_index_for_base_fee_def Let_def)
qed

lemma persist_block_archived:
  assumes "persist_block x h block st s = Some s'"
  shows "archived s s'"
proof -
  obtain s1 staged s2 ptr s3 s4 where s1: "apply_drops x (xs_drops st) s = Some s1"
    and s2: "persist_all (grow h) (blk_number block) (xs_included st) s1 = Some (staged, s2)"
    and s3: "store_block (grow h) block s2 = Some (ptr, s3)" and s4: "index_all x (blk_number block) staged s3 = Some s4"
    and s': "s' = advance_head x block ptr (xs_drop_counts st) s4"
    using assms by (auto simp: persist_block_def Option.bind_eq_Some_conv split: if_splits)
  have "archived s2 s3"
    using s3 store_blob_archived
    by (auto simp: store_block_def Let_def archived_def split: option.splits if_splits)
  moreover have "archived s4 s'"
    unfolding s' advance_head_def Let_def
    by (rule archived_trans [OF archivedI archive_frame.core]) (simp_all add: core_rebuild)
  ultimately show ?thesis
    using apply_drops_archived [OF s1] persist_all_archived [OF s2] index_all_archived [OF s4] archived_trans by blast
qed

section \<open>Producing\<close>

lemma execute_and_seal_archived:
  assumes "execute_and_seal x e h ctx soft_limit start parent items k s = Some (r, s')"
  shows "archived s s'"
proof -
  let ?st0 = "exec_start (drops_of items) k s"
  have give_up: "archived s s'" if d: "apply_drops_only x (xs_drops st) (snd (xs_drop_counts st)) (xs_stable st) = Some s'"
    and a: "archived s (xs_stable st)" for st
  proof -
    obtain s1 where "apply_drops x (xs_drops st) (xs_stable st) = Some s1" "archived s1 s'"
      using d by (auto simp: apply_drops_only_def archived_def split: option.splits)
    then show ?thesis
      using a apply_drops_archived archived_trans by blast
  qed
  have seal: "archived s s'" if b: "seal_block x e h ctx parent st = Some (r, s')" and a: "archived s (xs_stable st)" for st
  proof (cases "\<exists>reason. s' = xs_stable st \<and> r = Inl (InvariantViolation reason)")
    case False
    then obtain block where "persist_block x h block st (fold (commit (revm e)) (xs_diffs st) (xs_stable st)) = Some s'"
      using b by (auto simp: seal_block_def Let_def split: sum.splits)
    then show ?thesis
      by (rule archived_trans [OF archived_trans [OF a commits_archived] persist_block_archived])
  qed (use a in auto)
  show ?thesis
  proof (cases "txs_of items = []")
    case True
    then show ?thesis
      using assms give_up [of ?st0] by (auto simp: execute_and_seal_def Let_def exec_start_def archive_frame.same)
  next
    case False
    then obtain r1 st where st: "execute_loop x e h ctx soft_limit start (txs_of items) ?st0 = Some (r1, st)"
      using assms by (auto simp: execute_and_seal_def Let_def split: option.splits)
    then have "archived s (xs_stable st)"
      using execute_loop_archived [OF st] by (simp add: exec_start_def)
    then show ?thesis
      using assms False st give_up seal by (auto simp: execute_and_seal_def Let_def split: sum.splits if_splits)
  qed
qed

lemma prepare_tx_cache:
  assumes "prepare_tx x ctx cs t n strikes = (r, n', strikes')"
  shows "caller_evm_by_principal n' = caller_evm_by_principal n"
proof -
  have sup: "caller_evm_by_principal n1 = caller_evm_by_principal n"
    if "is_principal_decode_suppressed who now n = (b, n1)" for who now b n1
    using suppressed_node(2) [of who now n] that by simp
  have "caller_evm_by_principal n2 = caller_evm_by_principal n1"
    if "note_decode_drop_for_principal who now n1 per = (n2, per2)" for who now n1 per n2 per2
    using that by (auto simp: note_decode_drop_for_principal_def Let_def split: if_splits)
  with sup show ?thesis
    using assms by (fastforce simp: prepare_tx_def Let_def split: option.splits sum.splits prod.splits if_splits)
qed

lemma prepare_loop_cache:
  "prepare_loop x h ctx cs start ts k drops strikes n = (r, n') \<Longrightarrow> caller_evm_by_principal n' = caller_evm_by_principal n"
proof (induction ts arbitrary: k drops strikes n r n')
  case (Cons t ts)
  obtain r1 n1 strikes1 where p: "prepare_tx x ctx cs t n strikes = (r1, n1, strikes1)"
    by (metis surj_pair)
  have "n' = n \<or> n' = n1 \<or> (\<exists>k drops r. prepare_loop x h ctx cs start ts k drops strikes1 n1 = (r, n'))"
    using Cons.prems p by (auto simp: Let_def split: if_splits sum.splits prod.splits)
  then show ?case
    using prepare_tx_cache [OF p] Cons.IH by metis
qed simp

lemma produce_block_archived:
  assumes "produce_block x e h max_txs n = Some (r, n')"
  shows "archived (stable n) (stable n') \<and> caller_evm_by_principal n' = caller_evm_by_principal n"
proof (cases "n' = n")
  case False
  then obtain ctx cs start ts k0 q n1 where p: "prepare_loop x h ctx cs start ts k0 0 oempty n = (q, n1)"
    and cont: "n' = n1 \<or> (\<exists>soft st parent items k s1. execute_and_seal x e h ctx soft st parent items k (stable n1) = Some (r, s1)
      \<and> n' = n1\<lparr>stable := s1\<rparr>)"
    using assms by (fastforce simp: produce_block_def Let_def split: if_splits prod.splits sum.splits)
  have "stable n1 = stable n"
    using prepare_loop_outcome [OF p] by blast
  then show ?thesis
    using cont prepare_loop_cache [OF p] execute_and_seal_archived by (auto simp: archive_frame.same)
qed (simp add: archive_frame.same)

end
