(* ===== verification/Chain_Machine.thy ===== *)
theory Chain_Machine
  imports Chain_Archive
begin

text \<open>
  The chain as a state machine. Its steps are the calls that change the chain: submissions, block
  production, credits of native deposits and pruning. A call that traps is no step, the canister is rolled
  back. Every step keeps the invariant of the chain and never changes a block once it can be read.
\<close>

section \<open>Steps\<close>

definition node_ready :: "ext \<Rightarrow> node \<Rightarrow> bool" where
  "node_ready x n \<longleftrightarrow> prune_ready x (stable n)
    \<and> (\<forall>p a. oget (caller_evm_by_principal n) p = Some a \<longrightarrow> derive x p = Some a)"

inductive chain_step :: "ext \<Rightarrow> engine \<Rightarrow> node \<Rightarrow> node \<Rightarrow> bool" for x e where
  step_submit: "request_ok req \<Longrightarrow> submit_tx_in x now req n = Some (r, n') \<Longrightarrow> chain_step x e n n'"
| step_produce: "world_ok x e h \<Longrightarrow> produce_block x e h max_txs n = Some (r, n') \<Longrightarrow> chain_step x e n n'"
| step_credit: "credit_native_deposit i recipient amount (stable n) = (r, s') \<Longrightarrow> chain_step x e n (n\<lparr>stable := s'\<rparr>)"
| step_prune: "prune_tick x memory_pages (stable n) = Some (r, s') \<Longrightarrow> chain_step x e n (n\<lparr>stable := s'\<rparr>)"
| step_policy: "chain_step x e n (n\<lparr>stable := set_prune_policy policy (stable n)\<rparr>)"
| step_enable: "chain_step x e n (n\<lparr>stable := set_pruning_enabled enabled (stable n)\<rparr>)"

inductive_cases chain_stepE: "chain_step x e n n'"

definition chain_init :: "node \<Rightarrow> bool" where
  "chain_init n \<longleftrightarrow> (\<exists>v3. n = \<lparr>decode_suppress_until = oempty, caller_evm_by_principal = oempty, stable = init_stable_state v3\<rparr>)"

text \<open>What never changes: a block below the head reads as before, with its receipts, or is gone.\<close>

definition chain_kept :: "stable_state \<Rightarrow> stable_state \<Rightarrow> bool" where
  "chain_kept s s' \<longleftrightarrow> head_number (head_cell s) \<le> head_number (head_cell s')
    \<and> (\<forall>k. k \<le> head_number (head_cell s) \<longrightarrow> k < - 1 \<longrightarrow> load_block s' k \<noteq> None \<longrightarrow> load_block s' k = load_block s k
         \<and> (\<forall>b t. load_block s k = Some b \<longrightarrow> t \<in> set (blk_tx_ids b) \<longrightarrow> load_receipt s' t = load_receipt s t))"

lemma chain_keptD:
  assumes "chain_kept s s'" and "k \<le> head_number (head_cell s)" and "k < - 1" and "load_block s' k \<noteq> None"
  shows "load_block s' k = load_block s k"
    and "load_block s k = Some b \<Longrightarrow> t \<in> set (blk_tx_ids b) \<Longrightarrow> load_receipt s' t = load_receipt s t"
  using assms by (auto simp: chain_kept_def)

lemma chain_keptI:
  assumes "head_number (head_cell s) \<le> head_number (head_cell s')"
    and "\<And>k. k \<le> head_number (head_cell s) \<Longrightarrow> k < - 1 \<Longrightarrow> load_block s' k \<noteq> None \<Longrightarrow> load_block s' k = load_block s k"
    and "\<And>k b t. k \<le> head_number (head_cell s) \<Longrightarrow> k < - 1 \<Longrightarrow> load_block s' k \<noteq> None \<Longrightarrow> load_block s k = Some b \<Longrightarrow>
      t \<in> set (blk_tx_ids b) \<Longrightarrow> load_receipt s' t = load_receipt s t"
  shows "chain_kept s s'"
  using assms unfolding chain_kept_def by simp

lemma chain_kept_trans:
  assumes a: "chain_kept s s'" and b: "chain_kept s' s''"
  shows "chain_kept s s''"
proof (rule chain_keptI)
  have le: "head_number (head_cell s) \<le> head_number (head_cell s')" "head_number (head_cell s') \<le> head_number (head_cell s'')"
    using a b by (simp_all add: chain_kept_def)
  then show "head_number (head_cell s) \<le> head_number (head_cell s'')"
    by (rule order_trans)
  fix k
  assume k: "k \<le> head_number (head_cell s)" "k < - 1" and l: "load_block s'' k \<noteq> None"
  note d = chain_keptD [OF b order_trans [OF k(1) le(1)] k(2) l]
  have l': "load_block s' k \<noteq> None"
    using l d(1) by simp
  note c = chain_keptD [OF a k l']
  show "load_block s'' k = load_block s k"
    using c(1) d(1) by simp
  show "load_receipt s'' t = load_receipt s t" if "load_block s k = Some b" "t \<in> set (blk_tx_ids b)" for b t
    using c(2) [OF that] d(2) [of b t] c(1) that by simp
qed

lemma chain_kept_same:
  assumes "head_cell s' = head_cell s" and "\<And>k. load_block s' k = load_block s k" and "\<And>t. load_receipt s' t = load_receipt s t"
  shows "chain_kept s s'"
  using assms by (simp add: chain_kept_def)

lemma chain_kept_ledger:
  assumes "lg_refs (ledger_of s') = lg_refs (ledger_of s)" and "lg_blobs (ledger_of s') = lg_blobs (ledger_of s)"
    and "head_cell s' = head_cell s"
  shows "chain_kept s s'" and "refs_ok s' = refs_ok s" and "load_block s' k = load_block s k" and "head_ok s' = head_ok s"
proof -
  have f: "blocks s' = blocks s" "receipts s' = receipts s" "tx_index s' = tx_index s" "internal_traces s' = internal_traces s"
    "blob_store_cell s' = blob_store_cell s"
    using assms(1,2) by (simp_all add: ledger_of_def)
  have rg: "ref_get s' = ref_get s"
    by (rule ref_get_cong) (simp_all add: f)
  have rd: "ref_read s' r = ref_read s r" for r
    by (rule ref_read_cong [OF f(5) fun_cong [OF rg]])
  show l: "load_block s' k = load_block s k" for k
    by (simp add: load_block_ref rd)
  show "chain_kept s s'"
    using assms(3) l by (rule chain_kept_same) (simp add: load_receipt_ref rd)
  show "refs_ok s' = refs_ok s"
    by (rule held_cong [OF f(5) rg])
  show "head_ok s' = head_ok s"
    using assms(3) f(1) by (simp add: head_ok_def)
qed

section \<open>Submission\<close>

lemma stored_id_length:
  assumes "\<And>bs. length (keccak x bs) = 32" and "try_from x env = Inr st"
  shows "length (stb_tx_id env) = 32"
  using assms by (auto simp: stored_tx_try_from_def stored_tx_id_def Let_def split: if_splits option.splits)

text \<open>Every payload in the store was there before or has a caller of admissible length.\<close>

definition bounded_payloads :: "stable_state \<Rightarrow> stable_state \<Rightarrow> bool" where
  "bounded_payloads s s' \<longleftrightarrow> (\<forall>t env. oget (tx_store s') t = Some env \<longrightarrow>
    oget (tx_store s) t = Some env \<or> length (stb_caller_principal env) \<le> 29)"

interpretation payload_frame: mempool_frame bounded_payloads "\<lambda>env. length (stb_caller_principal env) \<le> 29"
  by unfold_locales (auto simp: core_of_def bounded_payloads_def split: if_splits)

lemma bounded_principals:
  assumes "bounded_payloads s s'" and "principals_ok x s"
  shows "principals_ok x s'"
proof -
  have "length (st_caller_principal st) \<le> 29" if env: "oget (tx_store s') t = Some env" "try_from x env = Inr st" for t env st
  proof (cases "oget (tx_store s) t = Some env")
    case True
    then have "stored_of x s t = Some st"
      using env(2) by (simp add: stored_of_def)
    then show ?thesis
      using assms(2) unfolding principals_ok_def by blast
  next
    case False
    then have "length (stb_caller_principal env) \<le> 29"
      using assms(1) env(1) by (auto simp: bounded_payloads_def)
    then show ?thesis
      using stored_tx_try_from_Inr(4) [OF env(2)] by simp
  qed
  then show ?thesis
    by (auto simp: principals_ok_def stored_of_def split: option.splits sum.splits)
qed

lemma archived_principals: "archived s s' \<Longrightarrow> principals_ok x s \<Longrightarrow> principals_ok x s'"
  by (rule bounded_principals) (auto simp: archived_def bounded_payloads_def)

text \<open>What was not pending before and is now was never seen.\<close>

lemma submission_pending:
  assumes "submission_effect x s r s'" and "oget (pending_meta_by_tx_id s') t \<noteq> None"
  shows "oget (pending_meta_by_tx_id s) t \<noteq> None
    \<or> oget (seen_tx s) t = None \<and> (\<exists>env. stb_tx_id env = t \<and> oget (tx_store s') t = Some env)"
proof (cases r)
  case (Inl err)
  then have "pending_meta_by_tx_id s' = pending_meta_by_tx_id s"
    using assms(1) noted_fields(1) [unfolded same_indexes_def] by (auto simp: submission_effect_def)
  then show ?thesis
    using assms(2) by simp
next
  case (Inr u)
  then obtain env k gone where "stb_tx_id env = u" "admitted env k gone s s'" "oget (seen_tx s) u = None"
    using assms(1) by (auto simp: submission_effect_def)
  then show ?thesis
    using assms(2) by (auto simp: admitted_def split: if_splits)
qed

lemma submit_step:
  assumes hash: "\<And>bs. length (keccak x bs) = 32" and inv: "node_ready x n" and ok: "request_ok req"
    and sub: "submit_tx_in x now req n = Some (r, n')"
  shows "node_ready x n'" and "chain_kept (stable n) (stable n')"
proof -
  let ?s = "stable n" and ?s' = "stable n'"
  note i = inv [unfolded node_ready_def prune_ready_def prune_inv_def]
  note c = chain_invD [OF conjunct1 [OF conjunct1 [OF conjunct1 [OF i]]]]
  have "node_inv False x n"
    using i c(1) by (simp add: node_inv_def)
  from submit_tx_in_ok [OF this ok, of now] sub have m: "node_inv False x n'" and eff: "submission_effect x ?s r ?s'"
    by auto
  note led = submit_keeps [OF sub]
  have f: "lg_refs (ledger_of ?s') = lg_refs (ledger_of ?s)" "lg_blobs (ledger_of ?s') = lg_blobs (ledger_of ?s)"
    "head_cell ?s' = head_cell ?s"
    using led(1) by (simp_all add: ledger_of_def)
  note k = chain_kept_ledger [OF f]
  show "chain_kept ?s ?s'"
    by (rule k(1))
  have "length t = 32" if t: "oget (pending_meta_by_tx_id ?s') t \<noteq> None" for t
    using submission_pending [OF eff t]
  proof (elim disjE conjE exE)
    assume "oget (pending_meta_by_tx_id ?s) t \<noteq> None"
    then show ?thesis
      using c(5) by (simp add: ids_ok_def)
  next
    fix env
    assume env: "stb_tx_id env = t" "oget (tx_store ?s') t = Some env"
    obtain st where "stored_of x ?s' t = Some st"
      using m t unfolding node_inv_def mempool_inv_def entry_ok_def by blast
    then have "try_from x env = Inr st"
      using env(2) by (auto simp: stored_of_def split: sum.splits)
    then show ?thesis
      using stored_id_length [OF hash] env(1) by blast
  qed
  then have ids: "ids_ok ?s'"
    by (simp add: ids_ok_def)
  have hist: "history_ok ?s'"
  proof -
    have "oget (seen_tx ?s') t \<noteq> None \<and> oget (pending_meta_by_tx_id ?s') t = None"
      if b: "load_block ?s a = Some b" "t \<in> set (blk_tx_ids b)" for a b t
    proof -
      have "oget (seen_tx ?s) t \<noteq> None" "oget (pending_meta_by_tx_id ?s) t = None"
        using i b unfolding history_ok_def by blast+
      then show ?thesis
        using led(2) submission_pending [OF eff, of t] unfolding remembers_def by metis
    qed
    then show ?thesis
      using i unfolding history_ok_def k(3) by blast
  qed
  have "length (request_caller req) \<le> 29"
    using ok by (cases req) auto
  then have "bounded_payloads ?s ?s'"
    by (intro payload_frame.frame_submit [OF sub]) (simp add: new_with_fees_def)
  then have "principals_ok x ?s'"
    by (rule bounded_principals) (use i in simp)
  moreover have "quiet ?s'" "cursor_ok ?s'" "accounts_ok ?s'" "storage_ok ?s'"
    using i c(3,4) led(1) k(3) by (simp_all add: quiet_def cursor_ok_def ledger_of_def accounts_ok_def storage_ok_def)
  ultimately show "node_ready x n'"
    using m ids hist k(2,4) c(2,6) by (simp add: node_ready_def prune_ready_def prune_inv_def chain_inv_def node_inv_def)
qed

section \<open>Production\<close>

lemma next_number_new:
  fixes k :: u64
  assumes "k \<le> h" and "k < - 1"
  shows "k \<noteq> next_block_number h"
proof (cases "h = - 1")
  case True
  then have "next_block_number h = - 1"
    using next_number_ge [of h] by (simp add: word_n1_ge antisym)
  then show ?thesis
    using assms(2) by auto
next
  case False
  then have "unat (next_block_number h) = Suc (unat h)"
    unfolding next_block_number_def by (rule sat_add_1_gt)
  then show ?thesis
    using assms(1) by (auto simp: word_le_nat_alt)
qed

text \<open>The outcome without a block.\<close>

lemma production_failed:
  assumes ok: "production_ok exact x h k s (Some (Inl err, s'))" and hist: "history_ok s"
  shows "history_ok s'" and "chain_kept s s'" and "head_cell s' = head_cell s" and "load_block s' n = load_block s n"
proof -
  have sc: "same_chain s s'"
    using ok by (simp add: production_ok_def)
  have f: "lg_refs (ledger_of s') = lg_refs (ledger_of s)" "lg_blobs (ledger_of s') = lg_blobs (ledger_of s)" "head_cell s' = head_cell s"
    "seen_tx s' = seen_tx s"
    using sc by (simp_all add: same_chain_def ledger_of_def)
  note kept = chain_kept_ledger [OF f(1-3)]
  show "chain_kept s s'" "head_cell s' = head_cell s" "load_block s' n = load_block s n"
    using kept f(3) by simp_all
  have "oget (pending_meta_by_tx_id s) t \<noteq> None" if "oget (pending_meta_by_tx_id s') t \<noteq> None" for t
  proof (cases "err = NoExecutableTx")
    case True
    then obtain ts where "removed ts s s'"
      using ok by (auto simp: production_ok_def dropped_some_def)
    then show ?thesis
      using that by (metis removed_def)
  qed (use ok that in \<open>simp add: production_ok_def same_pool_def same_indexes_def\<close>)
  then show "history_ok s'"
    using hist unfolding history_ok_def kept(3) f(4) by blast
qed

text \<open>The outcome with a block: its transactions are in no other block.\<close>

lemma production_succeeded:
  assumes ap: "block_appended exact x k now s out s'" and m: "mempool_inv exact x s" and hist: "history_ok s"
  shows "history_ok s'" and "chain_kept s s'"
proof -
  let ?b = "po_block out"
  note a = ap [unfolded block_appended_def Let_def]
  have pend: "oget (pending_meta_by_tx_id s) t \<noteq> None \<and> oget (pending_meta_by_tx_id s') t = None" if "t \<in> set (blk_tx_ids ?b)" for t
    using a that by blast
  have old: "t \<notin> set (blk_tx_ids ?b)" if "load_block s n = Some b" "t \<in> set (blk_tx_ids b)" for n b t
    using hist that pend unfolding history_ok_def by blast
  have seen: "seen_tx s' = seen_tx s"
    using a by blast
  have sub: "oget (pending_meta_by_tx_id s) t \<noteq> None" if "oget (pending_meta_by_tx_id s') t \<noteq> None" for t
    using a that by (metis not_None_eq)
  have new: "load_block s' (blk_number ?b) = Some ?b" "distinct (blk_tx_ids ?b)"
    using a by blast+
  have keep: "load_block s' n = load_block s n" if "n \<noteq> blk_number ?b" for n
    using a that by blast
  have fresh: "oget (seen_tx s') t \<noteq> None" if "t \<in> set (blk_tx_ids ?b)" for t
    using pend [OF that] m seen unfolding mempool_inv_def entry_ok_def by (metis option.distinct(1))
  have cases: "n = blk_number ?b \<and> b = ?b \<or> n \<noteq> blk_number ?b \<and> load_block s n = Some b" if "load_block s' n = Some b" for n b
    using that new(1) keep by (cases "n = blk_number ?b") auto
  show "history_ok s'"
    unfolding history_ok_def
  proof (intro allI impI conjI ballI)
    fix n b
    assume n: "load_block s' n = Some b"
    show "distinct (blk_tx_ids b)"
      using cases [OF n] new(2) hist unfolding history_ok_def by blast
    show "oget (seen_tx s') t \<noteq> None" if "t \<in> set (blk_tx_ids b)" for t
      using cases [OF n] that fresh hist seen unfolding history_ok_def by metis
    show "oget (pending_meta_by_tx_id s') t = None" if "t \<in> set (blk_tx_ids b)" for t
      using cases [OF n] that pend sub hist unfolding history_ok_def by metis
    show "set (blk_tx_ids b) \<inter> set (blk_tx_ids c) = {}" if "load_block s' i = Some c" "i \<noteq> n" for i c
      using cases [OF n] cases [OF that(1)] that(2) old hist unfolding history_ok_def by blast
  qed
  show "chain_kept s s'"
  proof (rule chain_keptI)
    have hd: "head_number (head_cell s') = blk_number ?b" "blk_number ?b = next_block_number (head_number (head_cell s))"
      using a by simp_all
    show "head_number (head_cell s) \<le> head_number (head_cell s')"
      using hd next_number_ge by simp
    fix n
    assume n: "n \<le> head_number (head_cell s)" "n < - 1"
    show "load_block s' n = load_block s n"
      using keep next_number_new [OF n] hd(2) by simp
    show "load_receipt s' t = load_receipt s t" if "load_block s n = Some b" "t \<in> set (blk_tx_ids b)" for b t
      using a old [OF that] by blast
  qed
qed

lemma appended_cursor:
  assumes ap: "block_appended exact x k now s out s'" and c: "cursor_ok s" and ps: "prune_state_cell s' = prune_state_cell s"
  shows "cursor_ok s'"
proof -
  note a = ap [unfolded block_appended_def Let_def]
  let ?b = "blk_number (po_block out)" and ?n = "normalized_next (prune_state_cell s)"
  have hd: "head_number (head_cell s') = ?b" "head_number (head_cell s) \<le> ?b"
    using a next_number_ge by simp_all
  have le: "?n \<le> head_number (head_cell s)"
    using c by (simp add: cursor_ok_def)
  have "load_block s' n = None" if "n < ?n" for n
  proof -
    have "n \<noteq> ?b"
      using that le hd(2) by auto
    then have "load_block s' n = load_block s n"
      using a by blast
    then show ?thesis
      using c that by (simp add: cursor_ok_def)
  qed
  then show ?thesis
    using hd order_trans [OF le hd(2)] by (simp add: cursor_ok_def ps)
qed

lemma produce_step:
  assumes w: "world_ok x e h" and inv: "node_ready x n" and p: "produce_block x e h max_txs n = Some (r, n')"
  shows "node_ready x n'" and "chain_kept (stable n) (stable n')"
proof -
  let ?s = "stable n" and ?s' = "stable n'"
  note i = inv [unfolded node_ready_def prune_ready_def prune_inv_def]
  note c = chain_invD [OF conjunct1 [OF conjunct1 [OF conjunct1 [OF i]]]]
  have ok: "production_ok False x h max_txs ?s (Some (r, ?s'))"
    using produce_block_ok [OF w, of False n max_txs] i p by simp
  note ar = produce_block_archived [OF p]
  have pr: "principals_ok x ?s'"
    using archived_principals ar i by blast
  have ci: "chain_inv False x ?s'"
    using ok by (cases r) (simp_all add: production_ok_def)
  have "history_ok ?s' \<and> chain_kept ?s ?s' \<and> cursor_ok ?s'"
  proof (cases r)
    case (Inl err)
    then show ?thesis
      using production_failed [of False x h max_txs ?s err ?s'] ok i ar by (simp add: cursor_ok_def archived_def)
  next
    case (Inr out)
    then have ap: "block_appended False x max_txs (now_sec h) ?s out ?s'"
      using ok by (simp add: production_ok_def)
    have "cursor_ok ?s'"
      using appended_cursor [OF ap] i ar by (simp add: archived_def)
    then show ?thesis
      using production_succeeded [OF ap c(1)] i by blast
  qed
  moreover have "quiet ?s'"
    using ar i by (simp add: archived_def quiet_def)
  ultimately show "node_ready x n'" "chain_kept ?s ?s'"
    using ar pr ci i by (simp_all add: node_ready_def prune_ready_def prune_inv_def)
qed

section \<open>Credits and pruning\<close>

lemma credit_frame:
  assumes "credit_native_deposit i recipient amount s = (r, s')"
  obtains a c ep where "s' = s\<lparr>accounts := a, native_credit_records := c, evm_state_epoch := ep\<rparr>"
    and "accounts_ok s \<Longrightarrow> accounts_ok (s\<lparr>accounts := a\<rparr>)"
proof (cases "s' = s")
  case True
  then show thesis
    by (intro that [where a = "accounts s" and c = "native_credit_records s" and ep = "evm_state_epoch s"]) simp_all
next
  case False
  then obtain amt changed s1 where s1: "add_to_account (make_account_key recipient) amt s = Some (changed, s1)"
    and s': "s' = (if changed then bump_evm_state_epoch else id) (s1\<lparr>native_credit_records := oinsert i
      \<lparr>nc_recipient = recipient, nc_amount_wei = amount\<rparr> (native_credit_records s1)\<rparr>)"
    using assms by (auto simp: credit_native_deposit_def Let_def split: option.splits if_splits)
  have "s1 = s\<lparr>accounts := accounts s1\<rparr>" "accounts_ok s \<Longrightarrow> accounts_ok s1"
    using s1 by (auto simp: add_to_account_def account_parts_def Let_def accounts_ok_def account_from_parts_def account_code_hash_def byte_slice_def
        split: option.splits if_splits)
  moreover have "s' = s1\<lparr>native_credit_records := native_credit_records s', evm_state_epoch := evm_state_epoch s'\<rparr>"
    by (cases changed) (simp_all add: s' bump_evm_state_epoch_def)
  ultimately show thesis
    by (intro that [where a = "accounts s1" and c = "native_credit_records s'" and ep = "evm_state_epoch s'"]) (metis, simp)
qed

lemma credit_step:
  assumes inv: "node_ready x n" and cr: "credit_native_deposit i recipient amount (stable n) = (r, s')"
  shows "node_ready x (n\<lparr>stable := s'\<rparr>)" and "chain_kept (stable n) s'"
proof -
  let ?s = "stable n"
  note i = inv [unfolded node_ready_def prune_ready_def prune_inv_def]
  note c = chain_invD [OF conjunct1 [OF conjunct1 [OF conjunct1 [OF i]]]]
  obtain a k ep where s': "s' = ?s\<lparr>accounts := a, native_credit_records := k, evm_state_epoch := ep\<rparr>"
    and acc: "accounts_ok (?s\<lparr>accounts := a\<rparr>)"
    using credit_frame [OF cr] c(3) by metis
  have f: "lg_refs (ledger_of s') = lg_refs (ledger_of ?s)" "lg_blobs (ledger_of s') = lg_blobs (ledger_of ?s)"
    "head_cell s' = head_cell ?s"
    by (simp_all add: s' ledger_of_def)
  note kept = chain_kept_ledger [OF f]
  show "chain_kept ?s s'"
    by (rule kept(1))
  have "same_pool ?s s'"
    by (simp add: s' same_pool_def same_indexes_def)
  then have "mempool_inv False x s'"
    by (rule same_pool_inv [OF c(1)])
  moreover have "history_ok s'" "principals_ok x s'"
    using i principals_ok_cong [of s' ?s] by (simp_all add: history_ok_def kept(3)) (simp_all add: s')
  ultimately show "node_ready x (n\<lparr>stable := s'\<rparr>)"
    using i c acc kept(2-4)
    by (simp add: node_ready_def prune_ready_def prune_inv_def chain_inv_def quiet_def cursor_ok_def s' accounts_ok_def
        storage_ok_def ids_ok_def)
qed

lemma pruned_kept:
  assumes p: "pruned ns s s'" and h: "history_ok s"
  shows "chain_kept s s'"
proof (rule chain_keptI)
  show "head_number (head_cell s) \<le> head_number (head_cell s')"
    using p by (simp add: pruned_def)
  fix k
  assume k: "load_block s' k \<noteq> None"
  then show e: "load_block s' k = load_block s k"
    using pruned_loads(1) [OF p, of k] by (auto split: if_splits)
  show "load_receipt s' t = load_receipt s t" if "load_block s k = Some b" "t \<in> set (blk_tx_ids b)" for b t
    using pruned_other(2) [OF p h, of k b t] pruned_loads(2) [OF p, of t] e that by simp
qed

lemma config_ready:
  assumes "prune_ready x s"
  shows "prune_ready x (s\<lparr>prune_config_cell := c\<rparr>)" and "pruned {} s (s\<lparr>prune_config_cell := c\<rparr>)"
proof -
  have e: "\<exists>ps c' j. s\<lparr>prune_config_cell := c\<rparr> = s\<lparr>prune_state_cell := ps, prune_config_cell := c', prune_journal := j\<rparr>"
    by (rule exI [of _ "prune_state_cell s"], rule exI [of _ c], rule exI [of _ "prune_journal s"]) simp
  note cells = prune_cells [OF e]
  show "pruned {} s (s\<lparr>prune_config_cell := c\<rparr>)"
    by (rule cells(1))
  show "prune_ready x (s\<lparr>prune_config_cell := c\<rparr>)"
    using assms cells(2,3) by (simp add: prune_ready_def quiet_def cursor_ok_def)
qed

text \<open>A tick changes the configuration, then prunes or not, then changes the configuration again.\<close>

lemma prune_tick_ready:
  assumes r: "prune_ready x s" and t: "prune_tick x memory_pages s = Some (q, s')"
  shows "prune_ready x s' \<and> (\<exists>ns. pruned ns s s')"
proof -
  have "\<exists>c. s' = s\<lparr>prune_config_cell := c\<rparr> \<or> (\<exists>retain ops s1 c'. prune_blocks x retain ops (s\<lparr>prune_config_cell := c\<rparr>) = Some (q, s1)
      \<and> s' = s1\<lparr>prune_config_cell := c'\<rparr>)"
    using t by (auto simp: prune_tick_def recompute_estimated_kept_bytes_def Let_def Option.bind_eq_Some_conv split: if_splits) blast+
  then obtain c where "s' = s\<lparr>prune_config_cell := c\<rparr>
      \<or> (\<exists>retain ops s1 c'. prune_blocks x retain ops (s\<lparr>prune_config_cell := c\<rparr>) = Some (q, s1) \<and> s' = s1\<lparr>prune_config_cell := c'\<rparr>)"
    by blast
  then show ?thesis
  proof (elim disjE exE conjE)
    assume "s' = s\<lparr>prune_config_cell := c\<rparr>"
    then show ?thesis
      using config_ready [OF r] by blast
  next
    fix retain ops s1 c'
    assume b: "prune_blocks x retain ops (s\<lparr>prune_config_cell := c\<rparr>) = Some (q, s1)" and s': "s' = s1\<lparr>prune_config_cell := c'\<rparr>"
    note c = config_ready [OF r, of c]
    have "prune_ready x s1 \<and> (\<exists>ns. pruned ns (s\<lparr>prune_config_cell := c\<rparr>) s1)"
    proof (cases "retain = 0 \<or> ops = 0")
      case True
      then have "s1 = s\<lparr>prune_config_cell := c\<rparr>"
        using b by (auto simp: prune_blocks_def)
      then show ?thesis
        using c(1) pruned_empty [of s1 s1] by auto
    next
      case False
      then show ?thesis
        using prune_blocks_ok [OF c(1), of retain ops] b by (auto simp: blocks_pruned_def Let_def)
    qed
    then show ?thesis
      unfolding s' using config_ready [of x s1 c'] c(2) pruned_trans by blast
  qed
qed

section \<open>Reachable states\<close>

lemma chain_step_ok:
  assumes "\<And>bs. length (keccak x bs) = 32" and inv: "node_ready x n" and "chain_step x e n n'"
  shows "node_ready x n'" and "chain_kept (stable n) (stable n')"
proof -
  have prune: "node_ready x (n\<lparr>stable := s'\<rparr>) \<and> chain_kept (stable n) s'" if "prune_ready x s'" "pruned ns (stable n) s'" for s' ns
    using that inv pruned_kept [OF that(2)] by (simp add: node_ready_def prune_ready_def prune_inv_def)
  have cfg: "node_ready x (n\<lparr>stable := (stable n)\<lparr>prune_config_cell := c\<rparr>\<rparr>)" "chain_kept (stable n) ((stable n)\<lparr>prune_config_cell := c\<rparr>)" for c
    using prune [OF config_ready [OF conjunct1 [OF inv [unfolded node_ready_def]]]] by simp_all
  have "node_ready x n' \<and> chain_kept (stable n) (stable n')"
    using assms(3)
  proof (cases rule: chain_step.cases)
    case (step_prune memory_pages r s')
    then show ?thesis
      using prune_tick_ready [of x "stable n" memory_pages r s'] prune inv by (auto simp: node_ready_def)
  qed (use submit_step [OF assms(1) inv] produce_step [OF _ inv] credit_step [OF inv] cfg in
      \<open>auto simp: set_prune_policy_def set_pruning_enabled_def\<close>)
  then show "node_ready x n'" "chain_kept (stable n) (stable n')"
    by simp_all
qed

lemma init_node_ready:
  assumes "chain_init n"
  shows "node_ready x n"
proof -
  obtain v3 where n: "n = \<lparr>decode_suppress_until = oempty, caller_evm_by_principal = oempty, stable = init_stable_state v3\<rparr>"
    using assms by (auto simp: chain_init_def)
  let ?s = "init_stable_state v3"
  have none: "ref_get ?s r = None" for r
    by (cases r) (simp_all add: init_stable_state_def)
  have load: "load_block ?s k = None" for k
    by (simp add: load_block_def init_stable_state_def)
  have "blob_inv (blob_store_cell ?s)"
    by (rule blob_init_inv) (auto simp: blob_init_def init_stable_state_def)
  then have "refs_ok ?s"
    by (simp add: held_def none)
  moreover have "mempool_inv False x ?s"
    by (rule init_mempool_inv)
  moreover have "accounts_ok ?s" "storage_ok ?s" "ids_ok ?s" "head_ok ?s" "principals_ok x ?s" "quiet ?s"
    by (simp_all add: accounts_ok_def storage_ok_def ids_ok_def head_ok_def principals_ok_def stored_of_def quiet_def
        init_stable_state_def prune_state_new_def)
  moreover have "cursor_ok ?s"
    by (simp add: cursor_ok_def load normalized_next_def normalize_next_prune_block_def pruned_before_def)
      (simp add: init_stable_state_def prune_state_new_def)
  ultimately show ?thesis
    by (simp add: node_ready_def prune_ready_def prune_inv_def chain_inv_def history_ok_def load n)
qed

end
