(* ===== verification/Chain_Properties.thy ===== *)
theory Chain_Properties
  imports Chain_Machine
begin

text \<open>
  The properties of the chain as a whole: the invariant of every reachable state, the immutability of its
  history, and what a block production or a pruning call does in any reachable state.
\<close>

section \<open>Progress\<close>

lemma ready_covers_pending:
  assumes "mempool_inv exact x s" and "entries (ready_queue s) = []"
  shows "oget (pending_meta_by_tx_id s) t = None"
proof (rule ccontr)
  assume "oget (pending_meta_by_tx_id s) t \<noteq> None"
  then obtain st l k where "stored_of x s t = Some st" "oget (active_locs s) t = Some l" "oget (pending_meta_by_tx_id s) t = Some k"
    using mempool_invD(2) [OF assms(1)] by (auto simp: entry_ok_def)
  then have "ready_entry x s t \<noteq> None"
    by (simp add: ready_entry_def)
  then obtain key where "oget (ready_queue s) key = Some t"
    using mempool_invD(4) [OF assms(1)] by (auto simp: ready_ok_def paired_def)
  then show False
    using assms(2) by (simp add: oget_entries)
qed

lemma select_empty:
  assumes "select_ready_candidates x base k s = []" and "0 < k"
  shows "entries (ready_queue s) = []"
proof -
  define cs where "cs = map (ready_candidate_of x base s) (take READY_CANDIDATE_LIMIT (entries (ready_queue s)))"
  obtain sel :: "ready_candidate list" where sel: "select_top_k_ready_candidates cs k = map rc_tx_id sel" "length sel = min k (length cs)"
    using select_top_k_spec [of cs k] by blast
  have "select_top_k_ready_candidates cs k = []"
    using assms by (simp add: select_ready_candidates_def cs_def)
  then have "min k (length cs) = 0"
    using sel by simp
  then show ?thesis
    using assms(2) by (simp add: cs_def min_def split: if_splits)
qed

text \<open>The errors a call can return.\<close>

lemma seal_block_error:
  "seal_block x e h ctx parent st = Some (Inl err, s') \<Longrightarrow> \<exists>msg. err = InvariantViolation msg"
  by (auto simp: seal_block_def Let_def split: sum.splits)

lemma execute_and_seal_error:
  assumes "execute_and_seal x e h ctx soft start parent items k s = Some (Inl err, s')"
  shows "err = NoExecutableTx \<or> (\<exists>msg. err = InvariantViolation msg)"
proof (cases "txs_of items = []")
  case True
  then show ?thesis
    using assms by (auto simp: execute_and_seal_def Let_def)
next
  case False
  obtain r st where st: "execute_loop x e h ctx soft start (txs_of items) (exec_start (drops_of items) k s) = Some (r, st)"
    using assms False by (auto simp: execute_and_seal_def Let_def split: option.splits)
  show ?thesis
  proof (cases r)
    case (Inl err')
    then have "err' = err"
      using assms False st by (simp add: execute_and_seal_def Let_def)
    then show ?thesis
      using execute_loop_error st Inl by blast
  next
    case (Inr u)
    then show ?thesis
      using assms False st seal_block_error [of x e h ctx parent st err s'] by (auto simp: execute_and_seal_def Let_def split: if_splits)
  qed
qed

lemma produce_block_error:
  assumes p: "produce_block x e h max_txs n = Some (Inl err, n')" and "0 < max_txs"
  shows "err = QueueEmpty \<and> entries (ready_queue (stable n)) = [] \<or> err = NoExecutableTx \<or> (\<exists>msg. err = InvariantViolation msg)"
proof -
  let ?s = "stable n" and ?cs = "chain_state_cell (stable n)"
  define ctx where "ctx = \<lparr>bx_block_number = next_block_number (head_number (head_cell ?s)),
      bx_timestamp = next_block_timestamp (head_timestamp (head_cell ?s)) (now_sec h),
      bx_base_fee = base_fee ?cs, bx_block_gas_limit = block_gas_limit ?cs\<rparr>"
  define ts where "ts = select_ready_candidates x (base_fee ?cs) max_txs ?s"
  obtain r n1 where r: "prepare_loop x h ctx ?cs (ticks h 0) ts 1 0 oempty n = (r, n1)"
    by fastforce
  note unf = p [unfolded produce_block_def valid_block_limit_def Let_def, folded ctx_def, folded ts_def]
  show ?thesis
  proof (cases "ts = []")
    case True
    then show ?thesis
      using unf assms(2) select_empty [of x "base_fee ?cs" max_txs ?s] by (auto simp: ts_def)
  next
    case False
    show ?thesis
    proof (cases r)
      case (Inl err')
      then show ?thesis
        using unf assms(2) False r prepare_loop_error [of x h ctx ?cs "ticks h 0" ts 1 0 oempty n err' n1] by auto
    next
      case (Inr a)
      obtain items k where "a = (items, k)"
        by fastforce
      then show ?thesis
        using unf assms(2) False r Inr by (auto dest: execute_and_seal_error)
    qed
  qed
qed

lemma pending_shrinks:
  assumes "\<And>t k. oget (pending_meta_by_tx_id s') t = Some k \<Longrightarrow> oget (pending_meta_by_tx_id s) t \<noteq> None"
    and "oget (pending_meta_by_tx_id s) u \<noteq> None" and "oget (pending_meta_by_tx_id s') u = None"
  shows "olen (pending_meta_by_tx_id s') < olen (pending_meta_by_tx_id s)"
proof -
  have "u \<in> dom (oget (pending_meta_by_tx_id s))" "u \<notin> dom (oget (pending_meta_by_tx_id s'))"
    using assms(2,3) by auto
  moreover have "dom (oget (pending_meta_by_tx_id s')) \<subseteq> dom (oget (pending_meta_by_tx_id s))"
    using assms(1) by auto
  ultimately have "dom (oget (pending_meta_by_tx_id s')) \<subset> dom (oget (pending_meta_by_tx_id s))"
    by blast
  then show ?thesis
    unfolding olen_card by (rule psubset_card_mono [OF finite_dom_oget])
qed

lemma production_shrinks:
  assumes ok: "production_ok exact x h k s (Some (r, s'))" and limit: "in_budget h s"
    and r: "r = Inl NoExecutableTx \<or> (\<exists>out. r = Inr out)"
  shows "olen (pending_meta_by_tx_id s') < olen (pending_meta_by_tx_id s)"
  using r
proof (elim disjE exE)
  assume "r = Inl NoExecutableTx"
  then obtain ts where ts: "removed ts s s'" "\<forall>t\<in>ts. oget (pending_meta_by_tx_id s) t \<noteq> None" "ts \<noteq> {}"
    using ok limit by (auto simp: production_ok_def dropped_some_def)
  then obtain u where "u \<in> ts"
    by blast
  then show ?thesis
    using ts by (intro pending_shrinks [of s' s u]) (auto simp: removed_def split: if_splits)
next
  fix out
  assume "r = Inr out"
  then have a: "block_appended exact x k (now_sec h) s out s'"
    using ok by (simp add: production_ok_def)
  note a' = a [unfolded block_appended_def Let_def]
  obtain u where u: "u \<in> set (blk_tx_ids (po_block out))"
    using a' by (cases "blk_tx_ids (po_block out)") auto
  show ?thesis
  proof (rule pending_shrinks)
    show "oget (pending_meta_by_tx_id s) u \<noteq> None" "oget (pending_meta_by_tx_id s') u = None"
      using a' u by blast+
    show "oget (pending_meta_by_tx_id s) t \<noteq> None" if "oget (pending_meta_by_tx_id s') t = Some k" for t k
      using a' that by blast
  qed
qed

section \<open>Examples\<close>

definition example_host :: host where
  "example_host = \<lparr>now_sec = 7, ticks = (\<lambda>_. 0), grow = (\<lambda>_ _. True), prepare_root = (\<lambda>_ _ _ _ _ _ _. Inr (replicate 32 4))\<rparr>"

lemma example_world: "world_ok example_ext example_executor example_host"
  using example_executor_ok by (simp add: world_ok_def example_host_def)

lemma example_reachable: "reachable chain_init (chain_step x e) example_node"
  by (rule reach_init) (auto simp: chain_init_def example_node_def)

lemma example_submitted:
  obtains r n where "submit_tx_in example_ext 5 example_request example_node = Some (r, n)"
    and "chain_step example_ext example_executor example_node n"
proof -
  have "request_ok example_request"
    by (simp add: example_request_def)
  then obtain r n where "submit_tx_in example_ext 5 example_request example_node = Some (r, n)"
    using submit_tx_in_ok [OF example_node_inv, of example_request 5] by auto
  then show thesis
    using step_submit [OF \<open>request_ok example_request\<close>] that by blast
qed

lemma reachable_ready:
  assumes "\<And>bs. length (keccak x bs) = 32" and "reachable chain_init (chain_step x e) n"
  shows "node_ready x n"
  using assms(2) by induction (auto intro: init_node_ready chain_step_ok(1) [OF assms(1)])

lemma ready_node:
  assumes "node_ready x n"
  shows "chain_inv False x (stable n)" and "prune_ready x (stable n)"
  using assms by (simp_all add: node_ready_def prune_ready_def prune_inv_def)

section \<open>Properties\<close>

text \<open>C3: what holds after any sequence of submissions, block productions, credits and prunings, in any order
  and interleaved with any calls that trap: the indexes of the mempool agree with each other, every table
  entry that points into the blob store points to a live blob of its own, the transactions of every block
  that can be read were seen, are no longer pending and are in that block only, no block is above the head,
  and below the pruning cursor there is nothing left.\<close>
theorem reachable_chain_consistent:
  assumes "\<And>bs. length (keccak x bs) = 32" and "reachable chain_init (chain_step x e) n"
  shows "mempool_inv False x (stable n) \<and> refs_ok (stable n) \<and> history_ok (stable n) \<and> head_ok (stable n)
    \<and> quiet (stable n) \<and> cursor_ok (stable n)"
proof -
  have "node_ready x n"
    by (rule reachable_ready [OF assms])
  then show ?thesis
    by (simp add: node_ready_def prune_ready_def prune_inv_def chain_inv_def)
qed

theorem reachable_chain_consistent_witness:
  "\<exists>r n. submit_tx_in example_ext 5 example_request example_node = Some (r, n) \<and> mempool_inv False example_ext (stable n)"
proof -
  obtain r n where n: "submit_tx_in example_ext 5 example_request example_node = Some (r, n)"
    and s: "chain_step example_ext example_executor example_node n"
    by (rule example_submitted)
  show ?thesis
    using n reachable_chain_consistent [OF example_keccak reach_step [OF example_reachable s]] by blast
qed

text \<open>C1: the history is immutable. From any reachable state on, whatever calls follow, the head never goes
  back, a block number at or below the head that can still be read later holds the block it held before,
  with the same receipts for its transactions; the only other possibility is that the block was pruned, and
  a pruned or missing block never comes back. The last representable block number is excluded.\<close>
theorem history_immutable:
  assumes "\<And>bs. length (keccak x bs) = 32" and "reachable chain_init (chain_step x e) n" and "(chain_step x e)\<^sup>*\<^sup>* n n'"
  shows "head_number (head_cell (stable n)) \<le> head_number (head_cell (stable n'))
    \<and> (\<forall>k. k \<le> head_number (head_cell (stable n)) \<longrightarrow> k < - 1 \<longrightarrow> load_block (stable n') k \<noteq> None \<longrightarrow>
        load_block (stable n') k = load_block (stable n) k
        \<and> (\<forall>b t. load_block (stable n) k = Some b \<longrightarrow> t \<in> set (blk_tx_ids b) \<longrightarrow>
              load_receipt (stable n') t = load_receipt (stable n) t))"
proof -
  have "node_ready x n' \<and> chain_kept (stable n) (stable n')"
    using assms(3)
  proof (induction rule: rtranclp_induct)
    case base
    show ?case
      using reachable_ready [OF assms(1,2)] chain_kept_same [of "stable n" "stable n"] by simp
  next
    case (step n1 n2)
    then show ?case
      using chain_step_ok [OF assms(1)] chain_kept_trans by blast
  qed
  then show ?thesis
    by (simp add: chain_kept_def)
qed

theorem history_immutable_witness:
  "\<exists>r n. submit_tx_in example_ext 5 example_request example_node = Some (r, n)
    \<and> head_number (head_cell (stable example_node)) \<le> head_number (head_cell (stable n))"
proof -
  obtain r n where n: "submit_tx_in example_ext 5 example_request example_node = Some (r, n)"
    and s: "chain_step example_ext example_executor example_node n"
    by (rule example_submitted)
  show ?thesis
    using n history_immutable [OF example_keccak example_reachable r_into_rtranclp [where r = "chain_step example_ext example_executor", OF s]] by blast
qed

text \<open>C2: what a block production does in any reachable state. It traps only when the blob store refuses a
  blob of the block. With an error nothing but the mempool and counters changed. Otherwise the block extends
  the head with its parent hash, timestamp and base fee, its transactions were pending, are distinct, at
  most as many as asked for and are no longer pending, the nonces of their senders move on, the block and
  the receipts can be read back, the gas used is the sum over the receipts and within the limit, and no
  other block or receipt changes.\<close>
theorem produce_block_sound:
  assumes "world_ok x e h" and "reachable chain_init (chain_step x e) n"
  shows "production_ok False x h max_txs (stable n)
    (map_option (\<lambda>(r, n'). (r, stable n')) (produce_block x e h max_txs n))"
proof -
  have "\<And>bs. length (keccak x bs) = 32"
    using assms(1) by (simp add: world_ok_def)
  from reachable_ready [OF this assms(2)] show ?thesis
    using produce_block_ok [OF assms(1)] ready_node(1) by blast
qed

theorem produce_block_sound_witness:
  "\<exists>r n. submit_tx_in example_ext 5 example_request example_node = Some (r, n)
    \<and> production_ok False example_ext example_host 10 (stable n)
        (map_option (\<lambda>(r, n'). (r, stable n')) (produce_block example_ext example_executor example_host 10 n))"
proof -
  obtain r n where n: "submit_tx_in example_ext 5 example_request example_node = Some (r, n)"
    and s: "chain_step example_ext example_executor example_node n"
    by (rule example_submitted)
  show ?thesis
    using n produce_block_sound [OF example_world reach_step [OF example_reachable s]] by blast
qed





end
