(* ===== verification/Precompiles.thy ===== *)
theory Precompiles
  imports Evm_Exec
begin

text \<open>
  The precompiled contracts of the chain (\<open>evm-core/src/kasane_precompiles.rs\<close>): how their input is parsed,
  what they burn and log, what they charge, and how the logs they leave in a receipt are read back by the
  gateway. The journal of the engine and its own precompiles are arguments; what the unwrap precompile
  relies on of the journal is \<open>journal_laws\<close>. Errors are the codes of the source.
\<close>

section \<open>Addresses, limits and intents\<close>

definition WRAP_PRECOMPILE_ADDRESS :: bytes where
  "WRAP_PRECOMPILE_ADDRESS = replicate 16 0 @ [0xff, 0xff, 0x00, 0x01]"

definition NATIVE_WITHDRAW_PRECOMPILE_ADDRESS :: bytes where
  "NATIVE_WITHDRAW_PRECOMPILE_ADDRESS = replicate 16 0 @ [0xff, 0xff, 0x00, 0x02]"

definition ICP_QUERY_PRECOMPILE_ADDRESS :: bytes where
  "ICP_QUERY_PRECOMPILE_ADDRESS = replicate 16 0 @ [0xff, 0xff, 0x00, 0x03]"

definition ICP_UPDATE_INTENT_PRECOMPILE_ADDRESS :: bytes where
  "ICP_UPDATE_INTENT_PRECOMPILE_ADDRESS = replicate 16 0 @ [0xff, 0xff, 0x00, 0x04]"

abbreviation MAX_FIELD_LEN :: nat where "MAX_FIELD_LEN \<equiv> 120"
abbreviation MAX_QUERY_METHOD_LEN :: nat where "MAX_QUERY_METHOD_LEN \<equiv> 64"
abbreviation MAX_ICP_UPDATE_ARG_LEN :: nat where "MAX_ICP_UPDATE_ARG_LEN \<equiv> 3997"
abbreviation COMPACT_UNWRAP_INPUT_LEN :: nat where "COMPACT_UNWRAP_INPUT_LEN \<equiv> 93"
abbreviation COMPACT_NATIVE_WITHDRAW_INPUT_LEN :: nat where "COMPACT_NATIVE_WITHDRAW_INPUT_LEN \<equiv> 31"

record unwrap_intent =
  ui_asset_id :: bytes
  ui_amount :: bytes
  ui_recipient :: bytes

record native_withdraw_intent =
  ni_amount_e8s :: bytes
  ni_recipient :: bytes

record icp_update_intent =
  ii_target :: bytes
  ii_method :: bytes
  ii_arg :: bytes

section \<open>Reading\<close>

definition pc_read_u8 :: "bytes \<Rightarrow> nat \<Rightarrow> (u8 \<times> nat) option" where
  "pc_read_u8 data offset = (if offset < length data then Some (data ! offset, offset + 1) else None)"

definition pc_read_exact :: "bytes \<Rightarrow> nat \<Rightarrow> nat \<Rightarrow> (bytes \<times> nat) option" where
  "pc_read_exact data offset len =
    (if offset + len \<le> length data then Some (byte_slice offset (offset + len) data, offset + len) else None)"

definition read_u32_be :: "bytes \<Rightarrow> nat \<Rightarrow> (u32 \<times> nat) option" where
  "read_u32_be data offset = map_option (\<lambda>(b, off). (from_be_bytes b, off)) (pc_read_exact data offset 4)"

definition read_len_prefixed :: "bytes \<Rightarrow> nat \<Rightarrow> (bytes \<times> nat) option" where
  "read_len_prefixed data offset = do {
     (n, offset) \<leftarrow> pc_read_u8 data offset;
     if unat n = 0 \<or> MAX_FIELD_LEN < unat n then None else pc_read_exact data offset (unat n)
   }"

definition read_array_32 :: "bytes \<Rightarrow> nat \<Rightarrow> (bytes \<times> nat) option" where
  "read_array_32 data offset = pc_read_exact data offset 32"

definition is_valid_principal_bytes :: "nat \<Rightarrow> bool" where
  "is_valid_principal_bytes len = (1 \<le> len \<and> len \<le> MAX_PRINCIPAL_LEN)"

definition read_compact_principal :: "bytes \<Rightarrow> nat \<Rightarrow> string + bytes \<times> nat" where
  "read_compact_principal input offset =
    (case pc_read_u8 input offset of
       None \<Rightarrow> Inl ''wrap.arg.abi_invalid''
     | Some (n, offset) \<Rightarrow>
         if \<not> is_valid_principal_bytes (unat n) then Inl ''wrap.arg.principal_invalid''
         else case pc_read_exact input offset MAX_PRINCIPAL_LEN of
           None \<Rightarrow> Inl ''wrap.arg.abi_invalid''
         | Some (slot, end) \<Rightarrow>
             if list_ex (\<lambda>b. b \<noteq> 0) (drop (unat n) slot) then Inl ''wrap.arg.padding_invalid''
             else Inr (take (unat n) slot, end))"

definition read_query_principal :: "bytes \<Rightarrow> nat \<Rightarrow> string + bytes \<times> nat" where
  "read_query_principal input offset =
    (case pc_read_u8 input offset of
       None \<Rightarrow> Inl ''ic_query.arg.abi_invalid''
     | Some (n, offset) \<Rightarrow>
         if \<not> is_valid_principal_bytes (unat n) then Inl ''ic_query.target_invalid''
         else case pc_read_exact input offset (unat n) of
           None \<Rightarrow> Inl ''ic_query.arg.abi_invalid''
         | Some r \<Rightarrow> Inr r)"

definition read_ic_update_principal :: "bytes \<Rightarrow> nat \<Rightarrow> string + bytes \<times> nat" where
  "read_ic_update_principal input offset =
    (case pc_read_u8 input offset of
       None \<Rightarrow> Inl ''ic_update.arg.abi_invalid''
     | Some (n, offset) \<Rightarrow>
         if \<not> is_valid_principal_bytes (unat n) then Inl ''ic_update.target_invalid''
         else case pc_read_exact input offset (unat n) of
           None \<Rightarrow> Inl ''ic_update.arg.abi_invalid''
         | Some r \<Rightarrow> Inr r)"

section \<open>Parsing the input\<close>

definition parse_compact_input :: "bytes \<Rightarrow> string + unwrap_intent" where
  "parse_compact_input input =
    (if length input \<noteq> COMPACT_UNWRAP_INPUT_LEN then Inl ''wrap.arg.abi_invalid''
     else if input ! 0 \<noteq> 1 then Inl ''wrap.arg.abi_invalid''
     else case read_compact_principal input 1 of
       Inl code \<Rightarrow> Inl code
     | Inr (asset_id, offset) \<Rightarrow>
         (case read_array_32 input offset of
            None \<Rightarrow> Inl ''wrap.arg.amount_invalid''
          | Some (amount, offset) \<Rightarrow>
              (case read_compact_principal input offset of
                 Inl code \<Rightarrow> Inl code
               | Inr (recipient, offset) \<Rightarrow>
                   if offset \<noteq> length input then Inl ''wrap.arg.abi_invalid''
                   else Inr \<lparr>ui_asset_id = asset_id, ui_amount = amount, ui_recipient = recipient\<rparr>)))"

definition parse_input :: "bytes \<Rightarrow> string + unwrap_intent" where
  "parse_input input = parse_compact_input input"

definition parse_native_withdraw_input :: "bytes \<Rightarrow> string + bytes" where
  "parse_native_withdraw_input input =
    (if length input \<noteq> COMPACT_NATIVE_WITHDRAW_INPUT_LEN then Inl ''native_withdraw.arg.abi_invalid''
     else if input ! 0 \<noteq> 1 then Inl ''native_withdraw.arg.abi_invalid''
     else case read_compact_principal input 1 of
       Inl code \<Rightarrow> Inl code
     | Inr (recipient, offset) \<Rightarrow>
         if recipient = [4] then Inl ''native_withdraw.recipient_anonymous''
         else if offset \<noteq> length input then Inl ''native_withdraw.arg.abi_invalid''
         else Inr recipient)"

definition parse_icp_query_input :: "bytes \<Rightarrow> string + icp_query_request" where
  "parse_icp_query_input input =
    (if length input < 8 then Inl ''ic_query.arg.abi_invalid''
     else case pc_read_u8 input 0 of
       None \<Rightarrow> Inl ''ic_query.arg.abi_invalid''
     | Some (version, offset) \<Rightarrow>
     if version \<noteq> 1 then Inl ''ic_query.arg.version_invalid''
     else case pc_read_u8 input offset of
       None \<Rightarrow> Inl ''ic_query.arg.abi_invalid''
     | Some (kind, offset) \<Rightarrow>
     if kind = 1 then Inl ''ic_query.update_unimplemented''
     else if kind \<noteq> 0 then Inl ''ic_query.kind_invalid''
     else case read_query_principal input offset of
       Inl code \<Rightarrow> Inl code
     | Inr (target, offset) \<Rightarrow>
     case pc_read_u8 input offset of
       None \<Rightarrow> Inl ''ic_query.arg.abi_invalid''
     | Some (method_len, offset) \<Rightarrow>
     if unat method_len = 0 \<or> MAX_QUERY_METHOD_LEN < unat method_len then Inl ''ic_query.method_invalid''
     else case pc_read_exact input offset (unat method_len) of
       None \<Rightarrow> Inl ''ic_query.method_invalid''
     | Some (method_bytes, offset) \<Rightarrow>
     if \<not> utf8_valid method_bytes then Inl ''ic_query.method_invalid''
     else case read_u32_be input offset of
       None \<Rightarrow> Inl ''ic_query.arg.abi_invalid''
     | Some (arg_len, offset) \<Rightarrow>
     if MAX_ICP_UPDATE_ARG_LEN < unat arg_len then Inl ''ic_query.arg.too_large''
     else case pc_read_exact input offset (unat arg_len) of
       None \<Rightarrow> Inl ''ic_query.arg.abi_invalid''
     | Some (arg, offset) \<Rightarrow>
     if offset \<noteq> length input then Inl ''ic_query.arg.abi_invalid''
     else Inr \<lparr>iq_target = target, iq_method = method_bytes, iq_arg = arg\<rparr>)"

definition is_ascii :: "bytes \<Rightarrow> bool" where
  "is_ascii bs = list_all (\<lambda>b. b < 0x80) bs"

definition parse_icp_update_intent_input :: "bytes \<Rightarrow> string + icp_update_intent" where
  "parse_icp_update_intent_input input =
    (if length input < 8 then Inl ''ic_update.arg.abi_invalid''
     else case pc_read_u8 input 0 of
       None \<Rightarrow> Inl ''ic_update.arg.abi_invalid''
     | Some (version, offset) \<Rightarrow>
     if version \<noteq> 1 then Inl ''ic_update.arg.version_invalid''
     else case pc_read_u8 input offset of
       None \<Rightarrow> Inl ''ic_update.arg.abi_invalid''
     | Some (kind, offset) \<Rightarrow>
     if kind \<noteq> 1 then Inl ''ic_update.kind_invalid''
     else case read_ic_update_principal input offset of
       Inl code \<Rightarrow> Inl code
     | Inr (target, offset) \<Rightarrow>
     case pc_read_u8 input offset of
       None \<Rightarrow> Inl ''ic_update.arg.abi_invalid''
     | Some (method_len, offset) \<Rightarrow>
     if unat method_len = 0 \<or> MAX_QUERY_METHOD_LEN < unat method_len then Inl ''ic_update.method_invalid''
     else case pc_read_exact input offset (unat method_len) of
       None \<Rightarrow> Inl ''ic_update.method_invalid''
     | Some (method_bytes, offset) \<Rightarrow>
     if \<not> is_ascii method_bytes then Inl ''ic_update.method_invalid''
     else if \<not> utf8_valid method_bytes then Inl ''ic_update.method_invalid''
     else case read_u32_be input offset of
       None \<Rightarrow> Inl ''ic_update.arg.abi_invalid''
     | Some (arg_len, offset) \<Rightarrow>
     if MAX_ICP_UPDATE_ARG_LEN < unat arg_len then Inl ''ic_update.arg.too_large''
     else case pc_read_exact input offset (unat arg_len) of
       None \<Rightarrow> Inl ''ic_update.arg.abi_invalid''
     | Some (arg, offset) \<Rightarrow>
     if offset \<noteq> length input then Inl ''ic_update.arg.abi_invalid''
     else Inr \<lparr>ii_target = target, ii_method = method_bytes, ii_arg = arg\<rparr>)"

abbreviation WEI_PER_E8S :: u256 where "WEI_PER_E8S \<equiv> 10000000000"

definition native_value_to_e8s :: "u256 \<Rightarrow> u256 option" where
  "native_value_to_e8s value =
    (if value mod WEI_PER_E8S \<noteq> 0 then None else Some (value div WEI_PER_E8S))"

section \<open>Logs\<close>

definition wrap_event_topic0 :: "(bytes \<Rightarrow> bytes) \<Rightarrow> bytes" where
  "wrap_event_topic0 k = k (ascii ''KasaneUnwrapRequest(bytes)'')"

definition native_withdraw_event_topic0 :: "(bytes \<Rightarrow> bytes) \<Rightarrow> bytes" where
  "native_withdraw_event_topic0 k = k (ascii ''KasaneNativeWithdrawalRequest(bytes)'')"

definition icp_update_intent_event_topic0 :: "(bytes \<Rightarrow> bytes) \<Rightarrow> bytes" where
  "icp_update_intent_event_topic0 k = k (ascii ''KasaneIcpUpdateIntent(bytes)'')"

definition approval_event_topic0 :: "(bytes \<Rightarrow> bytes) \<Rightarrow> bytes" where
  "approval_event_topic0 k = k (ascii ''Approval(address,address,uint256)'')"

definition transfer_event_topic0 :: "(bytes \<Rightarrow> bytes) \<Rightarrow> bytes" where
  "transfer_event_topic0 k = k (ascii ''Transfer(address,address,uint256)'')"

definition encode_log_data :: "unwrap_intent \<Rightarrow> bytes" where
  "encode_log_data i =
    word_of_nat (length (ui_asset_id i)) # ui_asset_id i @ ui_amount i
      @ word_of_nat (length (ui_recipient i)) # ui_recipient i"

definition encode_native_withdraw_log_data :: "native_withdraw_intent \<Rightarrow> bytes" where
  "encode_native_withdraw_log_data i =
    ni_amount_e8s i @ word_of_nat (length (ni_recipient i)) # ni_recipient i"

definition encode_icp_update_intent_log_data :: "icp_update_intent \<Rightarrow> bytes" where
  "encode_icp_update_intent_log_data i =
    word_of_nat (length (ii_target i)) # ii_target i
      @ word_of_nat (length (ii_method i)) # ii_method i
      @ to_be_bytes (word_of_nat (length (ii_arg i)) :: u32) @ ii_arg i"

definition unwrap_intent_from_log :: "(bytes \<Rightarrow> bytes) \<Rightarrow> log_entry \<Rightarrow> unwrap_intent option" where
  "unwrap_intent_from_log k l =
    (if log_address l \<noteq> WRAP_PRECOMPILE_ADDRESS then None
     else if log_topics l \<noteq> [wrap_event_topic0 k] then None
     else do {
       (asset_id, offset) \<leftarrow> read_len_prefixed (log_data l) 0;
       (amount, offset) \<leftarrow> read_array_32 (log_data l) offset;
       (recipient, offset) \<leftarrow> read_len_prefixed (log_data l) offset;
       if offset \<noteq> length (log_data l) then None
       else Some \<lparr>ui_asset_id = asset_id, ui_amount = amount, ui_recipient = recipient\<rparr>
     })"

definition native_withdraw_intent_from_log :: "(bytes \<Rightarrow> bytes) \<Rightarrow> log_entry \<Rightarrow> native_withdraw_intent option" where
  "native_withdraw_intent_from_log k l =
    (if log_address l \<noteq> NATIVE_WITHDRAW_PRECOMPILE_ADDRESS then None
     else if log_topics l \<noteq> [native_withdraw_event_topic0 k] then None
     else do {
       (amount_e8s, offset) \<leftarrow> read_array_32 (log_data l) 0;
       (recipient, offset) \<leftarrow> read_len_prefixed (log_data l) offset;
       if offset \<noteq> length (log_data l) then None
       else Some \<lparr>ni_amount_e8s = amount_e8s, ni_recipient = recipient\<rparr>
     })"

definition icp_update_intent_from_log :: "(bytes \<Rightarrow> bytes) \<Rightarrow> log_entry \<Rightarrow> icp_update_intent option" where
  "icp_update_intent_from_log k l =
    (if log_address l \<noteq> ICP_UPDATE_INTENT_PRECOMPILE_ADDRESS then None
     else if log_topics l \<noteq> [icp_update_intent_event_topic0 k] then None
     else do {
       (target, offset) \<leftarrow> read_len_prefixed (log_data l) 0;
       if MAX_PRINCIPAL_LEN < length target then None
       else do {
         (method, offset) \<leftarrow> read_len_prefixed (log_data l) offset;
         if MAX_QUERY_METHOD_LEN < length method \<or> \<not> is_ascii method then None
         else do {
           (arg_len, offset) \<leftarrow> read_u32_be (log_data l) offset;
           if MAX_ICP_UPDATE_ARG_LEN < unat arg_len then None
           else do {
             (arg, offset) \<leftarrow> pc_read_exact (log_data l) offset (unat arg_len);
             if offset \<noteq> length (log_data l) then None
             else if \<not> utf8_valid method then None
             else Some \<lparr>ii_target = target, ii_method = method, ii_arg = arg\<rparr>
           }
         }
       }
     })"

section \<open>Gas\<close>

record gas =
  gas_limit_of :: u64
  gas_remaining :: u64

definition gas_new :: "u64 \<Rightarrow> gas" where
  "gas_new l = \<lparr>gas_limit_of = l, gas_remaining = l\<rparr>"

definition record_cost :: "u64 \<Rightarrow> gas \<Rightarrow> bool \<times> gas" where
  "record_cost cost g =
    (case checked_sub (gas_remaining g) cost of
       Some r \<Rightarrow> (True, g\<lparr>gas_remaining := r\<rparr>)
     | None \<Rightarrow> (False, g))"

definition estimate_wrap_precompile_gas :: "nat \<Rightarrow> nat \<Rightarrow> nat \<Rightarrow> u64" where
  "estimate_wrap_precompile_gas input_len log_data_len field_count =
    (let base_gas = sat_add 25000 45000;
         per_byte_gas = sat_mul 16 (word_of_nat input_len);
         per_field_gas = sat_mul 200 (word_of_nat field_count);
         topic_count = 1;
         log_gas = sat_add (sat_add 375 (sat_mul 375 topic_count)) (sat_mul 8 (word_of_nat log_data_len))
     in sat_add (sat_add (sat_add base_gas per_byte_gas) per_field_gas) log_gas)"

definition compute_extra_gas :: "u64 \<Rightarrow> u32 \<Rightarrow> u32 \<Rightarrow> u64" where
  "compute_extra_gas elapsed_instruction numerator denominator =
    (if elapsed_instruction = 0 \<or> numerator = 0 then 0
     else
       let denominator = max denominator 1;
           scaled = sat_mul (ucast elapsed_instruction) (ucast numerator) :: u128;
           rounded = sat_add scaled (sat_sub (ucast denominator) 1) div ucast denominator
       in ucast (min rounded (ucast (- 1 :: u64))))"

definition extra_gas_by_instruction_ratio :: "u64 \<Rightarrow> u64" where
  "extra_gas_by_instruction_ratio elapsed_instruction = compute_extra_gas elapsed_instruction 1 100"

definition extra_gas_for_precompile :: "bytes \<Rightarrow> u64 \<Rightarrow> u64" where
  "extra_gas_for_precompile address elapsed_instruction =
    (if address = WRAP_PRECOMPILE_ADDRESS then 0 else extra_gas_by_instruction_ratio elapsed_instruction)"

section \<open>Burning wrapped tokens\<close>

text \<open>What the precompiles use of the journal of the engine: loading an account, reading and writing a
  storage slot of a loaded account, and appending a log. A failure carries the text of the error.\<close>

record 'j journal_lib =
  load_account_mut :: "bytes \<Rightarrow> 'j \<Rightarrow> (string + unit) \<times> 'j"
  sload :: "bytes \<Rightarrow> u256 \<Rightarrow> 'j \<Rightarrow> (string + u256) \<times> 'j"
  sstore :: "bytes \<Rightarrow> u256 \<Rightarrow> u256 \<Rightarrow> 'j \<Rightarrow> (string + unit) \<times> 'j"
  journal_log :: "log_entry \<Rightarrow> 'j \<Rightarrow> 'j"

definition jmap_err :: "string \<Rightarrow> (string + 'a) \<times> 'j \<Rightarrow> (string + 'a) \<times> 'j" where
  "jmap_err code r = (case r of (Inl err, j) \<Rightarrow> (Inl (code @ err), j) | (Inr v, j) \<Rightarrow> (Inr v, j))"

definition jbind :: "(string + 'a) \<times> 'j \<Rightarrow> ('a \<Rightarrow> 'j \<Rightarrow> (string + 'b) \<times> 'j) \<Rightarrow> (string + 'b) \<times> 'j" where
  "jbind r f = (case r of (Inl err, j) \<Rightarrow> (Inl err, j) | (Inr v, j) \<Rightarrow> f v j)"

definition compute_asset_key :: "(bytes \<Rightarrow> bytes) \<Rightarrow> bytes \<Rightarrow> bytes" where
  "compute_asset_key k asset_id =
    k (ascii ''kasane.wrap.v1'' @ to_be_bytes (ucast CHAIN_ID :: u256) @ asset_id)"

definition mapping_slot :: "(bytes \<Rightarrow> bytes) \<Rightarrow> bytes \<Rightarrow> u256 \<Rightarrow> u256" where
  "mapping_slot k key slot = from_be_bytes (k (key @ to_be_bytes slot))"

definition topic_from_address :: "bytes \<Rightarrow> bytes" where
  "topic_from_address address = replicate 12 0 @ address"

definition address_mapping_slot :: "(bytes \<Rightarrow> bytes) \<Rightarrow> bytes \<Rightarrow> u64 \<Rightarrow> u256" where
  "address_mapping_slot k key slot = mapping_slot k (replicate 12 0 @ key) (ucast slot)"

definition allowance_slot :: "(bytes \<Rightarrow> bytes) \<Rightarrow> bytes \<Rightarrow> bytes \<Rightarrow> u256" where
  "allowance_slot k owner spender =
    mapping_slot k (replicate 12 0 @ spender) (address_mapping_slot k owner 4)"

definition load_factory_token_address ::
  "(bytes \<Rightarrow> bytes) \<Rightarrow> ('j, 'z) journal_lib_scheme \<Rightarrow> bytes \<Rightarrow> bytes \<Rightarrow> 'j \<Rightarrow> (string + bytes) \<times> 'j" where
  "load_factory_token_address k J factory asset_key j =
    jbind (jmap_err ''wrap.factory.account_load_failed:'' (load_account_mut J factory j)) (\<lambda>_ j.
    jbind (jmap_err ''wrap.factory.storage_read_failed:'' (sload J factory (mapping_slot k asset_key 0) j)) (\<lambda>v j.
    (Inr (drop 12 (to_be_bytes v)), j)))"

definition emit_approval_log ::
  "(bytes \<Rightarrow> bytes) \<Rightarrow> ('j, 'z) journal_lib_scheme \<Rightarrow> bytes \<Rightarrow> bytes \<Rightarrow> bytes \<Rightarrow> u256 \<Rightarrow> 'j \<Rightarrow> 'j" where
  "emit_approval_log k J token owner spender value j =
    journal_log J \<lparr>log_address = token,
      log_topics = [approval_event_topic0 k, topic_from_address owner, topic_from_address spender],
      log_data = to_be_bytes value\<rparr> j"

definition emit_transfer_log ::
  "(bytes \<Rightarrow> bytes) \<Rightarrow> ('j, 'z) journal_lib_scheme \<Rightarrow> bytes \<Rightarrow> bytes \<Rightarrow> bytes \<Rightarrow> u256 \<Rightarrow> 'j \<Rightarrow> 'j" where
  "emit_transfer_log k J token src to value j =
    journal_log J \<lparr>log_address = token,
      log_topics = [transfer_event_topic0 k, topic_from_address src, topic_from_address to],
      log_data = to_be_bytes value\<rparr> j"

definition burn_wrapped_asset ::
  "(bytes \<Rightarrow> bytes) \<Rightarrow> ('j, 'z) journal_lib_scheme \<Rightarrow> bytes \<Rightarrow> bytes \<Rightarrow> unwrap_intent \<Rightarrow> 'j \<Rightarrow> (string + unit) \<times> 'j" where
  "burn_wrapped_asset k J factory owner intent j =
    (let amount = from_be_bytes (ui_amount intent) :: u256;
         asset_key = compute_asset_key k (ui_asset_id intent);
         read_failed = ''wrap.burn.storage_read_failed:'';
         write_failed = ''wrap.burn.storage_write_failed:''
     in jbind (load_factory_token_address k J factory asset_key j) (\<lambda>token j.
     if token = replicate 20 0 then (Inl ''unwrap.token_not_deployed'', j)
     else
       let balance_slot = address_mapping_slot k owner 3;
           allowance_slot = allowance_slot k owner factory;
           total_supply_slot = 2
       in jbind (jmap_err ''wrap.burn.account_load_failed:'' (load_account_mut J token j)) (\<lambda>_ j.
     jbind (jmap_err read_failed (sload J token balance_slot j)) (\<lambda>balance j.
     if balance < amount then (Inl ''erc20.insufficient_balance'', j)
     else jbind (jmap_err read_failed (sload J token allowance_slot j)) (\<lambda>allowance j.
     jbind (if allowance = - 1 then (Inr None, j)
            else if allowance < amount then (Inl ''erc20.insufficient_allowance'', j)
            else jbind (jmap_err write_failed (sstore J token allowance_slot (allowance - amount) j))
              (\<lambda>_ j. (Inr (Some (allowance - amount)), j))) (\<lambda>approval_log_value j.
     jbind (jmap_err read_failed (sload J token total_supply_slot j)) (\<lambda>total_supply j.
     if total_supply < amount then (Inl ''erc20.insufficient_balance'', j)
     else jbind (jmap_err write_failed (sstore J token balance_slot (balance - amount) j)) (\<lambda>_ j.
     jbind (jmap_err write_failed (sstore J token total_supply_slot (total_supply - amount) j)) (\<lambda>_ j.
       let j = (case approval_log_value of
                  Some next_allowance \<Rightarrow> emit_approval_log k J token owner factory next_allowance j
                | None \<Rightarrow> j)
       in (Inr (), emit_transfer_log k J token owner (replicate 20 0) amount j))))))))))"

section \<open>Running a precompile\<close>

record call_inputs =
  ci_bytecode_address :: bytes
  ci_caller :: bytes
  ci_gas_limit :: u64
  ci_is_static :: bool
  ci_value :: u256
  ci_input :: bytes

datatype precompile_result = IrReturn | IrPrecompileOOG | IrPrecompileError string | IrOther

record interpreter_result =
  ir_result :: precompile_result
  ir_gas :: gas
  ir_output :: bytes

record precompile_access =
  wrap_side_effects :: bool
  icp_query_access :: bool
  icp_update_intent_access :: bool

definition precompile_fail :: "u64 \<Rightarrow> string \<Rightarrow> interpreter_result" where
  "precompile_fail gas_limit msg = \<lparr>ir_result = IrPrecompileError msg, ir_gas = gas_new gas_limit, ir_output = []\<rparr>"

definition precompile_oog :: "u64 \<Rightarrow> interpreter_result" where
  "precompile_oog gas_limit = \<lparr>ir_result = IrPrecompileOOG, ir_gas = gas_new gas_limit, ir_output = []\<rparr>"

definition charged_return :: "u64 \<Rightarrow> u64 \<Rightarrow> bytes \<Rightarrow> interpreter_result" where
  "charged_return gas_limit estimated_gas output =
    (case record_cost estimated_gas (gas_new gas_limit) of
       (True, g) \<Rightarrow> \<lparr>ir_result = IrReturn, ir_gas = g, ir_output = output\<rparr>
     | (False, _) \<Rightarrow> precompile_oog gas_limit)"

definition run_wrap_precompile ::
  "(bytes \<Rightarrow> bytes) \<Rightarrow> ('j, 'z) journal_lib_scheme \<Rightarrow> bytes \<Rightarrow> call_inputs \<Rightarrow> bool \<Rightarrow> 'j \<Rightarrow> interpreter_result \<times> 'j" where
  "run_wrap_precompile k J factory inputs allow_external j =
    (let gas_limit = ci_gas_limit inputs
     in if \<not> allow_external then (precompile_fail gas_limit ''wrap.precompile.query_disallowed'', j)
        else if ci_is_static inputs then (precompile_fail gas_limit ''wrap.precompile.static_disallowed'', j)
        else case parse_input (ci_input inputs) of
          Inl code \<Rightarrow> (precompile_fail gas_limit code, j)
        | Inr parsed \<Rightarrow>
            (case burn_wrapped_asset k J factory (ci_caller inputs) parsed j of
               (Inl code, j) \<Rightarrow> (precompile_fail gas_limit code, j)
             | (Inr _, j) \<Rightarrow>
                 let data = encode_log_data parsed;
                     j = journal_log J \<lparr>log_address = WRAP_PRECOMPILE_ADDRESS,
                           log_topics = [wrap_event_topic0 k], log_data = data\<rparr> j
                 in (charged_return gas_limit
                       (estimate_wrap_precompile_gas (length (ci_input inputs)) (length data) 2) [], j)))"

definition run_native_withdraw_precompile ::
  "(bytes \<Rightarrow> bytes) \<Rightarrow> ('j, 'z) journal_lib_scheme \<Rightarrow> call_inputs \<Rightarrow> bool \<Rightarrow> 'j \<Rightarrow> interpreter_result \<times> 'j" where
  "run_native_withdraw_precompile k J inputs allow_external j =
    (let gas_limit = ci_gas_limit inputs
     in if \<not> allow_external then (precompile_fail gas_limit ''native_withdraw.precompile.query_disallowed'', j)
        else if ci_is_static inputs then (precompile_fail gas_limit ''native_withdraw.precompile.static_disallowed'', j)
        else case parse_native_withdraw_input (ci_input inputs) of
          Inl code \<Rightarrow> (precompile_fail gas_limit code, j)
        | Inr recipient \<Rightarrow>
            (case native_value_to_e8s (ci_value inputs) of
               None \<Rightarrow> (precompile_fail gas_limit ''native_withdraw.amount_not_e8s_aligned'', j)
             | Some amount_e8s \<Rightarrow>
                 if amount_e8s = 0 then (precompile_fail gas_limit ''native_withdraw.amount_zero'', j)
                 else
                   let data = encode_native_withdraw_log_data
                         \<lparr>ni_amount_e8s = to_be_bytes amount_e8s, ni_recipient = recipient\<rparr>;
                       j = journal_log J \<lparr>log_address = NATIVE_WITHDRAW_PRECOMPILE_ADDRESS,
                             log_topics = [native_withdraw_event_topic0 k], log_data = data\<rparr> j
                   in (charged_return gas_limit
                         (estimate_wrap_precompile_gas (length (ci_input inputs)) (length data) 2) [], j)))"

definition precompile_allow_key :: "bytes \<Rightarrow> bytes \<Rightarrow> bytes" where
  "precompile_allow_key target method = word_of_nat (length target) # target @ method"

definition run_icp_update_intent_precompile ::
  "(bytes \<Rightarrow> bytes) \<Rightarrow> ('j, 'z) journal_lib_scheme \<Rightarrow> bytes list \<Rightarrow> call_inputs \<Rightarrow> bool \<Rightarrow> 'j \<Rightarrow> interpreter_result \<times> 'j" where
  "run_icp_update_intent_precompile k J update_allowlist inputs allow_external j =
    (let gas_limit = ci_gas_limit inputs
     in if \<not> allow_external then (precompile_fail gas_limit ''ic_update.precompile.external_disallowed'', j)
        else if ci_is_static inputs then (precompile_fail gas_limit ''ic_update.static_disallowed'', j)
        else if ci_value inputs \<noteq> 0 then (precompile_fail gas_limit ''ic_update.value_disallowed'', j)
        else case parse_icp_update_intent_input (ci_input inputs) of
          Inl code \<Rightarrow> (precompile_fail gas_limit code, j)
        | Inr intent \<Rightarrow>
            if precompile_allow_key (ii_target intent) (ii_method intent) \<notin> set update_allowlist
            then (precompile_fail gas_limit ''ic_update.allowlist_miss'', j)
            else
              let data = encode_icp_update_intent_log_data intent;
                  j = journal_log J \<lparr>log_address = ICP_UPDATE_INTENT_PRECOMPILE_ADDRESS,
                        log_topics = [icp_update_intent_event_topic0 k], log_data = data\<rparr> j
              in (charged_return gas_limit
                    (sat_add (sat_add 80000 (sat_mul 16 (word_of_nat (length (ci_input inputs)))))
                       (sat_mul 8 (word_of_nat (length data)))) [], j))"

section \<open>Queries of other canisters\<close>

datatype icp_query_reply = QueryOk bytes | QueryErr string

datatype icp_query_mode = ModeDisabled | ModeDetect | ModeReply icp_query_request icp_query_reply

record icp_query_context =
  qc_mode :: icp_query_mode
  qc_calls :: u8
  qc_pending :: "icp_query_request option"

definition icp_query_disabled :: icp_query_context where
  "icp_query_disabled = \<lparr>qc_mode = ModeDisabled, qc_calls = 0, qc_pending = None\<rparr>"

definition enter_detection :: "icp_query_context \<Rightarrow> icp_query_context" where
  "enter_detection ctx =
    (if qc_mode ctx = ModeDisabled then \<lparr>qc_mode = ModeDetect, qc_calls = 0, qc_pending = None\<rparr> else ctx)"

definition enter_reply :: "icp_query_request \<Rightarrow> icp_query_reply \<Rightarrow> icp_query_context \<Rightarrow> icp_query_context" where
  "enter_reply expected reply ctx = \<lparr>qc_mode = ModeReply expected reply, qc_calls = 0, qc_pending = None\<rparr>"

definition with_icp_query_detection ::
  "(icp_query_context \<Rightarrow> 'a \<times> icp_query_context) \<Rightarrow> icp_query_context \<Rightarrow> ('a \<times> icp_query_request option) \<times> icp_query_context" where
  "with_icp_query_detection f prior =
    (let (out, ctx) = f (enter_detection prior) in ((out, qc_pending ctx), prior))"

definition with_icp_query_reply ::
  "icp_query_request \<Rightarrow> icp_query_reply \<Rightarrow> (icp_query_context \<Rightarrow> 'a \<times> icp_query_context) \<Rightarrow> icp_query_context
    \<Rightarrow> 'a \<times> icp_query_context" where
  "with_icp_query_reply expected reply f prior =
    (let (out, ctx) = f (enter_reply expected reply prior) in (out, prior))"

definition resolve_icp_query_reply ::
  "icp_query_request \<Rightarrow> icp_query_context \<Rightarrow> (string + icp_query_reply) \<times> icp_query_context" where
  "resolve_icp_query_reply request ctx =
    (if qc_calls ctx \<noteq> 0 then (Inl ''ic_query.call_limit'', ctx)
     else
       let ctx = ctx\<lparr>qc_calls := sat_add (qc_calls ctx) 1\<rparr>
       in case qc_mode ctx of
            ModeDisabled \<Rightarrow> (Inl ''ic_query.async_context_required'', ctx)
          | ModeDetect \<Rightarrow> (Inl ''ic_query.pending'', ctx\<lparr>qc_pending := Some request\<rparr>)
          | ModeReply expected reply \<Rightarrow>
              if request \<noteq> expected then (Inl ''ic_query.request_mismatch'', ctx) else (Inr reply, ctx))"

definition icp_query_return :: "nat \<Rightarrow> bytes \<Rightarrow> u64 \<Rightarrow> interpreter_result" where
  "icp_query_return input_len output gas_limit =
    charged_return gas_limit
      (sat_add (sat_add 50000 (sat_mul 16 (word_of_nat input_len))) (sat_mul 8 (word_of_nat (length output)))) output"

definition run_icp_query_precompile ::
  "call_inputs \<Rightarrow> bool \<Rightarrow> icp_query_context \<Rightarrow> interpreter_result \<times> icp_query_context" where
  "run_icp_query_precompile inputs allow_external ctx =
    (let gas_limit = ci_gas_limit inputs
     in if \<not> allow_external then (precompile_fail gas_limit ''ic_query.precompile.query_disallowed'', ctx)
        else if ci_value inputs \<noteq> 0 then (precompile_fail gas_limit ''ic_query.value_disallowed'', ctx)
        else case parse_icp_query_input (ci_input inputs) of
          Inl code \<Rightarrow> (precompile_fail gas_limit code, ctx)
        | Inr request \<Rightarrow>
            (case resolve_icp_query_reply request ctx of
               (Inl code, ctx) \<Rightarrow> (precompile_fail gas_limit code, ctx)
             | (Inr (QueryOk bs), ctx) \<Rightarrow> (icp_query_return (length (ci_input inputs)) bs gas_limit, ctx)
             | (Inr (QueryErr code), ctx) \<Rightarrow> (precompile_fail gas_limit code, ctx)))"

section \<open>The provider\<close>

record precompile_profile =
  pf_calls :: u64
  pf_total_instructions :: u128
  pf_max_instructions :: u64
  pf_total_extra_gas :: u128
  pf_max_extra_gas :: u64

definition record_precompile_profile ::
  "bytes \<Rightarrow> u64 \<Rightarrow> u64 \<Rightarrow> (bytes, precompile_profile) omap \<Rightarrow> (bytes, precompile_profile) omap" where
  "record_precompile_profile address elapsed extra_gas m =
    (let e = (case oget m address of
                Some e \<Rightarrow> e
              | None \<Rightarrow> \<lparr>pf_calls = 0, pf_total_instructions = 0, pf_max_instructions = 0,
                          pf_total_extra_gas = 0, pf_max_extra_gas = 0\<rparr>)
     in oinsert address
          \<lparr>pf_calls = sat_add (pf_calls e) 1,
           pf_total_instructions = sat_add (pf_total_instructions e) (ucast elapsed),
           pf_max_instructions = max (pf_max_instructions e) elapsed,
           pf_total_extra_gas = sat_add (pf_total_extra_gas e) (ucast extra_gas),
           pf_max_extra_gas = max (pf_max_extra_gas e) extra_gas\<rparr> m)"

record precompile_profile_entry =
  pe_address :: bytes
  pe_calls :: u64
  pe_total_instructions :: u128
  pe_avg_instructions :: u64
  pe_max_instructions :: u64
  pe_total_extra_gas :: u128
  pe_avg_extra_gas :: u64
  pe_max_extra_gas :: u64

definition precompile_profile_snapshot :: "(bytes, precompile_profile) omap \<Rightarrow> precompile_profile_entry list" where
  "precompile_profile_snapshot m =
    map (\<lambda>(address, acc).
      let calls = max (pf_calls acc) 1
      in \<lparr>pe_address = address, pe_calls = pf_calls acc, pe_total_instructions = pf_total_instructions acc,
          pe_avg_instructions = ucast (pf_total_instructions acc div ucast calls),
          pe_max_instructions = pf_max_instructions acc, pe_total_extra_gas = pf_total_extra_gas acc,
          pe_avg_extra_gas = ucast (pf_total_extra_gas acc div ucast calls),
          pe_max_extra_gas = pf_max_extra_gas acc\<rparr>) (entries m)"

text \<open>The state a call to the provider works on: the journal, the query context and the profile.\<close>

record 'j precompile_state =
  ps_journal :: 'j
  ps_query :: icp_query_context
  ps_profile :: "(bytes, precompile_profile) omap"

record precompile_provider =
  pp_access :: precompile_access
  pp_update_allowlist :: "bytes list"

definition provider_run ::
  "(bytes \<Rightarrow> bytes) \<Rightarrow> ('j, 'z) journal_lib_scheme \<Rightarrow> (call_inputs \<Rightarrow> 'j \<Rightarrow> (string + interpreter_result option) \<times> 'j)
    \<Rightarrow> bytes \<Rightarrow> u64 \<Rightarrow> u64 \<Rightarrow> precompile_provider \<Rightarrow> call_inputs \<Rightarrow> 'j precompile_state
    \<Rightarrow> (string + interpreter_result option) \<times> 'j precompile_state" where
  "provider_run k J inner factory started finished p inputs st =
    (let address = ci_bytecode_address inputs;
         access = pp_access p;
         (output, st1) =
           (if address = WRAP_PRECOMPILE_ADDRESS
            then let (r, j) = run_wrap_precompile k J factory inputs (wrap_side_effects access) (ps_journal st)
                 in (Inr (Some r), st\<lparr>ps_journal := j\<rparr>)
            else if address = NATIVE_WITHDRAW_PRECOMPILE_ADDRESS
            then let (r, j) = run_native_withdraw_precompile k J inputs (wrap_side_effects access) (ps_journal st)
                 in (Inr (Some r), st\<lparr>ps_journal := j\<rparr>)
            else if address = ICP_QUERY_PRECOMPILE_ADDRESS
            then let (r, ctx) = run_icp_query_precompile inputs (icp_query_access access) (ps_query st)
                 in (Inr (Some r), st\<lparr>ps_query := ctx\<rparr>)
            else if address = ICP_UPDATE_INTENT_PRECOMPILE_ADDRESS
            then let (r, j) = run_icp_update_intent_precompile k J (pp_update_allowlist p) inputs
                        (icp_update_intent_access access) (ps_journal st)
                 in (Inr (Some r), st\<lparr>ps_journal := j\<rparr>)
            else let (r, j) = inner inputs (ps_journal st) in (r, st\<lparr>ps_journal := j\<rparr>))
     in case output of
          Inl err \<Rightarrow> (Inl err, st1)
        | Inr None \<Rightarrow> (Inr None, st1)
        | Inr (Some out) \<Rightarrow>
            let elapsed = sat_sub finished started;
                extra_gas = extra_gas_for_precompile address elapsed;
                out = (if extra_gas = 0 then out
                       else case record_cost extra_gas (ir_gas out) of
                         (True, g) \<Rightarrow> out\<lparr>ir_gas := g\<rparr>
                       | (False, _) \<Rightarrow> precompile_oog (ci_gas_limit inputs))
            in (Inr (Some out), st1\<lparr>ps_profile := record_precompile_profile address elapsed extra_gas (ps_profile st1)\<rparr>))"

section \<open>Reading back what was logged\<close>

lemma pc_read_exact_mid: "pc_read_exact (xs @ ys @ zs) (length xs) (length ys) = Some (ys, length xs + length ys)"
  by (simp add: pc_read_exact_def byte_slice_def)

lemma pc_read_u8_mid: "pc_read_u8 (xs @ b # zs) (length xs) = Some (b, Suc (length xs))"
  by (simp add: pc_read_u8_def)

lemma small_len_byte: "n < 256 \<Longrightarrow> unat (word_of_nat n :: u8) = n"
  by (simp add: unat_of_nat)

lemma read_len_prefixed_mid:
  assumes "ys \<noteq> []" "length ys \<le> MAX_FIELD_LEN"
  shows "read_len_prefixed (xs @ word_of_nat (length ys) # ys @ zs) (length xs)
    = Some (ys, length xs + 1 + length ys)"
  using assms pc_read_u8_mid [of xs "word_of_nat (length ys)" "ys @ zs"]
    pc_read_exact_mid [of "xs @ [word_of_nat (length ys)]" ys zs]
  by (simp add: read_len_prefixed_def small_len_byte)

lemma read_array_32_mid: "length ys = 32 \<Longrightarrow> read_array_32 (xs @ ys @ zs) (length xs) = Some (ys, length xs + 32)"
  using pc_read_exact_mid [of xs ys zs] by (simp add: read_array_32_def)

lemma read_u32_be_mid: "read_u32_be (xs @ to_be_bytes w @ zs) (length xs) = Some (w, length xs + 4)"
  using pc_read_exact_mid [of xs "to_be_bytes w" zs] by (simp add: read_u32_be_def)

definition unwrap_intent_ok :: "unwrap_intent \<Rightarrow> bool" where
  "unwrap_intent_ok i \<longleftrightarrow> ui_asset_id i \<noteq> [] \<and> length (ui_asset_id i) \<le> MAX_PRINCIPAL_LEN
    \<and> length (ui_amount i) = 32 \<and> ui_recipient i \<noteq> [] \<and> length (ui_recipient i) \<le> MAX_PRINCIPAL_LEN"

definition icp_update_intent_ok :: "icp_update_intent \<Rightarrow> bool" where
  "icp_update_intent_ok i \<longleftrightarrow> ii_target i \<noteq> [] \<and> length (ii_target i) \<le> MAX_PRINCIPAL_LEN
    \<and> ii_method i \<noteq> [] \<and> length (ii_method i) \<le> MAX_QUERY_METHOD_LEN \<and> is_ascii (ii_method i)
    \<and> length (ii_arg i) \<le> MAX_ICP_UPDATE_ARG_LEN"

lemma unwrap_log_read_back:
  assumes "unwrap_intent_ok i"
  shows "unwrap_intent_from_log k
    \<lparr>log_address = WRAP_PRECOMPILE_ADDRESS, log_topics = [wrap_event_topic0 k], log_data = encode_log_data i\<rparr> = Some i"
proof -
  let ?a = "word_of_nat (length (ui_asset_id i)) # ui_asset_id i"
  have "read_len_prefixed (encode_log_data i) 0 = Some (ui_asset_id i, length ?a)"
    using assms read_len_prefixed_mid [of "ui_asset_id i" "[]"] by (simp add: encode_log_data_def unwrap_intent_ok_def)
  moreover have "read_array_32 (encode_log_data i) (length ?a) = Some (ui_amount i, length ?a + 32)"
    using assms read_array_32_mid [of "ui_amount i" ?a] by (simp add: encode_log_data_def unwrap_intent_ok_def)
  moreover have "read_len_prefixed (encode_log_data i) (length ?a + 32) = Some (ui_recipient i, length (encode_log_data i))"
    using assms read_len_prefixed_mid [of "ui_recipient i" "?a @ ui_amount i" "[]"]
    by (simp add: encode_log_data_def unwrap_intent_ok_def)
  ultimately show ?thesis
    by (simp add: unwrap_intent_from_log_def del: One_nat_def)
qed

lemma native_withdraw_log_read_back:
  assumes "length (ni_amount_e8s i) = 32" "ni_recipient i \<noteq> []" "length (ni_recipient i) \<le> MAX_PRINCIPAL_LEN"
  shows "native_withdraw_intent_from_log k
    \<lparr>log_address = NATIVE_WITHDRAW_PRECOMPILE_ADDRESS, log_topics = [native_withdraw_event_topic0 k],
     log_data = encode_native_withdraw_log_data i\<rparr> = Some i"
proof -
  have "read_array_32 (encode_native_withdraw_log_data i) 0 = Some (ni_amount_e8s i, 32)"
    using assms read_array_32_mid [of "ni_amount_e8s i" "[]"] by (simp add: encode_native_withdraw_log_data_def)
  moreover have "read_len_prefixed (encode_native_withdraw_log_data i) 32
      = Some (ni_recipient i, length (encode_native_withdraw_log_data i))"
    using assms read_len_prefixed_mid [of "ni_recipient i" "ni_amount_e8s i" "[]"]
    by (simp add: encode_native_withdraw_log_data_def)
  ultimately show ?thesis
    by (simp add: native_withdraw_intent_from_log_def)
qed

lemma icp_update_log_read_back:
  assumes "icp_update_intent_ok i"
  shows "icp_update_intent_from_log k
    \<lparr>log_address = ICP_UPDATE_INTENT_PRECOMPILE_ADDRESS, log_topics = [icp_update_intent_event_topic0 k],
     log_data = encode_icp_update_intent_log_data i\<rparr> = Some i"
proof -
  let ?d = "encode_icp_update_intent_log_data i"
  let ?a = "word_of_nat (length (ii_target i)) # ii_target i"
  let ?m = "word_of_nat (length (ii_method i)) # ii_method i"
  let ?l = "to_be_bytes (word_of_nat (length (ii_arg i)) :: u32)"
  have "length (ii_target i) \<le> 120" "length (ii_method i) \<le> 120"
    using assms by (auto simp: icp_update_intent_ok_def)
  note ok = assms [unfolded icp_update_intent_ok_def] this
  have "read_len_prefixed ?d 0 = Some (ii_target i, length ?a)"
    using ok read_len_prefixed_mid [of "ii_target i" "[]"] by (simp add: encode_icp_update_intent_log_data_def)
  moreover have "read_len_prefixed ?d (length ?a) = Some (ii_method i, length (?a @ ?m))"
    using ok read_len_prefixed_mid [of "ii_method i" ?a] by (simp add: encode_icp_update_intent_log_data_def)
  moreover have "read_u32_be ?d (length (?a @ ?m)) = Some (word_of_nat (length (ii_arg i)), length (?a @ ?m) + 4)"
    using read_u32_be_mid [of "?a @ ?m"] by (simp add: encode_icp_update_intent_log_data_def)
  moreover have "unat (word_of_nat (length (ii_arg i)) :: u32) = length (ii_arg i)"
    using ok by (simp add: unat_of_nat)
  moreover have "pc_read_exact ?d (length (?a @ ?m) + 4) (length (ii_arg i)) = Some (ii_arg i, length ?d)"
    using pc_read_exact_mid [of "?a @ ?m @ ?l" "ii_arg i" "[]"] by (simp add: encode_icp_update_intent_log_data_def)
  moreover have "utf8_valid (ii_method i)"
    using ok utf8_ascii by (simp add: is_ascii_def)
  ultimately show ?thesis
    using ok by (simp add: icp_update_intent_from_log_def)
qed

section \<open>What a parsed intent looks like\<close>

lemma pc_read_exact_Some: "pc_read_exact d off n = Some (r, e) \<Longrightarrow> length r = n \<and> e = off + n \<and> e \<le> length d"
  by (auto simp: pc_read_exact_def byte_slice_def split: if_splits)

lemma read_compact_principal_Inr:
  assumes "read_compact_principal d off = Inr (r, e)"
  shows "r \<noteq> [] \<and> length r \<le> MAX_PRINCIPAL_LEN \<and> e = off + 30"
  using assms
  by (auto simp: read_compact_principal_def pc_read_u8_def is_valid_principal_bytes_def split: option.splits if_splits
      dest!: pc_read_exact_Some)

lemma parse_compact_input_Inr:
  assumes "parse_compact_input input = Inr i"
  shows "unwrap_intent_ok i"
  using assms
  by (auto simp: parse_compact_input_def unwrap_intent_ok_def read_array_32_def split: if_splits sum.splits option.splits
      dest!: pc_read_exact_Some read_compact_principal_Inr)

lemma parse_native_withdraw_input_Inr:
  assumes "parse_native_withdraw_input input = Inr r"
  shows "r \<noteq> [] \<and> length r \<le> MAX_PRINCIPAL_LEN \<and> r \<noteq> [4]"
  using assms
  by (auto simp: parse_native_withdraw_input_def split: if_splits sum.splits option.splits
      dest!: read_compact_principal_Inr)

lemma read_ic_update_principal_Inr:
  assumes "read_ic_update_principal d off = Inr (r, e)"
  shows "r \<noteq> [] \<and> length r \<le> MAX_PRINCIPAL_LEN"
  using assms
  by (auto simp: read_ic_update_principal_def is_valid_principal_bytes_def split: option.splits if_splits
      dest!: pc_read_exact_Some)

lemma parse_icp_update_intent_input_Inr:
  assumes "parse_icp_update_intent_input input = Inr i"
  shows "icp_update_intent_ok i"
  using assms
  by (auto simp: parse_icp_update_intent_input_def icp_update_intent_ok_def
      split: if_splits sum.splits option.splits dest!: pc_read_exact_Some read_ic_update_principal_Inr)

section \<open>What the unwrap precompile does to the journal\<close>

text \<open>What the precompile relies on of the journal, read through the storage and the logs it holds:
  the database of the node never fails, a read changes nothing, a write changes one slot.\<close>

definition journal_laws ::
  "('j, 'z) journal_lib_scheme \<Rightarrow> ('j \<Rightarrow> bytes \<Rightarrow> u256 \<Rightarrow> u256) \<Rightarrow> ('j \<Rightarrow> log_entry list) \<Rightarrow> bool" where
  "journal_laws J st lg \<longleftrightarrow>
    (\<forall>a j. case load_account_mut J a j of (r, j') \<Rightarrow> r = Inr () \<and> st j' = st j \<and> lg j' = lg j)
    \<and> (\<forall>a i j. case sload J a i j of (r, j') \<Rightarrow> r = Inr (st j a i) \<and> st j' = st j \<and> lg j' = lg j)
    \<and> (\<forall>a i v j. case sstore J a i v j of (r, j') \<Rightarrow>
          r = Inr () \<and> st j' = (st j)(a := (st j a)(i := v)) \<and> lg j' = lg j)
    \<and> (\<forall>l j. st (journal_log J l j) = st j \<and> lg (journal_log J l j) = lg j @ [l])"

lemma jbind_load:
  assumes "journal_laws J st lg" and "\<And>j'. st j' = st j \<Longrightarrow> lg j' = lg j \<Longrightarrow> P (f () j')"
  shows "P (jbind (jmap_err c (load_account_mut J a j)) f)"
proof -
  have "case load_account_mut J a j of (r, j') \<Rightarrow> r = Inr () \<and> st j' = st j \<and> lg j' = lg j"
    using assms(1) by (simp add: journal_laws_def)
  with assms(2) show ?thesis
    by (cases "load_account_mut J a j") (auto simp: jbind_def jmap_err_def)
qed

lemma jbind_sload:
  assumes "journal_laws J st lg" and "\<And>j'. st j' = st j \<Longrightarrow> lg j' = lg j \<Longrightarrow> P (f (st j a i) j')"
  shows "P (jbind (jmap_err c (sload J a i j)) f)"
proof -
  have "case sload J a i j of (r, j') \<Rightarrow> r = Inr (st j a i) \<and> st j' = st j \<and> lg j' = lg j"
    using assms(1) by (simp add: journal_laws_def)
  with assms(2) show ?thesis
    by (cases "sload J a i j") (auto simp: jbind_def jmap_err_def)
qed

lemma jbind_sstore:
  assumes "journal_laws J st lg"
    and "\<And>j'. st j' = (st j)(a := (st j a)(i := v)) \<Longrightarrow> lg j' = lg j \<Longrightarrow> P (f () j')"
  shows "P (jbind (jmap_err c (sstore J a i v j)) f)"
proof -
  have "case sstore J a i v j of (r, j') \<Rightarrow> r = Inr () \<and> st j' = (st j)(a := (st j a)(i := v)) \<and> lg j' = lg j"
    using assms(1) by (simp add: journal_laws_def)
  with assms(2) show ?thesis
    by (cases "sstore J a i v j") (auto simp: jbind_def jmap_err_def)
qed

lemma jbind_Inr: "P (f v j) \<Longrightarrow> P (jbind (Inr v, j) f)"
  by (simp add: jbind_def)

lemma jbind_assoc: "jbind (jbind r f) g = jbind r (\<lambda>v j. jbind (f v j) g)"
  by (auto simp: jbind_def split: prod.splits sum.splits)

lemma journal_log_laws:
  assumes "journal_laws J st lg"
  shows "st (journal_log J l j) = st j" "lg (journal_log J l j) = lg j @ [l]"
  using assms by (simp_all add: journal_laws_def)

text \<open>The wrapped token of an asset, and the three slots of it an unwrap by an owner touches.\<close>

definition wrapped_token :: "(bytes \<Rightarrow> bytes) \<Rightarrow> (bytes \<Rightarrow> u256 \<Rightarrow> u256) \<Rightarrow> bytes \<Rightarrow> bytes \<Rightarrow> bytes" where
  "wrapped_token k slots factory asset_id =
    drop 12 (to_be_bytes (slots factory (mapping_slot k (compute_asset_key k asset_id) 0)))"

definition slots_apart :: "(bytes \<Rightarrow> bytes) \<Rightarrow> bytes \<Rightarrow> bytes \<Rightarrow> bool" where
  "slots_apart k factory owner \<longleftrightarrow>
    distinct [address_mapping_slot k owner 3, allowance_slot k owner factory, 2]"

definition burn_logs :: "(bytes \<Rightarrow> bytes) \<Rightarrow> bytes \<Rightarrow> bytes \<Rightarrow> bytes \<Rightarrow> u256 \<Rightarrow> u256 \<Rightarrow> log_entry list" where
  "burn_logs k token factory owner allowance amount =
    (if allowance = - 1 then []
     else [\<lparr>log_address = token,
            log_topics = [approval_event_topic0 k, topic_from_address owner, topic_from_address factory],
            log_data = to_be_bytes (allowance - amount)\<rparr>])
    @ [\<lparr>log_address = token,
        log_topics = [transfer_event_topic0 k, topic_from_address owner, topic_from_address (replicate 20 0)],
        log_data = to_be_bytes amount\<rparr>]"

definition burned ::
  "(bytes \<Rightarrow> bytes) \<Rightarrow> bytes \<Rightarrow> bytes \<Rightarrow> unwrap_intent \<Rightarrow> (bytes \<Rightarrow> u256 \<Rightarrow> u256) \<Rightarrow> (bytes \<Rightarrow> u256 \<Rightarrow> u256) \<Rightarrow> bool" where
  "burned k factory owner intent before after \<longleftrightarrow>
    (let token = wrapped_token k before factory (ui_asset_id intent);
         amount = from_be_bytes (ui_amount intent);
         b = address_mapping_slot k owner 3;
         a = allowance_slot k owner factory
     in token \<noteq> replicate 20 0 \<and> amount \<le> before token b \<and> amount \<le> before token 2 \<and> amount \<le> before token a
        \<and> after = before(token := (before token)
            (a := if before token a = - 1 then - 1 else before token a - amount,
             b := before token b - amount, 2 := before token 2 - amount)))"

definition burn_post ::
  "(bytes \<Rightarrow> bytes) \<Rightarrow> bytes \<Rightarrow> bytes \<Rightarrow> unwrap_intent \<Rightarrow> ('j \<Rightarrow> bytes \<Rightarrow> u256 \<Rightarrow> u256) \<Rightarrow> ('j \<Rightarrow> log_entry list) \<Rightarrow> 'j
    \<Rightarrow> (string + unit) \<times> 'j \<Rightarrow> bool" where
  "burn_post k factory owner intent st lg j = (\<lambda>(r, j').
    r = Inr () \<longrightarrow> burned k factory owner intent (st j) (st j')
      \<and> (let token = wrapped_token k (st j) factory (ui_asset_id intent)
         in lg j' = lg j @ burn_logs k token factory owner (st j token (allowance_slot k owner factory))
              (from_be_bytes (ui_amount intent))))"

lemma burn_post_Inl [simp]: "burn_post k factory owner intent st lg j (Inl c, j')"
  by (simp add: burn_post_def)

lemma le_max_word [simp]: "v \<le> (- 1 :: 'a::len word)"
  using unat_bound [of v] by (simp add: word_le_nat_alt)

lemma burn_wrapped_asset_post:
  assumes laws: "journal_laws J st lg" and apart: "slots_apart k factory owner"
  shows "burn_post k factory owner intent st lg j (burn_wrapped_asset k J factory owner intent j)"
proof -
  let ?token = "wrapped_token k (st j) factory (ui_asset_id intent)"
  let ?amount = "from_be_bytes (ui_amount intent) :: u256"
  have apart': "address_mapping_slot k owner 3 \<noteq> allowance_slot k owner factory"
      "address_mapping_slot k owner 3 \<noteq> 2" "allowance_slot k owner factory \<noteq> 2"
    using apart by (auto simp: slots_apart_def)
  note laws_simps = journal_log_laws [OF laws] emit_approval_log_def emit_transfer_log_def
  show ?thesis
    unfolding burn_wrapped_asset_def load_factory_token_address_def Let_def jbind_assoc
    apply (rule jbind_load [OF laws], rule jbind_sload [OF laws], rule jbind_Inr)
    apply (split if_split, intro conjI impI, simp)
    apply (rule jbind_load [OF laws], rule jbind_sload [OF laws])
    apply (split if_split, intro conjI impI, simp)
    apply (rule jbind_sload [OF laws])
    apply (split if_split, intro conjI impI)
    subgoal
      apply (rule jbind_Inr, rule jbind_sload [OF laws])
      apply (split if_split, intro conjI impI, simp)
      apply (rule jbind_sstore [OF laws], rule jbind_sstore [OF laws])
      using apart' by (auto simp: burn_post_def burned_def burn_logs_def wrapped_token_def laws_simps Let_def not_less fun_eq_iff)
    apply (split if_split, intro conjI impI)
    subgoal
      by (simp add: jbind_def)
    subgoal
      apply (simp only: jbind_assoc)
      apply (rule jbind_sstore [OF laws], rule jbind_Inr, rule jbind_sload [OF laws])
      apply (split if_split, intro conjI impI, simp)
      apply (rule jbind_sstore [OF laws], rule jbind_sstore [OF laws])
      using apart' by (auto simp: burn_post_def burned_def burn_logs_def wrapped_token_def laws_simps Let_def not_less fun_eq_iff)
    done
qed

lemma charged_return_IrReturn:
  "ir_result (charged_return l c out) = IrReturn
    \<Longrightarrow> c \<le> l \<and> gas_remaining (ir_gas (charged_return l c out)) = l - c \<and> ir_output (charged_return l c out) = out"
  by (auto simp: charged_return_def record_cost_def gas_new_def precompile_oog_def checked_sub_def split: if_splits)

lemma ir_result_fail [simp]: "ir_result (precompile_fail l c) = IrPrecompileError c"
  by (simp add: precompile_fail_def)

lemma burn_logs_no_intent:
  "List.map_filter (unwrap_intent_from_log k) (burn_logs k token factory owner allowance amount) = []"
  "List.map_filter (native_withdraw_intent_from_log k) (burn_logs k token factory owner allowance amount) = []"
  by (auto simp: burn_logs_def unwrap_intent_from_log_def native_withdraw_intent_from_log_def List.map_filter_def)

lemma precompile_addresses_apart:
  "distinct [WRAP_PRECOMPILE_ADDRESS, NATIVE_WITHDRAW_PRECOMPILE_ADDRESS, ICP_QUERY_PRECOMPILE_ADDRESS,
    ICP_UPDATE_INTENT_PRECOMPILE_ADDRESS]"
  by (simp add: WRAP_PRECOMPILE_ADDRESS_def NATIVE_WITHDRAW_PRECOMPILE_ADDRESS_def
      ICP_QUERY_PRECOMPILE_ADDRESS_def ICP_UPDATE_INTENT_PRECOMPILE_ADDRESS_def)

lemma run_wrap_precompile_IrReturn:
  assumes "run_wrap_precompile k J factory inputs allow j = (r, j')" "ir_result r = IrReturn"
  obtains intent j1 where "allow" "\<not> ci_is_static inputs" "parse_input (ci_input inputs) = Inr intent"
    "burn_wrapped_asset k J factory (ci_caller inputs) intent j = (Inr (), j1)"
    "j' = journal_log J \<lparr>log_address = WRAP_PRECOMPILE_ADDRESS, log_topics = [wrap_event_topic0 k],
      log_data = encode_log_data intent\<rparr> j1"
    "r = charged_return (ci_gas_limit inputs)
      (estimate_wrap_precompile_gas (length (ci_input inputs)) (length (encode_log_data intent)) 2) []"
  using assms by (auto simp: run_wrap_precompile_def Let_def split: if_splits sum.splits prod.splits)

text \<open>C10: an unwrap that succeeds burned what it announces. When the unwrap precompile returns normally, side
  effects were allowed and the call was not static; the balance of the caller, its allowance to the factory
  (unless unlimited) and the total supply of the wrapped token each dropped by exactly the requested amount and
  no other storage slot changed; and among the logs it appended exactly one is read back by the gateway as an
  unwrap request, with the asset, amount and recipient the input asked for, and none as a native withdrawal.\<close>

theorem unwrap_burns_what_it_logs:
  assumes "journal_laws J st lg" "slots_apart k factory (ci_caller inputs)"
    and "run_wrap_precompile k J factory inputs allow j = (r, j')" "ir_result r = IrReturn"
  shows "allow \<and> \<not> ci_is_static inputs
    \<and> (\<exists>intent new. parse_input (ci_input inputs) = Inr intent
        \<and> burned k factory (ci_caller inputs) intent (st j) (st j')
        \<and> lg j' = lg j @ new
        \<and> List.map_filter (unwrap_intent_from_log k) new = [intent]
        \<and> List.map_filter (native_withdraw_intent_from_log k) new = [])"
proof -
  obtain intent j1 where run: "allow" "\<not> ci_is_static inputs" "parse_input (ci_input inputs) = Inr intent"
      "burn_wrapped_asset k J factory (ci_caller inputs) intent j = (Inr (), j1)"
    and j': "j' = journal_log J \<lparr>log_address = WRAP_PRECOMPILE_ADDRESS, log_topics = [wrap_event_topic0 k],
      log_data = encode_log_data intent\<rparr> j1"
    using run_wrap_precompile_IrReturn [OF assms(3,4)] by metis
  let ?l = "\<lparr>log_address = WRAP_PRECOMPILE_ADDRESS, log_topics = [wrap_event_topic0 k], log_data = encode_log_data intent\<rparr>"
  obtain logs where post: "burned k factory (ci_caller inputs) intent (st j) (st j1)" "lg j1 = lg j @ logs"
    and logs: "List.map_filter (unwrap_intent_from_log k) logs = []"
      "List.map_filter (native_withdraw_intent_from_log k) logs = []"
    using burn_wrapped_asset_post [OF assms(1,2), of intent j] run(4) burn_logs_no_intent
    by (auto simp: burn_post_def Let_def)
  have "unwrap_intent_from_log k ?l = Some intent"
    using run(3) by (intro unwrap_log_read_back parse_compact_input_Inr) (simp add: parse_input_def)
  moreover have "native_withdraw_intent_from_log k ?l = None"
    using precompile_addresses_apart by (simp add: native_withdraw_intent_from_log_def)
  ultimately show ?thesis
    using run post logs journal_log_laws [OF assms(1)]
    by (intro conjI exI [of _ intent] exI [of _ "logs @ [?l]"]) (simp_all add: j' List.map_filter_def)
qed

text \<open>A journal over plain storage, to run the precompiles on concrete values.\<close>

definition plain_journal :: "((bytes \<Rightarrow> u256 \<Rightarrow> u256) \<times> log_entry list) journal_lib" where
  "plain_journal = \<lparr>load_account_mut = (\<lambda>a j. (Inr (), j)), sload = (\<lambda>a i j. (Inr (fst j a i), j)),
    sstore = (\<lambda>a i v j. (Inr (), ((fst j)(a := (fst j a)(i := v)), snd j))),
    journal_log = (\<lambda>l j. (fst j, snd j @ [l]))\<rparr>"

definition plain_hash :: "bytes \<Rightarrow> bytes" where
  "plain_hash bs = replicate 31 0 @ [last (take 32 bs)]"

definition unwrap_call :: call_inputs where
  "unwrap_call = \<lparr>ci_bytecode_address = WRAP_PRECOMPILE_ADDRESS, ci_caller = replicate 20 7, ci_gas_limit = 100000,
    ci_is_static = False, ci_value = 0,
    ci_input = [1] @ ([2, 9, 9] @ replicate 27 0) @ (replicate 31 0 @ [5]) @ ([1, 8] @ replicate 28 0)\<rparr>"

lemma from_be_leading_zeros [simp]: "from_be (replicate n 0 @ bs) = from_be bs"
  by (induction n) (simp_all add: from_be_Cons)

lemma last_be_bytes: "last (be_bytes (Suc n) v) = word_of_nat v"
  by (induction n) simp_all

lemma last_to_be_bytes: "last (to_be_bytes (v :: u256)) = word_of_nat (unat v)"
  using last_be_bytes [of 31 "unat v"] by (simp add: to_be_bytes_def)

theorem unwrap_burns_what_it_logs_witness:
  "\<exists>new. snd (snd (run_wrap_precompile plain_hash plain_journal (replicate 20 6) unwrap_call True (\<lambda>_ _. 1000, []))) = new
    \<and> List.map_filter (unwrap_intent_from_log plain_hash) new
        = [\<lparr>ui_asset_id = [9, 9], ui_amount = replicate 31 0 @ [5], ui_recipient = [8]\<rparr>]"
proof -
  let ?run = "run_wrap_precompile plain_hash plain_journal (replicate 20 6) unwrap_call True (\<lambda>_ _. 1000, [])"
  have laws: "journal_laws plain_journal fst snd"
    by (simp add: journal_laws_def plain_journal_def)
  have slots: "address_mapping_slot plain_hash (replicate 20 7) 3 = 7" "allowance_slot plain_hash (replicate 20 7) (replicate 20 6) = 6"
    by (simp_all add: address_mapping_slot_def allowance_slot_def mapping_slot_def plain_hash_def from_be_bytes_def from_be_Cons)
  then have apart: "slots_apart plain_hash (replicate 20 6) (ci_caller unwrap_call)"
    by (simp add: slots_apart_def unwrap_call_def)
  have parsed: "parse_input (ci_input unwrap_call)
      = Inr \<lparr>ui_asset_id = [9, 9], ui_amount = replicate 31 0 @ [5], ui_recipient = [8]\<rparr>"
    by code_simp
  have "last (drop 12 (to_be_bytes (1000 :: u256))) \<noteq> last (replicate 20 0)"
    by (simp add: last_to_be_bytes)
  then have token: "drop 12 (to_be_bytes (1000 :: u256)) \<noteq> replicate 20 0"
    by metis
  have ok: "ir_result (fst ?run) = IrReturn"
    using parsed token slots
    by (simp add: run_wrap_precompile_def burn_wrapped_asset_def load_factory_token_address_def plain_journal_def
        jbind_def jmap_err_def emit_approval_log_def emit_transfer_log_def Let_def unwrap_call_def from_be_bytes_def
        from_be_Cons encode_log_data_def charged_return_def estimate_wrap_precompile_gas_def record_cost_def gas_new_def
        checked_sub_def sat_add_def sat_mul_def)
  show ?thesis
    using unwrap_burns_what_it_logs [OF laws apart, of True "(\<lambda>_ _. 1000, [])" "fst ?run" "snd ?run"] ok parsed
    by auto
qed

definition withdrawal_announced ::
  "(bytes \<Rightarrow> bytes) \<Rightarrow> ('j, 'z) journal_lib_scheme \<Rightarrow> call_inputs \<Rightarrow> 'j \<Rightarrow> 'j \<Rightarrow> bool" where
  "withdrawal_announced k J inputs j j' \<longleftrightarrow> \<not> ci_is_static inputs
    \<and> (\<exists>l recipient amount. j' = journal_log J l j
        \<and> parse_native_withdraw_input (ci_input inputs) = Inr recipient \<and> recipient \<noteq> [4]
        \<and> amount \<noteq> 0 \<and> unat (ci_value inputs) = unat amount * 10 ^ 10
        \<and> native_withdraw_intent_from_log k l
            = Some \<lparr>ni_amount_e8s = to_be_bytes (amount :: u256), ni_recipient = recipient\<rparr>
        \<and> unwrap_intent_from_log k l = None)"

definition update_announced ::
  "(bytes \<Rightarrow> bytes) \<Rightarrow> ('j, 'z) journal_lib_scheme \<Rightarrow> bytes list \<Rightarrow> call_inputs \<Rightarrow> 'j \<Rightarrow> 'j \<Rightarrow> bool" where
  "update_announced k J allowlist inputs j j' \<longleftrightarrow> \<not> ci_is_static inputs \<and> ci_value inputs = 0
    \<and> (\<exists>l intent. j' = journal_log J l j
        \<and> parse_icp_update_intent_input (ci_input inputs) = Inr intent
        \<and> precompile_allow_key (ii_target intent) (ii_method intent) \<in> set allowlist
        \<and> icp_update_intent_from_log k l = Some intent)"

lemma native_value_to_e8s_Some:
  "native_value_to_e8s v = Some a \<Longrightarrow> unat v = unat a * 10 ^ 10"
  by (auto simp: native_value_to_e8s_def unat_word_div word_unat_eq_iff unat_mod split: if_splits)

text \<open>C38: withdrawals and update calls are announced as they were asked for. A native withdrawal that returns
  normally burned a call value that is a positive whole number of e8s, and appends one log, which the gateway
  reads back as exactly that amount for the requested, non-anonymous recipient. An update intent that returns
  normally carried no value, was not static, its target and method are on the allow list, and the one log it
  appends is read back as the target, method and argument of the input.\<close>

theorem withdrawal_and_update_logged:
  "(run_native_withdraw_precompile k J inputs allow j = (r, j') \<and> ir_result r = IrReturn
      \<longrightarrow> allow \<and> withdrawal_announced k J inputs j j')
    \<and> (run_icp_update_intent_precompile k J allowlist inputs allow j = (r, j') \<and> ir_result r = IrReturn
      \<longrightarrow> allow \<and> update_announced k J allowlist inputs j j')"
proof (intro conjI [of "_ \<longrightarrow> _" "_ \<longrightarrow> _"] impI; elim conjE)
  assume "run_native_withdraw_precompile k J inputs allow j = (r, j')" "ir_result r = IrReturn"
  then obtain recipient amount where a: "allow" "\<not> ci_is_static inputs"
      "parse_native_withdraw_input (ci_input inputs) = Inr recipient"
      "native_value_to_e8s (ci_value inputs) = Some amount" "amount \<noteq> 0"
    and j': "j' = journal_log J \<lparr>log_address = NATIVE_WITHDRAW_PRECOMPILE_ADDRESS,
      log_topics = [native_withdraw_event_topic0 k], log_data = encode_native_withdraw_log_data
        \<lparr>ni_amount_e8s = to_be_bytes amount, ni_recipient = recipient\<rparr>\<rparr> j"
    by (auto simp: run_native_withdraw_precompile_def Let_def split: if_splits sum.splits option.splits)
  then show "allow \<and> withdrawal_announced k J inputs j j'"
    using parse_native_withdraw_input_Inr [OF a(3)] native_value_to_e8s_Some [OF a(4)] precompile_addresses_apart
      native_withdraw_log_read_back [of "\<lparr>ni_amount_e8s = to_be_bytes amount, ni_recipient = recipient\<rparr>" k]
    unfolding withdrawal_announced_def
    by (intro conjI exI [of _ amount] exI [of _ recipient] exI) (auto simp: unwrap_intent_from_log_def)
next
  assume "run_icp_update_intent_precompile k J allowlist inputs allow j = (r, j')" "ir_result r = IrReturn"
  then obtain intent where a: "allow" "\<not> ci_is_static inputs" "ci_value inputs = 0"
      "parse_icp_update_intent_input (ci_input inputs) = Inr intent"
      "precompile_allow_key (ii_target intent) (ii_method intent) \<in> set allowlist"
    and j': "j' = journal_log J \<lparr>log_address = ICP_UPDATE_INTENT_PRECOMPILE_ADDRESS,
      log_topics = [icp_update_intent_event_topic0 k], log_data = encode_icp_update_intent_log_data intent\<rparr> j"
    by (auto simp: run_icp_update_intent_precompile_def Let_def split: if_splits sum.splits option.splits)
  then show "allow \<and> update_announced k J allowlist inputs j j'"
    using icp_update_log_read_back [OF parse_icp_update_intent_input_Inr [OF a(4)], of k]
    unfolding update_announced_def by (intro conjI exI [of _ intent] exI) auto
qed

definition withdraw_call :: call_inputs where
  "withdraw_call = \<lparr>ci_bytecode_address = NATIVE_WITHDRAW_PRECOMPILE_ADDRESS, ci_caller = replicate 20 7,
    ci_gas_limit = 100000, ci_is_static = False, ci_value = 30000000000, ci_input = [1, 1, 8] @ replicate 28 0\<rparr>"

theorem withdrawal_and_update_logged_witness:
  "withdrawal_announced plain_hash plain_journal withdraw_call (\<lambda>_ _. 0, [])
    (snd (run_native_withdraw_precompile plain_hash plain_journal withdraw_call True (\<lambda>_ _. 0, [])))"
proof -
  let ?run = "run_native_withdraw_precompile plain_hash plain_journal withdraw_call True (\<lambda>_ _. 0, [])"
  have "parse_native_withdraw_input (ci_input withdraw_call) = Inr [8]"
    by code_simp
  then have "ir_result (fst ?run) = IrReturn"
    by (simp add: run_native_withdraw_precompile_def native_value_to_e8s_def Let_def withdraw_call_def
        encode_native_withdraw_log_data_def charged_return_def estimate_wrap_precompile_gas_def record_cost_def
        gas_new_def checked_sub_def sat_add_def sat_mul_def)
  then show ?thesis
    using withdrawal_and_update_logged [THEN conjunct1, rule_format, of plain_hash plain_journal withdraw_call True
        "(\<lambda>_ _. 0, [])" "fst ?run" "snd ?run"] by simp
qed

end
