(* ===== verification/Precompile_Rules.thy ===== *)
theory Precompile_Rules
  imports Precompiles
begin

text \<open>
  The predicates over observed inputs, logs and charges of \<open>verified-core/src/kasane_precompiles.rs\<close>, and what
  they say of the precompiles: the parsers accept exactly the inputs the predicates call safe, and the charged
  gas is what the predicates allow. Presence and equality bits are 0 or 1.
\<close>

definition compact_principal_slot_safe_raw :: "u64 \<Rightarrow> u64 \<Rightarrow> u64 \<Rightarrow> bool" where
  "compact_principal_slot_safe_raw len slot_present padding_zero =
    (len \<ge> 1 \<and> len \<le> 29 \<and> slot_present = 1 \<and> padding_zero = 1)"

definition compact_unwrap_input_safe_raw ::
  "u64 \<Rightarrow> u64 \<Rightarrow> u64 \<Rightarrow> u64 \<Rightarrow> u64 \<Rightarrow> u64 \<Rightarrow> u64 \<Rightarrow> u64 \<Rightarrow> u64 \<Rightarrow> bool" where
  "compact_unwrap_input_safe_raw input_len version asset_len asset_slot_present asset_padding_zero amount_present
      recipient_len recipient_slot_present recipient_padding_zero =
    (input_len = 93 \<and> version = 1 \<and> asset_len \<ge> 1 \<and> asset_len \<le> 29 \<and> asset_slot_present = 1
      \<and> asset_padding_zero = 1 \<and> amount_present = 1 \<and> recipient_len \<ge> 1 \<and> recipient_len \<le> 29
      \<and> recipient_slot_present = 1 \<and> recipient_padding_zero = 1)"

definition compact_native_withdraw_input_safe_raw :: "u64 \<Rightarrow> u64 \<Rightarrow> u64 \<Rightarrow> u64 \<Rightarrow> u64 \<Rightarrow> u64 \<Rightarrow> bool" where
  "compact_native_withdraw_input_safe_raw input_len version recipient_len recipient_slot_present
      recipient_padding_zero recipient_is_anonymous =
    (input_len = 31 \<and> version = 1 \<and> recipient_len \<ge> 1 \<and> recipient_len \<le> 29 \<and> recipient_slot_present = 1
      \<and> recipient_padding_zero = 1 \<and> recipient_is_anonymous = 0)"

definition compact_icp_query_input_safe_raw ::
  "u64 \<Rightarrow> u64 \<Rightarrow> u64 \<Rightarrow> u64 \<Rightarrow> u64 \<Rightarrow> u64 \<Rightarrow> u64 \<Rightarrow> u64 \<Rightarrow> u64 \<Rightarrow> bool" where
  "compact_icp_query_input_safe_raw version kind target_len target_present method_len method_present method_utf8
      arg_present consumed_exact =
    (version = 1 \<and> kind = 0 \<and> target_len \<ge> 1 \<and> target_len \<le> 29 \<and> target_present = 1 \<and> method_len \<ge> 1
      \<and> method_len \<le> 64 \<and> method_present = 1 \<and> method_utf8 = 1 \<and> arg_present = 1 \<and> consumed_exact = 1)"

definition icp_query_update_kind_rejected_raw :: "u64 \<Rightarrow> bool" where
  "icp_query_update_kind_rejected_raw kind = (kind = 1)"

definition icp_precompile_allowlist_entry_safe_raw :: "u64 \<Rightarrow> u64 \<Rightarrow> u64 \<Rightarrow> u64 \<Rightarrow> bool" where
  "icp_precompile_allowlist_entry_safe_raw target_len target_non_anonymous method_len method_ascii =
    (target_len \<ge> 1 \<and> target_len \<le> 29 \<and> target_non_anonymous = 1 \<and> method_len \<ge> 1 \<and> method_len \<le> 64
      \<and> method_ascii = 1)"

definition precompile_log_shape_safe_raw :: "u64 \<Rightarrow> u64 \<Rightarrow> u64 \<Rightarrow> u64 \<Rightarrow> u64 \<Rightarrow> u64 \<Rightarrow> bool" where
  "precompile_log_shape_safe_raw address_code expected_address_code topic_count topic_matches data_consumed
      fields_valid =
    (address_code = expected_address_code \<and> topic_count = 1 \<and> topic_matches = 1 \<and> data_consumed = 1
      \<and> fields_valid = 1)"

definition precompile_extra_gas_policy_safe_raw :: "u64 \<Rightarrow> u64 \<Rightarrow> u64 \<Rightarrow> bool" where
  "precompile_extra_gas_policy_safe_raw address_code ratio_extra_gas extra_gas =
    (address_code = 1 \<and> extra_gas = 0 \<or> address_code \<noteq> 1 \<and> extra_gas = ratio_extra_gas)"

definition wrap_precompile_gas_observation_safe_raw ::
  "u64 \<Rightarrow> u64 \<Rightarrow> u64 \<Rightarrow> u64 \<Rightarrow> u64 \<Rightarrow> u64 \<Rightarrow> u64 \<Rightarrow> u64 \<Rightarrow> bool" where
  "wrap_precompile_gas_observation_safe_raw input_len_a log_data_len_a field_count_a gas_a
      input_len_b log_data_len_b field_count_b gas_b =
    (gas_a \<ge> 45000 \<and> gas_b \<ge> 45000
      \<and> ((input_len_a > input_len_b \<or> log_data_len_a > log_data_len_b \<or> field_count_a > field_count_b)
          \<or> gas_a \<le> gas_b))"

definition icp_query_gas_observation_safe_raw :: "u64 \<Rightarrow> u64 \<Rightarrow> u64 \<Rightarrow> u64 \<Rightarrow> u64 \<Rightarrow> u64 \<Rightarrow> bool" where
  "icp_query_gas_observation_safe_raw observed_address_code input_len reply_len charged_gas gas_limit
      returned_success =
    (let exact_combined_len = input_len \<le> 768614336404562567 \<and> reply_len \<le> 768614336404562567;
         exact_charged_gas =
           (if exact_combined_len
            then let input_gas = input_len * 16; reply_gas = reply_len * 8
                 in charged_gas \<ge> 50000 + input_gas + reply_gas
            else True)
     in observed_address_code = 3 \<and> returned_success \<le> 1 \<and> exact_charged_gas
        \<and> (returned_success \<noteq> 1 \<or> gas_limit \<ge> charged_gas)
        \<and> (returned_success \<noteq> 0 \<or> gas_limit < charged_gas))"

definition icp_query_execution_gate_safe_raw :: "u64 \<Rightarrow> u64 \<Rightarrow> u64 \<Rightarrow> u64 \<Rightarrow> bool" where
  "icp_query_execution_gate_safe_raw calls_before mode_allows_external value_is_zero parsed_input =
    (calls_before = 0 \<and> mode_allows_external = 1 \<and> value_is_zero = 1 \<and> parsed_input = 1)"

lemmas [rule_defs] =
  compact_principal_slot_safe_raw_def compact_unwrap_input_safe_raw_def compact_native_withdraw_input_safe_raw_def
  precompile_log_shape_safe_raw_def precompile_extra_gas_policy_safe_raw_def wrap_precompile_gas_observation_safe_raw_def
  icp_query_gas_observation_safe_raw_def icp_query_execution_gate_safe_raw_def

section \<open>Observations\<close>

definition obs :: "bool \<Rightarrow> u64" where
  "obs b = (if b then 1 else 0)"

lemma obs_simps [simp]: "obs b = 1 \<longleftrightarrow> b" "obs b = 0 \<longleftrightarrow> \<not> b"
  by (simp_all add: obs_def)

definition byte_at :: "bytes \<Rightarrow> nat \<Rightarrow> u8" where
  "byte_at d i = (if i < length d then d ! i else 0)"

text \<open>A principal field: its length byte, whether its 29-byte slot fits, and whether the padding is zero.\<close>

definition slot_present :: "bytes \<Rightarrow> nat \<Rightarrow> bool" where
  "slot_present d i \<longleftrightarrow> i + 30 \<le> length d"

definition slot_padding_zero :: "bytes \<Rightarrow> nat \<Rightarrow> bool" where
  "slot_padding_zero d i \<longleftrightarrow> list_all (\<lambda>b. b = 0) (drop (unat (byte_at d i)) (byte_slice (i + 1) (i + 30) d))"

definition unwrap_input_safe :: "bytes \<Rightarrow> bool" where
  "unwrap_input_safe d =
    compact_unwrap_input_safe_raw (word_of_nat (length d)) (ucast (byte_at d 0))
      (ucast (byte_at d 1)) (obs (slot_present d 1)) (obs (slot_padding_zero d 1)) (obs (63 \<le> length d))
      (ucast (byte_at d 63)) (obs (slot_present d 63)) (obs (slot_padding_zero d 63))"

definition native_withdraw_input_safe :: "bytes \<Rightarrow> bool" where
  "native_withdraw_input_safe d =
    compact_native_withdraw_input_safe_raw (word_of_nat (length d)) (ucast (byte_at d 0))
      (ucast (byte_at d 1)) (obs (slot_present d 1)) (obs (slot_padding_zero d 1))
      (obs (byte_at d 1 = 1 \<and> byte_at d 2 = 4))"

lemma ucast_byte: "unat (ucast (b :: u8) :: u64) = unat b"
  using unsigned_less [of b, where 'a = nat] by (simp add: unat_ucast_fit)

lemma byte_range: "(ucast (b :: u8) :: u64) \<ge> 1 \<longleftrightarrow> unat b \<ge> 1" "(ucast b :: u64) \<le> 29 \<longleftrightarrow> unat b \<le> 29"
    "(ucast b :: u64) = 1 \<longleftrightarrow> b = 1"
  by (simp_all add: word_le_nat_alt ucast_byte word_unat_eq_iff)

lemma len_word: "n < 2 ^ 64 \<Longrightarrow> m < 2 ^ 64 \<Longrightarrow> (word_of_nat n :: u64) = word_of_nat m \<longleftrightarrow> n = m"
  by (simp add: word_unat_eq_iff unat_of_nat)

lemma read_compact_principal_iff:
  "(\<exists>r e. read_compact_principal d i = Inr (r, e)) \<longleftrightarrow>
    slot_present d i \<and> 1 \<le> unat (byte_at d i) \<and> unat (byte_at d i) \<le> 29 \<and> slot_padding_zero d i"
  by (auto simp: read_compact_principal_def pc_read_u8_def pc_read_exact_def is_valid_principal_bytes_def slot_present_def
      slot_padding_zero_def byte_at_def list_all_iff list_ex_iff add.commute [of 30] split: option.splits if_splits)

lemma read_compact_principal_value:
  "read_compact_principal d i = Inr (r, e) \<Longrightarrow> r = take (unat (byte_at d i)) (byte_slice (i + 1) (i + 30) d) \<and> e = i + 30"
  by (auto simp: read_compact_principal_def pc_read_u8_def pc_read_exact_def byte_at_def add.commute [of 30]
      split: option.splits if_splits)

lemma parse_compact_input_iff:
  "(\<exists>i. parse_compact_input d = Inr i) \<longleftrightarrow>
    length d = 93 \<and> byte_at d 0 = 1 \<and> (\<exists>r e. read_compact_principal d 1 = Inr (r, e))
      \<and> (\<exists>r e. read_compact_principal d 63 = Inr (r, e))"
proof (cases "length d = 93 \<and> d ! 0 = 1")
  case True
  have "read_array_32 d 31 = Some (byte_slice 31 63 d, 63)"
    using True by (simp add: read_array_32_def pc_read_exact_def)
  note amount = this
  show ?thesis
  proof (cases "read_compact_principal d 1")
    case (Inr p)
    then obtain asset where asset: "read_compact_principal d 1 = Inr (asset, 31)"
      using read_compact_principal_Inr [of d 1 "fst p" "snd p"] by (cases p) simp
    show ?thesis
    proof (cases "read_compact_principal d 63")
      case (Inr q)
      then have "snd q = 93"
        using read_compact_principal_Inr [of d 63 "fst q" "snd q"] by simp
      then show ?thesis
        using True asset amount Inr by (cases q) (simp add: parse_compact_input_def byte_at_def)
    qed (use True asset amount in \<open>simp add: parse_compact_input_def\<close>)
  qed (use True in \<open>simp add: parse_compact_input_def\<close>)
qed (auto simp: parse_compact_input_def byte_at_def)

lemma parse_native_withdraw_input_iff:
  "(\<exists>r. parse_native_withdraw_input d = Inr r) \<longleftrightarrow>
    length d = 31 \<and> byte_at d 0 = 1 \<and> (\<exists>r e. read_compact_principal d 1 = Inr (r, e) \<and> r \<noteq> [4])"
  by (auto simp: parse_native_withdraw_input_def byte_at_def split: sum.splits if_splits dest: read_compact_principal_Inr)

lemma anonymous_slot:
  assumes "read_compact_principal d 1 = Inr (r, e)" "length d = 31"
  shows "r = [4] \<longleftrightarrow> byte_at d 1 = 1 \<and> byte_at d 2 = 4"
proof -
  let ?n = "unat (byte_at d 1)"
  have n: "1 \<le> ?n" "?n \<le> 29"
    using assms read_compact_principal_iff [of d 1] by blast+
  have r: "r = take ?n (byte_slice 2 31 d)"
    using read_compact_principal_value [OF assms(1)] by (simp add: numeral_2_eq_2)
  have slice: "byte_slice 2 31 d = d ! 2 # byte_slice 3 31 d"
    using assms(2) by (simp add: byte_slice_def Cons_nth_drop_Suc [symmetric])
  have "length r = ?n"
    using assms(2) n r by (simp add: byte_slice_def)
  then show ?thesis
    using r n assms(2) slice
    by (cases "?n = 1") (auto simp: byte_at_def word_unat_eq_iff take_Cons')
qed

text \<open>C39: the parsers accept exactly the safe inputs. An input that fits in memory is accepted by the unwrap
  parser if and only if the predicate over its observed length, version, length bytes, slots and padding calls it
  safe, and likewise for native withdrawals, where the anonymous recipient is not safe.\<close>

theorem parsers_accept_safe_inputs:
  assumes "length d < 2 ^ 64"
  shows "((\<exists>i. parse_input d = Inr i) \<longleftrightarrow> unwrap_input_safe d)
    \<and> ((\<exists>r. parse_native_withdraw_input d = Inr r) \<longleftrightarrow> native_withdraw_input_safe d)"
proof
  have len: "(word_of_nat (length d) :: u64) = 93 \<longleftrightarrow> length d = 93" "(word_of_nat (length d) :: u64) = 31 \<longleftrightarrow> length d = 31"
    using len_word [OF assms, of 93] len_word [OF assms, of 31] by simp_all
  show "(\<exists>i. parse_input d = Inr i) \<longleftrightarrow> unwrap_input_safe d"
    unfolding parse_input_def parse_compact_input_iff read_compact_principal_iff
    by (auto simp: unwrap_input_safe_def compact_unwrap_input_safe_raw_def byte_range len)
  show "(\<exists>r. parse_native_withdraw_input d = Inr r) \<longleftrightarrow> native_withdraw_input_safe d"
    unfolding parse_native_withdraw_input_iff native_withdraw_input_safe_def compact_native_withdraw_input_safe_raw_def
      len byte_range obs_simps
    using anonymous_slot [of d] read_compact_principal_iff [of d 1] by blast
qed

theorem parsers_accept_safe_inputs_witness:
  "unwrap_input_safe (ci_input unwrap_call) \<and> native_withdraw_input_safe (ci_input withdraw_call)
    \<and> \<not> native_withdraw_input_safe ([1, 1, 4] @ replicate 28 0)"
proof -
  have "parse_input (ci_input unwrap_call)
        = Inr \<lparr>ui_asset_id = [9, 9], ui_amount = replicate 31 0 @ [5], ui_recipient = [8]\<rparr>"
      "parse_native_withdraw_input (ci_input withdraw_call) = Inr [8]"
      "parse_native_withdraw_input ([1, 1, 4] @ replicate 28 0) = Inl ''native_withdraw.recipient_anonymous''"
    by code_simp+
  then show ?thesis
    using parsers_accept_safe_inputs [of "ci_input unwrap_call"] parsers_accept_safe_inputs [of "ci_input withdraw_call"]
      parsers_accept_safe_inputs [of "[1, 1, 4] @ replicate 28 0"]
    by (simp add: unwrap_call_def withdraw_call_def)
qed

end
