(* ===== verification/Gateway_Requests.thy ===== *)
theory Gateway_Requests
  imports Precompile_Rules
begin

unbundle bit_operations_syntax

text \<open>
  The requests the gateway keeps until another canister has answered, and their stored form:
  \<open>evm-db/src/chain_data/unwrap_request.rs\<close> and \<open>icp_update_request.rs\<close>. Every record ends in a CRC-32 of what
  precedes it; an unreadable record is replaced by a placeholder that can never be dispatched. Rust strings are
  the bytes of their UTF-8 form.
\<close>

section \<open>Checksums and readers\<close>

definition crc32_step :: "u32 \<Rightarrow> u32" where
  "crc32_step crc = drop_bit 1 crc XOR (0xEDB88320 AND (0 - (crc AND 1)))"

definition crc32_byte :: "u32 \<Rightarrow> u8 \<Rightarrow> u32" where
  "crc32_byte crc b = (crc32_step ^^ 8) (crc XOR ucast b)"

definition crc32_ieee :: "bytes \<Rightarrow> u32" where
  "crc32_ieee data = NOT (foldl crc32_byte (NOT 0) data)"

definition write_bytes :: "bytes \<Rightarrow> bytes option" where
  "write_bytes bs = map_option (\<lambda>n :: u16. to_be_bytes n @ bs) (try_of_nat (length bs))"

definition read_bytes :: "bytes \<Rightarrow> nat \<Rightarrow> nat \<Rightarrow> bool \<Rightarrow> (bytes \<times> nat) option" where
  "read_bytes data offset max_len reject_empty = do {
     (len_raw, len_end) \<leftarrow> pc_read_exact data offset 2;
     let n = unat (from_be_bytes len_raw :: u16);
     if reject_empty \<and> n = 0 \<or> max_len < n then None else pc_read_exact data len_end n
   }"

definition ur_read_u64 :: "bytes \<Rightarrow> nat \<Rightarrow> (u64 \<times> nat) option" where
  "ur_read_u64 data offset = map_option (\<lambda>(b, off). (from_be_bytes b, off)) (pc_read_exact data offset 8)"

definition checksum_matches :: "bytes \<Rightarrow> nat \<Rightarrow> bool" where
  "checksum_matches data offset \<longleftrightarrow> length data = offset + 4
    \<and> crc32_ieee (take offset data) = from_be_bytes (byte_slice offset (offset + 4) data)"

section \<open>Unwrap requests\<close>

datatype unwrap_request_status = UrQueued | UrDispatching | UrDispatched | UrDispatchFailed

fun unwrap_status_to_u8 :: "unwrap_request_status \<Rightarrow> u8" where
  "unwrap_status_to_u8 UrQueued = 0"
| "unwrap_status_to_u8 UrDispatching = 1"
| "unwrap_status_to_u8 UrDispatched = 2"
| "unwrap_status_to_u8 UrDispatchFailed = 3"

definition unwrap_status_from_u8 :: "u8 \<Rightarrow> unwrap_request_status option" where
  "unwrap_status_from_u8 v =
    (if v = 0 then Some UrQueued else if v = 1 then Some UrDispatching
     else if v = 2 then Some UrDispatched else if v = 3 then Some UrDispatchFailed else None)"

record unwrap_dispatch_request =
  ur_asset_id :: bytes
  ur_amount :: bytes
  ur_recipient :: bytes
  ur_status :: unwrap_request_status
  ur_ledger_tx_id :: "bytes option"
  ur_error_code :: "bytes option"
  ur_updated_at :: u64
  ur_transfer_created_at_time :: u64

definition UNWRAP_DECODE_FAILURE_CODE :: bytes where
  "UNWRAP_DECODE_FAILURE_CODE = ascii ''stable.decode.unwrap_request''"

definition unwrap_decode_failure_placeholder :: unwrap_dispatch_request where
  "unwrap_decode_failure_placeholder =
    \<lparr>ur_asset_id = [0], ur_amount = replicate 32 0, ur_recipient = [0], ur_status = UrDispatchFailed,
     ur_ledger_tx_id = None, ur_error_code = Some UNWRAP_DECODE_FAILURE_CODE, ur_updated_at = 0,
     ur_transfer_created_at_time = 0\<rparr>"

definition write_optional :: "bytes option \<Rightarrow> bytes option" where
  "write_optional v = (case v of None \<Rightarrow> Some [0] | Some bs \<Rightarrow> map_option (\<lambda>w. 1 # w) (write_bytes bs))"

definition read_optional :: "bytes \<Rightarrow> nat \<Rightarrow> nat \<Rightarrow> bool \<Rightarrow> (bytes option \<times> nat) option" where
  "read_optional data offset max_len reject_empty = do {
     (tag, offset) \<leftarrow> pc_read_u8 data offset;
     if tag = 0 then Some (None, offset)
     else if tag = 1 then map_option (\<lambda>(v, off). (Some v, off)) (read_bytes data offset max_len reject_empty)
     else None
   }"

definition unwrap_body :: "unwrap_dispatch_request \<Rightarrow> bytes option" where
  "unwrap_body r = do {
     asset_id \<leftarrow> write_bytes (ur_asset_id r);
     recipient \<leftarrow> write_bytes (ur_recipient r);
     ledger_tx_id \<leftarrow> write_optional (ur_ledger_tx_id r);
     error_code \<leftarrow> write_optional (ur_error_code r);
     Some ([2] @ asset_id @ ur_amount r @ recipient @ [unwrap_status_to_u8 (ur_status r)] @ ledger_tx_id @ error_code
       @ to_be_bytes (ur_updated_at r) @ to_be_bytes (ur_transfer_created_at_time r))
   }"

definition unwrap_encode_checked :: "unwrap_dispatch_request \<Rightarrow> bytes option" where
  "unwrap_encode_checked r =
    (if ur_asset_id r = [] \<or> 256 < length (ur_asset_id r) \<or> ur_recipient r = [] \<or> 256 < length (ur_recipient r)
     then None
     else if case ur_ledger_tx_id r of Some v \<Rightarrow> 128 < length v | None \<Rightarrow> False then None
     else if case ur_error_code r of Some v \<Rightarrow> 192 < length v | None \<Rightarrow> False then None
     else map_option (\<lambda>out. out @ to_be_bytes (crc32_ieee out)) (unwrap_body r))"

definition unwrap_decode_checked :: "bytes \<Rightarrow> unwrap_dispatch_request option" where
  "unwrap_decode_checked data = do {
     (version, offset) \<leftarrow> pc_read_u8 data 0;
     if version \<noteq> 1 \<and> version \<noteq> 2 then None
     else do {
       (asset_id, offset) \<leftarrow> read_bytes data offset 256 True;
       (amount, offset) \<leftarrow> read_array_32 data offset;
       (recipient, offset) \<leftarrow> read_bytes data offset 256 True;
       (tag, offset) \<leftarrow> pc_read_u8 data offset;
       status \<leftarrow> unwrap_status_from_u8 tag;
       (ledger_tx_id, offset) \<leftarrow> read_optional data offset 128 True;
       (error_code, offset) \<leftarrow> read_optional data offset 192 True;
       if (case error_code of Some v \<Rightarrow> \<not> utf8_valid v | None \<Rightarrow> False) then None
       else do {
         (updated_at, offset) \<leftarrow> ur_read_u64 data offset;
         (transfer_created_at_time, offset) \<leftarrow> (if version = 2 then ur_read_u64 data offset else Some (0, offset));
         if \<not> checksum_matches data offset then None
         else Some \<lparr>ur_asset_id = asset_id, ur_amount = amount, ur_recipient = recipient, ur_status = status,
           ur_ledger_tx_id = ledger_tx_id, ur_error_code = error_code, ur_updated_at = updated_at,
           ur_transfer_created_at_time = transfer_created_at_time\<rparr>
       }
     }
   }"

text \<open>Storing a request that cannot be encoded panics, so \<open>unwrap_to_bytes\<close> has no value there.\<close>

definition unwrap_to_bytes :: "unwrap_dispatch_request \<Rightarrow> bytes option" where
  "unwrap_to_bytes r =
    (case unwrap_encode_checked r of
       None \<Rightarrow> None
     | Some encoded \<Rightarrow> fst (encode_guarded ''unwrap_request'' encoded 1088))"

definition unwrap_from_bytes :: "bytes \<Rightarrow> unwrap_dispatch_request \<times> events" where
  "unwrap_from_bytes bs =
    (case unwrap_decode_checked bs of
       Some r \<Rightarrow> (r, [])
     | None \<Rightarrow> (unwrap_decode_failure_placeholder, mark_decode_failure ''unwrap_request'' False))"

section \<open>Update requests\<close>

datatype icp_update_request_status = IuQueued | IuDispatching | IuDispatched | IuDispatchFailed | IuDispatchUncertain

fun icp_update_status_to_u8 :: "icp_update_request_status \<Rightarrow> u8" where
  "icp_update_status_to_u8 IuQueued = 0"
| "icp_update_status_to_u8 IuDispatching = 1"
| "icp_update_status_to_u8 IuDispatched = 2"
| "icp_update_status_to_u8 IuDispatchFailed = 3"
| "icp_update_status_to_u8 IuDispatchUncertain = 4"

definition icp_update_status_from_u8 :: "u8 \<Rightarrow> icp_update_request_status option" where
  "icp_update_status_from_u8 v =
    (if v = 0 then Some IuQueued else if v = 1 then Some IuDispatching
     else if v = 2 then Some IuDispatched else if v = 3 then Some IuDispatchFailed
     else if v = 4 then Some IuDispatchUncertain else None)"

record icp_update_dispatch_request =
  iu_request_id :: tx_id
  iu_tx_id :: tx_id
  iu_block_number :: u64
  iu_tx_index :: u32
  iu_log_index :: u32
  iu_tx_kind :: tx_kind
  iu_evm_sender :: bytes
  iu_ic_caller :: "bytes option"
  iu_target :: bytes
  iu_method :: bytes
  iu_arg :: bytes
  iu_status :: icp_update_request_status
  iu_reply :: "bytes option"
  iu_error_code :: "bytes option"
  iu_updated_at :: u64
  iu_call_started_at_time :: u64

definition ICP_UPDATE_DECODE_FAILURE_CODE :: bytes where
  "ICP_UPDATE_DECODE_FAILURE_CODE = ascii ''stable.decode.icp_update_request''"

definition icp_update_decode_failure_placeholder :: icp_update_dispatch_request where
  "icp_update_decode_failure_placeholder =
    \<lparr>iu_request_id = replicate 32 0, iu_tx_id = replicate 32 0, iu_block_number = 0, iu_tx_index = 0, iu_log_index = 0,
     iu_tx_kind = EthSigned, iu_evm_sender = replicate 20 0, iu_ic_caller = None, iu_target = [0],
     iu_method = ascii ''decode_failure'', iu_arg = [], iu_status = IuDispatchFailed, iu_reply = None,
     iu_error_code = Some ICP_UPDATE_DECODE_FAILURE_CODE, iu_updated_at = 0, iu_call_started_at_time = 0\<rparr>"

definition icp_update_body :: "icp_update_dispatch_request \<Rightarrow> bytes option" where
  "icp_update_body r = do {
     ic_caller \<leftarrow> write_optional (iu_ic_caller r);
     target \<leftarrow> write_bytes (iu_target r);
     method \<leftarrow> write_bytes (iu_method r);
     arg \<leftarrow> write_bytes (iu_arg r);
     reply \<leftarrow> write_optional (iu_reply r);
     error_code \<leftarrow> write_optional (iu_error_code r);
     Some ([2] @ iu_request_id r @ iu_tx_id r @ to_be_bytes (iu_block_number r) @ to_be_bytes (iu_tx_index r)
       @ to_be_bytes (iu_log_index r) @ [tx_kind_to_u8 (iu_tx_kind r)] @ iu_evm_sender r @ ic_caller @ target @ method @ arg
       @ [icp_update_status_to_u8 (iu_status r)] @ reply @ error_code
       @ to_be_bytes (iu_updated_at r) @ to_be_bytes (iu_call_started_at_time r))
   }"

definition icp_update_encode_checked :: "icp_update_dispatch_request \<Rightarrow> bytes option" where
  "icp_update_encode_checked r =
    (if iu_target r = [] \<or> 29 < length (iu_target r) \<or> iu_method r = [] \<or> 64 < length (iu_method r)
       \<or> \<not> is_ascii (iu_method r) \<or> 3997 < length (iu_arg r) then None
     else if case iu_ic_caller r of Some v \<Rightarrow> v = [] \<or> 29 < length v | None \<Rightarrow> False then None
     else if case iu_reply r of Some v \<Rightarrow> MAX_RETURN_DATA < length v | None \<Rightarrow> False then None
     else if case iu_error_code r of Some v \<Rightarrow> 192 < length v | None \<Rightarrow> False then None
     else map_option (\<lambda>out. out @ to_be_bytes (crc32_ieee out)) (icp_update_body r))"

definition icp_update_decode_checked :: "bytes \<Rightarrow> icp_update_dispatch_request option" where
  "icp_update_decode_checked data = do {
     (version, offset) \<leftarrow> pc_read_u8 data 0;
     if version \<noteq> 2 then None
     else do {
       (request_id, offset) \<leftarrow> pc_read_exact data offset 32;
       (tx_id, offset) \<leftarrow> pc_read_exact data offset 32;
       (block_number, offset) \<leftarrow> ur_read_u64 data offset;
       (tx_index, offset) \<leftarrow> read_u32_be data offset;
       (log_index, offset) \<leftarrow> read_u32_be data offset;
       (kind, offset) \<leftarrow> pc_read_u8 data offset;
       tx_kind \<leftarrow> tx_kind_from_u8 kind;
       (evm_sender, offset) \<leftarrow> pc_read_exact data offset 20;
       (ic_caller, offset) \<leftarrow> read_optional data offset 29 True;
       (target, offset) \<leftarrow> read_bytes data offset 29 True;
       (method, offset) \<leftarrow> read_bytes data offset 64 True;
       if \<not> is_ascii method then None
       else do {
         (arg, offset) \<leftarrow> read_bytes data offset 3997 False;
         (tag, offset) \<leftarrow> pc_read_u8 data offset;
         status \<leftarrow> icp_update_status_from_u8 tag;
         (reply, offset) \<leftarrow> read_optional data offset MAX_RETURN_DATA False;
         (error_code, offset) \<leftarrow> read_optional data offset 192 True;
         if (case error_code of Some v \<Rightarrow> \<not> utf8_valid v | None \<Rightarrow> False) then None
         else do {
           (updated_at, offset) \<leftarrow> ur_read_u64 data offset;
           (call_started_at_time, offset) \<leftarrow> ur_read_u64 data offset;
           if \<not> checksum_matches data offset then None
           else if \<not> utf8_valid method then None
           else Some \<lparr>iu_request_id = request_id, iu_tx_id = tx_id, iu_block_number = block_number, iu_tx_index = tx_index,
             iu_log_index = log_index, iu_tx_kind = tx_kind, iu_evm_sender = evm_sender, iu_ic_caller = ic_caller,
             iu_target = target, iu_method = method, iu_arg = arg, iu_status = status, iu_reply = reply,
             iu_error_code = error_code, iu_updated_at = updated_at, iu_call_started_at_time = call_started_at_time\<rparr>
         }
       }
     }
   }"

definition icp_update_to_bytes :: "icp_update_dispatch_request \<Rightarrow> bytes option" where
  "icp_update_to_bytes r =
    (case icp_update_encode_checked r of
       None \<Rightarrow> None
     | Some encoded \<Rightarrow> fst (encode_guarded ''icp_update_request'' encoded 38656))"

definition icp_update_from_bytes :: "bytes \<Rightarrow> icp_update_dispatch_request \<times> events" where
  "icp_update_from_bytes bs =
    (case icp_update_decode_checked bs of
       Some r \<Rightarrow> (r, [])
     | None \<Rightarrow> (icp_update_decode_failure_placeholder, mark_decode_failure ''icp_update_request'' False))"

section \<open>Reading back what was written\<close>

text \<open>\<open>reads_at rd f v\<close>: wherever the bytes \<open>f\<close> stand, the reader \<open>rd\<close> returns \<open>v\<close> and moves behind them.\<close>

definition reads_at :: "(bytes \<Rightarrow> nat \<Rightarrow> ('a \<times> nat) option) \<Rightarrow> bytes \<Rightarrow> 'a \<Rightarrow> bool" where
  "reads_at rd f v \<longleftrightarrow> (\<forall>d off rest. drop off d = f @ rest \<longrightarrow> off \<le> length d \<longrightarrow> rd d off = Some (v, off + length f))"

lemma bind_read:
  assumes "reads_at rd f v" "drop off d = f @ rest" "off \<le> length d"
    and "\<And>off'. drop off' d = rest \<Longrightarrow> off' \<le> length d \<Longrightarrow> off' = off + length f \<Longrightarrow> P (k v off')"
  shows "P (Option.bind (rd d off) (\<lambda>(a, o'). k a o'))"
proof -
  have len: "length d - off = length f + length rest"
    using arg_cong [OF assms(2), of length] by simp
  have "drop (off + length f) d = drop (length f) (drop off d)"
    by (simp add: add.commute)
  then have "drop (off + length f) d = rest"
    using assms(2) by simp
  then have "P (k v (off + length f))"
    using assms(3) len by (intro assms(4)) auto
  moreover have "rd d off = Some (v, off + length f)"
    using assms(1-3) unfolding reads_at_def by blast
  ultimately show ?thesis
    by simp
qed

lemma read_exact_reads: "length f = n \<Longrightarrow> reads_at (\<lambda>d off. pc_read_exact d off n) f f"
  unfolding reads_at_def
proof (intro allI impI)
  fix d off rest
  assume n: "length f = n" and d: "drop off d = f @ rest" "off \<le> length d"
  have "length d - off = n + length rest"
    using arg_cong [OF d(1), of length] n by simp
  then show "pc_read_exact d off n = Some (f, off + length f)"
    using d n by (simp add: pc_read_exact_def byte_slice_def)
qed

lemma read_u8_reads: "reads_at pc_read_u8 [b] b"
proof -
  have "pc_read_u8 d off = Some (b, off + 1)" if "drop off d = b # rest" for d off rest
    using that nth_via_drop [OF that] by (cases "off < length d") (auto simp: pc_read_u8_def)
  then show ?thesis
    by (simp add: reads_at_def)
qed

lemma reads_map:
  assumes "reads_at rd f v"
  shows "reads_at (\<lambda>d off. map_option (\<lambda>(b, o'). (g b, o')) (rd d off)) f (g v)"
  using assms by (simp add: reads_at_def)

lemma read_u64_reads: "reads_at ur_read_u64 (to_be_bytes w) w"
  using reads_map [OF read_exact_reads [of "to_be_bytes w" 8], of "from_be_bytes :: bytes \<Rightarrow> u64"]
  by (simp add: ur_read_u64_def [abs_def])

lemma read_u32_reads: "reads_at read_u32_be (to_be_bytes w) w"
  using reads_map [OF read_exact_reads [of "to_be_bytes w" 4], of "from_be_bytes :: bytes \<Rightarrow> u32"]
  by (simp add: read_u32_be_def [abs_def])

lemma read_array_32_reads: "length f = 32 \<Longrightarrow> reads_at read_array_32 f f"
  using read_exact_reads [of f 32] by (simp add: read_array_32_def [abs_def])

lemma request_reads_bind:
  assumes "reads_at r1 f1 v1" "reads_at (r2 v1) f2 v2"
  shows "reads_at (\<lambda>d off. Option.bind (r1 d off) (\<lambda>(a, o'). r2 a d o')) (f1 @ f2) v2"
  unfolding reads_at_def
proof (intro allI impI)
  fix d off rest
  assume d: "drop off d = (f1 @ f2) @ rest" "off \<le> length d"
  then have "drop off d = f1 @ f2 @ rest"
    by simp
  then show "Option.bind (r1 d off) (\<lambda>(a, o'). r2 a d o') = Some (v2, off + length (f1 @ f2))"
    by (rule bind_read [OF assms(1) _ d(2)]) (use assms(2) in \<open>simp add: reads_at_def\<close>)
qed

lemma read_bytes_reads:
  assumes "write_bytes v = Some f" "length v \<le> m" "re \<Longrightarrow> v \<noteq> []"
  shows "reads_at (\<lambda>d off. read_bytes d off m re) f v"
proof -
  obtain n :: u16 where n: "unat n = length v" "f = to_be_bytes n @ v"
    using assms(1) by (auto simp: write_bytes_def unat_try_of_nat)
  have "reads_at (\<lambda>d off. if re \<and> unat n = 0 \<or> m < unat n then None else pc_read_exact d off (unat n)) v v"
    using assms n(1) by (auto simp: reads_at_def intro: read_exact_reads [unfolded reads_at_def, rule_format])
  then show ?thesis
    using request_reads_bind [OF read_exact_reads [of "to_be_bytes n" 2],
        of "\<lambda>raw d off. let k = unat (from_be_bytes raw :: u16) in if re \<and> k = 0 \<or> m < k then None else pc_read_exact d off k" v v]
    unfolding n(2) by (simp add: read_bytes_def [abs_def] Let_def)
qed

lemma read_optional_reads:
  assumes "write_optional v = Some f" "\<And>bs. v = Some bs \<Longrightarrow> length bs \<le> m \<and> (re \<longrightarrow> bs \<noteq> [])"
  shows "reads_at (\<lambda>d off. read_optional d off m re) f v"
proof (cases v)
  case None
  then have "f = [0]"
    using assms(1) by (simp add: write_optional_def)
  moreover have "reads_at (\<lambda>d off. Some (None, off)) [] None"
    by (simp add: reads_at_def)
  ultimately show ?thesis
    using request_reads_bind [OF read_u8_reads [of 0], of "\<lambda>tag d off. if tag = 0 then Some (None, off) else if tag = 1
        then map_option (\<lambda>(v, off). (Some v, off)) (read_bytes d off m re) else None" "[]" None] None
    by (simp add: read_optional_def [abs_def])
next
  case (Some bs)
  then obtain w where w: "write_bytes bs = Some w" "f = 1 # w"
    using assms(1) by (auto simp: write_optional_def)
  have "reads_at (\<lambda>d off. map_option (\<lambda>(v, off). (Some v, off)) (read_bytes d off m re)) w (Some bs)"
    using assms(2) [OF Some] by (intro reads_map read_bytes_reads [OF w(1)]) auto
  then show ?thesis
    using request_reads_bind [OF read_u8_reads [of 1], of "\<lambda>tag d off. if tag = 0 then Some (None, off) else if tag = 1
        then map_option (\<lambda>(v, off). (Some v, off)) (read_bytes d off m re) else None" w "Some bs"] w(2) Some
    by (simp add: read_optional_def [abs_def])
qed

lemma write_bytes_Some: "length bs \<le> 65535 \<Longrightarrow> \<exists>f. write_bytes bs = Some f \<and> length f = length bs + 2"
  by (auto simp: write_bytes_def try_of_nat_def)

lemma write_optional_Some:
  assumes "\<And>bs. v = Some bs \<Longrightarrow> length bs \<le> n" "n \<le> 65535"
  shows "\<exists>f. write_optional v = Some f \<and> length f \<le> n + 3"
proof (cases v)
  case (Some bs)
  with assms have "length bs \<le> n" "length bs \<le> 65535"
    by auto
  then show ?thesis
    using write_bytes_Some [of bs] Some by (auto simp: write_optional_def)
qed (simp add: write_optional_def)

lemma checksum_appended: "length out = off \<Longrightarrow> checksum_matches (out @ to_be_bytes (crc32_ieee out)) off"
  by (simp add: checksum_matches_def byte_slice_def)

lemma unwrap_status_from_to [simp]: "unwrap_status_from_u8 (unwrap_status_to_u8 st) = Some st"
  by (cases st) (simp_all add: unwrap_status_from_u8_def)

lemma icp_update_status_from_to [simp]: "icp_update_status_from_u8 (icp_update_status_to_u8 st) = Some st"
  by (cases st) (simp_all add: icp_update_status_from_u8_def)

definition text_ok :: "nat \<Rightarrow> bytes option \<Rightarrow> bool" where
  "text_ok n v \<longleftrightarrow> (case v of Some bs \<Rightarrow> bs \<noteq> [] \<and> length bs \<le> n | None \<Rightarrow> True)"

lemma text_okD: "text_ok n v \<Longrightarrow> v = Some bs \<Longrightarrow> length bs \<le> n \<and> bs \<noteq> []"
  by (simp add: text_ok_def)

definition unwrap_request_ok :: "unwrap_dispatch_request \<Rightarrow> bool" where
  "unwrap_request_ok r \<longleftrightarrow> ur_asset_id r \<noteq> [] \<and> length (ur_asset_id r) \<le> 256 \<and> length (ur_amount r) = 32
    \<and> ur_recipient r \<noteq> [] \<and> length (ur_recipient r) \<le> 256 \<and> text_ok 128 (ur_ledger_tx_id r)
    \<and> text_ok 192 (ur_error_code r) \<and> (case ur_error_code r of Some v \<Rightarrow> utf8_valid v | None \<Rightarrow> True)"

lemma unwrap_decode_of_body:
  assumes ok: "unwrap_request_ok r" and body: "unwrap_body r = Some out"
  shows "unwrap_decode_checked (out @ to_be_bytes (crc32_ieee out)) = Some r"
proof -
  obtain a p l e where w: "write_bytes (ur_asset_id r) = Some a" "write_bytes (ur_recipient r) = Some p"
      "write_optional (ur_ledger_tx_id r) = Some l" "write_optional (ur_error_code r) = Some e"
    and out: "out = [2] @ a @ ur_amount r @ p @ [unwrap_status_to_u8 (ur_status r)] @ l @ e
       @ to_be_bytes (ur_updated_at r) @ to_be_bytes (ur_transfer_created_at_time r)"
    using body by (auto simp: unwrap_body_def split: Option.bind_splits)
  note ok' = ok [unfolded unwrap_request_ok_def text_ok_def]
  let ?d = "out @ to_be_bytes (crc32_ieee out)"
  have d0: "drop 0 ?d = [2] @ a @ ur_amount r @ p @ [unwrap_status_to_u8 (ur_status r)] @ l @ e
      @ to_be_bytes (ur_updated_at r) @ to_be_bytes (ur_transfer_created_at_time r) @ to_be_bytes (crc32_ieee out)"
    by (simp add: out)
  show ?thesis
    unfolding unwrap_decode_checked_def
    apply (rule bind_read [OF read_u8_reads d0], simp)
    apply (simp only: if_False refl simp_thms)
    apply (rule bind_read [OF read_bytes_reads [OF w(1)]], use ok' in simp, use ok' in simp, assumption, assumption)
    apply (rule bind_read [OF read_array_32_reads [of "ur_amount r"]], use ok' in simp, assumption, assumption)
    apply (rule bind_read [OF read_bytes_reads [OF w(2)]], use ok' in simp, use ok' in simp, assumption, assumption)
    apply (rule bind_read [OF read_u8_reads], assumption, assumption)
    apply (simp only: unwrap_status_from_to Option.bind.simps)
    apply (rule bind_read [OF read_optional_reads [OF w(3)]], use ok' in simp, assumption, assumption)
    apply (rule bind_read [OF read_optional_reads [OF w(4)]], use ok' in simp, assumption, assumption)
    apply (subst if_not_P, use ok' in \<open>simp split: option.splits\<close>)
    apply (rule bind_read [OF read_u64_reads], assumption, assumption)
    apply (simp only: if_True refl)
    apply (rule bind_read [OF read_u64_reads], assumption, assumption)
    using checksum_appended [of out] by (simp add: out)
qed

lemma unwrap_body_Some:
  assumes "unwrap_request_ok r"
  obtains out where "unwrap_body r = Some out" "length out \<le> 1084"
proof -
  note ok = assms [unfolded unwrap_request_ok_def]
  obtain a p where w1: "write_bytes (ur_asset_id r) = Some a" "write_bytes (ur_recipient r) = Some p"
      "length a = length (ur_asset_id r) + 2" "length p = length (ur_recipient r) + 2"
    using ok write_bytes_Some [of "ur_asset_id r"] write_bytes_Some [of "ur_recipient r"] by auto
  obtain l where w2: "write_optional (ur_ledger_tx_id r) = Some l" "length l \<le> 131"
    using ok write_optional_Some [of "ur_ledger_tx_id r" 128] by (auto dest: text_okD)
  obtain e where w3: "write_optional (ur_error_code r) = Some e" "length e \<le> 195"
    using ok write_optional_Some [of "ur_error_code r" 192] by (auto dest: text_okD)
  show ?thesis
  proof (rule that)
    show "unwrap_body r = Some ([2] @ a @ ur_amount r @ p @ [unwrap_status_to_u8 (ur_status r)] @ l @ e
        @ to_be_bytes (ur_updated_at r) @ to_be_bytes (ur_transfer_created_at_time r))"
      by (simp add: unwrap_body_def w1 w2 w3)
  qed (use ok w1 w2 w3 in simp)
qed

lemma unwrap_request_roundtrip:
  assumes "unwrap_request_ok r"
  shows "\<exists>bs. unwrap_to_bytes r = Some bs \<and> length bs \<le> 1088 \<and> unwrap_from_bytes bs = (r, [])"
proof -
  obtain out where out: "unwrap_body r = Some out" "length out \<le> 1084"
    using unwrap_body_Some [OF assms] by blast
  have "unwrap_encode_checked r = Some (out @ to_be_bytes (crc32_ieee out))"
    using assms out(1) by (auto simp: unwrap_encode_checked_def unwrap_request_ok_def text_ok_def split: option.splits)
  then show ?thesis
    using out unwrap_decode_of_body [OF assms out(1)]
    by (simp add: unwrap_to_bytes_def unwrap_from_bytes_def encode_guarded_def ensure_encoded_within_bound_def)
qed

definition icp_update_request_ok :: "icp_update_dispatch_request \<Rightarrow> bool" where
  "icp_update_request_ok r \<longleftrightarrow> length (iu_request_id r) = 32 \<and> length (iu_tx_id r) = 32 \<and> length (iu_evm_sender r) = 20
    \<and> text_ok 29 (iu_ic_caller r) \<and> iu_target r \<noteq> [] \<and> length (iu_target r) \<le> 29
    \<and> iu_method r \<noteq> [] \<and> length (iu_method r) \<le> 64 \<and> is_ascii (iu_method r) \<and> length (iu_arg r) \<le> 3997
    \<and> (case iu_reply r of Some v \<Rightarrow> length v \<le> MAX_RETURN_DATA | None \<Rightarrow> True)
    \<and> text_ok 192 (iu_error_code r) \<and> (case iu_error_code r of Some v \<Rightarrow> utf8_valid v | None \<Rightarrow> True)"

lemma icp_update_body_Some:
  assumes "icp_update_request_ok r"
  obtains c a mt g p e where "write_optional (iu_ic_caller r) = Some c" "write_bytes (iu_target r) = Some a"
    "write_bytes (iu_method r) = Some mt" "write_bytes (iu_arg r) = Some g" "write_optional (iu_reply r) = Some p"
    "write_optional (iu_error_code r) = Some e"
    "length c \<le> 32" "length a \<le> 31" "length mt \<le> 66" "length g \<le> 3999" "length p \<le> 32771" "length e \<le> 195"
proof -
  note ok = assms [unfolded icp_update_request_ok_def]
  have "\<exists>c. write_optional (iu_ic_caller r) = Some c \<and> length c \<le> 29 + 3"
    by (rule write_optional_Some) (use ok in \<open>auto dest: text_okD\<close>)
  moreover have "\<exists>p. write_optional (iu_reply r) = Some p \<and> length p \<le> MAX_RETURN_DATA + 3"
    by (rule write_optional_Some) (use ok in auto)
  moreover have "\<exists>e. write_optional (iu_error_code r) = Some e \<and> length e \<le> 192 + 3"
    by (rule write_optional_Some) (use ok in \<open>auto dest: text_okD\<close>)
  moreover have "\<exists>a. write_bytes (iu_target r) = Some a \<and> length a \<le> 31"
    using ok write_bytes_Some [of "iu_target r"] by auto
  moreover have "\<exists>a. write_bytes (iu_method r) = Some a \<and> length a \<le> 66"
    using ok write_bytes_Some [of "iu_method r"] by auto
  moreover have "\<exists>a. write_bytes (iu_arg r) = Some a \<and> length a \<le> 3999"
    using ok write_bytes_Some [of "iu_arg r"] by auto
  ultimately show ?thesis
    using that by auto
qed

lemma icp_update_decode_of_body:
  assumes ok: "icp_update_request_ok r" and body: "icp_update_body r = Some out"
  shows "icp_update_decode_checked (out @ to_be_bytes (crc32_ieee out)) = Some r"
proof -
  obtain c a mt g p e where w: "write_optional (iu_ic_caller r) = Some c" "write_bytes (iu_target r) = Some a"
      "write_bytes (iu_method r) = Some mt" "write_bytes (iu_arg r) = Some g" "write_optional (iu_reply r) = Some p"
      "write_optional (iu_error_code r) = Some e"
    using icp_update_body_Some [OF ok] by metis
  have out: "out = [2] @ iu_request_id r @ iu_tx_id r @ to_be_bytes (iu_block_number r) @ to_be_bytes (iu_tx_index r)
       @ to_be_bytes (iu_log_index r) @ [tx_kind_to_u8 (iu_tx_kind r)] @ iu_evm_sender r @ c @ a @ mt @ g
       @ [icp_update_status_to_u8 (iu_status r)] @ p @ e
       @ to_be_bytes (iu_updated_at r) @ to_be_bytes (iu_call_started_at_time r)"
    using body by (simp add: icp_update_body_def w)
  note ok' = ok [unfolded icp_update_request_ok_def text_ok_def]
  let ?d = "out @ to_be_bytes (crc32_ieee out)"
  have d0: "drop 0 ?d = [2] @ iu_request_id r @ iu_tx_id r @ to_be_bytes (iu_block_number r) @ to_be_bytes (iu_tx_index r)
       @ to_be_bytes (iu_log_index r) @ [tx_kind_to_u8 (iu_tx_kind r)] @ iu_evm_sender r @ c @ a @ mt @ g
       @ [icp_update_status_to_u8 (iu_status r)] @ p @ e
       @ to_be_bytes (iu_updated_at r) @ to_be_bytes (iu_call_started_at_time r) @ to_be_bytes (crc32_ieee out)"
    by (simp add: out)
  have utf8: "utf8_valid (iu_method r)"
    using ok' utf8_ascii by (simp add: is_ascii_def)
  have err: "\<not> (case iu_error_code r of None \<Rightarrow> False | Some v \<Rightarrow> \<not> utf8_valid v)"
    using ok by (cases "iu_error_code r") (simp_all add: icp_update_request_ok_def)
  show ?thesis
    unfolding icp_update_decode_checked_def
    apply (rule bind_read [OF read_u8_reads d0], simp)
    apply (simp only: if_False refl simp_thms)
    apply (rule bind_read [OF read_exact_reads [of "iu_request_id r"]], use ok' in simp, assumption, assumption)
    apply (rule bind_read [OF read_exact_reads [of "iu_tx_id r"]], use ok' in simp, assumption, assumption)
    apply (rule bind_read [OF read_u64_reads], assumption, assumption)
    apply (rule bind_read [OF read_u32_reads], assumption, assumption)
    apply (rule bind_read [OF read_u32_reads], assumption, assumption)
    apply (rule bind_read [OF read_u8_reads], assumption, assumption)
    apply (simp only: tx_kind_from_to Option.bind.simps)
    apply (rule bind_read [OF read_exact_reads [of "iu_evm_sender r"]], use ok' in simp, assumption, assumption)
    apply (rule bind_read [OF read_optional_reads [OF w(1)]], use ok' in simp, assumption, assumption)
    apply (rule bind_read [OF read_bytes_reads [OF w(2)]], use ok' in simp, use ok' in simp, assumption, assumption)
    apply (rule bind_read [OF read_bytes_reads [OF w(3)]], use ok' in simp, use ok' in simp, assumption, assumption)
    apply (subst if_not_P, use ok' in simp)
    apply (rule bind_read [OF read_bytes_reads [OF w(4)]], use ok' in simp, use ok' in simp, assumption, assumption)
    apply (rule bind_read [OF read_u8_reads], assumption, assumption)
    apply (simp only: icp_update_status_from_to Option.bind.simps)
    apply (rule bind_read [OF read_optional_reads [OF w(5)]], use ok' in simp, assumption, assumption)
    apply (rule bind_read [OF read_optional_reads [OF w(6)]], use ok' in simp, assumption, assumption)
    apply (subst if_not_P, rule err)
    apply (rule bind_read [OF read_u64_reads], assumption, assumption)
    apply (rule bind_read [OF read_u64_reads], assumption, assumption)
    using checksum_appended [of out] utf8 by (simp add: out)
qed

lemma icp_update_request_roundtrip:
  assumes "icp_update_request_ok r"
  shows "\<exists>bs. icp_update_to_bytes r = Some bs \<and> length bs \<le> 38656 \<and> icp_update_from_bytes bs = (r, [])"
proof -
  note ok = assms [unfolded icp_update_request_ok_def]
  obtain c a mt g p e where w: "write_optional (iu_ic_caller r) = Some c" "write_bytes (iu_target r) = Some a"
      "write_bytes (iu_method r) = Some mt" "write_bytes (iu_arg r) = Some g" "write_optional (iu_reply r) = Some p"
      "write_optional (iu_error_code r) = Some e"
      "length c \<le> 32" "length a \<le> 31" "length mt \<le> 66" "length g \<le> 3999" "length p \<le> 32771" "length e \<le> 195"
    using icp_update_body_Some [OF assms] by metis
  then have "\<exists>out. icp_update_body r = Some out \<and> length out \<le> 38652"
    using ok by (simp add: icp_update_body_def)
  then obtain out where out: "icp_update_body r = Some out" "length out \<le> 38652"
    by blast
  have "icp_update_encode_checked r = Some (out @ to_be_bytes (crc32_ieee out))"
    using ok out(1) by (auto simp: icp_update_encode_checked_def text_ok_def split: option.splits)
  then show ?thesis
    using out icp_update_decode_of_body [OF assms out(1)]
    by (simp add: icp_update_to_bytes_def icp_update_from_bytes_def encode_guarded_def ensure_encoded_within_bound_def)
qed

text \<open>C40: the requests of the gateway survive being stored. A request within its limits (fields of the sizes the
  precompiles produce, a non-empty valid error text, a non-empty ledger identifier) is encoded within the bound of
  its table and decoded to itself, without a corruption event, for unwrap requests and for update requests.\<close>

theorem gateway_requests_roundtrip:
  "(unwrap_request_ok u \<longrightarrow>
      (\<exists>bs. unwrap_to_bytes u = Some bs \<and> length bs \<le> 1088 \<and> unwrap_from_bytes bs = (u, [])))
    \<and> (icp_update_request_ok v \<longrightarrow>
      (\<exists>bs. icp_update_to_bytes v = Some bs \<and> length bs \<le> 38656 \<and> icp_update_from_bytes bs = (v, [])))"
  using unwrap_request_roundtrip icp_update_request_roundtrip by blast

theorem gateway_requests_roundtrip_witness:
  "\<exists>bs. unwrap_to_bytes unwrap_decode_failure_placeholder = Some bs
    \<and> unwrap_from_bytes bs = (unwrap_decode_failure_placeholder, [])"
proof -
  have "unwrap_request_ok unwrap_decode_failure_placeholder"
    by code_simp
  then show ?thesis
    using gateway_requests_roundtrip [of unwrap_decode_failure_placeholder] by blast
qed

end
