(* ===== verification/Icrc_Ledger.thy ===== *)
theory Icrc_Ledger
  imports Gateway_Requests
begin

text \<open>
  Calls to token ledgers (\<open>ic-evm-gateway/src/lib.rs\<close>): the arguments the gateway sends, the replies it
  understands, the texts it keeps. A ledger itself is another canister; what the gateway relies on is the
  deduplication of the ICRC-1 standard, \<open>icrc1_dedup\<close>.
\<close>

section \<open>Stored texts and principals\<close>

definition is_char_boundary :: "bytes \<Rightarrow> nat \<Rightarrow> bool" where
  "is_char_boundary v i \<longleftrightarrow> i = 0 \<or> i = length v \<or> i < length v \<and> \<not> utf8_cont (v ! i)"

fun clamp_end :: "bytes \<Rightarrow> nat \<Rightarrow> nat" where
  "clamp_end v 0 = 0"
| "clamp_end v (Suc n) = (if is_char_boundary v (Suc n) then Suc n else clamp_end v n)"

definition clamp_utf8_bytes :: "bytes \<Rightarrow> nat \<Rightarrow> bytes" where
  "clamp_utf8_bytes v max_bytes = (if length v \<le> max_bytes then v else take (clamp_end v max_bytes) v)"

definition clamp_error_code :: "bytes \<Rightarrow> bytes" where
  "clamp_error_code code = clamp_utf8_bytes code 160"

definition validate_stored_ledger_tx_id :: "bytes \<Rightarrow> bytes + unit" where
  "validate_stored_ledger_tx_id t =
    (if t = [] \<or> 128 < length t then Inl (ascii ''ledger.tx_id_invalid'') else Inr ())"

definition validated_ledger_tx_id :: "bytes \<Rightarrow> bytes + bytes" where
  "validated_ledger_tx_id t = (case validate_stored_ledger_tx_id t of Inl e \<Rightarrow> Inl e | Inr _ \<Rightarrow> Inr t)"

definition principal_from_stored_bytes :: "bytes \<Rightarrow> bytes + bytes" where
  "principal_from_stored_bytes bs =
    (if bs = [] then Inl (ascii ''wrap_config.unconfigured'')
     else if 29 < length bs then Inl (ascii ''arg.principal_invalid'')
     else Inr bs)"

section \<open>Naturals\<close>

fun nat_digits :: "nat \<Rightarrow> bytes" where
  "nat_digits n = (if n < 256 then [] else nat_digits (n div 256)) @ [word_of_nat (n mod 256)]"

declare nat_digits.simps [simp del]

definition nat_to_be_bytes :: "nat \<Rightarrow> bytes" where
  "nat_to_be_bytes n = nat_digits n"

definition nat_to_fixed_be :: "nat \<Rightarrow> nat \<Rightarrow> bytes option" where
  "nat_to_fixed_be w n =
    (let bs = nat_to_be_bytes n
     in if length bs > w then None else Some (replicate (w - length bs) 0 @ bs))"

definition nat_to_u128 :: "nat \<Rightarrow> u128 option" where
  "nat_to_u128 n = map_option from_be_bytes (nat_to_fixed_be 16 n)"

section \<open>Transfers\<close>

datatype transfer_memo_kind = MemoUnwrap | MemoFee | MemoPull | MemoWithdraw

definition request_memo :: "(bytes \<Rightarrow> bytes) \<Rightarrow> tx_id \<Rightarrow> transfer_memo_kind \<Rightarrow> bytes" where
  "request_memo k request_id kind =
    k (ascii ''kasane.wrap.memo.v1''
       @ [case kind of MemoUnwrap \<Rightarrow> 1 | MemoFee \<Rightarrow> 2 | MemoPull \<Rightarrow> 3 | MemoWithdraw \<Rightarrow> 4] @ request_id)"

record icrc1_account =
  ac_owner :: bytes
  ac_subaccount :: "bytes option"

record icrc1_transfer_arg =
  ta_from_subaccount :: "bytes option"
  ta_to :: icrc1_account
  ta_amount :: nat
  ta_fee :: "nat option"
  ta_memo :: "bytes option"
  ta_created_at_time :: "u64 option"

datatype icrc1_transfer_error =
    BadFee nat | BadBurn nat | InsufficientFunds nat | TooOld | CreatedInFuture u64 | TemporarilyUnavailable
  | Duplicate nat | GenericError nat bytes

fun transfer_error_to_code :: "icrc1_transfer_error \<Rightarrow> bytes" where
  "transfer_error_to_code (BadFee n) = ascii ''bad_fee:'' @ decimal n"
| "transfer_error_to_code (BadBurn n) = ascii ''bad_burn:'' @ decimal n"
| "transfer_error_to_code (InsufficientFunds n) = ascii ''insufficient_funds:'' @ decimal n"
| "transfer_error_to_code TooOld = ascii ''too_old''"
| "transfer_error_to_code (CreatedInFuture t) = ascii ''created_in_future:'' @ decimal (unat t)"
| "transfer_error_to_code TemporarilyUnavailable = ascii ''temporarily_unavailable''"
| "transfer_error_to_code (Duplicate n) = ascii ''duplicate:'' @ decimal n"
| "transfer_error_to_code (GenericError n message) = ascii ''generic_error:'' @ decimal n @ ascii '':'' @ message"

text \<open>The result of awaiting a call: a decoded reply, a reply that does not decode, or a failed call; the texts
  of the last two come from the system.\<close>

datatype 'a call_result = Reply 'a | ReplyUndecodable bytes | CallRejected bytes

definition icrc1_transfer_arg_of :: "bytes \<Rightarrow> nat \<Rightarrow> bytes \<Rightarrow> u64 \<Rightarrow> icrc1_transfer_arg" where
  "icrc1_transfer_arg_of recipient amount memo created_at_time =
    \<lparr>ta_from_subaccount = None, ta_to = \<lparr>ac_owner = recipient, ac_subaccount = None\<rparr>, ta_amount = amount,
     ta_fee = None, ta_memo = Some memo, ta_created_at_time = Some created_at_time\<rparr>"

fun attempt_icrc1_transfer_result :: "(icrc1_transfer_error + nat) call_result \<Rightarrow> bytes + bytes" where
  "attempt_icrc1_transfer_result (Reply (Inr block_index)) = Inr (nat_to_be_bytes block_index)"
| "attempt_icrc1_transfer_result (Reply (Inl (Duplicate duplicate_of))) = Inr (nat_to_be_bytes duplicate_of)"
| "attempt_icrc1_transfer_result (Reply (Inl err)) = Inl (ascii ''ledger.transfer_failed:'' @ transfer_error_to_code err)"
| "attempt_icrc1_transfer_result (ReplyUndecodable err) = Inl (ascii ''ledger.decode_failed:'' @ err)"
| "attempt_icrc1_transfer_result (CallRejected err) = Inl (ascii ''ledger.call_failed:'' @ err)"

fun fetch_icrc1_fee_result :: "nat call_result \<Rightarrow> bytes + u128" where
  "fetch_icrc1_fee_result (Reply fee) =
    (case nat_to_u128 fee of Some f \<Rightarrow> Inr f | None \<Rightarrow> Inl (ascii ''ledger.fee_out_of_range''))"
| "fetch_icrc1_fee_result (ReplyUndecodable err) = Inl (ascii ''ledger.fee_decode_failed:'' @ err)"
| "fetch_icrc1_fee_result (CallRejected err) = Inl (ascii ''ledger.fee_call_failed:'' @ err)"

definition gross_transfer_receive_amount :: "nat \<Rightarrow> u128 \<Rightarrow> string \<Rightarrow> bytes + nat" where
  "gross_transfer_receive_amount amount fee code_prefix =
    (case nat_to_u128 amount of
       None \<Rightarrow> Inl (ascii (code_prefix @ ''.amount_out_of_range''))
     | Some gross \<Rightarrow>
         (case checked_sub gross fee of
            Some v \<Rightarrow> if v > 0 then Inr (unat v) else Inl (ascii (code_prefix @ ''.amount_not_above_fee''))
          | None \<Rightarrow> Inl (ascii (code_prefix @ ''.amount_not_above_fee''))))"

definition native_withdraw_gross_transfer_amount :: "nat \<Rightarrow> u128 \<Rightarrow> bytes + nat" where
  "native_withdraw_gross_transfer_amount amount fee = gross_transfer_receive_amount amount fee ''native_withdraw''"

text \<open>Deduplication of the ICRC-1 standard for transfers that carry a creation time: the ledger executes a
  transfer only if it never executed an identical one of this sender, and calls a transfer a duplicate only if it
  did. \<open>allowed log a r\<close> says that the ledger may answer \<open>r\<close> to \<open>a\<close> after executing \<open>log\<close>.\<close>

definition icrc1_dedup ::
  "(icrc1_transfer_arg list \<Rightarrow> icrc1_transfer_arg \<Rightarrow> icrc1_transfer_error + nat \<Rightarrow> bool) \<Rightarrow> bool" where
  "icrc1_dedup allowed \<longleftrightarrow> (\<forall>log a. ta_created_at_time a \<noteq> None \<longrightarrow>
    (\<forall>i. allowed log a (Inr i) \<longrightarrow> a \<notin> set log) \<and> (\<forall>d. allowed log a (Inl (Duplicate d)) \<longrightarrow> a \<in> set log))"

section \<open>Lemmas\<close>

lemma clamp_end_le: "clamp_end v n \<le> n"
  by (induction n) auto

lemma clamp_end_boundary: "is_char_boundary v (clamp_end v n)"
  by (induction n) (auto simp: is_char_boundary_def)

lemma length_clamp_error_code: "length (clamp_error_code c) \<le> 160"
  using clamp_end_le [of c 160] by (simp add: clamp_error_code_def clamp_utf8_bytes_def min_def)

lemma length_nat_digits: "0 < length (nat_digits n)"
  by (subst nat_digits.simps) simp

lemma from_be_append_byte: "from_be (bs @ [b]) = from_be bs * 256 + unat b"
  by (simp add: from_be_def)

lemma from_be_nat_digits: "from_be (nat_digits n) = n"
proof (induction n rule: nat_digits.induct)
  case (1 n)
  have b: "unat (word_of_nat (n mod 256) :: u8) = n mod 256"
    by (simp add: unat_of_nat)
  show ?case
  proof (cases "n < 256")
    case True
    then show ?thesis
      by (subst nat_digits.simps) (simp add: from_be_Cons unat_of_nat)
  next
    case False
    then show ?thesis
      using 1 by (subst nat_digits.simps) (simp add: from_be_append_byte b)
  qed
qed

lemma nat_digits_length: "length (nat_digits n) \<le> w \<longleftrightarrow> n < 256 ^ w" if "0 < w"
  using that
proof (induction n arbitrary: w rule: nat_digits.induct)
  case (1 n)
  show ?case
  proof (cases "n < 256")
    case True
    then have "length (nat_digits n) = 1"
      by (subst nat_digits.simps) simp
    moreover have "256 \<le> (256 :: nat) ^ w"
      using 1(2) by (cases w) simp_all
    ultimately show ?thesis
      using True 1(2) by simp
  next
    case False
    obtain w' where w: "w = Suc w'"
      using 1(2) by (cases w) simp_all
    have len: "length (nat_digits n) = Suc (length (nat_digits (n div 256)))"
      using False by (subst nat_digits.simps) simp
    show ?thesis
    proof (cases "w' = 0")
      case True
      then show ?thesis
        using False len w length_nat_digits [of "n div 256"] by simp
    next
      case nz: False
      have "n div 256 < 256 ^ w' \<longleftrightarrow> n < 256 ^ w"
        by (simp add: w div_less_iff_less_mult mult.commute)
      then show ?thesis
        using 1(1) [OF False, of w'] nz len w by simp
    qed
  qed
qed

lemma nat_to_u128_Some: "nat_to_u128 n = Some v \<longleftrightarrow> unat v = n"
proof -
  have lt: "unat (v :: u128) < 2 ^ 128"
    using unsigned_less [of v, where 'a = nat] by simp
  have pow: "(256 :: nat) ^ 16 = 2 ^ 128"
    by simp
  show ?thesis
  proof (cases "n < 2 ^ 128")
    case True
    then have len: "length (nat_digits n) \<le> 16"
      using nat_digits_length [of 16 n] pow by simp
    let ?bs = "replicate (16 - length (nat_digits n)) 0 @ nat_digits n"
    have "unat (from_be_bytes ?bs :: u128) = n"
      using len by (subst unat_from_be_bytes) (simp_all add: from_be_nat_digits)
    then show ?thesis
      using len by (auto simp: nat_to_u128_def nat_to_fixed_be_def nat_to_be_bytes_def Let_def word_unat_eq_iff)
  next
    case False
    then have "\<not> length (nat_digits n) \<le> 16"
      using nat_digits_length [of 16 n] pow by simp
    then show ?thesis
      using False lt by (auto simp: nat_to_u128_def nat_to_fixed_be_def nat_to_be_bytes_def Let_def)
  qed
qed

lemma gross_transfer_receive_amount_Inr:
  "gross_transfer_receive_amount amount fee p = Inr v \<longleftrightarrow>
    amount < 2 ^ 128 \<and> unat fee < amount \<and> v = amount - unat fee"
proof -
  have some: "(\<exists>w. nat_to_u128 amount = Some w) \<longleftrightarrow> amount < 2 ^ 128"
  proof
    assume "\<exists>w. nat_to_u128 amount = Some w"
    then obtain w :: u128 where "unat w = amount"
      by (auto simp: nat_to_u128_Some)
    then show "amount < 2 ^ 128"
      using unsigned_less [of w, where 'a = nat] by simp
  next
    assume "amount < 2 ^ 128"
    then have "unat (word_of_nat amount :: u128) = amount"
      by (simp add: unat_of_nat)
    then show "\<exists>w. nat_to_u128 amount = Some w"
      by (auto simp: nat_to_u128_Some)
  qed
  show ?thesis
  proof (cases "nat_to_u128 amount")
    case None
    then show ?thesis
      using some by (auto simp: gross_transfer_receive_amount_def)
  next
    case (Some w)
    then have "unat w = amount" "amount < 2 ^ 128"
      using some by (auto simp: nat_to_u128_Some)
    then show ?thesis
      using Some
      by (auto simp: gross_transfer_receive_amount_def checked_sub_def word_le_nat_alt word_less_nat_alt unat_sub split: if_splits)
  qed
qed

end
