(* ===== verification/Unwrap_Dispatch.thy ===== *)
theory Unwrap_Dispatch
  imports Icrc_Ledger Block_Production
begin

text \<open>
  The dispatch of unwrap and withdrawal requests (\<open>ic-evm-gateway/src/lib.rs\<close>): requests found in the receipts of
  a block or handed over by the wrap canister are queued, popped one at a time, and paid by a transfer on the
  ledger of the asset. A dispatch spans several messages, so it is modelled in pieces, one per stretch of code
  between two awaits; everything else may run in between. \<open>verified-core/src/unwrap_dispatch.rs\<close> judges the
  transitions.
\<close>

section \<open>State\<close>

record dispatch_state =
  unwrap_requests :: "(tx_id, unwrap_dispatch_request) omap"
  unwrap_dispatch_queue :: "(u64, tx_id) omap"
  unwrap_dispatch_meta :: queue_meta
  wrap_native_ledger_canister :: bytes

definition UNWRAP_QUARANTINE_ERROR :: bytes where
  "UNWRAP_QUARANTINE_ERROR = ascii ''quarantine.decode.unwrap_request''"

definition NATIVE_WITHDRAW_ASSET_MARKER :: bytes where
  "NATIVE_WITHDRAW_ASSET_MARKER = ascii ''kasane.native.icp''"

abbreviation STALE_OPERATION_NANOS :: u64 where
  "STALE_OPERATION_NANOS \<equiv> 600000000000"

text \<open>Taking the next sequence number and storing the request under it.\<close>

definition push_unwrap_dispatch :: "tx_id \<Rightarrow> dispatch_state \<Rightarrow> dispatch_state" where
  "push_unwrap_dispatch rid s =
    (let (seq, meta) = queue_meta_push (unwrap_dispatch_meta s)
     in s\<lparr>unwrap_dispatch_meta := meta, unwrap_dispatch_queue := oinsert seq rid (unwrap_dispatch_queue s)\<rparr>)"

definition put_request :: "tx_id \<Rightarrow> unwrap_dispatch_request \<Rightarrow> dispatch_state \<Rightarrow> dispatch_state" where
  "put_request rid r s = s\<lparr>unwrap_requests := oinsert rid r (unwrap_requests s)\<rparr>"

definition new_unwrap_request :: "u64 \<Rightarrow> bytes \<Rightarrow> bytes \<Rightarrow> bytes \<Rightarrow> unwrap_dispatch_request" where
  "new_unwrap_request now asset_id amount recipient =
    \<lparr>ur_asset_id = asset_id, ur_amount = amount, ur_recipient = recipient, ur_status = UrQueued, ur_ledger_tx_id = None,
     ur_error_code = None, ur_updated_at = now, ur_transfer_created_at_time = 0\<rparr>"

section \<open>Requests\<close>

definition insert_unwrap_dispatch_request ::
  "u64 \<Rightarrow> tx_id \<Rightarrow> bytes \<Rightarrow> bytes \<Rightarrow> bytes \<Rightarrow> dispatch_state \<Rightarrow> (bytes + unit) \<times> dispatch_state" where
  "insert_unwrap_dispatch_request now rid asset_id amount recipient s =
    (case oget (unwrap_requests s) rid of
       Some existing \<Rightarrow>
         if ur_asset_id existing \<noteq> asset_id \<or> ur_amount existing \<noteq> amount \<or> ur_recipient existing \<noteq> recipient
         then (Inl (ascii ''request.idempotency_mismatch''), s)
         else (Inr (), s)
     | None \<Rightarrow> (Inr (), push_unwrap_dispatch rid (put_request rid (new_unwrap_request now asset_id amount recipient) s)))"

definition derive_log_request_id :: "(bytes \<Rightarrow> bytes) \<Rightarrow> tx_id \<Rightarrow> nat \<Rightarrow> tx_id option" where
  "derive_log_request_id k t log_index =
    map_option (\<lambda>i :: u32. k (t @ to_be_bytes i)) (try_of_nat log_index)"

definition record_request :: "u64 \<Rightarrow> tx_id \<Rightarrow> bytes \<Rightarrow> bytes \<Rightarrow> bytes \<Rightarrow> dispatch_state \<Rightarrow> dispatch_state" where
  "record_request now rid asset_id amount recipient s =
    (if oget (unwrap_requests s) rid \<noteq> None then s
     else push_unwrap_dispatch rid (put_request rid (new_unwrap_request now asset_id amount recipient) s))"

definition record_unwrap_log ::
  "(bytes \<Rightarrow> bytes) \<Rightarrow> u64 \<Rightarrow> tx_id \<Rightarrow> nat \<times> log_entry \<Rightarrow> dispatch_state \<Rightarrow> dispatch_state" where
  "record_unwrap_log k now t = (\<lambda>(log_index, l) s.
    case native_withdraw_intent_from_log k l of
      Some intent \<Rightarrow>
        (case derive_log_request_id k t log_index of
           None \<Rightarrow> s
         | Some rid \<Rightarrow> record_request now rid NATIVE_WITHDRAW_ASSET_MARKER (ni_amount_e8s intent) (ni_recipient intent) s)
    | None \<Rightarrow>
        (case unwrap_intent_from_log k l of
           None \<Rightarrow> s
         | Some intent \<Rightarrow>
             (case derive_log_request_id k t log_index of
                None \<Rightarrow> s
              | Some rid \<Rightarrow> record_request now rid (ui_asset_id intent) (ui_amount intent) (ui_recipient intent) s)))"

definition record_unwrap_requests_from_block ::
  "(bytes \<Rightarrow> bytes) \<Rightarrow> (tx_id \<Rightarrow> receipt_like option) \<Rightarrow> u64 \<Rightarrow> tx_id list \<Rightarrow> dispatch_state \<Rightarrow> dispatch_state" where
  "record_unwrap_requests_from_block k get_receipt now tx_ids =
    fold (\<lambda>t s. case get_receipt t of
        None \<Rightarrow> s
      | Some receipt \<Rightarrow> fold (record_unwrap_log k now t) (enumerate 0 (rcpt_logs receipt)) s) tx_ids"

section \<open>The queue\<close>

definition is_decode_failed_unwrap_request :: "unwrap_dispatch_request \<Rightarrow> bool" where
  "is_decode_failed_unwrap_request r \<longleftrightarrow> ur_error_code r = Some UNWRAP_DECODE_FAILURE_CODE"

definition is_quarantined_unwrap_request :: "unwrap_dispatch_request \<Rightarrow> bool" where
  "is_quarantined_unwrap_request r \<longleftrightarrow> ur_error_code r = Some UNWRAP_QUARANTINE_ERROR"

definition should_skip_dispatch_unwrap_request :: "unwrap_dispatch_request \<Rightarrow> bool" where
  "should_skip_dispatch_unwrap_request r \<longleftrightarrow> is_decode_failed_unwrap_request r \<or> is_quarantined_unwrap_request r"

definition quarantined :: "u64 \<Rightarrow> unwrap_dispatch_request \<Rightarrow> unwrap_dispatch_request" where
  "quarantined now r = r\<lparr>ur_updated_at := now, ur_status := UrDispatchFailed, ur_ledger_tx_id := None,
    ur_error_code := Some UNWRAP_QUARANTINE_ERROR\<rparr>"

definition dispatching :: "u64 \<Rightarrow> unwrap_dispatch_request \<Rightarrow> unwrap_dispatch_request" where
  "dispatching now r = r\<lparr>ur_status := UrDispatching, ur_updated_at := now,
    ur_transfer_created_at_time :=
      (if ur_transfer_created_at_time r = 0 then now else ur_transfer_created_at_time r)\<rparr>"

datatype pop_error = QueueMissing u64 | RequestMissing tx_id | Quarantined tx_id

definition pop_next_dispatch_request ::
  "u64 \<Rightarrow> dispatch_state \<Rightarrow> (pop_error + (tx_id \<times> unwrap_dispatch_request) option) \<times> dispatch_state" where
  "pop_next_dispatch_request now s =
    (case queue_meta_pop (unwrap_dispatch_meta s) of
       (None, meta) \<Rightarrow> (Inr None, s\<lparr>unwrap_dispatch_meta := meta\<rparr>)
     | (Some seq, meta) \<Rightarrow>
         let s1 = s\<lparr>unwrap_dispatch_meta := meta\<rparr>
         in case oget (unwrap_dispatch_queue s1) seq of
              None \<Rightarrow> (Inl (QueueMissing seq), s1)
            | Some rid \<Rightarrow>
                let s2 = s1\<lparr>unwrap_dispatch_queue := oremove seq (unwrap_dispatch_queue s1)\<rparr>
                in case oget (unwrap_requests s2) rid of
                     None \<Rightarrow> (Inl (RequestMissing rid), s2)
                   | Some r \<Rightarrow>
                       if should_skip_dispatch_unwrap_request r
                       then (Inl (Quarantined rid), put_request rid (quarantined now r) s2)
                       else (Inr (Some (rid, dispatching now r)), put_request rid (dispatching now r) s2))"

text \<open>The loop of \<open>unwrap_dispatch_tick\<close> up to its first await: entries that cannot be dispatched are skipped.\<close>

partial_function (option) pop_until_dispatchable ::
  "u64 \<Rightarrow> dispatch_state \<Rightarrow> ((tx_id \<times> unwrap_dispatch_request) option \<times> dispatch_state) option" where
  "pop_until_dispatchable now s =
    (case pop_next_dispatch_request now s of
       (Inr r, s1) \<Rightarrow> Some (r, s1)
     | (Inl _, s1) \<Rightarrow> pop_until_dispatchable now s1)"

definition quarantine_decode_failed_unwrap_requests :: "u64 \<Rightarrow> dispatch_state \<Rightarrow> (u64 \<times> u64) \<times> dispatch_state" where
  "quarantine_decode_failed_unwrap_requests now s =
    (let request_ids = map fst (filter (\<lambda>(_, r). is_decode_failed_unwrap_request r) (entries (unwrap_requests s)));
         s1 = fold (\<lambda>rid s. case oget (unwrap_requests s) rid of
                None \<Rightarrow> s | Some r \<Rightarrow> put_request rid (quarantined now r) s) request_ids s
     in if request_ids = [] then ((0, 0), s1)
        else
          let seqs = map fst (filter (\<lambda>(_, rid). rid \<in> set request_ids) (entries (unwrap_dispatch_queue s1)));
              s2 = s1\<lparr>unwrap_dispatch_queue := fold oremove seqs (unwrap_dispatch_queue s1)\<rparr>
          in ((word_of_nat (length request_ids), word_of_nat (length seqs)), s2))"

section \<open>One dispatch\<close>

record applied_outcome =
  ao_status :: unwrap_request_status
  ao_ledger_tx_id :: "bytes option"
  ao_error_code :: "bytes option"

definition dispatch_failed :: "bytes \<Rightarrow> applied_outcome" where
  "dispatch_failed code = \<lparr>ao_status = UrDispatchFailed, ao_ledger_tx_id = None, ao_error_code = Some code\<rparr>"

definition is_native_withdraw_dispatch_request :: "unwrap_dispatch_request \<Rightarrow> bool" where
  "is_native_withdraw_dispatch_request r \<longleftrightarrow> ur_asset_id r = NATIVE_WITHDRAW_ASSET_MARKER"

definition current_native_ledger_canister :: "dispatch_state \<Rightarrow> bytes + bytes" where
  "current_native_ledger_canister s = principal_from_stored_bytes (wrap_native_ledger_canister s)"

datatype dispatch_next =
    Finish applied_outcome
  | CallFee bytes bytes
  | CallTransfer bytes icrc1_transfer_arg

definition unwrap_transfer_arg :: "(bytes \<Rightarrow> bytes) \<Rightarrow> tx_id \<Rightarrow> unwrap_dispatch_request \<Rightarrow> bytes \<Rightarrow> nat \<Rightarrow> icrc1_transfer_arg" where
  "unwrap_transfer_arg k rid r recipient amount =
    icrc1_transfer_arg_of recipient amount (request_memo k rid MemoUnwrap) (ur_transfer_created_at_time r)"

text \<open>\<open>dispatch_unwrap_request_internal\<close> up to its first await, from the fee to the transfer, and after the transfer.\<close>

definition dispatch_begin :: "(bytes \<Rightarrow> bytes) \<Rightarrow> dispatch_state \<Rightarrow> tx_id \<Rightarrow> unwrap_dispatch_request \<Rightarrow> dispatch_next" where
  "dispatch_begin k s rid r =
    (case (if is_native_withdraw_dispatch_request r then current_native_ledger_canister s
           else principal_from_stored_bytes (ur_asset_id r)) of
       Inl code \<Rightarrow> Finish (dispatch_failed code)
     | Inr ledger \<Rightarrow>
         (case principal_from_stored_bytes (ur_recipient r) of
            Inl code \<Rightarrow> Finish (dispatch_failed code)
          | Inr recipient \<Rightarrow>
              if is_native_withdraw_dispatch_request r then CallFee ledger recipient
              else CallTransfer ledger (unwrap_transfer_arg k rid r recipient (from_be (ur_amount r)))))"

definition dispatch_after_fee ::
  "(bytes \<Rightarrow> bytes) \<Rightarrow> tx_id \<Rightarrow> unwrap_dispatch_request \<Rightarrow> bytes \<Rightarrow> bytes \<Rightarrow> nat call_result \<Rightarrow> dispatch_next" where
  "dispatch_after_fee k rid r ledger recipient result =
    (case fetch_icrc1_fee_result result of
       Inl code \<Rightarrow> Finish (dispatch_failed code)
     | Inr fee \<Rightarrow>
         (case native_withdraw_gross_transfer_amount (from_be (ur_amount r)) fee of
            Inl code \<Rightarrow> Finish (dispatch_failed code)
          | Inr amount \<Rightarrow> CallTransfer ledger (unwrap_transfer_arg k rid r recipient amount)))"

definition dispatch_after_transfer :: "(icrc1_transfer_error + nat) call_result \<Rightarrow> applied_outcome" where
  "dispatch_after_transfer result =
    (case attempt_icrc1_transfer_result result of
       Inr ledger_tx_id \<Rightarrow> \<lparr>ao_status = UrDispatched, ao_ledger_tx_id = Some ledger_tx_id, ao_error_code = None\<rparr>
     | Inl code \<Rightarrow> dispatch_failed code)"

definition finalize_unwrap_dispatch_attempt :: "tx_id \<Rightarrow> u64 \<Rightarrow> applied_outcome \<Rightarrow> dispatch_state \<Rightarrow> dispatch_state" where
  "finalize_unwrap_dispatch_attempt rid now applied s =
    (case oget (unwrap_requests s) rid of
       None \<Rightarrow> s
     | Some r \<Rightarrow>
         put_request rid
           (r\<lparr>ur_updated_at := now,
              ur_ledger_tx_id := (case ao_ledger_tx_id applied of
                  None \<Rightarrow> None
                | Some t \<Rightarrow> (case validated_ledger_tx_id t of Inl _ \<Rightarrow> None | Inr v \<Rightarrow> Some v)),
              ur_status := ao_status applied,
              ur_error_code := map_option clamp_error_code (ao_error_code applied)\<rparr>) s)"

section \<open>Retrying and repairing\<close>

definition retry_unwrap_dispatch :: "bytes \<Rightarrow> u64 \<Rightarrow> dispatch_state \<Rightarrow> (bytes + unit) \<times> dispatch_state" where
  "retry_unwrap_dispatch rid now s =
    (if length rid \<noteq> 32 then (Inl (ascii ''arg.request_id_invalid''), s)
     else case oget (unwrap_requests s) rid of
       None \<Rightarrow> (Inl (ascii ''request.not_found''), s)
     | Some r \<Rightarrow>
         if ur_status r \<noteq> UrDispatchFailed then (Inl (ascii ''request.retry_invalid_state''), s)
         else (Inr (), push_unwrap_dispatch rid
                (put_request rid (r\<lparr>ur_status := UrQueued, ur_error_code := None, ur_updated_at := now\<rparr>) s)))"

text \<open>Requests to queue again are queued unless an entry is there, in the order they were found.\<close>

fun requeue_unwrap :: "tx_id list \<Rightarrow> tx_id set \<Rightarrow> dispatch_state \<Rightarrow> dispatch_state" where
  "requeue_unwrap [] queued s = s"
| "requeue_unwrap (rid # rids) queued s =
    (if rid \<in> queued then requeue_unwrap rids queued s
     else requeue_unwrap rids (insert rid queued) (push_unwrap_dispatch rid s))"

definition queued_ids :: "dispatch_state \<Rightarrow> tx_id set" where
  "queued_ids s = snd ` set (entries (unwrap_dispatch_queue s))"

definition stale_unwrap :: "u64 \<Rightarrow> unwrap_dispatch_request \<Rightarrow> bool" where
  "stale_unwrap now r \<longleftrightarrow> ur_status r = UrDispatching \<and> ur_updated_at r \<le> sat_sub now STALE_OPERATION_NANOS"

definition requeued :: "u64 \<Rightarrow> unwrap_dispatch_request \<Rightarrow> unwrap_dispatch_request" where
  "requeued now r = r\<lparr>ur_status := UrQueued, ur_updated_at := now,
    ur_transfer_created_at_time :=
      (if ur_transfer_created_at_time r = 0 then now else ur_transfer_created_at_time r)\<rparr>"

definition repair_stale_unwrap :: "u64 \<Rightarrow> dispatch_state \<Rightarrow> dispatch_state" where
  "repair_stale_unwrap now s =
    (let stale = filter (\<lambda>(_, r). stale_unwrap now r) (entries (unwrap_requests s));
         s1 = fold (\<lambda>(rid, r). put_request rid (requeued now r)) stale s
     in requeue_unwrap (map fst stale) (queued_ids s1) s1)"

fun requeue_candidates :: "(tx_id \<times> unwrap_dispatch_request) list \<Rightarrow> tx_id set \<Rightarrow> dispatch_state \<Rightarrow> dispatch_state" where
  "requeue_candidates [] queued s = s"
| "requeue_candidates ((rid, r) # cs) queued s =
    (let s1 = put_request rid r s
     in if rid \<in> queued then requeue_candidates cs queued s1
        else requeue_candidates cs (insert rid queued) (push_unwrap_dispatch rid s1))"

definition recover_unwrap_dispatch_state_after_upgrade :: "u64 \<Rightarrow> dispatch_state \<Rightarrow> bool \<times> dispatch_state" where
  "recover_unwrap_dispatch_state_after_upgrade now s =
    (let queued = queued_ids s;
         candidates = List.map_filter (\<lambda>(rid, r).
           case ur_status r of
             UrQueued \<Rightarrow> if rid \<in> queued then None else Some (rid, r)
           | UrDispatching \<Rightarrow> Some (rid, r\<lparr>ur_status := UrQueued, ur_updated_at := now\<rparr>)
           | _ \<Rightarrow> None) (entries (unwrap_requests s));
         s1 = (if candidates = [] then s else requeue_candidates candidates queued s)
     in (entries (unwrap_dispatch_queue s1) \<noteq> [], s1))"

section \<open>The judged transitions\<close>

definition unwrap_dispatch_terminal_raw :: "u64 \<Rightarrow> bool" where
  "unwrap_dispatch_terminal_raw status \<longleftrightarrow> status = 2 \<or> status = 3"

definition unwrap_retry_transition_safe_raw :: "u64 \<Rightarrow> u64 \<Rightarrow> u64 \<Rightarrow> u64 \<Rightarrow> bool" where
  "unwrap_retry_transition_safe_raw previous_status next_status queue_inserted error_cleared \<longleftrightarrow>
    previous_status = 3 \<and> next_status = 0 \<and> queue_inserted = 1 \<and> error_cleared = 1"

definition unwrap_dispatch_transition_safe_raw :: "u64 \<Rightarrow> u64 \<Rightarrow> u64 \<Rightarrow> u64 \<Rightarrow> u64 \<Rightarrow> bool" where
  "unwrap_dispatch_transition_safe_raw previous_status next_status ledger_tx_id_present error_present queue_inserted \<longleftrightarrow>
    previous_status = 0 \<and> next_status = 1 \<and> ledger_tx_id_present = 0 \<and> error_present = 0 \<and> queue_inserted = 0
    \<or> previous_status = 1 \<and> next_status = 2 \<and> ledger_tx_id_present = 1 \<and> error_present = 0 \<and> queue_inserted = 0
    \<or> previous_status = 1 \<and> next_status = 3 \<and> ledger_tx_id_present = 0 \<and> error_present = 1 \<and> queue_inserted = 0
    \<or> previous_status = 3 \<and> next_status = 0 \<and> ledger_tx_id_present = 0 \<and> error_present = 0 \<and> queue_inserted = 1"

definition unwrap_upgrade_recovery_safe_raw :: "u64 \<Rightarrow> u64 \<Rightarrow> u64 \<Rightarrow> u64 \<Rightarrow> u64 \<Rightarrow> bool" where
  "unwrap_upgrade_recovery_safe_raw previous_status next_status queue_already_had_id queue_inserted timestamp_updated \<longleftrightarrow>
    previous_status = 0 \<and> next_status = 0 \<and> timestamp_updated = 0
      \<and> (queue_already_had_id = 1 \<and> queue_inserted = 0 \<or> queue_already_had_id = 0 \<and> queue_inserted = 1)
    \<or> previous_status = 1 \<and> next_status = 0 \<and> queue_already_had_id = 0 \<and> queue_inserted = 1 \<and> timestamp_updated = 1
    \<or> (previous_status = 2 \<or> previous_status = 3) \<and> next_status = previous_status \<and> queue_inserted = 0
      \<and> timestamp_updated = 0"

text \<open>Removing several entries of a queue.\<close>

lemma fold_oremove: "oget (fold oremove ks m) q = (if q \<in> set ks then None else oget m q)"
  by (induction ks arbitrary: m) auto

end
