(* ===== verification/Unwrap_Machine.thy ===== *)
theory Unwrap_Machine
  imports Unwrap_Dispatch
begin

text \<open>
  Unwrap dispatch among everything that can interleave with it: several dispatches in flight, users retrying,
  the repair of stale requests, upgrades that lose callbacks while the messages they wait for are still under
  way, ledgers that answer late or not at all. The blocks of a ledger are kept with the request that paid them.
\<close>

section \<open>The machine\<close>

datatype flight_stage =
    AwaitFee
  | AwaitTransfer icrc1_transfer_arg
  | Replied "(icrc1_transfer_error + nat) call_result"

record flight =
  fl_request :: tx_id
  fl_req :: unwrap_dispatch_request
  fl_ledger :: bytes
  fl_recipient :: bytes
  fl_stage :: flight_stage
  fl_alive :: bool

record dispatch_system =
  gw :: dispatch_state
  flights :: "flight list"
  blocks_of :: "bytes \<Rightarrow> (tx_id \<times> icrc1_transfer_arg) list"

definition proceed :: "u64 \<Rightarrow> tx_id \<Rightarrow> unwrap_dispatch_request \<Rightarrow> dispatch_next \<Rightarrow> dispatch_system \<Rightarrow> dispatch_system" where
  "proceed now rid r next S =
    (case next of
       Finish applied \<Rightarrow> S\<lparr>gw := finalize_unwrap_dispatch_attempt rid now applied (gw S)\<rparr>
     | CallFee ledger recipient \<Rightarrow>
         S\<lparr>flights := flights S @ [\<lparr>fl_request = rid, fl_req = r, fl_ledger = ledger, fl_recipient = recipient,
           fl_stage = AwaitFee, fl_alive = True\<rparr>]\<rparr>
     | CallTransfer ledger a \<Rightarrow>
         S\<lparr>flights := flights S @ [\<lparr>fl_request = rid, fl_req = r, fl_ledger = ledger, fl_recipient = ac_owner (ta_to a),
           fl_stage = AwaitTransfer a, fl_alive = True\<rparr>]\<rparr>)"

definition ledger_executes :: "bytes \<Rightarrow> tx_id \<Rightarrow> icrc1_transfer_arg \<Rightarrow> icrc1_transfer_error + nat
    \<Rightarrow> (bytes \<Rightarrow> (tx_id \<times> icrc1_transfer_arg) list) \<Rightarrow> bytes \<Rightarrow> (tx_id \<times> icrc1_transfer_arg) list" where
  "ledger_executes ledger rid a answer bl =
    (case answer of Inr _ \<Rightarrow> bl(ledger := bl ledger @ [(rid, a)]) | Inl _ \<Rightarrow> bl)"

inductive dispatch_step ::
  "(bytes \<Rightarrow> bytes) \<Rightarrow> (icrc1_transfer_arg list \<Rightarrow> icrc1_transfer_arg \<Rightarrow> icrc1_transfer_error + nat \<Rightarrow> bool)
    \<Rightarrow> dispatch_system \<Rightarrow> dispatch_system \<Rightarrow> bool"
  for k allowed where
  ds_insert: "dispatch_step k allowed S (S\<lparr>gw := snd (insert_unwrap_dispatch_request now rid asset amount recipient (gw S))\<rparr>)"
| ds_record: "dispatch_step k allowed S (S\<lparr>gw := record_unwrap_requests_from_block k get_receipt now ids (gw S)\<rparr>)"
| ds_idle: "pop_until_dispatchable now (gw S) = Some (None, s1) \<Longrightarrow> dispatch_step k allowed S (S\<lparr>gw := s1\<rparr>)"
| ds_tick: "0 < now \<Longrightarrow> pop_until_dispatchable now (gw S) = Some (Some (rid, r), s1) \<Longrightarrow>
    dispatch_step k allowed S (proceed now rid r (dispatch_begin k s1 rid r) (S\<lparr>gw := s1\<rparr>))"
| ds_fee: "flights S = fs @ f # gs \<Longrightarrow> fl_stage f = AwaitFee \<Longrightarrow> fl_alive f \<Longrightarrow>
    dispatch_step k allowed S (proceed now (fl_request f) (fl_req f)
      (dispatch_after_fee k (fl_request f) (fl_req f) (fl_ledger f) (fl_recipient f) result) (S\<lparr>flights := fs @ gs\<rparr>))"
| ds_execute: "flights S = fs @ f # gs \<Longrightarrow> fl_stage f = AwaitTransfer a \<Longrightarrow>
    allowed (map snd (blocks_of S (fl_ledger f))) a answer \<Longrightarrow>
    dispatch_step k allowed S (S\<lparr>flights := fs @ f\<lparr>fl_stage := Replied (Reply answer)\<rparr> # gs,
      blocks_of := ledger_executes (fl_ledger f) (fl_request f) a answer (blocks_of S)\<rparr>)"
| ds_lost: "flights S = fs @ f # gs \<Longrightarrow> fl_stage f = AwaitTransfer a \<Longrightarrow>
    dispatch_step k allowed S (S\<lparr>flights := fs @ f\<lparr>fl_stage := Replied (CallRejected err)\<rparr> # gs\<rparr>)"
| ds_garbled: "flights S = fs @ f # gs \<Longrightarrow> fl_stage f = Replied c \<Longrightarrow>
    dispatch_step k allowed S (S\<lparr>flights := fs @ f\<lparr>fl_stage := Replied (ReplyUndecodable err)\<rparr> # gs\<rparr>)"
| ds_finish: "flights S = fs @ f # gs \<Longrightarrow> fl_stage f = Replied c \<Longrightarrow> fl_alive f \<Longrightarrow>
    dispatch_step k allowed S (S\<lparr>flights := fs @ gs,
      gw := finalize_unwrap_dispatch_attempt (fl_request f) now (dispatch_after_transfer c) (gw S)\<rparr>)"
| ds_retry: "dispatch_step k allowed S (S\<lparr>gw := snd (retry_unwrap_dispatch rid now (gw S))\<rparr>)"
| ds_repair: "0 < now \<Longrightarrow> dispatch_step k allowed S (S\<lparr>gw := repair_stale_unwrap now (gw S)\<rparr>)"
| ds_upgrade: "dispatch_step k allowed S
    (S\<lparr>gw := snd (recover_unwrap_dispatch_state_after_upgrade now
          (snd (quarantine_decode_failed_unwrap_requests now ((gw S)\<lparr>wrap_native_ledger_canister := native_ledger\<rparr>)))),
       flights := map (\<lambda>f. f\<lparr>fl_alive := False\<rparr>) (flights S)\<rparr>)"

definition dispatch_init :: "dispatch_system \<Rightarrow> bool" where
  "dispatch_init S \<longleftrightarrow> unwrap_requests (gw S) = oempty \<and> unwrap_dispatch_queue (gw S) = oempty
    \<and> unwrap_dispatch_meta (gw S) = queue_meta_new \<and> flights S = [] \<and> (\<forall>l. blocks_of S l = [])"

section \<open>How requests evolve\<close>

text \<open>The terms of a request are fixed when it is recorded, its creation time when it is first dispatched; only the
  end of an attempt can report it as dispatched.\<close>

definition same_terms :: "unwrap_dispatch_request \<Rightarrow> unwrap_dispatch_request \<Rightarrow> bool" where
  "same_terms r r' \<longleftrightarrow> ur_asset_id r' = ur_asset_id r \<and> ur_amount r' = ur_amount r \<and> ur_recipient r' = ur_recipient r
    \<and> (ur_transfer_created_at_time r \<noteq> 0 \<longrightarrow> ur_transfer_created_at_time r' = ur_transfer_created_at_time r)"

definition evolves :: "dispatch_state \<Rightarrow> dispatch_state \<Rightarrow> bool" where
  "evolves s s' \<longleftrightarrow>
    (\<forall>rid r. oget (unwrap_requests s) rid = Some r \<longrightarrow> (\<exists>r'. oget (unwrap_requests s') rid = Some r' \<and> same_terms r r'))
    \<and> (\<forall>rid r'. oget (unwrap_requests s') rid = Some r' \<longrightarrow> ur_status r' = UrDispatched
        \<longrightarrow> (\<exists>r. oget (unwrap_requests s) rid = Some r \<and> ur_status r = UrDispatched))"

lemma same_terms_refl [simp]: "same_terms r r"
  by (simp add: same_terms_def)

lemma same_terms_trans: "same_terms a b \<Longrightarrow> same_terms b c \<Longrightarrow> same_terms a c"
  by (auto simp: same_terms_def)

lemma evolves_refl [simp]: "evolves s s"
  by (simp add: evolves_def)

lemma evolves_trans [trans]: "evolves a b \<Longrightarrow> evolves b c \<Longrightarrow> evolves a c"
  unfolding evolves_def by (meson same_terms_trans)

lemma evolves_same: "unwrap_requests s' = unwrap_requests s \<Longrightarrow> evolves s s'"
  by (simp add: evolves_def)

lemma evolves_put:
  assumes "oget (unwrap_requests s) rid = Some r" "same_terms r r'" "ur_status r' \<noteq> UrDispatched"
  shows "evolves s (put_request rid r' s)"
  using assms by (auto simp: evolves_def put_request_def)

lemma evolves_new:
  "oget (unwrap_requests s) rid = None \<Longrightarrow> ur_status r \<noteq> UrDispatched \<Longrightarrow> evolves s (put_request rid r s)"
  by (auto simp: evolves_def put_request_def)

lemma unwrap_requests_push [simp]: "unwrap_requests (push_unwrap_dispatch rid s) = unwrap_requests s"
  by (simp add: push_unwrap_dispatch_def split: prod.splits)

lemma oget_put [simp]: "oget (unwrap_requests (put_request rid r s)) q = (if q = rid then Some r else oget (unwrap_requests s) q)"
  by (simp add: put_request_def)

lemma evolves_push: "evolves s s' \<Longrightarrow> evolves s (push_unwrap_dispatch rid s')"
  by (rule evolves_trans [OF _ evolves_same]) simp_all

lemma evolves_fold: "(\<And>x s. evolves s (f x s)) \<Longrightarrow> evolves s (fold f xs s)"
  by (induction xs arbitrary: s) (auto intro: evolves_trans)

lemma evolves_insert: "evolves s (snd (insert_unwrap_dispatch_request now rid a m p s))"
  by (auto simp: insert_unwrap_dispatch_request_def new_unwrap_request_def split: option.splits
      intro!: evolves_push evolves_new)

lemma evolves_record_log: "evolves s (record_unwrap_log k now t x s)"
  by (auto simp: record_unwrap_log_def record_request_def new_unwrap_request_def split: option.splits prod.splits
      intro!: evolves_push evolves_new)

lemma evolves_record: "evolves s (record_unwrap_requests_from_block k get now ids s)"
  unfolding record_unwrap_requests_from_block_def
  by (rule evolves_fold) (auto split: option.splits intro: evolves_fold evolves_record_log)

text \<open>What a pop can do: nothing to pop, a hole in the queue, an entry without request, an unreadable request, or
  a request that is now being dispatched.\<close>

lemma pop_cases:
  assumes "pop_next_dispatch_request now s = (res, s')"
  obtains
    (empty) "head (unwrap_dispatch_meta s) = tail (unwrap_dispatch_meta s)" "res = Inr None" "s' = s"
  | (hole) "head (unwrap_dispatch_meta s) \<noteq> tail (unwrap_dispatch_meta s)"
      "oget (unwrap_dispatch_queue s) (head (unwrap_dispatch_meta s)) = None"
      "res = Inl (QueueMissing (head (unwrap_dispatch_meta s)))"
      "s' = s\<lparr>unwrap_dispatch_meta := (unwrap_dispatch_meta s)\<lparr>head := sat_add (head (unwrap_dispatch_meta s)) 1\<rparr>\<rparr>"
  | (orphan) rid where "head (unwrap_dispatch_meta s) \<noteq> tail (unwrap_dispatch_meta s)"
      "oget (unwrap_dispatch_queue s) (head (unwrap_dispatch_meta s)) = Some rid"
      "oget (unwrap_requests s) rid = None" "res = Inl (RequestMissing rid)"
      "s' = s\<lparr>unwrap_dispatch_meta := (unwrap_dispatch_meta s)\<lparr>head := sat_add (head (unwrap_dispatch_meta s)) 1\<rparr>,
        unwrap_dispatch_queue := oremove (head (unwrap_dispatch_meta s)) (unwrap_dispatch_queue s)\<rparr>"
  | (found) rid r r' where "head (unwrap_dispatch_meta s) \<noteq> tail (unwrap_dispatch_meta s)"
      "oget (unwrap_dispatch_queue s) (head (unwrap_dispatch_meta s)) = Some rid"
      "oget (unwrap_requests s) rid = Some r"
      "should_skip_dispatch_unwrap_request r \<and> res = Inl (Quarantined rid) \<and> r' = quarantined now r
        \<or> \<not> should_skip_dispatch_unwrap_request r \<and> res = Inr (Some (rid, r')) \<and> r' = dispatching now r"
      "s' = put_request rid r'
        (s\<lparr>unwrap_dispatch_meta := (unwrap_dispatch_meta s)\<lparr>head := sat_add (head (unwrap_dispatch_meta s)) 1\<rparr>,
        unwrap_dispatch_queue := oremove (head (unwrap_dispatch_meta s)) (unwrap_dispatch_queue s)\<rparr>)"
proof (cases "head (unwrap_dispatch_meta s) = tail (unwrap_dispatch_meta s)")
  case True
  then show ?thesis
    using assms by (intro empty)
      (auto simp: pop_next_dispatch_request_def queue_meta_pop_def queue_pop_def queue_is_empty_def)
next
  case False
  then have pop: "queue_meta_pop (unwrap_dispatch_meta s)
      = (Some (head (unwrap_dispatch_meta s)), (unwrap_dispatch_meta s)\<lparr>head := sat_add (head (unwrap_dispatch_meta s)) 1\<rparr>)"
    by (simp add: queue_meta_pop_def queue_pop_def queue_is_empty_def)
  show ?thesis
  proof (cases "oget (unwrap_dispatch_queue s) (head (unwrap_dispatch_meta s))")
    case None
    then show ?thesis
      using assms False pop by (intro hole) (auto simp: pop_next_dispatch_request_def)
  next
    case (Some rid)
    show ?thesis
    proof (cases "oget (unwrap_requests s) rid")
      case None
      then show ?thesis
        using assms False pop Some by (intro orphan) (auto simp: pop_next_dispatch_request_def)
    next
      case req: (Some r)
      show ?thesis
        using assms False pop Some req
        by (cases "should_skip_dispatch_unwrap_request r")
          (auto simp: pop_next_dispatch_request_def Let_def intro: found [OF False Some req])
    qed
  qed
qed

lemma same_terms_marked: "same_terms r (quarantined now r)" "same_terms r (dispatching now r)" "same_terms r (requeued now r)"
    "ur_status (quarantined now r) = UrDispatchFailed" "ur_status (dispatching now r) = UrDispatching"
    "ur_status (requeued now r) = UrQueued"
  by (simp_all add: same_terms_def quarantined_def dispatching_def requeued_def)

lemma evolves_pop: "pop_next_dispatch_request now s = (res, s') \<Longrightarrow> evolves s s'"
proof (elim pop_cases)
  fix rid r r'
  assume r: "oget (unwrap_requests s) rid = Some r"
    and r': "should_skip_dispatch_unwrap_request r \<and> res = Inl (Quarantined rid) \<and> r' = quarantined now r
        \<or> \<not> should_skip_dispatch_unwrap_request r \<and> res = Inr (Some (rid, r')) \<and> r' = dispatching now r"
    and s': "s' = put_request rid r'
        (s\<lparr>unwrap_dispatch_meta := (unwrap_dispatch_meta s)\<lparr>head := sat_add (head (unwrap_dispatch_meta s)) 1\<rparr>,
        unwrap_dispatch_queue := oremove (head (unwrap_dispatch_meta s)) (unwrap_dispatch_queue s)\<rparr>)"
  have "same_terms r r'" "ur_status r' \<noteq> UrDispatched"
    using r' same_terms_marked by auto
  then show "evolves s s'"
    unfolding s' by (intro evolves_trans [OF evolves_same evolves_put]) (simp_all add: r)
qed (auto intro: evolves_same)

lemma pop_until_step:
  "pop_until_dispatchable now s =
    (case pop_next_dispatch_request now s of (Inr r, s1) \<Rightarrow> Some (r, s1) | (Inl _, s1) \<Rightarrow> pop_until_dispatchable now s1)"
  by (rule pop_until_dispatchable.simps)

definition popped :: "u64 \<Rightarrow> dispatch_state \<Rightarrow> (tx_id \<times> unwrap_dispatch_request) option \<times> dispatch_state \<Rightarrow> bool" where
  "popped now s = (\<lambda>(p, s'). evolves s s'
    \<and> (case p of None \<Rightarrow> True | Some (rid, r) \<Rightarrow> oget (unwrap_requests s') rid = Some r
        \<and> (0 < now \<longrightarrow> ur_transfer_created_at_time r \<noteq> 0)))"

lemma pop_until_popped: "pop_until_dispatchable now s = Some y \<Longrightarrow> popped now s y"
proof (rule pop_until_dispatchable.raw_induct [where P = popped])
  fix f now s y
  assume IH: "\<And>now s y. f now s = Some y \<Longrightarrow> popped now s y"
    and body: "(case pop_next_dispatch_request now s of (Inr r, s1) \<Rightarrow> Some (r, s1) | (Inl _, s1) \<Rightarrow> f now s1) = Some y"
  obtain res s1 where pop: "pop_next_dispatch_request now s = (res, s1)"
    by fastforce
  show "popped now s y"
  proof (cases res)
    case (Inl e)
    then have "popped now s1 y"
      using body pop by (intro IH) simp
    then show ?thesis
      using evolves_trans [OF evolves_pop [OF pop]] unfolding popped_def by blast
  next
    case (Inr q)
    then have "y = (q, s1)"
      using body pop by auto
    moreover have "ur_transfer_created_at_time (dispatching now r) \<noteq> 0" if "0 < now" for r
      using that by (auto simp: dispatching_def)
    moreover have "case q of None \<Rightarrow> True | Some (rid, r) \<Rightarrow> oget (unwrap_requests s1) rid = Some r
        \<and> (\<exists>r0. r = dispatching now r0)"
      using pop Inr by (elim pop_cases) (auto split: option.splits)
    ultimately show ?thesis
      using evolves_pop [OF pop] by (auto simp: popped_def split: option.splits)
  qed
qed

lemma evolves_requeue: "evolves s (requeue_unwrap rids q s)"
  by (induction rids q s rule: requeue_unwrap.induct) (auto intro: evolves_trans [OF evolves_push [OF evolves_refl]])

lemma evolves_puts:
  assumes "distinct (map fst cs)"
    and "\<And>rid r. (rid, r) \<in> set cs \<Longrightarrow>
      \<exists>r0. oget (unwrap_requests s) rid = Some r0 \<and> same_terms r0 (g r) \<and> ur_status (g r) \<noteq> UrDispatched"
  shows "evolves s (fold (\<lambda>(rid, r). put_request rid (g r)) cs s)"
  using assms
proof (induction cs arbitrary: s)
  case (Cons c cs)
  obtain rid r where c: "c = (rid, r)"
    by fastforce
  then obtain r0 where r0: "oget (unwrap_requests s) rid = Some r0" "same_terms r0 (g r)" "ur_status (g r) \<noteq> UrDispatched"
    using Cons.prems(2) [of rid r] by auto
  have "evolves (put_request rid (g r) s) (fold (\<lambda>(rid, r). put_request rid (g r)) cs (put_request rid (g r) s))"
  proof (rule Cons.IH)
    fix q rq
    assume q: "(q, rq) \<in> set cs"
    then have "q \<noteq> rid"
      using Cons.prems(1) c by force
    then show "\<exists>r0. oget (unwrap_requests (put_request rid (g r) s)) q = Some r0 \<and> same_terms r0 (g rq)
        \<and> ur_status (g rq) \<noteq> UrDispatched"
      using Cons.prems(2) [of q rq] q by simp
  qed (use Cons.prems(1) in simp)
  then show ?case
    using evolves_trans [OF evolves_put [OF r0]] c by simp
qed simp

lemma distinct_filter_entries: "distinct (map fst (filter P (entries m)))"
proof -
  have "distinct (map fst (entries m))"
    using distinct_okeys [of m] by (simp add: okeys_def)
  then show ?thesis
    by (rule distinct_map_filter)
qed

lemma evolves_repair: "evolves s (repair_stale_unwrap now s)"
  unfolding repair_stale_unwrap_def Let_def
  by (rule evolves_trans [OF evolves_puts evolves_requeue])
    (auto simp: distinct_filter_entries oget_entries same_terms_marked)

lemma push_put_commute: "push_unwrap_dispatch rid (put_request q r s) = put_request q r (push_unwrap_dispatch rid s)"
  by (simp add: push_unwrap_dispatch_def put_request_def split: prod.splits)

lemma push_puts_commute:
  "push_unwrap_dispatch rid (fold (\<lambda>(rid, r). put_request rid r) cs s)
    = fold (\<lambda>(rid, r). put_request rid r) cs (push_unwrap_dispatch rid s)"
  by (induction cs arbitrary: s) (auto simp: push_put_commute)

lemma requeue_candidates_split:
  "requeue_candidates cs q s = requeue_unwrap (map fst cs) q (fold (\<lambda>(rid, r). put_request rid r) cs s)"
  by (induction cs q s rule: requeue_candidates.induct) (auto simp: Let_def push_puts_commute)

lemma set_map_filter: "set (List.map_filter f xs) = {y. \<exists>x\<in>set xs. f x = Some y}"
  by (force simp: List.map_filter_def)

lemma map_filter_Cons: "List.map_filter f (x # xs) = (case f x of None \<Rightarrow> List.map_filter f xs | Some y \<Rightarrow> y # List.map_filter f xs)"
  by (simp add: List.map_filter_def split: option.splits)

lemma distinct_map_filter_keys:
  assumes "distinct (map fst xs)" "\<And>x y. f x = Some y \<Longrightarrow> fst y = fst x"
  shows "distinct (map fst (List.map_filter f xs))"
  using assms(1)
proof (induction xs)
  case (Cons x xs)
  have "fst ` set (List.map_filter f xs) \<subseteq> fst ` set xs"
  proof
    fix q assume "q \<in> fst ` set (List.map_filter f xs)"
    then obtain x' y where "x' \<in> set xs" "f x' = Some y" "q = fst y"
      by (auto simp: set_map_filter)
    then show "q \<in> fst ` set xs"
      using assms(2) by auto
  qed
  then show ?case
    using Cons assms(2) [of x] by (simp add: map_filter_Cons split: option.splits) blast
qed (simp add: List.map_filter_def)

definition recover_candidates :: "u64 \<Rightarrow> dispatch_state \<Rightarrow> (tx_id \<times> unwrap_dispatch_request) list" where
  "recover_candidates now s = List.map_filter (\<lambda>(rid, r).
     case ur_status r of
       UrQueued \<Rightarrow> if rid \<in> queued_ids s then None else Some (rid, r)
     | UrDispatching \<Rightarrow> Some (rid, r\<lparr>ur_status := UrQueued, ur_updated_at := now\<rparr>)
     | _ \<Rightarrow> None) (entries (unwrap_requests s))"

lemma recover_eq:
  "snd (recover_unwrap_dispatch_state_after_upgrade now s) = requeue_unwrap (map fst (recover_candidates now s)) (queued_ids s)
    (fold (\<lambda>(rid, r). put_request rid r) (recover_candidates now s) s)"
  unfolding recover_unwrap_dispatch_state_after_upgrade_def recover_candidates_def [symmetric] Let_def
  by (simp add: requeue_candidates_split)

lemma recover_candidates_distinct: "distinct (map fst (recover_candidates now s))"
  unfolding recover_candidates_def
proof (rule distinct_map_filter_keys)
  show "distinct (map fst (entries (unwrap_requests s)))"
    using distinct_okeys [of "unwrap_requests s"] by (simp add: okeys_def)
qed (auto split: unwrap_request_status.splits if_splits)

lemma recover_candidates_mem:
  "(rid, r) \<in> set (recover_candidates now s) \<longleftrightarrow>
    (\<exists>r0. oget (unwrap_requests s) rid = Some r0 \<and>
      (ur_status r0 = UrQueued \<and> rid \<notin> queued_ids s \<and> r = r0
       \<or> ur_status r0 = UrDispatching \<and> r = r0\<lparr>ur_status := UrQueued, ur_updated_at := now\<rparr>))"
proof -
  have "(rid, r) \<in> set (recover_candidates now s) \<longleftrightarrow>
    (\<exists>r0. oget (unwrap_requests s) rid = Some r0 \<and> (case ur_status r0 of
       UrQueued \<Rightarrow> if rid \<in> queued_ids s then None else Some (rid, r0)
     | UrDispatching \<Rightarrow> Some (rid, r0\<lparr>ur_status := UrQueued, ur_updated_at := now\<rparr>)
     | _ \<Rightarrow> None) = Some (rid, r))"
    (is "?l = ?r")
  proof
    assume ?l
    then obtain q b where qb: "(q, b) \<in> set (entries (unwrap_requests s))" "(case ur_status b of
       UrQueued \<Rightarrow> if q \<in> queued_ids s then None else Some (q, b)
     | UrDispatching \<Rightarrow> Some (q, b\<lparr>ur_status := UrQueued, ur_updated_at := now\<rparr>)
     | _ \<Rightarrow> None) = Some (rid, r)"
      by (auto simp: recover_candidates_def set_map_filter)
    moreover from this have "q = rid"
      by (simp split: unwrap_request_status.splits if_splits)
    ultimately show ?r
      unfolding oget_entries by blast
  next
    assume ?r
    then obtain r0 where "oget (unwrap_requests s) rid = Some r0" "(case ur_status r0 of
       UrQueued \<Rightarrow> if rid \<in> queued_ids s then None else Some (rid, r0)
     | UrDispatching \<Rightarrow> Some (rid, r0\<lparr>ur_status := UrQueued, ur_updated_at := now\<rparr>)
     | _ \<Rightarrow> None) = Some (rid, r)"
      by blast
    then show ?l
      unfolding recover_candidates_def set_map_filter mem_Collect_eq by (intro bexI [of _ "(rid, r0)"]) (simp_all add: oget_entries)
  qed
  moreover have "(case ur_status r0 of
       UrQueued \<Rightarrow> if rid \<in> queued_ids s then None else Some (rid, r0)
     | UrDispatching \<Rightarrow> Some (rid, r0\<lparr>ur_status := UrQueued, ur_updated_at := now\<rparr>)
     | _ \<Rightarrow> None) = Some (rid, r) \<longleftrightarrow> ur_status r0 = UrQueued \<and> rid \<notin> queued_ids s \<and> r = r0
       \<or> ur_status r0 = UrDispatching \<and> r = r0\<lparr>ur_status := UrQueued, ur_updated_at := now\<rparr>" for r0
    by (cases "ur_status r0") auto
  ultimately show ?thesis
    by presburger
qed

lemma evolves_recover: "evolves s (snd (recover_unwrap_dispatch_state_after_upgrade now s))"
  unfolding recover_eq
  by (rule evolves_trans [OF evolves_puts [where g = "\<lambda>r. r"] evolves_requeue])
    (auto simp: recover_candidates_distinct recover_candidates_mem same_terms_def)

lemma evolves_quarantine: "evolves s (snd (quarantine_decode_failed_unwrap_requests now s))"
proof -
  have "evolves s (fold (\<lambda>rid s. case oget (unwrap_requests s) rid of
      None \<Rightarrow> s | Some r \<Rightarrow> put_request rid (quarantined now r) s) ids s)" for ids
    by (rule evolves_fold) (auto split: option.splits intro!: evolves_put simp: same_terms_marked)
  then show ?thesis
    unfolding quarantine_decode_failed_unwrap_requests_def Let_def
    by (simp add: evolves_def)
qed

lemma evolves_retry: "evolves s (snd (retry_unwrap_dispatch rid now s))"
  by (auto simp: retry_unwrap_dispatch_def same_terms_def split: option.splits intro!: evolves_push evolves_put)

section \<open>Payments\<close>

text \<open>The transfer that pays a request of an asset; and what every transfer sent for a request has in common.\<close>

definition payment :: "(bytes \<Rightarrow> bytes) \<Rightarrow> tx_id \<Rightarrow> unwrap_dispatch_request \<Rightarrow> icrc1_transfer_arg" where
  "payment k rid r = unwrap_transfer_arg k rid r (ur_recipient r) (from_be (ur_amount r))"

definition sent :: "(bytes \<Rightarrow> bytes) \<Rightarrow> tx_id \<Rightarrow> unwrap_dispatch_request \<Rightarrow> bytes \<Rightarrow> icrc1_transfer_arg \<Rightarrow> bool" where
  "sent k rid r ledger a \<longleftrightarrow> ur_transfer_created_at_time r \<noteq> 0
    \<and> ta_created_at_time a = Some (ur_transfer_created_at_time r)
    \<and> ta_memo a = Some (request_memo k rid MemoUnwrap) \<and> ac_owner (ta_to a) = ur_recipient r
    \<and> ta_amount a \<le> from_be (ur_amount r)
    \<and> (\<not> is_native_withdraw_dispatch_request r \<longrightarrow> ledger = ur_asset_id r \<and> a = payment k rid r)"

definition settled ::
  "(bytes \<Rightarrow> (tx_id \<times> icrc1_transfer_arg) list) \<Rightarrow> (bytes \<Rightarrow> bytes) \<Rightarrow> tx_id \<Rightarrow> unwrap_dispatch_request \<Rightarrow> bool" where
  "settled bl k rid r \<longleftrightarrow> (\<exists>ledger a. a \<in> snd ` set (bl ledger) \<and> sent k rid r ledger a)"

definition flight_ok :: "(bytes \<Rightarrow> bytes) \<Rightarrow> dispatch_state \<Rightarrow> (bytes \<Rightarrow> (tx_id \<times> icrc1_transfer_arg) list) \<Rightarrow> flight \<Rightarrow> bool" where
  "flight_ok k s bl f \<longleftrightarrow>
    (\<exists>r. oget (unwrap_requests s) (fl_request f) = Some r \<and> same_terms (fl_req f) r)
    \<and> ur_transfer_created_at_time (fl_req f) \<noteq> 0
    \<and> (case fl_stage f of
         AwaitFee \<Rightarrow> is_native_withdraw_dispatch_request (fl_req f) \<and> fl_recipient f = ur_recipient (fl_req f)
       | AwaitTransfer a \<Rightarrow> sent k (fl_request f) (fl_req f) (fl_ledger f) a
       | Replied c \<Rightarrow> (\<exists>t. attempt_icrc1_transfer_result c = Inr t) \<longrightarrow> settled bl k (fl_request f) (fl_req f))"

definition pay_inv :: "(bytes \<Rightarrow> bytes) \<Rightarrow> dispatch_system \<Rightarrow> bool" where
  "pay_inv k S \<longleftrightarrow> (\<forall>f\<in>set (flights S). flight_ok k (gw S) (blocks_of S) f)
    \<and> (\<forall>l rid a. (rid, a) \<in> set (blocks_of S l) \<longrightarrow>
        (\<exists>r. oget (unwrap_requests (gw S)) rid = Some r \<and> sent k rid r l a))
    \<and> (\<forall>l. distinct (map snd (blocks_of S l)))
    \<and> (\<forall>rid r. oget (unwrap_requests (gw S)) rid = Some r \<longrightarrow> ur_status r = UrDispatched
        \<longrightarrow> settled (blocks_of S) k rid r)"

lemma sent_terms: "same_terms r r' \<Longrightarrow> sent k rid r l a \<Longrightarrow> sent k rid r' l a"
  by (auto simp: sent_def same_terms_def payment_def unwrap_transfer_arg_def is_native_withdraw_dispatch_request_def)

lemma settled_terms: "same_terms r r' \<Longrightarrow> settled bl k rid r \<Longrightarrow> settled bl k rid r'"
  unfolding settled_def by (meson sent_terms)

lemma same_terms_sym: "same_terms r r' \<Longrightarrow> ur_transfer_created_at_time r \<noteq> 0 \<Longrightarrow> same_terms r' r"
  by (simp add: same_terms_def)

lemma settled_mono: "settled bl k rid r \<Longrightarrow> settled (ledger_executes l q a answer bl) k rid r"
proof -
  assume "settled bl k rid r"
  then obtain ledger b where b: "b \<in> snd ` set (bl ledger)" "sent k rid r ledger b"
    by (auto simp: settled_def)
  then have "b \<in> snd ` set (ledger_executes l q a answer bl ledger)"
    by (auto simp: ledger_executes_def split: sum.splits)
  then show ?thesis
    using b(2) by (auto simp: settled_def)
qed

lemma principal_from_stored_bytes_Inr: "principal_from_stored_bytes bs = Inr v \<Longrightarrow> v = bs"
  by (simp add: principal_from_stored_bytes_def split: if_splits)

lemma dispatch_begin_transfer:
  "dispatch_begin k s rid r = CallTransfer l a \<Longrightarrow> ur_transfer_created_at_time r \<noteq> 0 \<Longrightarrow> sent k rid r l a"
  by (auto simp: dispatch_begin_def sent_def payment_def unwrap_transfer_arg_def icrc1_transfer_arg_of_def
      split: sum.splits if_splits dest!: principal_from_stored_bytes_Inr)

lemma dispatch_begin_fee:
  "dispatch_begin k s rid r = CallFee l p \<Longrightarrow> is_native_withdraw_dispatch_request r \<and> p = ur_recipient r"
  by (auto simp: dispatch_begin_def split: sum.splits if_splits dest!: principal_from_stored_bytes_Inr)

lemma dispatch_after_fee_transfer:
  assumes "dispatch_after_fee k rid r l p result = CallTransfer l' a" "is_native_withdraw_dispatch_request r"
    "p = ur_recipient r" "ur_transfer_created_at_time r \<noteq> 0"
  shows "sent k rid r l' a"
  using assms
  by (auto simp: dispatch_after_fee_def sent_def unwrap_transfer_arg_def icrc1_transfer_arg_of_def
      native_withdraw_gross_transfer_amount_def gross_transfer_receive_amount_Inr split: sum.splits)

lemma dispatch_fee_once: "dispatch_after_fee k rid r l p result \<noteq> CallFee l' p'"
  by (simp add: dispatch_after_fee_def split: sum.splits)

lemma dispatch_never_finishes_paid:
  "dispatch_begin k s rid r = Finish ao \<Longrightarrow> ao_status ao \<noteq> UrDispatched"
  "dispatch_after_fee k rid r l p result = Finish ao \<Longrightarrow> ao_status ao \<noteq> UrDispatched"
  by (auto simp: dispatch_begin_def dispatch_after_fee_def dispatch_failed_def split: sum.splits if_splits)

lemma flight_ok_alive [simp]: "flight_ok k s bl (f\<lparr>fl_alive := b\<rparr>) = flight_ok k s bl f"
  by (simp add: flight_ok_def split: flight_stage.splits)

definition terms_kept :: "dispatch_state \<Rightarrow> dispatch_state \<Rightarrow> bool" where
  "terms_kept s s' \<longleftrightarrow>
    (\<forall>rid r. oget (unwrap_requests s) rid = Some r \<longrightarrow> (\<exists>r'. oget (unwrap_requests s') rid = Some r' \<and> same_terms r r'))"

lemma terms_kept_evolves: "evolves s s' \<Longrightarrow> terms_kept s s'"
  by (simp add: evolves_def terms_kept_def)

lemma terms_kept_put: "oget (unwrap_requests s) rid = Some r \<Longrightarrow> same_terms r r' \<Longrightarrow> terms_kept s (put_request rid r' s)"
  by (auto simp: terms_kept_def)

lemma flight_ok_kept:
  assumes "terms_kept s s'" "flight_ok k s bl f"
  shows "flight_ok k s' bl f"
  using assms unfolding flight_ok_def terms_kept_def by (meson same_terms_trans)

lemma pay_inv_evolves:
  assumes ev: "evolves (gw S) s'" and inv: "pay_inv k S"
  shows "pay_inv k (S\<lparr>gw := s'\<rparr>)"
proof -
  have "\<exists>r'. oget (unwrap_requests s') rid = Some r' \<and> sent k rid r' l a" if "(rid, a) \<in> set (blocks_of S l)" for rid a l
    using that inv ev unfolding pay_inv_def evolves_def by (meson sent_terms)
  moreover have "settled (blocks_of S) k rid r'"
    if r': "oget (unwrap_requests s') rid = Some r'" "ur_status r' = UrDispatched" for rid r'
  proof -
    obtain r where r: "oget (unwrap_requests (gw S)) rid = Some r" "ur_status r = UrDispatched"
      using ev r' unfolding evolves_def by blast
    then have "same_terms r r'"
      using ev r' unfolding evolves_def by fastforce
    then show ?thesis
      using inv r settled_terms unfolding pay_inv_def by blast
  qed
  ultimately show ?thesis
    using inv flight_ok_kept [OF terms_kept_evolves [OF ev]] by (simp add: pay_inv_def)
qed

lemma pay_inv_flights:
  assumes "pay_inv k S" "\<And>f. f \<in> set fs \<Longrightarrow> flight_ok k (gw S) (blocks_of S) f"
  shows "pay_inv k (S\<lparr>flights := fs\<rparr>)"
  using assms by (simp add: pay_inv_def)

lemma pay_inv_finalize:
  assumes inv: "pay_inv k S"
    and paid: "\<And>r. oget (unwrap_requests (gw S)) rid = Some r \<Longrightarrow> ao_status ao = UrDispatched \<Longrightarrow> settled (blocks_of S) k rid r"
  shows "pay_inv k (S\<lparr>gw := finalize_unwrap_dispatch_attempt rid now ao (gw S)\<rparr>)"
proof (cases "oget (unwrap_requests (gw S)) rid")
  case None
  then show ?thesis
    using inv by (simp add: finalize_unwrap_dispatch_attempt_def)
next
  case (Some r)
  define r' where "r' = r\<lparr>ur_updated_at := now,
      ur_ledger_tx_id := (case ao_ledger_tx_id ao of None \<Rightarrow> None
        | Some t \<Rightarrow> (case validated_ledger_tx_id t of Inl _ \<Rightarrow> None | Inr v \<Rightarrow> Some v)),
      ur_status := ao_status ao, ur_error_code := map_option clamp_error_code (ao_error_code ao)\<rparr>"
  have fin: "finalize_unwrap_dispatch_attempt rid now ao (gw S) = put_request rid r' (gw S)"
    using Some by (simp add: finalize_unwrap_dispatch_attempt_def r'_def)
  have terms: "same_terms r r'" and status: "ur_status r' = ao_status ao"
    by (simp_all add: same_terms_def r'_def)
  have fl: "flight_ok k (put_request rid r' (gw S)) (blocks_of S) f" if "f \<in> set (flights S)" for f
    using that inv flight_ok_kept [OF terms_kept_put [OF Some terms]] by (simp add: pay_inv_def)
  have bl: "\<exists>r''. oget (unwrap_requests (put_request rid r' (gw S))) q = Some r'' \<and> sent k q r'' l a"
    if "(q, a) \<in> set (blocks_of S l)" for q a l
    using that inv Some terms sent_terms unfolding pay_inv_def by fastforce
  have "settled (blocks_of S) k q rq"
    if "oget (unwrap_requests (put_request rid r' (gw S))) q = Some rq" "ur_status rq = UrDispatched" for q rq
    using that inv paid [OF Some] status settled_terms [OF terms] unfolding pay_inv_def by (auto split: if_splits)
  then show ?thesis
    using inv fl bl unfolding fin pay_inv_def by (simp del: oget_put)
qed

lemma proceed_inv:
  assumes inv: "pay_inv k S" and r: "oget (unwrap_requests (gw S)) rid = Some r'" "same_terms r r'"
    "ur_transfer_created_at_time r \<noteq> 0"
    and finish: "\<And>ao. next = Finish ao \<Longrightarrow> ao_status ao \<noteq> UrDispatched"
    and fee: "\<And>l p. next = CallFee l p \<Longrightarrow> is_native_withdraw_dispatch_request r \<and> p = ur_recipient r"
    and transfer: "\<And>l a. next = CallTransfer l a \<Longrightarrow> sent k rid r l a"
  shows "pay_inv k (proceed now rid r next S)"
proof (cases "next")
  case (Finish ao)
  then show ?thesis
    unfolding proceed_def using finish [OF Finish] pay_inv_finalize [OF inv, of rid ao now] by simp
next
  case (CallFee l p)
  then show ?thesis
    unfolding proceed_def using inv fee [OF CallFee] r
    by (auto intro!: pay_inv_flights simp: flight_ok_def) (auto simp: pay_inv_def flight_ok_def)
next
  case (CallTransfer l a)
  then show ?thesis
    unfolding proceed_def using inv transfer [OF CallTransfer] r
    by (auto intro!: pay_inv_flights simp: flight_ok_def) (auto simp: pay_inv_def flight_ok_def)
qed

lemma ledger_executes_mem:
  "(q, b) \<in> set (ledger_executes l rid a answer bl l') \<Longrightarrow> (q, b) \<in> set (bl l') \<or> l' = l \<and> q = rid \<and> b = a"
  by (auto simp: ledger_executes_def split: sum.splits if_splits)

lemma ledger_executes_distinct:
  assumes "icrc1_dedup allowed" "allowed (map snd (bl l)) a answer" "ta_created_at_time a \<noteq> None"
    "\<And>l'. distinct (map snd (bl l'))"
  shows "distinct (map snd (ledger_executes l rid a answer bl l'))"
proof (cases answer)
  case (Inr i)
  then have "a \<notin> set (map snd (bl l))"
    using assms(1-3) unfolding icrc1_dedup_def by blast
  then show ?thesis
    using assms(4) Inr by (auto simp: ledger_executes_def)
qed (use assms(4) in \<open>simp add: ledger_executes_def\<close>)

lemma ledger_executes_settles:
  assumes "icrc1_dedup allowed" "allowed (map snd (bl l)) a answer" "sent k rid r l a"
    and "attempt_icrc1_transfer_result (Reply answer) = Inr t"
  shows "settled (ledger_executes l rid a answer bl) k rid r"
proof -
  have "a \<in> snd ` set (ledger_executes l rid a answer bl l)"
  proof (cases answer)
    case (Inl e)
    then obtain d where "e = Duplicate d"
      using assms(4) by (cases e) auto
    then have "a \<in> set (map snd (bl l))"
      using assms(1-3) Inl unfolding icrc1_dedup_def sent_def by blast
    then show ?thesis
      using Inl by (simp add: ledger_executes_def)
  qed (simp add: ledger_executes_def)
  then show ?thesis
    using assms(3) unfolding settled_def by blast
qed

lemma execute_pay_inv:
  assumes dedup: "icrc1_dedup allowed" and inv: "pay_inv k S" and fl: "flights S = fs @ f # gs"
    and stage: "fl_stage f = AwaitTransfer a" and ans: "allowed (map snd (blocks_of S (fl_ledger f))) a answer"
  shows "pay_inv k (S\<lparr>flights := fs @ f\<lparr>fl_stage := Replied (Reply answer)\<rparr> # gs,
    blocks_of := ledger_executes (fl_ledger f) (fl_request f) a answer (blocks_of S)\<rparr>)" (is "pay_inv k ?S")
proof -
  have f: "flight_ok k (gw S) (blocks_of S) f"
    using inv fl by (simp add: pay_inv_def)
  then obtain r where r: "oget (unwrap_requests (gw S)) (fl_request f) = Some r" "same_terms (fl_req f) r"
    and sent: "sent k (fl_request f) (fl_req f) (fl_ledger f) a"
    using stage by (auto simp: flight_ok_def)
  have created: "ta_created_at_time a \<noteq> None"
    using sent by (simp add: sent_def)
  have other: "flight_ok k (gw S) (blocks_of ?S) g" if "g \<in> set (flights S)" for g
    using that inv settled_mono unfolding pay_inv_def flight_ok_def by (auto split: flight_stage.splits)
  have self: "flight_ok k (gw S) (blocks_of ?S) (f\<lparr>fl_stage := Replied (Reply answer)\<rparr>)"
    using f ledger_executes_settles [where bl = "blocks_of S", OF dedup ans sent] by (auto simp: flight_ok_def)
  have bl: "\<exists>r. oget (unwrap_requests (gw S)) q = Some r \<and> sent k q r l b" if "(q, b) \<in> set (blocks_of ?S l)" for l q b
  proof -
    consider "(q, b) \<in> set (blocks_of S l)" | "l = fl_ledger f" "q = fl_request f" "b = a"
      using \<open>(q, b) \<in> set (blocks_of ?S l)\<close> ledger_executes_mem by fastforce
    then show ?thesis
    proof cases
      case 1
      then show ?thesis
        using inv unfolding pay_inv_def by blast
    next
      case 2
      then show ?thesis
        using r sent_terms [OF r(2) sent] by simp
    qed
  qed
  have dist: "distinct (map snd (blocks_of ?S l))" for l
    using ledger_executes_distinct [where bl = "blocks_of S", OF dedup ans created] inv by (simp add: pay_inv_def)
  have "settled (blocks_of ?S) k q rq"
    if "oget (unwrap_requests (gw S)) q = Some rq" "ur_status rq = UrDispatched" for q rq
    using that inv settled_mono by (simp add: pay_inv_def)
  then show ?thesis
    using self other bl dist unfolding pay_inv_def by (simp add: fl)
qed

lemma dispatch_step_pay_inv:
  assumes dedup: "icrc1_dedup allowed" and inv: "pay_inv k S" and step: "dispatch_step k allowed S S'"
  shows "pay_inv k S'"
  using step
proof cases
  case (ds_tick now rid r s1)
  have p: "popped now (gw S) (Some (rid, r), s1)"
    using ds_tick by (intro pop_until_popped) simp
  then have "pay_inv k (S\<lparr>gw := s1\<rparr>)"
    using inv by (intro pay_inv_evolves) (simp_all add: popped_def)
  then show ?thesis
    unfolding ds_tick(1) using p ds_tick(2)
    by (rule_tac proceed_inv)
      (auto simp: popped_def intro: dispatch_begin_transfer dest: dispatch_begin_fee dispatch_never_finishes_paid)
next
  case (ds_fee fs f gs now result)
  have f: "flight_ok k (gw S) (blocks_of S) f"
    using inv ds_fee(2) by (simp add: pay_inv_def)
  then obtain r' where r': "oget (unwrap_requests (gw S)) (fl_request f) = Some r'" "same_terms (fl_req f) r'"
      "ur_transfer_created_at_time (fl_req f) \<noteq> 0" "is_native_withdraw_dispatch_request (fl_req f)"
      "fl_recipient f = ur_recipient (fl_req f)"
    using ds_fee(3) by (auto simp: flight_ok_def)
  have "pay_inv k (S\<lparr>flights := fs @ gs\<rparr>)"
    using inv ds_fee(2) by (intro pay_inv_flights) (auto simp: pay_inv_def)
  then show ?thesis
    unfolding ds_fee(1) using r'
    by (rule_tac proceed_inv [of _ _ _ r'])
      (auto simp: dispatch_fee_once intro: dispatch_after_fee_transfer dest: dispatch_never_finishes_paid)
next
  case (ds_execute fs f gs a answer)
  then show ?thesis
    using execute_pay_inv [OF dedup inv] by simp
next
  case (ds_lost fs f gs a err)
  then show ?thesis
    unfolding ds_lost(1) using inv
    by (intro pay_inv_flights) (auto simp: pay_inv_def flight_ok_def)
next
  case (ds_garbled fs f gs c err)
  then show ?thesis
    unfolding ds_garbled(1) using inv
    by (intro pay_inv_flights) (auto simp: pay_inv_def flight_ok_def)
next
  case (ds_finish fs f gs c now)
  have f: "flight_ok k (gw S) (blocks_of S) f"
    using inv ds_finish(2) by (simp add: pay_inv_def)
  have "pay_inv k (S\<lparr>flights := fs @ gs\<rparr>)"
    using inv ds_finish(2) by (intro pay_inv_flights) (auto simp: pay_inv_def)
  then have "pay_inv k (S\<lparr>flights := fs @ gs, gw := finalize_unwrap_dispatch_attempt (fl_request f) now (dispatch_after_transfer c)
      (gw (S\<lparr>flights := fs @ gs\<rparr>))\<rparr>)"
  proof (rule pay_inv_finalize)
    fix r
    assume "oget (unwrap_requests (gw (S\<lparr>flights := fs @ gs\<rparr>))) (fl_request f) = Some r"
      "ao_status (dispatch_after_transfer c) = UrDispatched"
    then show "settled (blocks_of (S\<lparr>flights := fs @ gs\<rparr>)) k (fl_request f) r"
      using f ds_finish(3) settled_terms
      by (auto simp: flight_ok_def dispatch_after_transfer_def dispatch_failed_def split: sum.splits)
  qed
  then show ?thesis
    unfolding ds_finish(1) by simp
next
  case (ds_upgrade now native_ledger)
  let ?s = "(gw S)\<lparr>wrap_native_ledger_canister := native_ledger\<rparr>"
  have "evolves (gw S) (snd (recover_unwrap_dispatch_state_after_upgrade now (snd (quarantine_decode_failed_unwrap_requests now ?s))))"
    by (intro evolves_trans [OF _ evolves_recover] evolves_trans [OF _ evolves_quarantine]) (simp add: evolves_same)
  then have "pay_inv k (S\<lparr>gw := snd (recover_unwrap_dispatch_state_after_upgrade now (snd (quarantine_decode_failed_unwrap_requests now ?s)))\<rparr>)"
    using inv by (rule pay_inv_evolves)
  then have "pay_inv k (S\<lparr>gw := snd (recover_unwrap_dispatch_state_after_upgrade now (snd (quarantine_decode_failed_unwrap_requests now ?s))),
      flights := map (\<lambda>f. f\<lparr>fl_alive := False\<rparr>) (flights S)\<rparr>)"
    by (intro pay_inv_flights) (auto simp: pay_inv_def)
  then show ?thesis
    unfolding ds_upgrade(1) by simp
qed (use inv in \<open>auto intro!: pay_inv_evolves evolves_insert evolves_record evolves_retry evolves_repair dest: pop_until_popped simp: popped_def\<close>)

end
