(* ===== verification/Unwrap_Queue.thy ===== *)
theory Unwrap_Queue
  imports Unwrap_Machine
begin

text \<open>
  The queue of the unwrap dispatch: no request that waits is missing from it, so that a tick that starts nothing
  finds nothing to start. A request may be in the queue more than once; the sequence numbers are assumed not to
  run out (\<open>2 ^ 64 - 1\<close> entries).
\<close>

abbreviation qhead :: "dispatch_state \<Rightarrow> u64" where
  "qhead s \<equiv> head (unwrap_dispatch_meta s)"

abbreviation qtail :: "dispatch_state \<Rightarrow> u64" where
  "qtail s \<equiv> tail (unwrap_dispatch_meta s)"

text \<open>Every waiting request is queued, except those of a given set.\<close>

definition queue_ok :: "tx_id set \<Rightarrow> dispatch_state \<Rightarrow> bool" where
  "queue_ok X s \<longleftrightarrow> qtail s = - 1 \<or>
    unat (qhead s) \<le> unat (qtail s)
    \<and> (\<forall>seq rid. oget (unwrap_dispatch_queue s) seq = Some rid \<longrightarrow>
        unat (qhead s) \<le> unat seq \<and> unat seq < unat (qtail s) \<and> oget (unwrap_requests s) rid \<noteq> None)
    \<and> (\<forall>rid r. oget (unwrap_requests s) rid = Some r \<longrightarrow> ur_status r = UrQueued \<longrightarrow> rid \<in> queued_ids s \<union> X)"

lemma queued_ids_mem: "rid \<in> queued_ids s \<longleftrightarrow> (\<exists>seq. oget (unwrap_dispatch_queue s) seq = Some rid)"
  by (force simp: queued_ids_def oget_entries image_iff)

lemma queue_ok_mono: "queue_ok X s \<Longrightarrow> X \<subseteq> Y \<Longrightarrow> queue_ok Y s"
  unfolding queue_ok_def by blast

lemma queue_ok_put_done:
  "queue_ok X s \<Longrightarrow> ur_status r \<noteq> UrQueued \<Longrightarrow> queue_ok X (put_request rid r s)"
  unfolding queue_ok_def by (auto simp: put_request_def queued_ids_def)

lemma queue_ok_put: "queue_ok X s \<Longrightarrow> queue_ok (insert rid X) (put_request rid r s)"
  unfolding queue_ok_def by (auto simp: put_request_def queued_ids_def)

lemma push_fields [simp]:
  "qhead (push_unwrap_dispatch rid s) = qhead s"
  "qtail (push_unwrap_dispatch rid s) = sat_add (qtail s) 1"
  "unwrap_dispatch_queue (push_unwrap_dispatch rid s) = oinsert (qtail s) rid (unwrap_dispatch_queue s)"
  by (simp_all add: push_unwrap_dispatch_def queue_meta_push_def queue_push_def)

lemma sat_add_1_max: "sat_add (v :: u64) 1 \<noteq> - 1 \<Longrightarrow> v \<noteq> - 1"
  by (auto simp: sat_add_def)

lemma queue_ok_push:
  assumes ok: "queue_ok X s" and req: "oget (unwrap_requests s) rid \<noteq> None"
  shows "queue_ok (X - {rid}) (push_unwrap_dispatch rid s)"
proof (cases "sat_add (qtail s) 1 = - 1")
  case False
  then have t: "qtail s \<noteq> - 1" "unat (sat_add (qtail s) 1) = Suc (unat (qtail s))"
    using sat_add_1_max sat_add_1_gt by blast+
  have "q \<in> queued_ids (push_unwrap_dispatch rid s) \<union> (X - {rid})" if "q \<in> queued_ids s \<union> X" for q
  proof (cases "q \<in> queued_ids s")
    case True
    then obtain seq where seq: "oget (unwrap_dispatch_queue s) seq = Some q"
      by (auto simp: queued_ids_mem)
    then have "seq \<noteq> qtail s"
      using ok t unfolding queue_ok_def by fastforce
    then show ?thesis
      using seq by (auto simp: queued_ids_mem)
  qed (use that in \<open>auto simp: queued_ids_mem\<close>)
  then show ?thesis
    using ok t req unfolding queue_ok_def by (auto simp: less_Suc_eq)
qed (simp add: queue_ok_def)

lemma queue_ok_add:
  "queue_ok X s \<Longrightarrow> queue_ok X (push_unwrap_dispatch rid (put_request rid r s))"
  using queue_ok_push [OF queue_ok_put, of X s rid r rid] by (auto intro: queue_ok_mono)

lemma queued_push:
  assumes "qtail s \<noteq> - 1" "queue_ok X s"
  shows "queued_ids (push_unwrap_dispatch rid s) = insert rid (queued_ids s)"
proof -
  have "oget (unwrap_dispatch_queue s) (qtail s) = None"
    using assms unfolding queue_ok_def by (metis less_irrefl not_None_eq)
  then show ?thesis
    by (auto simp: queued_ids_mem split: if_splits) (metis option.distinct(1))
qed

lemma queue_ok_requeue:
  assumes "queue_ok (set rids) s" "qtail s = - 1 \<or> q \<subseteq> queued_ids s"
    "\<And>rid. rid \<in> set rids \<Longrightarrow> oget (unwrap_requests s) rid \<noteq> None"
  shows "queue_ok {} (requeue_unwrap rids q s)"
  using assms
proof (induction rids q s rule: requeue_unwrap.induct)
  case (2 rid rids q s)
  show ?case
  proof (cases "rid \<in> q")
    case True
    have "queue_ok (set rids) s"
      using 2(3,4) True unfolding queue_ok_def by force
    then show ?thesis
      using 2(1) [OF True] 2(4,5) True by auto
  next
    case False
    have "queue_ok (set rids) (push_unwrap_dispatch rid s)"
      using queue_ok_push [OF 2(3), of rid] 2(5) by (auto intro: queue_ok_mono)
    moreover have "qtail (push_unwrap_dispatch rid s) = - 1 \<or> insert rid q \<subseteq> queued_ids (push_unwrap_dispatch rid s)"
      using 2(4) queued_push [OF _ 2(3), of rid] by (cases "qtail s = - 1") (auto simp: sat_add_def)
    ultimately show ?thesis
      using 2(2) [OF False] 2(5) False by auto
  qed
qed simp

lemma puts_fields [simp]:
  "unwrap_dispatch_queue (fold (\<lambda>(rid, r). put_request rid (g r)) cs s) = unwrap_dispatch_queue s"
  "unwrap_dispatch_meta (fold (\<lambda>(rid, r). put_request rid (g r)) cs s) = unwrap_dispatch_meta s"
  by (induction cs arbitrary: s) (auto simp: put_request_def)

lemma queue_ok_puts: "queue_ok X s \<Longrightarrow> queue_ok (fst ` set cs \<union> X) (fold (\<lambda>(rid, r). put_request rid (g r)) cs s)"
proof (induction cs arbitrary: s X)
  case (Cons c cs)
  then show ?case
    using Cons.IH [OF queue_ok_put [OF Cons.prems, of "fst c" "g (snd c)"]] by (cases c) simp
qed simp

lemma puts_present: "rid \<in> fst ` set cs \<Longrightarrow> oget (unwrap_requests (fold (\<lambda>(rid, r). put_request rid (g r)) cs s)) rid \<noteq> None"
proof (induction cs arbitrary: s rule: rev_induct)
  case (snoc c cs)
  then show ?case
    by (cases c) auto
qed simp

lemma queue_ok_requeue_puts:
  assumes "queue_ok {} s" "q = queued_ids s"
  shows "queue_ok {} (requeue_unwrap (map fst cs) q (fold (\<lambda>(rid, r). put_request rid (g r)) cs s))"
  using assms puts_present [of _ cs] queue_ok_puts [OF assms(1), of cs g]
  by (intro queue_ok_requeue) (auto simp: queued_ids_def)

section \<open>Every step keeps the queue\<close>

lemma queue_ok_insert: "queue_ok {} s \<Longrightarrow> queue_ok {} (snd (insert_unwrap_dispatch_request now rid a m p s))"
  by (auto simp: insert_unwrap_dispatch_request_def split: option.splits intro: queue_ok_add)

lemma queue_ok_fold: "(\<And>x s. queue_ok {} s \<Longrightarrow> queue_ok {} (f x s)) \<Longrightarrow> queue_ok {} s \<Longrightarrow> queue_ok {} (fold f xs s)"
  by (induction xs arbitrary: s) auto

lemma queue_ok_record: "queue_ok {} s \<Longrightarrow> queue_ok {} (record_unwrap_requests_from_block k get now ids s)"
  unfolding record_unwrap_requests_from_block_def
  by (rule queue_ok_fold)
    (auto split: option.splits prod.splits intro!: queue_ok_fold queue_ok_add simp: record_unwrap_log_def record_request_def)

lemma queue_ok_retry: "queue_ok {} s \<Longrightarrow> queue_ok {} (snd (retry_unwrap_dispatch rid now s))"
  by (auto simp: retry_unwrap_dispatch_def split: option.splits intro: queue_ok_add)

lemma queue_ok_repair: "queue_ok {} s \<Longrightarrow> queue_ok {} (repair_stale_unwrap now s)"
  unfolding repair_stale_unwrap_def Let_def by (intro queue_ok_requeue_puts) (simp_all add: queued_ids_def)

lemma queue_ok_recover: "queue_ok {} s \<Longrightarrow> queue_ok {} (snd (recover_unwrap_dispatch_state_after_upgrade now s))"
  unfolding recover_eq using queue_ok_requeue_puts [where g = "\<lambda>r. r"] by blast

lemma queue_ok_finalize:
  "queue_ok {} s \<Longrightarrow> ao_status ao \<noteq> UrQueued \<Longrightarrow> queue_ok {} (finalize_unwrap_dispatch_attempt rid now ao s)"
  by (auto simp: finalize_unwrap_dispatch_attempt_def split: option.splits intro: queue_ok_put_done)

lemma queue_ok_native_ledger: "queue_ok X (s\<lparr>wrap_native_ledger_canister := l\<rparr>) = queue_ok X s"
  by (simp add: queue_ok_def queued_ids_def)

lemma dispatch_not_queued:
  "dispatch_begin k s rid r = Finish ao \<Longrightarrow> ao_status ao \<noteq> UrQueued"
  "dispatch_after_fee k rid r l p result = Finish ao \<Longrightarrow> ao_status ao \<noteq> UrQueued"
  "ao_status (dispatch_after_transfer c) \<noteq> UrQueued"
  by (auto simp: dispatch_begin_def dispatch_after_fee_def dispatch_after_transfer_def dispatch_failed_def
      split: sum.splits if_splits)

lemma quarantine_fold:
  fixes now :: u64
  defines "f \<equiv> \<lambda>rid s. case oget (unwrap_requests s) rid of None \<Rightarrow> s | Some r \<Rightarrow> put_request rid (quarantined now r) s"
  shows "queue_ok {} s \<Longrightarrow> queue_ok {} (fold f ids s)"
    and "unwrap_dispatch_queue (fold f ids s) = unwrap_dispatch_queue s"
    and "oget (unwrap_requests (fold f ids s)) rid = Some r \<Longrightarrow> rid \<in> set ids \<Longrightarrow> ur_status r = UrDispatchFailed"
proof -
  have step: "queue_ok {} s \<Longrightarrow> queue_ok {} (f rid s)" "unwrap_dispatch_queue (f rid s) = unwrap_dispatch_queue s" for rid s
    by (auto simp: f_def same_terms_marked put_request_def split: option.splits intro: queue_ok_put_done [unfolded put_request_def])
  show "queue_ok {} s \<Longrightarrow> queue_ok {} (fold f ids s)" "unwrap_dispatch_queue (fold f ids s) = unwrap_dispatch_queue s"
    by (induction ids arbitrary: s) (simp_all add: step)
  show "oget (unwrap_requests (fold f ids s)) rid = Some r \<Longrightarrow> rid \<in> set ids \<Longrightarrow> ur_status r = UrDispatchFailed"
  proof (induction ids arbitrary: r rule: rev_induct)
    case (snoc q ids)
    then show ?case
      by (cases "q = rid") (auto simp: f_def same_terms_marked split: option.splits if_splits)
  qed simp
qed

lemma queue_ok_quarantine:
  assumes "queue_ok {} s"
  shows "queue_ok {} (snd (quarantine_decode_failed_unwrap_requests now s))"
proof -
  define ids where "ids = map fst (filter (\<lambda>(_, r). is_decode_failed_unwrap_request r) (entries (unwrap_requests s)))"
  define s1 where "s1 = fold (\<lambda>rid s. case oget (unwrap_requests s) rid of
      None \<Rightarrow> s | Some r \<Rightarrow> put_request rid (quarantined now r) s) ids s"
  define seqs where "seqs = map fst (filter (\<lambda>(_, rid). rid \<in> set ids) (entries (unwrap_dispatch_queue s1)))"
  let ?s2 = "s1\<lparr>unwrap_dispatch_queue := fold oremove seqs (unwrap_dispatch_queue s1)\<rparr>"
  have s2: "snd (quarantine_decode_failed_unwrap_requests now s) = (if ids = [] then s1 else ?s2)"
    unfolding quarantine_decode_failed_unwrap_requests_def Let_def ids_def [symmetric] s1_def [symmetric] seqs_def [symmetric]
    by simp
  have ok: "queue_ok {} s1"
    unfolding s1_def by (rule quarantine_fold(1) [OF assms])
  have failed: "ur_status r = UrDispatchFailed" if "oget (unwrap_requests s1) rid = Some r" "rid \<in> set ids" for rid r
    using quarantine_fold(3) that unfolding s1_def by blast
  have kept: "rid \<in> queued_ids ?s2" if "rid \<in> queued_ids s1" "rid \<notin> set ids" for rid
  proof -
    obtain seq where seq: "oget (unwrap_dispatch_queue s1) seq = Some rid"
      using \<open>rid \<in> queued_ids s1\<close> by (auto simp: queued_ids_mem)
    then have "seq \<notin> set seqs"
      using \<open>rid \<notin> set ids\<close> by (auto simp: seqs_def oget_entries [symmetric])
    then show ?thesis
      using seq by (auto simp: queued_ids_mem fold_oremove)
  qed
  have "queue_ok {} ?s2"
  proof (cases "qtail s1 = - 1")
    case False
    have "rid \<in> queued_ids ?s2" if "oget (unwrap_requests s1) rid = Some r" "ur_status r = UrQueued" for rid r
    proof (rule kept)
      show "rid \<in> queued_ids s1"
        using ok False that unfolding queue_ok_def by auto
      show "rid \<notin> set ids"
        using failed [OF that(1)] that(2) by auto
    qed
    moreover have "oget (fold oremove seqs (unwrap_dispatch_queue s1)) seq = Some rid \<Longrightarrow> oget (unwrap_dispatch_queue s1) seq = Some rid"
      for seq rid
      by (simp add: fold_oremove split: if_splits)
    ultimately show ?thesis
      using ok False unfolding queue_ok_def by simp blast
  qed (simp add: queue_ok_def)
  then show ?thesis
    using ok s2 by simp
qed

definition advanced :: "dispatch_state \<Rightarrow> dispatch_state" where
  "advanced s = s\<lparr>unwrap_dispatch_meta := (unwrap_dispatch_meta s)\<lparr>head := sat_add (qhead s) 1\<rparr>,
    unwrap_dispatch_queue := oremove (qhead s) (unwrap_dispatch_queue s)\<rparr>"

lemma advanced_fields [simp]:
  "qhead (advanced s) = sat_add (qhead s) 1" "qtail (advanced s) = qtail s"
  "unwrap_requests (advanced s) = unwrap_requests s"
  "unwrap_dispatch_queue (advanced s) = oremove (qhead s) (unwrap_dispatch_queue s)"
  by (simp_all add: advanced_def)

lemma queue_ok_advance:
  assumes ok: "queue_ok {} s" and ne: "qhead s \<noteq> qtail s"
    and X: "\<And>rid. oget (unwrap_dispatch_queue s) (qhead s) = Some rid \<Longrightarrow> rid \<in> X"
  shows "queue_ok X (advanced s)"
proof (cases "qtail s = - 1")
  case False
  have lt: "unat (qhead s) < unat (qtail s)"
    using ok ne False unfolding queue_ok_def by (auto simp: word_unat_eq_iff)
  then have "qhead s \<noteq> - 1"
    using unat_bound [of "qtail s"] by auto
  then have h: "unat (sat_add (qhead s) 1) = Suc (unat (qhead s))"
    by (rule sat_add_1_gt)
  have "Suc (unat (qhead s)) \<le> unat seq" if "oget (unwrap_dispatch_queue s) seq = Some rid" "seq \<noteq> qhead s" for seq rid
    using ok that False unfolding queue_ok_def by (metis Suc_leI le_neq_implies_less word_unat_eq_iff)
  moreover have "rid \<in> queued_ids (advanced s) \<union> X" if "rid \<in> queued_ids s" for rid
    using that X by (auto simp: queued_ids_mem) metis
  ultimately show ?thesis
    using ok False lt h unfolding queue_ok_def by (auto split: if_splits)
qed (simp add: queue_ok_def)

lemma queue_ok_put_resolved:
  "queue_ok (insert rid X) s \<Longrightarrow> ur_status r \<noteq> UrQueued \<Longrightarrow> queue_ok X (put_request rid r s)"
  unfolding queue_ok_def by (auto simp: put_request_def queued_ids_def)

lemma queue_ok_pop:
  assumes ok: "queue_ok {} s" and pop: "pop_next_dispatch_request now s = (res, s')"
  shows "queue_ok {} s'"
  using pop
proof (cases rule: pop_cases)
  case empty
  then show ?thesis
    using ok by simp
next
  case hole
  then have "s' = advanced s"
    by (simp add: advanced_def oremove_absent)
  then show ?thesis
    using queue_ok_advance [OF ok hole(1), of "{}"] hole by simp
next
  case (orphan rid)
  have "s' = advanced s"
    using orphan by (simp add: advanced_def)
  moreover have "queue_ok {rid} (advanced s)"
    using queue_ok_advance [OF ok orphan(1), of "{rid}"] orphan by simp
  ultimately show ?thesis
    using ok orphan(2,3) unfolding queue_ok_def by (cases "qtail s = - 1") force+
next
  case (found rid r r')
  have "ur_status r' \<noteq> UrQueued"
    using found(4) same_terms_marked by auto
  then show ?thesis
    using queue_ok_advance [OF ok found(1), of "{rid}"] found
    by (auto simp: advanced_def intro!: queue_ok_put_resolved)
qed

section \<open>Ticks\<close>

text \<open>A tick returns, and if it starts no dispatch, no request is left in the queue.\<close>

lemma pop_until_ok:
  assumes "queue_ok {} s" "qtail s \<noteq> - 1"
  shows "\<exists>p s'. pop_until_dispatchable now s = Some (p, s') \<and> queue_ok {} s' \<and> qtail s' = qtail s
    \<and> (p = None \<longrightarrow> queued_ids s' = {})"
  using assms
proof (induction "unat (qtail s) - unat (qhead s)" arbitrary: s rule: less_induct)
  case less
  obtain res s1 where pop: "pop_next_dispatch_request now s = (res, s1)"
    by fastforce
  have ok1: "queue_ok {} s1"
    by (rule queue_ok_pop [OF less(2) pop])
  have le: "unat (qhead s) \<le> unat (qtail s)"
    using less(2,3) by (simp add: queue_ok_def)
  show ?case
  proof (cases res)
    case (Inl e)
    then have step: "qhead s \<noteq> qtail s" "qhead s1 = sat_add (qhead s) 1" "qtail s1 = qtail s"
      using pop by (auto elim!: pop_cases simp: put_request_def)
    then have lt: "unat (qhead s) < unat (qtail s)"
      using le by (auto simp: word_unat_eq_iff)
    then have "qhead s \<noteq> - 1"
      using unat_bound [of "qtail s"] by auto
    then have "unat (qtail s1) - unat (qhead s1) < unat (qtail s) - unat (qhead s)"
      using lt step by (simp add: sat_add_1_gt)
    then show ?thesis
      using less(1) [of s1] ok1 less(3) step pop Inl by (subst pop_until_step) simp
  next
    case (Inr q)
    have tail: "qtail s1 = qtail s"
      using pop Inr by (auto elim!: pop_cases simp: put_request_def)
    have "queued_ids s1 = {}" if "q = None"
    proof -
      have "qhead s = qtail s" "s1 = s"
        using pop Inr that by (auto elim!: pop_cases)
      then show ?thesis
        using less(2,3) unfolding queue_ok_def by (fastforce simp: queued_ids_mem)
    qed
    then show ?thesis
      using pop Inr ok1 tail by (subst pop_until_step) simp
  qed
qed

lemma pop_until_keeps: "pop_until_dispatchable now s = Some y \<Longrightarrow> queue_ok {} s \<longrightarrow> queue_ok {} (snd y)"
proof (rule pop_until_dispatchable.raw_induct [where P = "\<lambda>_ s y. queue_ok {} s \<longrightarrow> queue_ok {} (snd y)"])
  fix f now s y
  assume IH: "\<And>now s y. f now s = Some y \<Longrightarrow> queue_ok {} s \<longrightarrow> queue_ok {} (snd y)"
    and body: "(case pop_next_dispatch_request now s of (Inr r, s1) \<Rightarrow> Some (r, s1) | (Inl _, s1) \<Rightarrow> f now s1) = Some y"
  obtain res s1 where pop: "pop_next_dispatch_request now s = (res, s1)"
    by fastforce
  then show "queue_ok {} s \<longrightarrow> queue_ok {} (snd y)"
    using body IH [of now s1 y] queue_ok_pop [OF _ pop] by (cases res) auto
qed

lemma proceed_queue_ok:
  assumes "queue_ok {} (gw S)" "\<And>ao. next = Finish ao \<Longrightarrow> ao_status ao \<noteq> UrQueued"
  shows "queue_ok {} (gw (proceed now rid r next S))"
  using assms by (auto simp: proceed_def split: dispatch_next.splits intro: queue_ok_finalize)

lemma dispatch_step_queue_ok:
  assumes ok: "queue_ok {} (gw S)" and step: "dispatch_step k allowed S S'"
  shows "queue_ok {} (gw S')"
  using step
proof cases
  case (ds_tick now rid r s1)
  then show ?thesis
    using pop_until_keeps [OF ds_tick(3)] ok dispatch_not_queued by (auto intro!: proceed_queue_ok)
next
  case (ds_fee fs f gs now result)
  then show ?thesis
    using ok dispatch_not_queued by (auto intro!: proceed_queue_ok)
next
  case (ds_upgrade now native_ledger)
  then show ?thesis
    using ok by (simp add: queue_ok_recover queue_ok_quarantine queue_ok_native_ledger)
next
  case (ds_idle now s1)
  then show ?thesis
    using pop_until_keeps [OF ds_idle(2)] ok by simp
qed (use ok dispatch_not_queued(3) in \<open>auto intro: queue_ok_insert queue_ok_record queue_ok_retry queue_ok_repair queue_ok_finalize\<close>)

end
