(* ===== verification/Unwrap_Properties.thy ===== *)
theory Unwrap_Properties
  imports Unwrap_Queue
begin

text \<open>
  What holds of every state the unwrap dispatch can reach, over all interleavings of its messages with users,
  repairs, upgrades and ledgers: payments are not doubled, with one exception, and no request is forgotten.
\<close>

section \<open>The invariants\<close>

interpretation unwrap_payments:
  invariant_system dispatch_init "dispatch_step k allowed" "\<lambda>S. icrc1_dedup allowed \<longrightarrow> pay_inv k S"
proof
  show "icrc1_dedup allowed \<longrightarrow> pay_inv k S" if "dispatch_init S" for S
    using that by (simp add: dispatch_init_def pay_inv_def)
qed (blast intro: dispatch_step_pay_inv)

interpretation unwrap_queueing:
  invariant_system dispatch_init "dispatch_step k allowed" "\<lambda>S. queue_ok {} (gw S)"
proof
  show "queue_ok {} (gw S)" if "dispatch_init S" for S
    using that by (simp add: dispatch_init_def queue_ok_def queue_meta_new_def)
qed (rule dispatch_step_queue_ok)

lemma filter_once:
  assumes "distinct (map snd xs)" "\<And>x. x \<in> set xs \<Longrightarrow> fst x = q \<Longrightarrow> snd x = a"
  shows "filter (\<lambda>x. fst x = q) xs \<in> {[], [(q, a)]}"
  using assms
proof (induction xs)
  case (Cons x xs)
  have "filter (\<lambda>x. fst x = q) xs = []" if "fst x = q"
    unfolding filter_empty_conv
  proof
    fix y
    assume "y \<in> set xs"
    then show "fst y \<noteq> q"
      using Cons.prems(1) Cons.prems(2) [of x] Cons.prems(2) [of y] that
      by simp (metis image_eqI)
  qed
  then show ?case
    using Cons by (cases x) auto
qed simp

text \<open>A ledger that follows the standard: it executes every transfer once and reports the others as duplicates.\<close>

definition deduplicating :: "icrc1_transfer_arg list \<Rightarrow> icrc1_transfer_arg \<Rightarrow> icrc1_transfer_error + nat \<Rightarrow> bool" where
  "deduplicating log a answer \<longleftrightarrow> answer = (if a \<in> set log then Inl (Duplicate 0) else Inr (length log))"

lemma deduplicating: "icrc1_dedup deduplicating"
  by (simp add: icrc1_dedup_def deduplicating_def)

section \<open>Payments\<close>

text \<open>C4: over every interleaving of dispatches with retries, stale repairs, upgrades that lose callbacks, and
  ledgers that answer late, unreadably or not at all, an unwrap request is paid at most once: on ledgers that deduplicate
  as the ICRC-1 standard says, the blocks made for it are at most one over all ledgers, on the ledger of its asset, the transfer of exactly
  its amount to its recipient; and a request reported as dispatched has that payment on the ledger.\<close>

theorem unwrap_paid_at_most_once:
  assumes "icrc1_dedup allowed" and "reachable dispatch_init (dispatch_step k allowed) S"
    and "oget (unwrap_requests (gw S)) rid = Some r" and "ur_asset_id r \<noteq> NATIVE_WITHDRAW_ASSET_MARKER"
  shows "filter (\<lambda>b. fst b = rid) (blocks_of S (ur_asset_id r)) \<in> {[], [(rid, payment k rid r)]}
    \<and> (\<forall>l. l \<noteq> ur_asset_id r \<longrightarrow> filter (\<lambda>b. fst b = rid) (blocks_of S l) = [])
    \<and> (ur_status r = UrDispatched \<longrightarrow> payment k rid r \<in> snd ` set (blocks_of S (ur_asset_id r)))"
proof -
  have inv: "pay_inv k S"
    using unwrap_payments.reachable_inv [OF assms(2)] assms(1) by blast
  have other: "\<not> is_native_withdraw_dispatch_request r"
    using assms(4) by (simp add: is_native_withdraw_dispatch_request_def)
  have tagged: "l = ur_asset_id r \<and> a = payment k rid r" if block: "(rid, a) \<in> set (blocks_of S l)" for l a
  proof -
    obtain r' where "oget (unwrap_requests (gw S)) rid = Some r'" "sent k rid r' l a"
      using inv block unfolding pay_inv_def by blast
    then show ?thesis
      using assms(3) other by (simp add: sent_def)
  qed
  have "payment k rid r \<in> snd ` set (blocks_of S (ur_asset_id r))" if "ur_status r = UrDispatched"
  proof -
    have "settled (blocks_of S) k rid r"
      using inv assms(3) that unfolding pay_inv_def by blast
    then obtain ledger a where "a \<in> snd ` set (blocks_of S ledger)" "sent k rid r ledger a"
      by (auto simp: settled_def)
    then show ?thesis
      using other by (simp add: sent_def)
  qed
  moreover have "filter (\<lambda>b. fst b = rid) (blocks_of S (ur_asset_id r)) \<in> {[], [(rid, payment k rid r)]}"
    using inv tagged unfolding pay_inv_def by (intro filter_once) auto
  moreover have "filter (\<lambda>b. fst b = rid) (blocks_of S l) = []" if "l \<noteq> ur_asset_id r" for l
    using tagged that by (fastforce simp: filter_empty_conv)
  ultimately show ?thesis
    by blast
qed

text \<open>A gateway that starts with the ledger \<open>[2]\<close> for native withdrawals, and what happens to a request in it.\<close>

definition start_system :: dispatch_system where
  "start_system = \<lparr>gw = \<lparr>unwrap_requests = oempty, unwrap_dispatch_queue = oempty, unwrap_dispatch_meta = queue_meta_new,
     wrap_native_ledger_canister = [2]\<rparr>, flights = [], blocks_of = \<lambda>_. []\<rparr>"

text \<open>The states of a gateway with one request, waiting in the queue or popped.\<close>

definition waiting :: "u64 \<Rightarrow> unwrap_dispatch_request \<Rightarrow> dispatch_state" where
  "waiting n r = \<lparr>unwrap_requests = oinsert [7] r oempty, unwrap_dispatch_queue = oinsert n [7] oempty,
     unwrap_dispatch_meta = \<lparr>head = n, tail = n + 1\<rparr>, wrap_native_ledger_canister = [2]\<rparr>"

definition taken :: "u64 \<Rightarrow> unwrap_dispatch_request \<Rightarrow> dispatch_state" where
  "taken n r = \<lparr>unwrap_requests = oinsert [7] r oempty, unwrap_dispatch_queue = oempty,
     unwrap_dispatch_meta = \<lparr>head = n + 1, tail = n + 1\<rparr>, wrap_native_ledger_canister = [2]\<rparr>"

lemma omap_eq: "entries m = entries m' \<Longrightarrow> m = m'"
  by (simp add: entries_inject)

lemma one_entry [simp]:
  "oinsert k v (oinsert k v' oempty) = oinsert k v oempty" "oremove k (oinsert k v oempty) = oempty"
  by (rule omap_eq, simp add: omap_eval al_remove_def)+

lemma ask: "snd (insert_unwrap_dispatch_request 1 [7] asset [100] [1] (gw start_system))
    = waiting 0 (new_unwrap_request 1 asset [100] [1])"
  by (simp add: start_system_def insert_unwrap_dispatch_request_def waiting_def push_unwrap_dispatch_def put_request_def
    queue_meta_push_def queue_push_def queue_meta_new_def sat_add_def)

lemma take_waiting:
  assumes "ur_error_code r = None" "n = 0 \<or> n = 1"
  shows "pop_until_dispatchable 5 (waiting n r) = Some (Some ([7], dispatching 5 r), taken n (dispatching 5 r))"
  using assms
  by (subst pop_until_step) (auto simp: waiting_def taken_def pop_next_dispatch_request_def put_request_def
    queue_meta_pop_def queue_pop_def queue_is_empty_def sat_add_def
    should_skip_dispatch_unwrap_request_def is_decode_failed_unwrap_request_def is_quarantined_unwrap_request_def)

lemma upgrade_taken:
  assumes "ur_status r = UrDispatching" "ur_error_code r = None"
  shows "snd (recover_unwrap_dispatch_state_after_upgrade 6
      (snd (quarantine_decode_failed_unwrap_requests 6 ((taken 0 r)\<lparr>wrap_native_ledger_canister := [2]\<rparr>))))
    = waiting 1 (r\<lparr>ur_status := UrQueued, ur_updated_at := 6\<rparr>)"
  using assms
  by (simp add: taken_def waiting_def recover_unwrap_dispatch_state_after_upgrade_def
    quarantine_decode_failed_unwrap_requests_def omap_eval is_decode_failed_unwrap_request_def queued_ids_def
    put_request_def push_unwrap_dispatch_def queue_meta_push_def queue_push_def sat_add_def List.map_filter_def Let_def)

definition system :: "dispatch_state \<Rightarrow> flight list \<Rightarrow> (tx_id \<times> icrc1_transfer_arg) list \<Rightarrow> dispatch_system" where
  "system s fs bs = \<lparr>gw = s, flights = fs, blocks_of = (\<lambda>l. if l = [2] then bs else [])\<rparr>"

definition flying :: "unwrap_dispatch_request \<Rightarrow> flight_stage \<Rightarrow> bool \<Rightarrow> flight" where
  "flying r st alive = \<lparr>fl_request = [7], fl_req = r, fl_ledger = [2], fl_recipient = [1], fl_stage = st, fl_alive = alive\<rparr>"

lemma system_fields [simp]:
  "gw (system s fs bs) = s" "flights (system s fs bs) = fs" "blocks_of (system s fs bs) [2] = bs"
  "(system s fs bs)\<lparr>gw := s'\<rparr> = system s' fs bs" "(system s fs bs)\<lparr>flights := fs'\<rparr> = system s fs' bs"
  "(system s fs bs)\<lparr>blocks_of := (blocks_of (system s' fs' bs))([2] := bs')\<rparr> = system s fs bs'"
  by (simp_all add: system_def fun_eq_iff)

lemma deduplicating_new: "a \<notin> set log \<Longrightarrow> deduplicating log a (Inr (length log))"
  by (simp add: deduplicating_def)

lemma asked_reachable:
  "reachable dispatch_init (dispatch_step k allowed) (system (waiting 0 (new_unwrap_request 1 asset [100] [1])) [] [])"
proof -
  have "dispatch_init start_system"
    by (simp add: dispatch_init_def start_system_def)
  moreover have "start_system\<lparr>gw := waiting 0 (new_unwrap_request 1 asset [100] [1])\<rparr>
      = system (waiting 0 (new_unwrap_request 1 asset [100] [1])) [] []"
    by (simp add: start_system_def system_def)
  ultimately show ?thesis
    using ds_insert [of k allowed start_system 1 "[7]" asset "[100]" "[1]"] unfolding ask
    by (auto intro: reach_init reach_step)
qed

lemma plain_request: "ur_error_code (new_unwrap_request n a m p) = None" "ur_asset_id (new_unwrap_request n a m p) = a"
    "ur_recipient (new_unwrap_request n a m p) = p" "ur_amount (new_unwrap_request n a m p) = m"
  by (simp_all add: new_unwrap_request_def)

lemma dispatching_fields [simp]: "ur_error_code (dispatching n r) = ur_error_code r" "ur_asset_id (dispatching n r) = ur_asset_id r"
    "ur_recipient (dispatching n r) = ur_recipient r" "ur_amount (dispatching n r) = ur_amount r"
    "ur_status (dispatching n r) = UrDispatching"
  by (simp_all add: dispatching_def)

text \<open>One native withdrawal of 100: the request is popped, the ledger quotes a fee, the transfer executes.\<close>

lemma native_attempt:
  assumes reach: "reachable dispatch_init (dispatch_step k deduplicating) (system (waiting n r) fs bs)"
    and r: "ur_error_code r = None" "ur_asset_id r = NATIVE_WITHDRAW_ASSET_MARKER" "ur_recipient r = [1]" "ur_amount r = [100]"
    and n: "n = 0 \<or> n = 1" and fee: "fee < 100"
    and a: "a = unwrap_transfer_arg k [7] (dispatching 5 r) [1] (100 - fee)" "a \<notin> snd ` set bs"
  shows "reachable dispatch_init (dispatch_step k deduplicating)
    (system (taken n (dispatching 5 r)) (fs @ [flying (dispatching 5 r) (Replied (Reply (Inr (length bs)))) True]) (bs @ [([7], a)]))"
proof -
  let ?R = "reachable dispatch_init (dispatch_step k deduplicating)" and ?r = "dispatching 5 r"
  have "dispatch_begin k (taken n ?r) [7] ?r = CallFee [2] [1]"
    using r by (simp add: dispatch_begin_def taken_def is_native_withdraw_dispatch_request_def
      current_native_ledger_canister_def principal_from_stored_bytes_def)
  then have quoted: "?R (system (taken n ?r) (fs @ [flying ?r AwaitFee True]) bs)"
    using reach_step [OF reach ds_tick [of 5 "system (waiting n r) fs bs" "[7]" ?r "taken n ?r"]] take_waiting [OF r(1) n]
    by (simp add: proceed_def flying_def)
  have small: "unat (word_of_nat fee :: u128) = fee"
    using fee by (simp add: unat_of_nat)
  moreover have "nat_to_u128 fee = Some (word_of_nat fee)"
    using small by (simp add: nat_to_u128_Some)
  ultimately have "dispatch_after_fee k [7] ?r [2] [1] (Reply fee) = CallTransfer [2] a"
    using r fee gross_transfer_receive_amount_Inr [of 100 "word_of_nat fee" "''native_withdraw''" "100 - fee"]
    by (simp add: dispatch_after_fee_def a(1) native_withdraw_gross_transfer_amount_def from_be_def)
  then have called: "?R (system (taken n ?r) (fs @ [flying ?r (AwaitTransfer a) True]) bs)"
    using reach_step [OF quoted ds_fee [of _ fs "flying ?r AwaitFee True" "[]" k _ 5 "Reply fee"]]
    by (simp add: proceed_def flying_def a(1) unwrap_transfer_arg_def icrc1_transfer_arg_of_def)
  show ?thesis
    using a(2) deduplicating_new [of a "map snd bs"]
      reach_step [OF called ds_execute [of _ fs "flying ?r (AwaitTransfer a) True" "[]" a deduplicating "Inr (length bs)"]]
    by (simp add: flying_def ledger_executes_def)
qed

text \<open>C37: a native withdrawal can be paid twice, by a ledger that deduplicates correctly. The amount sent is the
  request's amount less the ledger's fee, which every attempt fetches anew: a transfer executes, an upgrade loses the
  callback and queues the request again, and the second attempt finds another fee, so the ledger sees another transfer. A
  withdrawal of 100 pays 90 and then 80.\<close>

theorem native_withdrawal_paid_twice:
  "\<exists>S r. icrc1_dedup deduplicating \<and> reachable dispatch_init (dispatch_step k deduplicating) S
    \<and> oget (unwrap_requests (gw S)) [7] = Some r \<and> ur_asset_id r = NATIVE_WITHDRAW_ASSET_MARKER \<and> from_be (ur_amount r) = 100
    \<and> map (\<lambda>(q, a). (q, ac_owner (ta_to a), ta_amount a)) (blocks_of S [2])
      = [([7], ur_recipient r, 90), ([7], ur_recipient r, 80)]"
proof -
  let ?R = "reachable dispatch_init (dispatch_step k deduplicating)"
  define r0 where "r0 = new_unwrap_request 1 NATIVE_WITHDRAW_ASSET_MARKER [100] [1]"
  define r1 where "r1 = dispatching 5 r0"
  define r2 where "r2 = r1\<lparr>ur_status := UrQueued, ur_updated_at := 6\<rparr>"
  define a1 where "a1 = unwrap_transfer_arg k [7] r1 [1] 90"
  define a2 where "a2 = unwrap_transfer_arg k [7] (dispatching 5 r2) [1] 80"
  have r0: "ur_error_code r0 = None" "ur_asset_id r0 = NATIVE_WITHDRAW_ASSET_MARKER" "ur_recipient r0 = [1]" "ur_amount r0 = [100]"
    by (simp_all add: r0_def plain_request)
  then have r2: "ur_error_code r2 = None" "ur_asset_id r2 = NATIVE_WITHDRAW_ASSET_MARKER" "ur_recipient r2 = [1]" "ur_amount r2 = [100]"
    by (simp_all add: r2_def r1_def)
  obtain f where once: "?R (system (taken 0 r1) [f] [([7], a1)])"
    using native_attempt [OF asked_reachable [of _ _ NATIVE_WITHDRAW_ASSET_MARKER, folded r0_def] r0, of 10 a1]
    by (auto simp: r1_def a1_def)
  have "?R (system (waiting 1 r2) [f\<lparr>fl_alive := False\<rparr>] [([7], a1)])"
    using reach_step [OF once ds_upgrade [of k deduplicating "system (taken 0 r1) [f] [([7], a1)]" 6 "[2]"]]
      upgrade_taken [of r1] r0 by (simp add: r1_def r2_def)
  from native_attempt [OF this r2, of 20 a2] have "\<exists>fs. ?R (system (taken 1 (dispatching 5 r2)) fs [([7], a1), ([7], a2)])"
    by (auto simp: a1_def a2_def unwrap_transfer_arg_def icrc1_transfer_arg_of_def)
  then obtain fs where "?R (system (taken 1 (dispatching 5 r2)) fs [([7], a1), ([7], a2)])" ..
  then show ?thesis
    using r2 deduplicating
    by (intro exI [of _ "system (taken 1 (dispatching 5 r2)) fs [([7], a1), ([7], a2)]"] exI [of _ "dispatching 5 r2"])
      (simp add: taken_def a1_def a2_def unwrap_transfer_arg_def icrc1_transfer_arg_of_def from_be_def)
qed

text \<open>An unwrap request of the asset \<open>[2]\<close>, dispatched and reported.\<close>

lemma unwrap_attempt:
  assumes reach: "reachable dispatch_init (dispatch_step k deduplicating) (system (waiting 0 r0) [] [])"
    and r0: "ur_error_code r0 = None" "ur_asset_id r0 = [2]" "ur_recipient r0 = [1]"
    and r: "r = dispatching 5 r0"
  shows "reachable dispatch_init (dispatch_step k deduplicating)
    (system (taken 0 (r\<lparr>ur_updated_at := 6, ur_ledger_tx_id := Some [0], ur_status := UrDispatched, ur_error_code := None\<rparr>)) [] [([7], payment k [7] r)])"
    (is "_ (system (taken 0 ?r') _ _)")
proof -
  let ?R = "reachable dispatch_init (dispatch_step k deduplicating)"
  define a where "a = payment k [7] r"
  have fields: "ur_error_code r = None" "ur_asset_id r = [2]" "ur_recipient r = [1]"
    using r0 r by simp_all
  have a: "ac_owner (ta_to a) = [1]"
    using fields by (simp add: a_def payment_def unwrap_transfer_arg_def icrc1_transfer_arg_of_def)
  have "dispatch_begin k (taken 0 r) [7] r = CallTransfer [2] a"
    using fields by (simp add: dispatch_begin_def is_native_withdraw_dispatch_request_def NATIVE_WITHDRAW_ASSET_MARKER_def
      ascii_def principal_from_stored_bytes_def a_def payment_def)
  then have called: "?R (system (taken 0 r) [flying r (AwaitTransfer a) True] [])"
    using reach_step [OF reach ds_tick [of 5 _ "[7]" r "taken 0 r"]] take_waiting [OF r0(1), of 0]
    unfolding r [symmetric] by (simp add: proceed_def flying_def a)
  have replied: "?R (system (taken 0 r) [flying r (Replied (Reply (Inr 0))) True] [([7], a)])"
    using deduplicating_new [of a "[]"]
      reach_step [OF called ds_execute [of _ "[]" "flying r (AwaitTransfer a) True" "[]" a deduplicating "Inr 0"]]
    by (simp add: flying_def ledger_executes_def)
  have "nat_to_be_bytes 0 = [0]"
    by (simp add: nat_to_be_bytes_def nat_digits.simps)
  then have "finalize_unwrap_dispatch_attempt [7] 6 (dispatch_after_transfer (Reply (Inr 0))) (taken 0 r) = taken 0 ?r'"
    using fields by (simp add: finalize_unwrap_dispatch_attempt_def dispatch_after_transfer_def taken_def put_request_def
      validated_ledger_tx_id_def validate_stored_ledger_tx_id_def)
  then show ?thesis
    using reach_step [OF replied ds_finish [of _ "[]" "flying r (Replied (Reply (Inr 0))) True" "[]" "Reply (Inr 0)" k deduplicating 6]]
    by (simp add: flying_def a_def)
qed

theorem unwrap_paid_at_most_once_witness:
  "\<exists>S r. reachable dispatch_init (dispatch_step (\<lambda>_. []) deduplicating) S
    \<and> oget (unwrap_requests (gw S)) [7] = Some r \<and> ur_status r = UrDispatched
    \<and> filter (\<lambda>b. fst b = [7]) (blocks_of S (ur_asset_id r)) = [([7], payment (\<lambda>_. []) [7] r)]"
proof -
  let ?k = "\<lambda>_ :: bytes. [] :: bytes"
  define r where "r = (dispatching 5 (new_unwrap_request 1 [2] [100] [1]))
    \<lparr>ur_updated_at := 6, ur_ledger_tx_id := Some [0], ur_status := UrDispatched, ur_error_code := None\<rparr>"
  define S where "S = system (taken 0 r) [] [([7], payment ?k [7] (dispatching 5 (new_unwrap_request 1 [2] [100] [1])))]"
  have S: "reachable dispatch_init (dispatch_step ?k deduplicating) S"
    unfolding S_def r_def by (rule unwrap_attempt [OF asked_reachable]) (simp_all add: plain_request)
  have r: "oget (unwrap_requests (gw S)) [7] = Some r" "ur_asset_id r = [2]" "ur_status r = UrDispatched"
    by (simp_all add: S_def r_def taken_def plain_request)
  have "filter (\<lambda>b. fst b = [7]) (blocks_of S [2]) \<noteq> []"
    by (simp add: S_def)
  moreover have "filter (\<lambda>b. fst b = [7]) (blocks_of S [2]) \<in> {[], [([7], payment ?k [7] r)]}"
    using unwrap_paid_at_most_once [OF deduplicating S r(1)] r(2)
    by (simp add: NATIVE_WITHDRAW_ASSET_MARKER_def ascii_def)
  ultimately show ?thesis
    using S r by auto
qed

section \<open>The queue\<close>

text \<open>C11: unwrap requests are not forgotten. As long as the queue has not used up its sequence numbers, in every
  reachable state each request that waits is in the queue, a tick of the dispatcher returns, and it starts no dispatch only
  if no request waits.\<close>

theorem unwrap_queue_never_strands:
  assumes "reachable dispatch_init (dispatch_step k allowed) S" and "tail (unwrap_dispatch_meta (gw S)) \<noteq> - 1"
  shows "(\<forall>rid r. oget (unwrap_requests (gw S)) rid = Some r \<longrightarrow> ur_status r = UrQueued \<longrightarrow> rid \<in> queued_ids (gw S))
    \<and> (\<exists>p s'. pop_until_dispatchable now (gw S) = Some (p, s')
        \<and> (p = None \<longrightarrow> (\<forall>rid r. oget (unwrap_requests s') rid = Some r \<longrightarrow> ur_status r \<noteq> UrQueued)))"
proof -
  have ok: "queue_ok {} (gw S)"
    by (rule unwrap_queueing.reachable_inv [OF assms(1)])
  obtain p s' where tick: "pop_until_dispatchable now (gw S) = Some (p, s')" "queue_ok {} s'"
      "qtail s' \<noteq> - 1" "p = None \<longrightarrow> queued_ids s' = {}"
    using pop_until_ok [OF ok assms(2)] assms(2) by metis
  have waits: "rid \<in> queued_ids s" if "queue_ok {} s" "qtail s \<noteq> - 1" "oget (unwrap_requests s) rid = Some r" "ur_status r = UrQueued"
    for s rid r
    using that unfolding queue_ok_def by auto
  show ?thesis
    using waits [OF ok assms(2)] waits [OF tick(2,3)] tick(1,4) by (metis empty_iff)
qed

theorem unwrap_queue_never_strands_witness:
  "let s = gw (system (waiting 0 (new_unwrap_request 1 [2] [100] [1])) [] [])
   in [7] \<in> queued_ids s \<and> (\<exists>p s'. pop_until_dispatchable 5 s = Some (p, s'))"
proof -
  let ?r = "new_unwrap_request 1 [2] [100] [1]"
  let ?S = "system (waiting 0 ?r) [] []"
  have "tail (unwrap_dispatch_meta (gw ?S)) \<noteq> - 1" "oget (unwrap_requests (gw ?S)) [7] = Some ?r" "ur_status ?r = UrQueued"
    by (simp_all add: waiting_def new_unwrap_request_def)
  then show ?thesis
    using unwrap_queue_never_strands [OF asked_reachable [of "\<lambda>_. []" deduplicating "[2]"], of 5]
    unfolding Let_def by blast
qed

end
