(* ===== verification/Icp_Update.thy ===== *)
theory Icp_Update
  imports Unwrap_Dispatch
begin

text \<open>
  Calls to other canisters on behalf of contracts (\<open>ic-evm-gateway/src/lib.rs\<close>): an intent a contract logged through the
  update precompile becomes a request when its block is sealed, and the request becomes one call of an allowed method,
  with an envelope that names the transaction and its sender. Unlike token transfers these calls are not
  deduplicated by the callee, so a call whose outcome is unknown must never be sent again.
\<close>

section \<open>State\<close>

record update_state =
  icp_update_requests :: "(tx_id, icp_update_dispatch_request) omap"
  icp_update_dispatch_queue :: "(u64, tx_id) omap"
  icp_update_dispatch_meta :: queue_meta
  icp_update_precompile_allowlist :: "(bytes, u8) omap"

abbreviation MAX_ICP_UPDATE_REQUESTS :: nat where
  "MAX_ICP_UPDATE_REQUESTS \<equiv> 10000"

definition ICP_UPDATE_REPLY_OMITTED_TOO_LARGE :: bytes where
  "ICP_UPDATE_REPLY_OMITTED_TOO_LARGE = ascii ''ic_update.reply_omitted_too_large''"

section \<open>The allowlist\<close>

text \<open>The checks of the arguments; the anonymous principal is the single byte 4. That the caller may write is checked by the
  endpoints before.\<close>

definition ANONYMOUS :: bytes where
  "ANONYMOUS = [4]"

definition validate_update_precompile_allow_args :: "bytes \<Rightarrow> bytes \<Rightarrow> bytes + unit" where
  "validate_update_precompile_allow_args target method =
    (let target_non_anonymous = target \<noteq> ANONYMOUS;
         valid = icp_precompile_allowlist_entry_safe_raw (word_of_nat (length target)) (of_bool target_non_anonymous)
           (word_of_nat (length method)) (of_bool (is_ascii method))
     in if \<not> valid \<and> \<not> target_non_anonymous then Inl (ascii ''arg.target_anonymous'')
        else if \<not> valid then Inl (ascii ''arg.method_invalid'')
        else Inr ())"

definition add_update_precompile_allowed_method :: "bytes \<Rightarrow> bytes \<Rightarrow> update_state \<Rightarrow> (bytes + unit) \<times> update_state" where
  "add_update_precompile_allowed_method target method s =
    (case validate_update_precompile_allow_args target method of
       Inl e \<Rightarrow> (Inl e, s)
     | Inr _ \<Rightarrow> (Inr (), s\<lparr>icp_update_precompile_allowlist :=
         oinsert (precompile_allow_key target method) 1 (icp_update_precompile_allowlist s)\<rparr>))"

definition remove_update_precompile_allowed_method :: "bytes \<Rightarrow> bytes \<Rightarrow> update_state \<Rightarrow> (bytes + unit) \<times> update_state" where
  "remove_update_precompile_allowed_method target method s =
    (case validate_update_precompile_allow_args target method of
       Inl e \<Rightarrow> (Inl e, s)
     | Inr _ \<Rightarrow> (Inr (), s\<lparr>icp_update_precompile_allowlist :=
         oremove (precompile_allow_key target method) (icp_update_precompile_allowlist s)\<rparr>))"

definition is_update_precompile_allowed :: "bytes \<Rightarrow> bytes \<Rightarrow> update_state \<Rightarrow> bool" where
  "is_update_precompile_allowed target method s \<longleftrightarrow>
    target \<noteq> [] \<and> length target \<le> 29 \<and> method \<noteq> [] \<and> length method \<le> 64 \<and> is_ascii method
    \<and> oget (icp_update_precompile_allowlist s) (precompile_allow_key target method) \<noteq> None"

definition decode_precompile_allow_key_for_principal :: "bytes \<Rightarrow> (bytes \<times> bytes) option" where
  "decode_precompile_allow_key_for_principal key =
    (case key of
       [] \<Rightarrow> None
     | b # rest \<Rightarrow>
         let len = unat b
         in if len = 0 \<or> 29 < len \<or> length key \<le> 1 + len then None
            else let target = take len rest; method = drop len rest
                 in if utf8_valid method then Some (target, method) else None)"

section \<open>Requests\<close>

definition push_icp_update :: "tx_id \<Rightarrow> update_state \<Rightarrow> update_state" where
  "push_icp_update rid s =
    (let (seq, meta) = queue_meta_push (icp_update_dispatch_meta s)
     in s\<lparr>icp_update_dispatch_meta := meta, icp_update_dispatch_queue := oinsert seq rid (icp_update_dispatch_queue s)\<rparr>)"

definition put_icp_update :: "tx_id \<Rightarrow> icp_update_dispatch_request \<Rightarrow> update_state \<Rightarrow> update_state" where
  "put_icp_update rid r s = s\<lparr>icp_update_requests := oinsert rid r (icp_update_requests s)\<rparr>"

definition remove_icp_update_queue_entries :: "tx_id \<Rightarrow> update_state \<Rightarrow> update_state" where
  "remove_icp_update_queue_entries rid s =
    (let seqs = map fst (filter (\<lambda>(_, q). q = rid) (entries (icp_update_dispatch_queue s)))
     in s\<lparr>icp_update_dispatch_queue := fold oremove seqs (icp_update_dispatch_queue s)\<rparr>)"

definition icp_update_completed :: "icp_update_dispatch_request \<Rightarrow> bool" where
  "icp_update_completed r \<longleftrightarrow> iu_status r \<in> {IuDispatched, IuDispatchFailed, IuDispatchUncertain}"

text \<open>Only completed requests are forgotten, the oldest first; the map iterates in the order of the identifiers, so a stable
  sort by the time sorts by time and identifier.\<close>

fun trim_completed :: "(u64 \<times> tx_id) list \<Rightarrow> nat \<Rightarrow> update_state \<Rightarrow> update_state" where
  "trim_completed [] remaining s = s"
| "trim_completed ((_, rid) # cs) remaining s =
    (if remaining \<le> MAX_ICP_UPDATE_REQUESTS then s
     else trim_completed cs (remaining - 1)
       (remove_icp_update_queue_entries rid (s\<lparr>icp_update_requests := oremove rid (icp_update_requests s)\<rparr>)))"

definition trim_icp_update_requests :: "update_state \<Rightarrow> update_state" where
  "trim_icp_update_requests s =
    (let len = olen (icp_update_requests s)
     in if len \<le> MAX_ICP_UPDATE_REQUESTS then s
        else trim_completed
          (sort_key fst (map (\<lambda>(rid, r). (iu_updated_at r, rid))
            (filter (\<lambda>(_, r). icp_update_completed r) (entries (icp_update_requests s))))) len s)"

definition new_icp_update_request ::
  "u64 \<Rightarrow> tx_id \<Rightarrow> tx_id \<Rightarrow> u32 \<Rightarrow> receipt_like \<Rightarrow> tx_kind \<Rightarrow> bytes \<Rightarrow> bytes option \<Rightarrow> icp_update_intent \<Rightarrow> icp_update_dispatch_request" where
  "new_icp_update_request now rid t log_index receipt kind sender ic_caller intent =
    \<lparr>iu_request_id = rid, iu_tx_id = t, iu_block_number = rcpt_block_number receipt, iu_tx_index = rcpt_tx_index receipt,
     iu_log_index = log_index, iu_tx_kind = kind, iu_evm_sender = sender, iu_ic_caller = ic_caller,
     iu_target = ii_target intent, iu_method = ii_method intent, iu_arg = ii_arg intent, iu_status = IuQueued,
     iu_reply = None, iu_error_code = None, iu_updated_at = now, iu_call_started_at_time = 0\<rparr>"

text \<open>The sender and the calling principal of a transaction, as its envelope gives them.\<close>

definition icp_update_origin :: "recover_fn \<Rightarrow> stored_tx_bytes \<Rightarrow> (bytes \<times> bytes option) option" where
  "icp_update_origin recovery envelope =
    (let caller = (case stb_caller_evm envelope of Some c \<Rightarrow> c | None \<Rightarrow> replicate 20 0)
     in case decode_tx_view recovery (stb_kind envelope) caller (stb_raw envelope) of
          Inl _ \<Rightarrow> None
        | Inr decoded \<Rightarrow> Some (dv_from decoded,
            if stb_kind envelope = IcSynthetic then Some (stb_caller_principal envelope) else None))"

definition record_icp_update_log ::
  "(bytes \<Rightarrow> bytes) \<Rightarrow> u64 \<Rightarrow> tx_id \<Rightarrow> receipt_like \<Rightarrow> tx_kind \<Rightarrow> bytes \<times> bytes option \<Rightarrow> nat \<times> log_entry \<Rightarrow> update_state \<Rightarrow> update_state" where
  "record_icp_update_log k now t receipt kind = (\<lambda>(sender, ic_caller) (log_index, l) s.
    case icp_update_intent_from_log k l of
      None \<Rightarrow> s
    | Some intent \<Rightarrow>
        (case derive_log_request_id k t log_index of
           None \<Rightarrow> s
         | Some rid \<Rightarrow>
             if oget (icp_update_requests s) rid \<noteq> None then s
             else trim_icp_update_requests (push_icp_update rid
               (put_icp_update rid (new_icp_update_request now rid t (word_of_nat log_index) receipt kind sender ic_caller intent) s))))"

definition record_icp_update_requests_from_block ::
  "(bytes \<Rightarrow> bytes) \<Rightarrow> recover_fn \<Rightarrow> (tx_id \<Rightarrow> receipt_like option) \<Rightarrow> (tx_id \<Rightarrow> stored_tx_bytes option) \<Rightarrow> u64
    \<Rightarrow> tx_id list \<Rightarrow> update_state \<Rightarrow> update_state" where
  "record_icp_update_requests_from_block k recovery get_receipt get_envelope now tx_ids =
    fold (\<lambda>t s.
      case get_receipt t of
        None \<Rightarrow> s
      | Some receipt \<Rightarrow>
          (case get_envelope t of
             None \<Rightarrow> s
           | Some envelope \<Rightarrow>
               (case icp_update_origin recovery envelope of
                  None \<Rightarrow> s
                | Some origin \<Rightarrow>
                    fold (record_icp_update_log k now t receipt (stb_kind envelope) origin) (enumerate 0 (rcpt_logs receipt)) s)))
      tx_ids"

section \<open>Dispatch\<close>

definition is_decode_failed_icp_update_request :: "icp_update_dispatch_request \<Rightarrow> bool" where
  "is_decode_failed_icp_update_request r \<longleftrightarrow> iu_error_code r = Some ICP_UPDATE_DECODE_FAILURE_CODE"

definition icp_update_unreadable :: "u64 \<Rightarrow> icp_update_dispatch_request \<Rightarrow> icp_update_dispatch_request" where
  "icp_update_unreadable now r = r\<lparr>iu_updated_at := now, iu_status := IuDispatchFailed, iu_reply := None,
    iu_error_code := Some ICP_UPDATE_DECODE_FAILURE_CODE\<rparr>"

definition icp_update_dispatching :: "u64 \<Rightarrow> icp_update_dispatch_request \<Rightarrow> icp_update_dispatch_request" where
  "icp_update_dispatching now r = r\<lparr>iu_status := IuDispatching, iu_updated_at := now,
    iu_call_started_at_time := (if iu_call_started_at_time r = 0 then now else iu_call_started_at_time r)\<rparr>"

definition pop_next_icp_update_request ::
  "u64 \<Rightarrow> update_state \<Rightarrow> (pop_error + (tx_id \<times> icp_update_dispatch_request) option) \<times> update_state" where
  "pop_next_icp_update_request now s =
    (case queue_meta_pop (icp_update_dispatch_meta s) of
       (None, meta) \<Rightarrow> (Inr None, s\<lparr>icp_update_dispatch_meta := meta\<rparr>)
     | (Some seq, meta) \<Rightarrow>
         let s1 = s\<lparr>icp_update_dispatch_meta := meta\<rparr>
         in case oget (icp_update_dispatch_queue s1) seq of
              None \<Rightarrow> (Inl (QueueMissing seq), s1)
            | Some rid \<Rightarrow>
                let s2 = s1\<lparr>icp_update_dispatch_queue := oremove seq (icp_update_dispatch_queue s1)\<rparr>
                in case oget (icp_update_requests s2) rid of
                     None \<Rightarrow> (Inl (RequestMissing rid), s2)
                   | Some r \<Rightarrow>
                       if is_decode_failed_icp_update_request r
                       then (Inl (Quarantined rid), put_icp_update rid (icp_update_unreadable now r) s2)
                       else (Inr (Some (rid, icp_update_dispatching now r)), put_icp_update rid (icp_update_dispatching now r) s2))"

partial_function (option) pop_until_icp_update ::
  "u64 \<Rightarrow> update_state \<Rightarrow> ((tx_id \<times> icp_update_dispatch_request) option \<times> update_state) option" where
  "pop_until_icp_update now s =
    (case pop_next_icp_update_request now s of
       (Inr r, s1) \<Rightarrow> Some (r, s1)
     | (Inl _, s1) \<Rightarrow> pop_until_icp_update now s1)"

record icp_update_envelope =
  ie_version :: u8
  ie_chain_id :: u64
  ie_request_id :: bytes
  ie_tx_id :: bytes
  ie_block_number :: u64
  ie_tx_index :: u32
  ie_log_index :: u32
  ie_tx_kind :: tx_kind
  ie_evm_sender :: bytes
  ie_ic_caller :: "bytes option"
  ie_arg :: bytes

definition icp_update_envelope_of :: "icp_update_dispatch_request \<Rightarrow> icp_update_envelope" where
  "icp_update_envelope_of r =
    \<lparr>ie_version = 1, ie_chain_id = CHAIN_ID, ie_request_id = iu_request_id r, ie_tx_id = iu_tx_id r,
     ie_block_number = iu_block_number r, ie_tx_index = iu_tx_index r, ie_log_index = iu_log_index r,
     ie_tx_kind = iu_tx_kind r, ie_evm_sender = iu_evm_sender r, ie_ic_caller = iu_ic_caller r, ie_arg = iu_arg r\<rparr>"

record applied_update_outcome =
  au_status :: icp_update_request_status
  au_reply :: "bytes option"
  au_error_code :: "bytes option"

text \<open>How a call can end: a reply, a rejection with its code if the code is known, or a failure to enqueue the
  call; the failures come with their text.\<close>

datatype reject_code = SysFatal | SysTransient | DestinationInvalid | CanisterReject | CanisterError | SysUnknown

datatype update_response =
    UpdateReply bytes
  | UpdateRejected "reject_code option" bytes
  | UpdateNotEnqueued bytes

definition icp_update_success_outcome :: "bytes \<Rightarrow> applied_update_outcome" where
  "icp_update_success_outcome reply =
    (if MAX_RETURN_DATA < length reply
     then \<lparr>au_status = IuDispatched, au_reply = None, au_error_code = Some ICP_UPDATE_REPLY_OMITTED_TOO_LARGE\<rparr>
     else \<lparr>au_status = IuDispatched, au_reply = Some reply, au_error_code = None\<rparr>)"

fun is_icp_update_uncertain_call_error :: "update_response \<Rightarrow> bool" where
  "is_icp_update_uncertain_call_error (UpdateRejected code _) = (code = Some SysUnknown)"
| "is_icp_update_uncertain_call_error _ = False"

definition icp_update_failure_outcome :: "update_response \<Rightarrow> bytes \<Rightarrow> applied_update_outcome" where
  "icp_update_failure_outcome err detail =
    \<lparr>au_status = (if is_icp_update_uncertain_call_error err then IuDispatchUncertain else IuDispatchFailed),
     au_reply = None, au_error_code = Some (ascii ''ic_update.call_failed:'' @ detail)\<rparr>"

text \<open>\<open>dispatch_icp_update_request_internal\<close> up to the call, and after it.\<close>

datatype update_next =
    UpdateFinish applied_update_outcome
  | CallUpdate bytes bytes icp_update_envelope

definition icp_update_begin :: "update_state \<Rightarrow> icp_update_dispatch_request \<Rightarrow> update_next" where
  "icp_update_begin s r =
    (if \<not> is_update_precompile_allowed (iu_target r) (iu_method r) s
     then UpdateFinish \<lparr>au_status = IuDispatchFailed, au_reply = None, au_error_code = Some (ascii ''ic_update.allowlist_miss'')\<rparr>
     else CallUpdate (iu_target r) (iu_method r) (icp_update_envelope_of r))"

fun icp_update_after_call :: "update_response \<Rightarrow> applied_update_outcome" where
  "icp_update_after_call (UpdateReply reply) = icp_update_success_outcome reply"
| "icp_update_after_call (UpdateRejected code detail) = icp_update_failure_outcome (UpdateRejected code detail) detail"
| "icp_update_after_call (UpdateNotEnqueued detail) = icp_update_failure_outcome (UpdateNotEnqueued detail) detail"

definition finalize_icp_update_dispatch_attempt :: "tx_id \<Rightarrow> u64 \<Rightarrow> applied_update_outcome \<Rightarrow> update_state \<Rightarrow> update_state" where
  "finalize_icp_update_dispatch_attempt rid now applied s =
    (case oget (icp_update_requests s) rid of
       None \<Rightarrow> s
     | Some r \<Rightarrow>
         put_icp_update rid (r\<lparr>iu_updated_at := now, iu_reply := au_reply applied, iu_status := au_status applied,
           iu_error_code := map_option clamp_error_code (au_error_code applied)\<rparr>) s)"

section \<open>Repairing\<close>

definition icp_update_uncertain :: "u64 \<Rightarrow> icp_update_dispatch_request \<Rightarrow> icp_update_dispatch_request" where
  "icp_update_uncertain now r = r\<lparr>iu_status := IuDispatchUncertain, iu_updated_at := now,
    iu_error_code := Some (ascii ''ic_update.dispatch_uncertain'')\<rparr>"

definition repair_stale_icp_update :: "u64 \<Rightarrow> update_state \<Rightarrow> update_state" where
  "repair_stale_icp_update now s =
    fold (\<lambda>(rid, r) s.
        if iu_status r = IuDispatching \<and> iu_updated_at r \<le> sat_sub now STALE_OPERATION_NANOS
        then put_icp_update rid (icp_update_uncertain now r) s else s)
      (entries (icp_update_requests s)) s"

fun requeue_icp_update :: "(tx_id \<times> icp_update_dispatch_request) list \<Rightarrow> tx_id set \<Rightarrow> update_state \<Rightarrow> update_state" where
  "requeue_icp_update [] queued s = s"
| "requeue_icp_update ((rid, r) # cs) queued s =
    (let s1 = put_icp_update rid r s
     in if rid \<in> queued then requeue_icp_update cs queued s1
        else requeue_icp_update cs (insert rid queued) (push_icp_update rid s1))"

definition recover_icp_update_dispatch_state_after_upgrade :: "u64 \<Rightarrow> update_state \<Rightarrow> bool \<times> update_state" where
  "recover_icp_update_dispatch_state_after_upgrade now s =
    (let queued = snd ` set (entries (icp_update_dispatch_queue s));
         candidates = filter (\<lambda>(rid, r). iu_status r = IuQueued \<and> rid \<notin> queued) (entries (icp_update_requests s));
         uncertain = map (\<lambda>(rid, r). (rid, icp_update_uncertain now r))
           (filter (\<lambda>(_, r). iu_status r = IuDispatching) (entries (icp_update_requests s)));
         s1 = fold (\<lambda>(rid, r). put_icp_update rid r) uncertain s;
         s2 = (if candidates = [] then s1 else requeue_icp_update candidates queued s1)
     in (entries (icp_update_dispatch_queue s2) \<noteq> [], s2))"

end
