(* ===== verification/Icp_Update_Machine.thy ===== *)
theory Icp_Update_Machine
  imports Icp_Update
begin

text \<open>
  The calls the gateway sends for contracts, over every interleaving of blocks, ticks, replies, changes of the allowlist,
  repairs and upgrades. The system keeps the calls sent, and of every sealed transaction the receipt and the envelope
  its requests were read from.
\<close>

section \<open>The machine\<close>

record update_system =
  ug :: update_state
  pending_calls :: "tx_id list"
  calls :: "(bytes \<times> bytes \<times> icp_update_envelope) list"
  evidence :: "tx_id \<Rightarrow> (receipt_like \<times> stored_tx_bytes) option"

definition evidence_of ::
  "(tx_id \<Rightarrow> receipt_like option) \<Rightarrow> (tx_id \<Rightarrow> stored_tx_bytes option) \<Rightarrow> tx_id \<Rightarrow> (receipt_like \<times> stored_tx_bytes) option" where
  "evidence_of get_receipt get_envelope t =
    (case get_receipt t of None \<Rightarrow> None | Some receipt \<Rightarrow> map_option (\<lambda>e. (receipt, e)) (get_envelope t))"

fun update_proceed :: "u64 \<Rightarrow> tx_id \<Rightarrow> update_next \<Rightarrow> update_system \<Rightarrow> update_system" where
  "update_proceed now rid (UpdateFinish applied) S = S\<lparr>ug := finalize_icp_update_dispatch_attempt rid now applied (ug S)\<rparr>"
| "update_proceed now rid (CallUpdate target method e) S =
    S\<lparr>calls := calls S @ [(target, method, e)], pending_calls := pending_calls S @ [rid]\<rparr>"

text \<open>A transaction is sealed in one block only, so its requests are recorded once.\<close>

inductive update_step :: "(bytes \<Rightarrow> bytes) \<Rightarrow> recover_fn \<Rightarrow> update_system \<Rightarrow> update_system \<Rightarrow> bool"
  for k recovery where
  us_record: "\<forall>t\<in>set ids. evidence S t = None \<Longrightarrow>
    update_step k recovery S
      (S\<lparr>ug := record_icp_update_requests_from_block k recovery get_receipt get_envelope now ids (ug S),
         evidence := (\<lambda>t. if t \<in> set ids then evidence_of get_receipt get_envelope t else evidence S t)\<rparr>)"
| us_idle: "pop_until_icp_update now (ug S) = Some (None, s1) \<Longrightarrow> update_step k recovery S (S\<lparr>ug := s1\<rparr>)"
| us_tick: "pop_until_icp_update now (ug S) = Some (Some (rid, r), s1) \<Longrightarrow>
    update_step k recovery S (update_proceed now rid (icp_update_begin s1 r) (S\<lparr>ug := s1\<rparr>))"
| us_reply: "pending_calls S = ps @ rid # qs \<Longrightarrow>
    update_step k recovery S (S\<lparr>pending_calls := ps @ qs,
      ug := finalize_icp_update_dispatch_attempt rid now (icp_update_after_call response) (ug S)\<rparr>)"
| us_allow: "update_step k recovery S (S\<lparr>ug := snd (add_update_precompile_allowed_method target method (ug S))\<rparr>)"
| us_disallow: "update_step k recovery S (S\<lparr>ug := snd (remove_update_precompile_allowed_method target method (ug S))\<rparr>)"
| us_repair: "update_step k recovery S (S\<lparr>ug := repair_stale_icp_update now (ug S)\<rparr>)"
| us_upgrade: "update_step k recovery S
    (S\<lparr>ug := snd (recover_icp_update_dispatch_state_after_upgrade now (ug S)), pending_calls := []\<rparr>)"

definition update_init :: "update_system \<Rightarrow> bool" where
  "update_init S \<longleftrightarrow> icp_update_requests (ug S) = oempty \<and> icp_update_dispatch_queue (ug S) = oempty
    \<and> pending_calls S = [] \<and> calls S = [] \<and> (\<forall>t. evidence S t = None)"

section \<open>The invariant\<close>

text \<open>A request is what a log of its transaction asked for, under the identifier of that log.\<close>

definition intended ::
  "(bytes \<Rightarrow> bytes) \<Rightarrow> recover_fn \<Rightarrow> (tx_id \<Rightarrow> (receipt_like \<times> stored_tx_bytes) option) \<Rightarrow> bytes \<Rightarrow> bytes \<Rightarrow> icp_update_envelope \<Rightarrow> bool" where
  "intended k recovery ev target method e \<longleftrightarrow>
    (\<exists>receipt envelope intent. ev (ie_tx_id e) = Some (receipt, envelope)
      \<and> unat (ie_log_index e) < length (rcpt_logs receipt)
      \<and> icp_update_intent_from_log k (rcpt_logs receipt ! unat (ie_log_index e)) = Some intent
      \<and> target = ii_target intent \<and> method = ii_method intent \<and> ie_arg e = ii_arg intent
      \<and> icp_update_origin recovery envelope = Some (ie_evm_sender e, ie_ic_caller e) \<and> ie_tx_kind e = stb_kind envelope
      \<and> ie_block_number e = rcpt_block_number receipt \<and> ie_tx_index e = rcpt_tx_index receipt
      \<and> ie_request_id e = k (ie_tx_id e @ to_be_bytes (ie_log_index e)))"

definition call_key :: "bytes \<times> bytes \<times> icp_update_envelope \<Rightarrow> tx_id \<times> u32" where
  "call_key = (\<lambda>(_, _, e). (ie_tx_id e, ie_log_index e))"

definition request_key :: "icp_update_dispatch_request \<Rightarrow> tx_id \<times> u32" where
  "request_key r = (iu_tx_id r, iu_log_index r)"

definition same_request :: "icp_update_dispatch_request \<Rightarrow> icp_update_dispatch_request \<Rightarrow> bool" where
  "same_request r r' \<longleftrightarrow> icp_update_envelope_of r' = icp_update_envelope_of r \<and> iu_target r' = iu_target r \<and> iu_method r' = iu_method r"

definition request_intended where
  "request_intended k recovery ev rid r \<longleftrightarrow> iu_request_id r = rid
    \<and> intended k recovery ev (iu_target r) (iu_method r) (icp_update_envelope_of r)"

text \<open>Requests in the queue, and requests that wait, have not been called.\<close>

definition updates_ok ::
  "(bytes \<Rightarrow> bytes) \<Rightarrow> recover_fn \<Rightarrow> (tx_id \<Rightarrow> (receipt_like \<times> stored_tx_bytes) option) \<Rightarrow> (tx_id \<times> u32) set \<Rightarrow> update_state \<Rightarrow> bool" where
  "updates_ok k recovery ev called s \<longleftrightarrow>
    (\<forall>rid r. oget (icp_update_requests s) rid = Some r \<longrightarrow> request_intended k recovery ev rid r
      \<and> (iu_status r = IuQueued \<longrightarrow> request_key r \<notin> called))
    \<and> (\<forall>a b rid. oget (icp_update_dispatch_queue s) a = Some rid \<longrightarrow> oget (icp_update_dispatch_queue s) b = Some rid \<longrightarrow> a = b)
    \<and> (\<forall>a rid. oget (icp_update_dispatch_queue s) a = Some rid \<longrightarrow>
        (\<exists>r. oget (icp_update_requests s) rid = Some r \<and> request_key r \<notin> called))"

definition update_inv :: "(bytes \<Rightarrow> bytes) \<Rightarrow> recover_fn \<Rightarrow> update_system \<Rightarrow> bool" where
  "update_inv k recovery S \<longleftrightarrow> updates_ok k recovery (evidence S) (call_key ` set (calls S)) (ug S)
    \<and> distinct (map call_key (calls S))
    \<and> (\<forall>(target, method, e)\<in>set (calls S). intended k recovery (evidence S) target method e)"

lemma same_request_key: "same_request r r' \<Longrightarrow> request_key r' = request_key r"
  by (auto simp: same_request_def request_key_def icp_update_envelope_of_def)

lemma same_request_intended:
  "same_request r r' \<Longrightarrow> request_intended k recovery ev rid r \<Longrightarrow> request_intended k recovery ev rid r'"
  by (auto simp: same_request_def request_intended_def icp_update_envelope_of_def)

lemma request_intended_rid:
  "request_intended k recovery ev rid r \<Longrightarrow> rid = k (iu_tx_id r @ to_be_bytes (iu_log_index r))"
  by (auto simp: request_intended_def intended_def icp_update_envelope_of_def)

lemma put_icp_fields [simp]:
  "oget (icp_update_requests (put_icp_update rid r s)) q = (if q = rid then Some r else oget (icp_update_requests s) q)"
  "icp_update_dispatch_queue (put_icp_update rid r s) = icp_update_dispatch_queue s"
  "icp_update_dispatch_meta (put_icp_update rid r s) = icp_update_dispatch_meta s"
  "icp_update_precompile_allowlist (put_icp_update rid r s) = icp_update_precompile_allowlist s"
  by (simp_all add: put_icp_update_def)

lemma updates_ok_put:
  assumes "updates_ok k recovery ev called s" "oget (icp_update_requests s) rid = Some r" "same_request r r'"
    "iu_status r' = IuQueued \<longrightarrow> iu_status r = IuQueued"
  shows "updates_ok k recovery ev called (put_icp_update rid r' s)"
proof -
  have waiting: "\<exists>r. oget (icp_update_requests (put_icp_update rid r' s)) q = Some r \<and> request_key r \<notin> called"
    if entry: "oget (icp_update_dispatch_queue s) a = Some q" for a q
  proof -
    obtain r0 where "oget (icp_update_requests s) q = Some r0" "request_key r0 \<notin> called"
      using assms(1) entry unfolding updates_ok_def by blast
    then show ?thesis
      using assms(2) same_request_key [OF assms(3)] by (cases "q = rid") auto
  qed
  show ?thesis
    using assms waiting same_request_key [OF assms(3)] same_request_intended [OF assms(3)]
    unfolding updates_ok_def by (simp del: put_icp_fields(1)) (simp split: if_splits)
qed

lemma updates_ok_allowlist [simp]:
  "updates_ok k recovery ev called (s\<lparr>icp_update_precompile_allowlist := l\<rparr>) = updates_ok k recovery ev called s"
  "updates_ok k recovery ev called (s\<lparr>icp_update_dispatch_meta := m\<rparr>) = updates_ok k recovery ev called s"
  by (simp_all add: updates_ok_def)

lemma push_icp_fields [simp]:
  "icp_update_requests (push_icp_update rid s) = icp_update_requests s"
  "icp_update_dispatch_queue (push_icp_update rid s) = oinsert (tail (icp_update_dispatch_meta s)) rid (icp_update_dispatch_queue s)"
  "icp_update_precompile_allowlist (push_icp_update rid s) = icp_update_precompile_allowlist s"
  by (simp_all add: push_icp_update_def queue_meta_push_def queue_push_def)

lemma updates_ok_push:
  assumes ok: "updates_ok k recovery ev called s" and r: "oget (icp_update_requests s) rid = Some r" "request_key r \<notin> called"
    and fresh: "\<And>a. oget (icp_update_dispatch_queue s) a \<noteq> Some rid"
  shows "updates_ok k recovery ev called (push_icp_update rid s)"
  using ok r fresh unfolding updates_ok_def by (auto split: if_splits)

lemma updates_ok_new:
  assumes ok: "updates_ok k recovery ev called s" and new: "oget (icp_update_requests s) rid = None"
    and r: "request_intended k recovery ev rid r" "request_key r \<notin> called"
  shows "updates_ok k recovery ev called (push_icp_update rid (put_icp_update rid r s))"
proof -
  have fresh: "oget (icp_update_dispatch_queue s) a \<noteq> Some rid" for a
    using ok new unfolding updates_ok_def by fastforce
  have "updates_ok k recovery ev called (put_icp_update rid r s)"
    using ok r fresh unfolding updates_ok_def by auto
  then show ?thesis
    using r fresh by (auto intro: updates_ok_push)
qed

lemma updates_ok_forget:
  assumes ok: "updates_ok k recovery ev called s"
  shows "updates_ok k recovery ev called
    (remove_icp_update_queue_entries rid (s\<lparr>icp_update_requests := oremove rid (icp_update_requests s)\<rparr>))"
proof -
  define q where "q = fold oremove (map fst (filter (\<lambda>(_, q). q = rid) (entries (icp_update_dispatch_queue s)))) (icp_update_dispatch_queue s)"
  have q: "oget q a = Some x \<longleftrightarrow> oget (icp_update_dispatch_queue s) a = Some x \<and> x \<noteq> rid" for a x
  proof -
    have "a \<in> set (map fst (filter (\<lambda>(_, q). q = rid) (entries (icp_update_dispatch_queue s))))
        \<longleftrightarrow> oget (icp_update_dispatch_queue s) a = Some rid"
      by (force simp: oget_entries)
    then show ?thesis
      by (auto simp: q_def fold_oremove)
  qed
  have eq: "remove_icp_update_queue_entries rid (s\<lparr>icp_update_requests := oremove rid (icp_update_requests s)\<rparr>)
      = s\<lparr>icp_update_requests := oremove rid (icp_update_requests s), icp_update_dispatch_queue := q\<rparr>"
    by (simp add: remove_icp_update_queue_entries_def q_def)
  show ?thesis
    unfolding eq using ok unfolding updates_ok_def by (auto simp: q split: if_splits)
qed

lemma updates_ok_trim: "updates_ok k recovery ev called s \<Longrightarrow> updates_ok k recovery ev called (trim_icp_update_requests s)"
proof -
  have "updates_ok k recovery ev called s \<Longrightarrow> updates_ok k recovery ev called (trim_completed cs n s)" for cs n s
    by (induction cs n s rule: trim_completed.induct) (auto intro: updates_ok_forget)
  then show "updates_ok k recovery ev called s \<Longrightarrow> updates_ok k recovery ev called (trim_icp_update_requests s)"
    by (simp add: trim_icp_update_requests_def Let_def)
qed

section \<open>Every operation keeps it\<close>

lemma updates_ok_evidence:
  assumes "updates_ok k recovery ev called s" "\<And>t x. ev t = Some x \<Longrightarrow> ev' t = Some x"
  shows "updates_ok k recovery ev' called s"
proof -
  have "intended k recovery ev tg m e \<Longrightarrow> intended k recovery ev' tg m e" for tg m e
    using assms(2) unfolding intended_def by blast
  then show ?thesis
    using assms(1) unfolding updates_ok_def request_intended_def by blast
qed

lemma updates_ok_record_log:
  assumes ok: "updates_ok k recovery ev called s" and fresh: "t \<notin> fst ` called"
    and ev: "ev t = Some (receipt, envelope)" and origin: "icp_update_origin recovery envelope = Some origin"
    and log: "i < length (rcpt_logs receipt)" "l = rcpt_logs receipt ! i"
  shows "updates_ok k recovery ev called (record_icp_update_log k now t receipt (stb_kind envelope) origin (i, l) s)"
proof (cases "icp_update_intent_from_log k l")
  case intent: (Some intent)
  show ?thesis
  proof (cases "derive_log_request_id k t i")
    case (Some rid)
    then obtain w :: u32 where w: "try_of_nat i = Some w" "rid = k (t @ to_be_bytes w)"
      by (auto simp: derive_log_request_id_def)
    then have i: "unat w = i" "word_of_nat i = w"
      by (auto simp: try_of_nat_def split: if_splits) (simp add: unat_of_nat)
    define r where "r = new_icp_update_request now rid t w receipt (stb_kind envelope) (fst origin) (snd origin) intent"
    have "request_intended k recovery ev rid r"
      using ev origin log intent w i
      by (simp add: r_def request_intended_def intended_def new_icp_update_request_def icp_update_envelope_of_def)
    moreover have "request_key r \<notin> called"
      using fresh by (force simp: r_def request_key_def new_icp_update_request_def)
    ultimately show ?thesis
      using ok intent Some i updates_ok_trim [OF updates_ok_new [OF ok, of rid r]]
      by (cases origin) (simp add: record_icp_update_log_def r_def)
  qed (use ok intent in \<open>simp add: record_icp_update_log_def split: prod.splits\<close>)
qed (use ok in \<open>simp add: record_icp_update_log_def split: prod.splits\<close>)

lemma fold_enumerate_keeps:
  "(\<And>i x s. i < length xs \<Longrightarrow> x = xs ! i \<Longrightarrow> P s \<Longrightarrow> P (f (i, x) s)) \<Longrightarrow> P s \<Longrightarrow> P (fold f (enumerate 0 xs) s)"
proof (induction xs arbitrary: s rule: rev_induct)
  case (snoc x xs)
  have "P (fold f (enumerate 0 xs) s)"
  proof (rule snoc.IH)
    fix i y s
    assume "i < length xs" "y = xs ! i" "P s"
    then show "P (f (i, y) s)"
      using snoc.prems(1) [of i y s] by (simp add: nth_append)
  qed (rule snoc.prems(2))
  then show ?case
    using snoc.prems(1) [of "length xs" x] by (simp add: enumerate_append_eq)
qed simp

lemma updates_ok_record:
  assumes ok: "updates_ok k recovery ev called s" and fresh: "\<And>t. t \<in> set ids \<Longrightarrow> t \<notin> fst ` called"
    and ev: "\<And>t. t \<in> set ids \<Longrightarrow> ev t = evidence_of get_receipt get_envelope t"
  shows "updates_ok k recovery ev called (record_icp_update_requests_from_block k recovery get_receipt get_envelope now ids s)"
  using assms
proof (induction ids arbitrary: s)
  case (Cons t ids)
  have "updates_ok k recovery ev called (fold (record_icp_update_log k now t receipt (stb_kind envelope) origin)
      (enumerate 0 (rcpt_logs receipt)) s)"
    if tx: "get_receipt t = Some receipt" "get_envelope t = Some envelope" "icp_update_origin recovery envelope = Some origin"
    for receipt envelope origin
  proof (rule fold_enumerate_keeps [where P = "updates_ok k recovery ev called"])
    have "ev t = Some (receipt, envelope)" "t \<notin> fst ` called"
      using Cons.prems(2,3) tx by (simp_all add: evidence_of_def)
    then show "updates_ok k recovery ev called (record_icp_update_log k now t receipt (stb_kind envelope) origin (i, l) s)"
      if "i < length (rcpt_logs receipt)" "l = rcpt_logs receipt ! i" "updates_ok k recovery ev called s" for i l s
      using that tx(3) by (intro updates_ok_record_log)
  qed (rule Cons.prems(1))
  then have "updates_ok k recovery ev called (record_icp_update_requests_from_block k recovery get_receipt get_envelope now [t] s)"
    using Cons.prems(1) by (simp add: record_icp_update_requests_from_block_def split: option.splits)
  then show ?case
    using Cons.IH Cons.prems(2,3) by (simp add: record_icp_update_requests_from_block_def)
qed (simp add: record_icp_update_requests_from_block_def)

lemma updates_ok_pop:
  assumes ok: "updates_ok k recovery ev called s" and pop: "pop_next_icp_update_request now s = (res, s')"
  shows "updates_ok k recovery ev called s' \<and> (\<forall>rid r. res = Inr (Some (rid, r)) \<longrightarrow>
    oget (icp_update_requests s') rid = Some r \<and> iu_status r = IuDispatching \<and> request_key r \<notin> called
    \<and> (\<forall>a. oget (icp_update_dispatch_queue s') a \<noteq> Some rid) \<and> icp_update_precompile_allowlist s' = icp_update_precompile_allowlist s)"
proof (cases "queue_meta_pop (icp_update_dispatch_meta s)")
  case meta: (Pair p m)
  show ?thesis
  proof (cases p)
    case None
    then show ?thesis
      using ok pop meta by (auto simp: pop_next_icp_update_request_def)
  next
    case (Some seq)
    show ?thesis
    proof (cases "oget (icp_update_dispatch_queue s) seq")
      case None
      then show ?thesis
        using ok pop meta Some by (auto simp: pop_next_icp_update_request_def)
    next
      case entry: (Some rid)
      obtain r where r: "oget (icp_update_requests s) rid = Some r" "request_key r \<notin> called"
        using ok entry unfolding updates_ok_def by blast
      define s2 where "s2 = s\<lparr>icp_update_dispatch_meta := m, icp_update_dispatch_queue := oremove seq (icp_update_dispatch_queue s)\<rparr>"
      have ok2: "updates_ok k recovery ev called s2" and gone: "oget (icp_update_dispatch_queue s2) a \<noteq> Some rid" for a
        using ok entry unfolding updates_ok_def s2_def by auto
      have r2: "oget (icp_update_requests s2) rid = Some r"
        using r by (simp add: s2_def)
      let ?r1 = "icp_update_unreadable now r" and ?r2 = "icp_update_dispatching now r"
      have marked: "same_request r ?r1" "same_request r ?r2" "iu_status ?r1 \<noteq> IuQueued" "iu_status ?r2 = IuDispatching"
        by (simp_all add: same_request_def icp_update_envelope_of_def icp_update_unreadable_def icp_update_dispatching_def)
      show ?thesis
        using pop meta Some entry r r2 marked gone same_request_key [OF marked(2)] updates_ok_put [OF ok2 r2]
        by (auto simp: pop_next_icp_update_request_def Let_def s2_def split: if_splits)
    qed
  qed
qed

definition update_popped where
  "update_popped k recovery ev called allow y \<longleftrightarrow> updates_ok k recovery ev called (snd y)
    \<and> icp_update_precompile_allowlist (snd y) = allow
    \<and> (\<forall>rid r. fst y = Some (rid, r) \<longrightarrow> oget (icp_update_requests (snd y)) rid = Some r \<and> iu_status r = IuDispatching
        \<and> request_key r \<notin> called \<and> (\<forall>a. oget (icp_update_dispatch_queue (snd y)) a \<noteq> Some rid))"

lemma pop_allowlist: "pop_next_icp_update_request now s = (res, s') \<Longrightarrow>
    icp_update_precompile_allowlist s' = icp_update_precompile_allowlist s"
  by (auto simp: pop_next_icp_update_request_def Let_def split: prod.splits option.splits if_splits)

lemma pop_until_allowlist:
  "pop_until_icp_update now s = Some y \<Longrightarrow> icp_update_precompile_allowlist (snd y) = icp_update_precompile_allowlist s"
proof (rule pop_until_icp_update.raw_induct
    [where P = "\<lambda>_ s y. icp_update_precompile_allowlist (snd y) = icp_update_precompile_allowlist s"])
  fix f now s y
  assume IH: "\<And>now s y. f now s = Some y \<Longrightarrow> icp_update_precompile_allowlist (snd y) = icp_update_precompile_allowlist s"
    and body: "(case pop_next_icp_update_request now s of (Inr r, s1) \<Rightarrow> Some (r, s1) | (Inl _, s1) \<Rightarrow> f now s1) = Some y"
  obtain res s1 where pop: "pop_next_icp_update_request now s = (res, s1)"
    by fastforce
  then show "icp_update_precompile_allowlist (snd y) = icp_update_precompile_allowlist s"
    using body pop_allowlist [OF pop] IH [of now s1 y] by (cases res) auto
qed

lemma pop_until_icp_popped:
  "pop_until_icp_update now s = Some y \<Longrightarrow> updates_ok k recovery ev called s \<longrightarrow>
    update_popped k recovery ev called (icp_update_precompile_allowlist s) y"
proof (rule pop_until_icp_update.raw_induct [where P = "\<lambda>_ s y. updates_ok k recovery ev called s \<longrightarrow>
    update_popped k recovery ev called (icp_update_precompile_allowlist s) y"])
  fix f now s y
  assume IH: "\<And>now s y. f now s = Some y \<Longrightarrow> updates_ok k recovery ev called s \<longrightarrow>
      update_popped k recovery ev called (icp_update_precompile_allowlist s) y"
    and body: "(case pop_next_icp_update_request now s of (Inr r, s1) \<Rightarrow> Some (r, s1) | (Inl _, s1) \<Rightarrow> f now s1) = Some y"
  obtain res s1 where pop: "pop_next_icp_update_request now s = (res, s1)"
    by fastforce
  show "updates_ok k recovery ev called s \<longrightarrow> update_popped k recovery ev called (icp_update_precompile_allowlist s) y"
  proof
    assume ok: "updates_ok k recovery ev called s"
    show "update_popped k recovery ev called (icp_update_precompile_allowlist s) y"
    proof (cases res)
      case (Inl e)
      then show ?thesis
        using body pop IH [of now s1 y] updates_ok_pop [OF ok pop] pop_allowlist [OF pop] by simp
    next
      case (Inr p)
      then have "y = (p, s1)"
        using body pop by simp
      then show ?thesis
        using updates_ok_pop [OF ok pop] pop_allowlist [OF pop] Inr by (simp add: update_popped_def)
    qed
  qed
qed

lemma updates_ok_finalize:
  assumes "updates_ok k recovery ev called s" "au_status applied \<noteq> IuQueued"
  shows "updates_ok k recovery ev called (finalize_icp_update_dispatch_attempt rid now applied s)"
  using assms
  by (auto simp: finalize_icp_update_dispatch_attempt_def same_request_def icp_update_envelope_of_def split: option.splits
      intro!: updates_ok_put)

lemma after_call_not_queued: "au_status (icp_update_after_call response) \<noteq> IuQueued"
  by (cases response) (simp_all add: icp_update_success_outcome_def icp_update_failure_outcome_def)

lemma updates_ok_called:
  assumes ok: "updates_ok k recovery ev called s" and r: "oget (icp_update_requests s) rid = Some r" "iu_status r \<noteq> IuQueued"
    and gone: "\<And>a. oget (icp_update_dispatch_queue s) a \<noteq> Some rid"
  shows "updates_ok k recovery ev (insert (request_key r) called) s"
proof -
  have "q = rid" if "oget (icp_update_requests s) q = Some rq" "request_key rq = request_key r" for q rq
  proof -
    have req: "request_intended k recovery ev q rq" "request_intended k recovery ev rid r"
      using ok that(1) r(1) unfolding updates_ok_def by blast+
    have "request_key rq = request_key r"
      by (rule that(2))
    then show ?thesis
      using request_intended_rid [OF req(1)] request_intended_rid [OF req(2)] by (simp add: request_key_def)
  qed
  note only = this
  have "request_key rq \<notin> insert (request_key r) called"
    if "oget (icp_update_requests s) q = Some rq" "request_key rq \<notin> called" "q \<noteq> rid" for q rq
    using only that by blast
  note other = this
  show ?thesis
    unfolding updates_ok_def
  proof (intro conjI allI impI)
    fix q rq
    assume q: "oget (icp_update_requests s) q = Some rq"
    then show "request_intended k recovery ev q rq"
      using ok unfolding updates_ok_def by blast
    assume "iu_status rq = IuQueued"
    moreover from this have "q \<noteq> rid" "request_key rq \<notin> called"
      using ok q r unfolding updates_ok_def by auto
    ultimately show "request_key rq \<notin> insert (request_key r) called"
      using other q by blast
  next
    fix a q
    assume a: "oget (icp_update_dispatch_queue s) a = Some q"
    then obtain rq where rq: "oget (icp_update_requests s) q = Some rq" "request_key rq \<notin> called"
      using ok unfolding updates_ok_def by blast
    moreover have "q \<noteq> rid"
      using a gone by auto
    ultimately show "\<exists>rq. oget (icp_update_requests s) q = Some rq \<and> request_key rq \<notin> insert (request_key r) called"
      using other by blast
  qed (use ok in \<open>unfold updates_ok_def, blast\<close>)
qed

lemma same_request_uncertain: "same_request r (icp_update_uncertain now r)" "iu_status (icp_update_uncertain now r) \<noteq> IuQueued"
  by (simp_all add: same_request_def icp_update_uncertain_def icp_update_envelope_of_def)

text \<open>Marking requests while walking over a copy of the table.\<close>

lemma updates_ok_marks:
  assumes "updates_ok k recovery ev called s" "distinct (map fst cs)"
    "\<And>rid r. (rid, r) \<in> set cs \<Longrightarrow> oget (icp_update_requests s) rid = Some r"
  shows "updates_ok k recovery ev called
    (fold (\<lambda>(rid, r) s. if P r then put_icp_update rid (icp_update_uncertain now r) s else s) cs s)"
  using assms
proof (induction cs arbitrary: s)
  case (Cons c cs)
  obtain rid r where c: "c = (rid, r)"
    by fastforce
  let ?s = "if P r then put_icp_update rid (icp_update_uncertain now r) s else s"
  have "updates_ok k recovery ev called ?s"
    using Cons.prems c same_request_uncertain by (auto intro!: updates_ok_put)
  moreover have "oget (icp_update_requests ?s) q = Some rq" if "(q, rq) \<in> set cs" for q rq
    using Cons.prems(2,3) c that by force
  ultimately show ?case
    using Cons.IH [of ?s] Cons.prems(2) c by simp
qed simp

lemma marks_fields:
  "icp_update_dispatch_queue (fold (\<lambda>(rid, r) s. if P r then put_icp_update rid (g r) s else s) cs s) = icp_update_dispatch_queue s"
  "\<forall>r. (rid, r) \<in> set cs \<longrightarrow> \<not> P r \<Longrightarrow>
    oget (icp_update_requests (fold (\<lambda>(rid, r) s. if P r then put_icp_update rid (g r) s else s) cs s)) rid
      = oget (icp_update_requests s) rid"
  by (induction cs arbitrary: s) auto

lemma fold_marks:
  "fold (\<lambda>(rid, r). put_icp_update rid r) (map (\<lambda>(rid, r). (rid, g r)) (filter (\<lambda>(_, r). P r) cs)) s
    = fold (\<lambda>(rid, r) s. if P r then put_icp_update rid (g r) s else s) cs s"
  by (induction cs arbitrary: s) auto

lemma updates_ok_requeue:
  assumes "updates_ok k recovery ev called s" "distinct (map fst cs)"
    "\<And>rid r. (rid, r) \<in> set cs \<Longrightarrow> oget (icp_update_requests s) rid = Some r \<and> iu_status r = IuQueued
      \<and> (\<forall>a. oget (icp_update_dispatch_queue s) a \<noteq> Some rid)"
  shows "updates_ok k recovery ev called (requeue_icp_update cs queued s)"
  using assms
proof (induction cs queued s rule: requeue_icp_update.induct)
  case (2 rid r cs queued s)
  let ?s = "put_icp_update rid r s"
  have r: "oget (icp_update_requests s) rid = Some r" "iu_status r = IuQueued"
      "\<And>a. oget (icp_update_dispatch_queue s) a \<noteq> Some rid"
    using 2(5) [of rid r] by auto
  have s: "?s = s"
    using r(1) by (simp add: put_icp_update_def oinsert_same)
  have rest: "oget (icp_update_requests s) q = Some rq \<and> iu_status rq = IuQueued
      \<and> (\<forall>a. oget (icp_update_dispatch_queue s) a \<noteq> Some q) \<and> q \<noteq> rid" if "(q, rq) \<in> set cs" for q rq
    using 2(4) 2(5) [of q rq] that by force
  have "request_key r \<notin> called"
    using 2(3) r unfolding updates_ok_def by blast
  then have pushed: "updates_ok k recovery ev called (push_icp_update rid s)"
    using updates_ok_push [OF 2(3) r(1)] r(3) by blast
  show ?case
  proof (cases "rid \<in> queued")
    case True
    have "updates_ok k recovery ev called (requeue_icp_update cs queued ?s)"
      unfolding s using 2(1) [OF refl True, unfolded s] 2(3,4) rest by auto
    then show ?thesis
      using True by simp
  next
    case False
    have "updates_ok k recovery ev called (requeue_icp_update cs (insert rid queued) (push_icp_update rid ?s))"
    proof (unfold s, rule 2(2) [OF refl False, unfolded s])
      show "oget (icp_update_requests (push_icp_update rid s)) q = Some rq \<and> iu_status rq = IuQueued
          \<and> (\<forall>a. oget (icp_update_dispatch_queue (push_icp_update rid s)) a \<noteq> Some q)" if "(q, rq) \<in> set cs" for q rq
        using rest [OF that] by auto
    qed (use pushed 2(4) in simp_all)
    then show ?thesis
      using False by simp
  qed
qed simp

lemma distinct_filter_requests: "distinct (map fst (filter P (entries m)))"
  by (rule distinct_map_filter) (use distinct_okeys [of m] in \<open>simp add: okeys_def\<close>)

lemma updates_ok_recover:
  assumes ok: "updates_ok k recovery ev called s"
  shows "updates_ok k recovery ev called (snd (recover_icp_update_dispatch_state_after_upgrade now s))"
proof -
  define s1 where "s1 = fold (\<lambda>(rid, r) s. if iu_status r = IuDispatching then put_icp_update rid (icp_update_uncertain now r) s else s)
    (entries (icp_update_requests s)) s"
  define cs where "cs = filter (\<lambda>(rid, r). iu_status r = IuQueued \<and> rid \<notin> snd ` set (entries (icp_update_dispatch_queue s)))
    (entries (icp_update_requests s))"
  have ok1: "updates_ok k recovery ev called s1"
    unfolding s1_def using ok distinct_filter_requests [of "\<lambda>_. True"] by (intro updates_ok_marks) (auto simp: oget_entries)
  have "updates_ok k recovery ev called (requeue_icp_update cs queued s1)" for queued
  proof (rule updates_ok_requeue [OF ok1])
    show "distinct (map fst cs)"
      unfolding cs_def by (rule distinct_filter_requests)
    fix rid r
    assume "(rid, r) \<in> set cs"
    then have r: "oget (icp_update_requests s) rid = Some r" "iu_status r = IuQueued"
        "\<And>a. oget (icp_update_dispatch_queue s) a \<noteq> Some rid"
      by (force simp: cs_def oget_entries)+
    then have "oget (icp_update_requests s1) rid = Some r"
      unfolding s1_def by (subst marks_fields(2)) (auto simp: oget_entries [symmetric])
    then show "oget (icp_update_requests s1) rid = Some r \<and> iu_status r = IuQueued
        \<and> (\<forall>a. oget (icp_update_dispatch_queue s1) a \<noteq> Some rid)"
      using r by (simp add: s1_def marks_fields(1))
  qed
  then show ?thesis
    using ok1 unfolding recover_icp_update_dispatch_state_after_upgrade_def Let_def fold_marks cs_def [symmetric] s1_def [symmetric]
    by simp
qed

lemma updates_ok_repair: "updates_ok k recovery ev called s \<Longrightarrow> updates_ok k recovery ev called (repair_stale_icp_update now s)"
  unfolding repair_stale_icp_update_def using distinct_filter_requests [of "\<lambda>_. True"]
  by (intro updates_ok_marks) (auto simp: oget_entries)

section \<open>Steps\<close>

lemma intended_evidence:
  "intended k recovery ev tg m e \<Longrightarrow> (\<And>t x. ev t = Some x \<Longrightarrow> ev' t = Some x) \<Longrightarrow> intended k recovery ev' tg m e"
  unfolding intended_def by blast

lemma update_step_inv:
  assumes inv: "update_inv k recovery S" and step: "update_step k recovery S S'"
  shows "update_inv k recovery S'"
  using step
proof cases
  case (us_record ids get_receipt get_envelope now)
  let ?ev = "\<lambda>t. if t \<in> set ids then evidence_of get_receipt get_envelope t else evidence S t"
  have keep: "\<And>t x. evidence S t = Some x \<Longrightarrow> ?ev t = Some x"
    using us_record(2) by auto
  have fresh: "t \<notin> fst ` call_key ` set (calls S)" if "t \<in> set ids" for t
    using inv us_record(2) that unfolding update_inv_def intended_def call_key_def by fastforce
  have "updates_ok k recovery ?ev (call_key ` set (calls S)) (ug S)"
    using inv updates_ok_evidence [where ev' = ?ev, OF _ keep] unfolding update_inv_def by blast
  then have "updates_ok k recovery ?ev (call_key ` set (calls S))
      (record_icp_update_requests_from_block k recovery get_receipt get_envelope now ids (ug S))"
    using fresh by (rule updates_ok_record) simp_all
  then show ?thesis
    unfolding us_record(1) using inv intended_evidence [where ev' = ?ev, OF _ keep] unfolding update_inv_def by fastforce
next
  case (us_idle now s1)
  then show ?thesis
    using inv pop_until_icp_popped [OF us_idle(2)] unfolding us_idle(1) update_inv_def update_popped_def by auto
next
  case (us_tick now rid r s1)
  have p: "update_popped k recovery (evidence S) (call_key ` set (calls S)) (icp_update_precompile_allowlist (ug S)) (Some (rid, r), s1)"
    using inv pop_until_icp_popped [OF us_tick(2)] unfolding update_inv_def by blast
  then have ok: "updates_ok k recovery (evidence S) (call_key ` set (calls S)) s1"
    and r: "oget (icp_update_requests s1) rid = Some r" "iu_status r = IuDispatching" "request_key r \<notin> call_key ` set (calls S)"
      "\<And>a. oget (icp_update_dispatch_queue s1) a \<noteq> Some rid"
    unfolding update_popped_def by auto
  show ?thesis
  proof (cases "is_update_precompile_allowed (iu_target r) (iu_method r) s1")
    case True
    have key: "call_key (iu_target r, iu_method r, icp_update_envelope_of r) = request_key r"
      by (simp add: call_key_def request_key_def icp_update_envelope_of_def)
    have "intended k recovery (evidence S) (iu_target r) (iu_method r) (icp_update_envelope_of r)"
      using ok r(1) unfolding updates_ok_def request_intended_def by blast
    moreover have "updates_ok k recovery (evidence S) (insert (request_key r) (call_key ` set (calls S))) s1"
      using r by (intro updates_ok_called [OF ok]) auto
    ultimately show ?thesis
      unfolding us_tick(1) using inv True r(3) key by (auto simp: icp_update_begin_def update_inv_def)
  next
    case False
    then show ?thesis
      unfolding us_tick(1) using inv ok by (auto simp: icp_update_begin_def update_inv_def intro!: updates_ok_finalize)
  qed
next
  case (us_reply ps rid qs now response)
  then show ?thesis
    using inv after_call_not_queued by (auto simp: update_inv_def intro!: updates_ok_finalize)
next
  case (us_allow target m)
  then show ?thesis
    using inv by (auto simp: update_inv_def add_update_precompile_allowed_method_def split: sum.splits)
next
  case (us_disallow target m)
  then show ?thesis
    using inv by (auto simp: update_inv_def remove_update_precompile_allowed_method_def split: sum.splits)
qed (use inv in \<open>simp_all add: update_inv_def updates_ok_repair updates_ok_recover\<close>)

lemma update_step_calls:
  assumes "update_step k recovery S S'"
  shows "calls S' = calls S \<or> (\<exists>target method e. calls S' = calls S @ [(target, method, e)]
    \<and> is_update_precompile_allowed target method (ug S))"
  using assms
proof cases
  case (us_tick now rid r s1)
  have "icp_update_precompile_allowlist s1 = icp_update_precompile_allowlist (ug S)"
    using pop_until_allowlist [OF us_tick(2)] by simp
  then have "is_update_precompile_allowed (iu_target r) (iu_method r) s1 = is_update_precompile_allowed (iu_target r) (iu_method r) (ug S)"
    by (simp add: is_update_precompile_allowed_def)
  then show ?thesis
    unfolding us_tick(1) by (cases "is_update_precompile_allowed (iu_target r) (iu_method r) s1") (simp_all add: icp_update_begin_def)
qed auto

interpretation update_calls: invariant_system update_init "update_step k recovery" "update_inv k recovery"
proof
  show "update_inv k recovery S" if "update_init S" for S
    using that by (simp add: update_init_def update_inv_def updates_ok_def)
qed (rule update_step_inv)

section \<open>Calls\<close>

text \<open>C5: a contract's call of another canister is sent at most once and only as the contract asked. In every reachable
  state, over any interleaving of blocks, dispatches, lost or late replies, repairs, trimming, changes of the allowlist and
  upgrades, no two calls come from the same log of the same transaction; every call has the target, method
  and argument that this log announces, and an envelope that names the transaction, its block and its sender as the receipt and
  the signed or synthetic envelope give them; and a step that sends a call sends one, of a method allowed at that moment.\<close>

theorem update_calls_sent_once:
  assumes "reachable update_init (update_step k recovery) S"
  shows "distinct (map (\<lambda>(_, _, e). (ie_tx_id e, ie_log_index e)) (calls S))
    \<and> (\<forall>target method e. (target, method, e) \<in> set (calls S) \<longrightarrow> intended k recovery (evidence S) target method e)
    \<and> (\<forall>S'. update_step k recovery S S' \<longrightarrow> calls S' = calls S \<or> (\<exists>target method e.
        calls S' = calls S @ [(target, method, e)] \<and> is_update_precompile_allowed target method (ug S)))"
proof -
  have "update_inv k recovery S"
    by (rule update_calls.reachable_inv [OF assms])
  then show ?thesis
    using update_step_calls unfolding update_inv_def call_key_def by blast
qed

text \<open>A contract logs a call of \<open>go\<close> on the canister \<open>[5]\<close>; the method is allowed and the call is sent.\<close>

definition sample_intent :: icp_update_intent where
  "sample_intent = \<lparr>ii_target = [5], ii_method = [103, 111], ii_arg = [1]\<rparr>"

definition sample_receipt :: receipt_like where
  "sample_receipt = \<lparr>rcpt_tx_id = [6], rcpt_block_number = 3, rcpt_tx_index = 0, rcpt_status = 1, rcpt_gas_used = 0,
    rcpt_effective_gas_price = 0, rcpt_l1_data_fee = 0, rcpt_operator_fee = 0, rcpt_total_fee = 0,
    rcpt_return_data_hash = [], rcpt_return_data = [], rcpt_contract_address = None,
    rcpt_logs = [\<lparr>log_address = ICP_UPDATE_INTENT_PRECOMPILE_ADDRESS, log_topics = [icp_update_intent_event_topic0 (\<lambda>_. [9])],
      log_data = encode_icp_update_intent_log_data sample_intent\<rparr>]\<rparr>"

definition sample_envelope :: stored_tx_bytes where
  "sample_envelope = \<lparr>stb_version = 2, stb_tx_id = [6], stb_kind = IcSynthetic,
    stb_raw = encode_ic_synthetic_input \<lparr>ic_to = None, ic_value = replicate 32 0, ic_gas_limit = 21000, ic_nonce = 7,
      ic_max_fee_per_gas = 5, ic_max_priority_fee_per_gas = 1, ic_data = [1, 2]\<rparr>,
    stb_caller_evm = Some (replicate 20 8), stb_canister_id = [], stb_caller_principal = [2],
    stb_max_fee_per_gas = 5, stb_max_priority_fee_per_gas = 1, stb_is_dynamic_fee = True\<rparr>"

definition no_updates :: update_system where
  "no_updates = \<lparr>ug = \<lparr>icp_update_requests = oempty, icp_update_dispatch_queue = oempty, icp_update_dispatch_meta = queue_meta_new,
    icp_update_precompile_allowlist = oempty\<rparr>, pending_calls = [], calls = [], evidence = \<lambda>_. None\<rparr>"

definition sample_request :: icp_update_dispatch_request where
  "sample_request = new_icp_update_request 1 [9] [6] 0 sample_receipt IcSynthetic (replicate 20 8) (Some [2]) sample_intent"

lemma sample_recorded:
  "record_icp_update_requests_from_block (\<lambda>_. [9]) recovery (\<lambda>_. Some sample_receipt) (\<lambda>_. Some sample_envelope) 1 [[6]] (ug no_updates)
    = \<lparr>icp_update_requests = oinsert [9] sample_request oempty, icp_update_dispatch_queue = oinsert 0 [9] oempty,
       icp_update_dispatch_meta = \<lparr>head = 0, tail = 1\<rparr>, icp_update_precompile_allowlist = oempty\<rparr>"
proof -
  have "icp_update_intent_from_log (\<lambda>_. [9]) (hd (rcpt_logs sample_receipt)) = Some sample_intent"
    unfolding sample_receipt_def by (simp, rule icp_update_log_read_back)
      (simp add: icp_update_intent_ok_def sample_intent_def is_ascii_def)
  then obtain l where "rcpt_logs sample_receipt = [l]" "icp_update_intent_from_log (\<lambda>_. [9]) l = Some sample_intent"
    by (simp add: sample_receipt_def)
  moreover have "icp_update_origin recovery sample_envelope = Some (replicate 20 8, Some [2])"
    by (simp add: icp_update_origin_def sample_envelope_def decode_encode_ic ic_valid_def)
  moreover have "derive_log_request_id (\<lambda>_. [9]) [6] 0 = Some [9]"
    by (simp add: derive_log_request_id_def try_of_nat_def)
  moreover have "stb_kind sample_envelope = IcSynthetic"
    by (simp add: sample_envelope_def)
  ultimately show ?thesis
    by (simp add: record_icp_update_requests_from_block_def record_icp_update_log_def no_updates_def sample_request_def
        put_icp_update_def push_icp_update_def queue_meta_push_def queue_push_def queue_meta_new_def sat_add_def
        trim_icp_update_requests_def olen_def omap_eval)
qed

lemma sample_called:
  "\<exists>S. reachable update_init (update_step (\<lambda>_. [9]) recovery) S
    \<and> calls S = [([5], [103, 111], icp_update_envelope_of sample_request)]"
proof -
  let ?step = "update_step (\<lambda>_. [9]) recovery"
  let ?ev = "\<lambda>t. if t \<in> set [[6]] then evidence_of (\<lambda>_. Some sample_receipt) (\<lambda>_. Some sample_envelope) t else evidence no_updates t"
  let ?s = "\<lparr>icp_update_requests = oinsert [9] sample_request oempty, icp_update_dispatch_queue = oinsert 0 [9] oempty,
       icp_update_dispatch_meta = \<lparr>head = 0, tail = 1\<rparr>, icp_update_precompile_allowlist = oempty\<rparr>"
  let ?s1 = "?s\<lparr>icp_update_precompile_allowlist := oinsert (precompile_allow_key [5] [103, 111]) 1 oempty\<rparr>"
  define S where "S = no_updates\<lparr>ug := ?s1, evidence := ?ev\<rparr>"
  have init: "reachable update_init ?step no_updates"
    by (rule reach_init) (simp add: no_updates_def update_init_def)
  have recorded: "reachable update_init ?step (no_updates\<lparr>ug := ?s, evidence := ?ev\<rparr>)"
    using reach_step [OF init us_record [of "[[6]]" no_updates "\<lambda>_. [9]" recovery "\<lambda>_. Some sample_receipt" "\<lambda>_. Some sample_envelope" 1]]
    unfolding sample_recorded by (simp add: no_updates_def)
  have "validate_update_precompile_allow_args [5] [103, 111] = Inr ()"
    by (simp add: validate_update_precompile_allow_args_def icp_precompile_allowlist_entry_safe_raw_def ANONYMOUS_def is_ascii_def)
  then have allowed: "reachable update_init ?step S"
    using reach_step [OF recorded us_allow [of "\<lambda>_. [9]" recovery _ "[5]" "[103, 111]"]]
    by (simp add: S_def add_update_precompile_allowed_method_def no_updates_def)
  define r where "r = icp_update_dispatching 2 sample_request"
  have r: "iu_target r = [5]" "iu_method r = [103, 111]" "icp_update_envelope_of r = icp_update_envelope_of sample_request"
    by (simp_all add: r_def icp_update_dispatching_def sample_request_def new_icp_update_request_def sample_intent_def
        icp_update_envelope_of_def)
  have "\<exists>s2. pop_until_icp_update 2 ?s1 = Some (Some ([9], r), s2)"
    by (subst pop_until_icp_update.simps)
      (simp add: pop_next_icp_update_request_def queue_meta_pop_def queue_pop_def queue_is_empty_def r_def
        is_decode_failed_icp_update_request_def sample_request_def new_icp_update_request_def Let_def)
  then obtain s2 where s2: "pop_until_icp_update 2 ?s1 = Some (Some ([9], r), s2)" ..
  have "icp_update_precompile_allowlist s2 = oinsert (precompile_allow_key [5] [103, 111]) 1 oempty"
    using pop_until_allowlist [OF s2] by simp
  then have "icp_update_begin s2 r = CallUpdate [5] [103, 111] (icp_update_envelope_of sample_request)"
    using r by (simp add: icp_update_begin_def is_update_precompile_allowed_def is_ascii_def)
  moreover have "pop_until_icp_update 2 (ug S) = Some (Some ([9], r), s2)"
    using s2 by (simp add: S_def)
  ultimately have "reachable update_init ?step (S\<lparr>ug := s2, calls := calls S @ [([5], [103, 111], icp_update_envelope_of sample_request)],
      pending_calls := pending_calls S @ [[9]]\<rparr>)"
    using reach_step [OF allowed us_tick [of 2 S "[9]" r s2 "\<lambda>_. [9]" recovery]] by simp
  then show ?thesis
    by (intro exI [of _ "S\<lparr>ug := s2, calls := calls S @ [([5], [103, 111], icp_update_envelope_of sample_request)],
      pending_calls := pending_calls S @ [[9]]\<rparr>"]) (simp add: S_def no_updates_def)
qed

theorem update_calls_sent_once_witness:
  "\<exists>S :: update_system. length (calls S) = 1 \<and> intended (\<lambda>_. [9]) (\<lambda>_. Inl RecUnsupportedType) (evidence S) [5] [103, 111] (icp_update_envelope_of sample_request)"
proof -
  obtain S where S: "reachable update_init (update_step (\<lambda>_. [9]) (\<lambda>_. Inl RecUnsupportedType)) S"
      "calls S = [([5], [103, 111], icp_update_envelope_of sample_request)]"
    using sample_called by blast
  have "intended (\<lambda>_. [9]) (\<lambda>_. Inl RecUnsupportedType) (evidence S) [5] [103, 111] (icp_update_envelope_of sample_request)"
    using update_calls_sent_once [OF S(1)] S(2) by simp
  moreover have "length (calls S) = 1"
    using S(2) by simp
  ultimately show ?thesis
    by blast
qed

end
